(* ===== verification/Prelude.thy ===== *)
theory Prelude
  imports Main "HOL-Library.AList" "HOL-Library.Sublist"
begin

text \<open>
  Shared vocabulary of the development: the types the model uses for Go's times, byte strings,
  string-keyed maps and error results, the generic facts on lists and maps that the component
  proofs rest on, and the interfaces (locales) that several components implement.

  \<^item> A \<^verbatim>\<open>time.Time\<close> is an \<^typ>\<open>int\<close>: the nanoseconds since Go's zero time (1 January of
    year 1, UTC). The zero value of the type is therefore \<open>0\<close>; \<^verbatim>\<open>t.After(u)\<close> is \<open>u < t\<close> and
    \<^verbatim>\<open>t.Before(u)\<close> is \<open>t < u\<close>. A \<^verbatim>\<open>time.Duration\<close> is an \<^typ>\<open>int\<close> of nanoseconds.
  \<^item> A Go \<^verbatim>\<open>string\<close> and a \<^verbatim>\<open>[]byte\<close> are both \<^typ>\<open>string\<close>: a list of 8-bit characters.
  \<^item> A Go \<^verbatim>\<open>error\<close> result is an \<^typ>\<open>'e option\<close> with \<^term>\<open>None\<close> for \<^verbatim>\<open>nil\<close>; a pair
    \<^verbatim>\<open>(T, error)\<close> is the sum \<^typ>\<open>'e + 'a\<close> with \<^term>\<open>Inl\<close> for the error.
\<close>

section \<open>Types\<close>

type_synonym time = int
type_synonym duration = int

abbreviation (input) second :: duration where
  "second \<equiv> 1000000000"

abbreviation (input) minute :: duration where
  "minute \<equiv> 60 * second"

text \<open>\<^verbatim>\<open>t.Unix()\<close>: whole seconds since 1 January 1970.\<close>

definition Unix :: "time \<Rightarrow> int" where
  "Unix t = t div second - 62135596800"

lemma Unix_mono: "t \<le> u \<Longrightarrow> Unix t \<le> Unix u"
  by (simp add: Unix_def zdiv_mono1)

named_theorems go_defs \<open>definitions of the modelled Go library functions\<close>
named_theorems split_results \<open>case splits of options, sums and pairs\<close>

lemmas [split_results] = option.splits sum.splits prod.splits if_splits

section \<open>Error results\<close>

text \<open>
  \<^verbatim>\<open>if err := a; err != nil { return err }; return b\<close>.
\<close>

definition orErr :: "'e option \<Rightarrow> 'e option \<Rightarrow> 'e option" where
  "orErr a b = (case a of Some e \<Rightarrow> Some e | None \<Rightarrow> b)"

lemma orErr_None [simp]: "orErr a b = None \<longleftrightarrow> a = None \<and> b = None"
  by (simp add: orErr_def split: option.splits)

lemma orErr_Some_iff: "orErr a b = Some e \<longleftrightarrow> a = Some e \<or> a = None \<and> b = Some e"
  by (auto simp: orErr_def split: option.splits)

lemma orErr_simps [simp]: "orErr None b = b" "orErr (Some e) b = Some e"
  by (simp_all add: orErr_def)

text \<open>\<^verbatim>\<open>for _, x := range xs { if err := f(x); err != nil { return err } }; return nil\<close>\<close>

fun firstErr :: "('a \<Rightarrow> 'e option) \<Rightarrow> 'a list \<Rightarrow> 'e option" where
  "firstErr f [] = None"
| "firstErr f (x # xs) = orErr (f x) (firstErr f xs)"

lemma firstErr_None [simp]: "firstErr f xs = None \<longleftrightarrow> (\<forall>x \<in> set xs. f x = None)"
  by (induction xs) auto

lemma firstErr_Some: "firstErr f xs = Some e \<Longrightarrow> \<exists>x \<in> set xs. f x = Some e"
  by (induction xs) (auto simp: orErr_Some_iff)

section \<open>Maps\<close>

text \<open>Keep the entries of a map whose value satisfies a predicate.\<close>

definition keepWhere :: "('v \<Rightarrow> bool) \<Rightarrow> ('k \<rightharpoonup> 'v) \<Rightarrow> ('k \<rightharpoonup> 'v)" where
  "keepWhere P m = (\<lambda>k. case m k of None \<Rightarrow> None | Some v \<Rightarrow> if P v then Some v else None)"

lemma keepWhere_Some [simp]: "keepWhere P m k = Some v \<longleftrightarrow> m k = Some v \<and> P v"
  by (auto simp: keepWhere_def split: option.splits)

lemma keepWhere_None [simp]: "keepWhere P m k = None \<longleftrightarrow> (\<forall>v. m k = Some v \<longrightarrow> \<not> P v)"
  by (auto simp: keepWhere_def split: option.splits)

lemma keepWhere_empty [simp]: "keepWhere P Map.empty = Map.empty"
  by (simp add: keepWhere_def fun_eq_iff)

lemma keepWhere_upd: "keepWhere P (m(k \<mapsto> v)) = (if P v then (keepWhere P m)(k \<mapsto> v) else (keepWhere P m)(k := None))"
  by (simp add: keepWhere_def fun_eq_iff)

lemma keepWhere_del: "keepWhere P (m(k := None)) = (keepWhere P m)(k := None)"
  by (simp add: keepWhere_def fun_eq_iff)

lemma keepWhere_keepWhere: "keepWhere P (keepWhere Q m) = keepWhere (\<lambda>v. P v \<and> Q v) m"
  by (auto simp: keepWhere_def fun_eq_iff split: option.splits)

lemma keepWhere_le: "keepWhere P m \<subseteq>\<^sub>m m"
  by (auto simp: map_le_def dom_def)

lemma ex_map_upd:
  assumes "m k = None"
  shows "(\<exists>i v. (m(k \<mapsto> w)) i = Some v \<and> P v) \<longleftrightarrow> (\<exists>i v. m i = Some v \<and> P v) \<or> P w"
proof
  assume "(\<exists>i v. m i = Some v \<and> P v) \<or> P w"
  then show "\<exists>i v. (m(k \<mapsto> w)) i = Some v \<and> P v"
  proof
    assume "\<exists>i v. m i = Some v \<and> P v"
    then obtain i v where "m i = Some v" "P v" by blast
    with assms show ?thesis by (intro exI [of _ i] exI [of _ v]) auto
  qed (auto intro!: exI [of _ k])
qed (auto split: if_splits)

section \<open>Lists\<close>

lemma prefix_Cons_append: "prefix r (s @ x # t) \<Longrightarrow> x \<notin> set r \<Longrightarrow> prefix r s"
proof (induction r arbitrary: s)
  case Nil
  then show ?case by simp
next
  case (Cons a r)
  show ?case
  proof (cases s)
    case Nil
    with Cons.prems show ?thesis by simp
  next
    case (Cons b s')
    with Cons.prems have "a = b" "prefix r (s' @ x # t)" "x \<notin> set r" by simp_all
    with Cons.IH [of s'] Cons show ?thesis by simp
  qed
qed

lemma map_of_distinct_filter:
  "distinct (map f xs) \<Longrightarrow> x \<in> set xs \<Longrightarrow> map_of (map (\<lambda>x. (f x, x)) xs) (f x) = Some x"
  by (induction xs) (auto simp: rev_image_eqI)

lemma map_of_key: "map_of (map (\<lambda>x. (f x, x)) xs) k = Some v \<Longrightarrow> f v = k \<and> v \<in> set xs"
  by (induction xs) (auto split: if_splits)

lemma find_distinct: "distinct (map f xs) \<Longrightarrow> x \<in> set xs \<Longrightarrow> find (\<lambda>y. f y = f x) xs = Some x"
  by (induction xs) (auto simp: rev_image_eqI)

lemma map_filter_cong: "(\<And>x. x \<in> set xs \<Longrightarrow> f x = g x) \<Longrightarrow> List.map_filter f xs = List.map_filter g xs"
  by (induction xs) (auto split: option.splits)

lemma set_map_filter: "y \<in> set (List.map_filter f xs) \<longleftrightarrow> (\<exists>x \<in> set xs. f x = Some y)"
  by (induction xs) (auto split: option.splits)

lemma map_filter_append: "List.map_filter f (xs @ ys) = List.map_filter f xs @ List.map_filter f ys"
  by (induction xs) (auto split: option.splits)

lemma set_AList_update: "set (AList.update k v m) \<subseteq> insert (k, v) (set m)"
  by (induction m) auto

section \<open>Interfaces\<close>

text \<open>
  Every encoder the program uses (base64, percent escapes, decimal numbers) promises one law:
  decoding what was encoded gives the value back. On the values in \<open>ok\<close> the encoder is then
  injective, which is what the clients of an encoder use.
\<close>

locale codec =
  fixes enc :: "'a \<Rightarrow> string"
    and dec :: "string \<Rightarrow> 'a option"
    and ok :: "'a \<Rightarrow> bool"
  assumes dec_enc: "ok x \<Longrightarrow> dec (enc x) = Some x"
begin

lemma enc_inject: "ok x \<Longrightarrow> ok y \<Longrightarrow> enc x = enc y \<longleftrightarrow> x = y"
  using dec_enc by (metis option.inject)

end

text \<open>
  A validation loop that walks a list, checks each entry and refuses a repeated key, remembering
  the keys it has \<open>seen\<close>. The loop succeeds exactly when every entry passes its check and no key
  repeats.
\<close>

locale seen_loop =
  fixes loop :: "'k list \<Rightarrow> 'a list \<Rightarrow> 'e option"
    and check :: "'a \<Rightarrow> bool"
    and key :: "'a \<Rightarrow> 'k"
  assumes loop_Nil: "loop seen [] = None"
    and loop_Cons: "loop seen (x # xs) = None \<longleftrightarrow>
      check x \<and> key x \<notin> set seen \<and> loop (key x # seen) xs = None"
begin

lemma loop_None_seen:
  "loop seen xs = None \<longleftrightarrow>
     (\<forall>x \<in> set xs. check x) \<and> distinct (map key xs) \<and> set seen \<inter> key ` set xs = {}"
  by (induction xs arbitrary: seen) (auto simp: loop_Nil loop_Cons)

lemma loop_None: "loop [] xs = None \<longleftrightarrow> (\<forall>x \<in> set xs. check x) \<and> distinct (map key xs)"
  by (simp add: loop_None_seen)

end

text \<open>
  A state machine given by its initial states and its steps: what holds at the start and is kept
  by every step holds in every reachable state.
\<close>

locale machine =
  fixes init :: "'s \<Rightarrow> bool"
    and step :: "'s \<Rightarrow> 's \<Rightarrow> bool"
    and reach :: "'s \<Rightarrow> bool"
  assumes reach_min: "(\<And>s. init s \<Longrightarrow> P s) \<Longrightarrow> (\<And>s t. reach s \<Longrightarrow> P s \<Longrightarrow> step s t \<Longrightarrow> P t) \<Longrightarrow>
      reach s \<Longrightarrow> P s"
begin

lemma invariant_rule:
  assumes "\<And>s. init s \<Longrightarrow> I s"
    and "\<And>s t. I s \<Longrightarrow> step s t \<Longrightarrow> I t"
    and "reach s"
  shows "I s"
  using assms by (metis reach_min)

end

text \<open>
  What a run of operations shows to an observer: \<open>obs op s\<close> is what the operation \<open>op\<close> does in
  state \<open>s\<close>, if it is of interest.
\<close>

fun observe :: "('op \<Rightarrow> 's \<Rightarrow> 'i option) \<Rightarrow> ('op \<Rightarrow> 's \<Rightarrow> 's) \<Rightarrow> 'op list \<Rightarrow> 's \<Rightarrow> 'i list" where
  "observe obs exec [] s = []"
| "observe obs exec (op # ops) s =
     (case obs op s of None \<Rightarrow> [] | Some i \<Rightarrow> [i]) @ observe obs exec ops (exec op s)"

text \<open>
  A store of one-shot credentials: an operation may put a credential in or take one out; only what
  was put in is live, and taking a credential removes it. Then every credential is taken at most
  once, in whatever order the operations run.
\<close>

locale oneshot =
  fixes exec :: "'op \<Rightarrow> 's \<Rightarrow> 's"
    and live :: "'s \<Rightarrow> 'i set"
    and puts :: "'op \<Rightarrow> 's \<Rightarrow> 'i option"
    and takes :: "'op \<Rightarrow> 's \<Rightarrow> 'i option"
  assumes live_exec: "live (exec op s) \<subseteq> live s \<union> set_option (puts op s)"
    and takes_live: "takes op s = Some i \<Longrightarrow> i \<in> live s"
    and takes_removes: "takes op s = Some i \<Longrightarrow> i \<notin> live (exec op s)"
    and takes_puts: "takes op s = Some i \<Longrightarrow> puts op s = None"
begin

lemma taken_from:
  "set (observe takes exec ops s) \<subseteq> live s \<union> set (observe puts exec ops s)"
proof (induction ops arbitrary: s)
  case (Cons op ops)
  show ?case
    using Cons.IH [of "exec op s"] live_exec [of op s] takes_live [of op s]
    by (fastforce split: option.splits)
qed simp

lemma taken_once:
  assumes "distinct (observe puts exec ops s)" and "set (observe puts exec ops s) \<inter> live s = {}"
  shows "distinct (observe takes exec ops s)"
  using assms
proof (induction ops arbitrary: s)
  case (Cons op ops)
  let ?t = "exec op s"
  have "distinct (observe puts exec ops ?t)"
    using Cons.prems(1) by (auto split: option.splits)
  moreover have "set (observe puts exec ops ?t) \<inter> live ?t = {}"
    using Cons.prems live_exec [of op s] by (auto split: option.splits)
  ultimately have rest: "distinct (observe takes exec ops ?t)"
    by (rule Cons.IH)
  show ?case
  proof (cases "takes op s")
    case None
    with rest show ?thesis by simp
  next
    case (Some i)
    have "i \<notin> set (observe puts exec ops ?t)"
      using Cons.prems(2) takes_live [OF Some] by auto
    with takes_removes [OF Some] taken_from [of ops ?t]
    have "i \<notin> set (observe takes exec ops ?t)" by auto
    with Some rest show ?thesis by simp
  qed
qed simp

end

end
