(* ===== verification/GoStrings.thy ===== *)
theory GoStrings
  imports Prelude "HOL-Library.Char_ord" "HOL-Library.List_Lexorder"
begin

text \<open>
  The functions of Go's \<^verbatim>\<open>strings\<close>, \<^verbatim>\<open>strconv\<close> and \<^verbatim>\<open>net/url\<close> packages that the program
  calls, on byte strings. They are the language's standard library, so they carry no entry in the
  source map; every component theory uses them.

  \<^verbatim>\<open>unicode.IsSpace\<close> is a predicate on code points, while a Go string is a sequence of bytes. The
  white space code points are listed by their UTF-8 encodings in \<open>spaceRunes\<close>. An encoding starts
  with a byte that no other encoding contains at a later position, so recognising one of the listed
  byte sequences is the same as decoding a code point and testing it.
\<close>

section \<open>White space\<close>

definition spaceRunes :: "string list" where
  "spaceRunes =
     [[CHR 0x20], [CHR 0x09], [CHR 0x0A], [CHR 0x0B], [CHR 0x0C], [CHR 0x0D],
      [CHR 0xC2, CHR 0x85], [CHR 0xC2, CHR 0xA0], [CHR 0xE1, CHR 0x9A, CHR 0x80],
      [CHR 0xE2, CHR 0x80, CHR 0x80], [CHR 0xE2, CHR 0x80, CHR 0x81],
      [CHR 0xE2, CHR 0x80, CHR 0x82], [CHR 0xE2, CHR 0x80, CHR 0x83],
      [CHR 0xE2, CHR 0x80, CHR 0x84], [CHR 0xE2, CHR 0x80, CHR 0x85],
      [CHR 0xE2, CHR 0x80, CHR 0x86], [CHR 0xE2, CHR 0x80, CHR 0x87],
      [CHR 0xE2, CHR 0x80, CHR 0x88], [CHR 0xE2, CHR 0x80, CHR 0x89],
      [CHR 0xE2, CHR 0x80, CHR 0x8A], [CHR 0xE2, CHR 0x80, CHR 0xA8],
      [CHR 0xE2, CHR 0x80, CHR 0xA9], [CHR 0xE2, CHR 0x80, CHR 0xAF],
      [CHR 0xE2, CHR 0x81, CHR 0x9F], [CHR 0xE3, CHR 0x80, CHR 0x80]]"

text \<open>The number of bytes of the white space code point at the head (or end) of a string, or 0.\<close>

definition leadSpace :: "string \<Rightarrow> nat" where
  "leadSpace s = (case find (\<lambda>r. prefix r s) spaceRunes of None \<Rightarrow> 0 | Some r \<Rightarrow> length r)"

definition tailSpace :: "string \<Rightarrow> nat" where
  "tailSpace s = (case find (\<lambda>r. suffix r s) spaceRunes of None \<Rightarrow> 0 | Some r \<Rightarrow> length r)"

function TrimLeftSpace :: "string \<Rightarrow> string" where
  "TrimLeftSpace s = (if leadSpace s = 0 \<or> s = [] then s else TrimLeftSpace (drop (leadSpace s) s))"
  by pat_completeness auto
termination
  by (relation "measure length") auto

function TrimRightSpace :: "string \<Rightarrow> string" where
  "TrimRightSpace s = (if tailSpace s = 0 \<or> s = [] then s
     else TrimRightSpace (take (length s - tailSpace s) s))"
  by pat_completeness auto
termination
  by (relation "measure length") auto

declare TrimLeftSpace.simps [simp del] TrimRightSpace.simps [simp del]

definition TrimSpace :: "string \<Rightarrow> string" where
  "TrimSpace s = TrimRightSpace (TrimLeftSpace s)"

text \<open>\<^verbatim>\<open>strings.Fields\<close>: the maximal runs of non-space code points.\<close>

function fieldsFrom :: "string \<Rightarrow> string \<Rightarrow> string list" where
  "fieldsFrom cur [] = (if cur = [] then [] else [rev cur])"
| "fieldsFrom cur (c # cs) =
     (if leadSpace (c # cs) = 0 then fieldsFrom (c # cur) cs
      else (if cur = [] then [] else [rev cur]) @ fieldsFrom [] (drop (leadSpace (c # cs)) (c # cs)))"
  by pat_completeness auto
termination
  by (relation "measure (\<lambda>(cur, s). length s)") auto

definition Fields :: "string \<Rightarrow> string list" where
  "Fields s = fieldsFrom [] s"

section \<open>Prefixes, separators, joins\<close>

definition TrimPrefix :: "string \<Rightarrow> string \<Rightarrow> string" where
  "TrimPrefix s p = (if prefix p s then drop (length p) s else s)"

definition TrimSuffix :: "string \<Rightarrow> string \<Rightarrow> string" where
  "TrimSuffix s p = (if suffix p s then take (length s - length p) s else s)"

definition ContainsAny :: "string \<Rightarrow> string \<Rightarrow> bool" where
  "ContainsAny s chars = list_ex (\<lambda>c. c \<in> set chars) s"

text \<open>\<^verbatim>\<open>strings.Cut(s, sep)\<close> for a one-byte separator: \<^term>\<open>None\<close> when it does not occur.\<close>

fun Cut :: "string \<Rightarrow> char \<Rightarrow> (string \<times> string) option" where
  "Cut [] sep = None"
| "Cut (c # cs) sep =
     (if c = sep then Some ([], cs) else map_option (\<lambda>(a, b). (c # a, b)) (Cut cs sep))"

text \<open>\<^verbatim>\<open>strings.SplitN(s, sep, n)\<close> for \<open>n > 0\<close>, and \<^verbatim>\<open>strings.Split(s, sep)\<close>.\<close>

fun SplitN :: "string \<Rightarrow> char \<Rightarrow> nat \<Rightarrow> string list" where
  "SplitN s sep 0 = []"
| "SplitN s sep (Suc 0) = [s]"
| "SplitN s sep (Suc (Suc n)) =
     (case Cut s sep of None \<Rightarrow> [s] | Some (a, b) \<Rightarrow> a # SplitN b sep (Suc n))"

fun Split :: "string \<Rightarrow> char \<Rightarrow> string list" where
  "Split [] sep = [[]]"
| "Split (c # cs) sep =
     (if c = sep then [] # Split cs sep
      else (case Split cs sep of [] \<Rightarrow> [[c]] | w # ws \<Rightarrow> (c # w) # ws))"

fun Join :: "string list \<Rightarrow> string \<Rightarrow> string" where
  "Join [] sep = []"
| "Join [w] sep = w"
| "Join (w # v # ws) sep = w @ sep @ Join (v # ws) sep"

definition asciiLower :: "char \<Rightarrow> char" where
  "asciiLower c = (if CHR ''A'' \<le> c \<and> c \<le> CHR ''Z'' then char_of (of_char c + (32 :: nat)) else c)"

text \<open>\<^verbatim>\<open>strings.EqualFold\<close> against a string whose letters have no case partner outside ASCII.\<close>

definition EqualFold :: "string \<Rightarrow> string \<Rightarrow> bool" where
  "EqualFold s t = (map asciiLower s = map asciiLower t)"

section \<open>Decimal numbers\<close>

definition digitVal :: "char \<Rightarrow> nat option" where
  "digitVal c = (if CHR ''0'' \<le> c \<and> c \<le> CHR ''9'' then Some (of_char c - 48) else None)"

fun digitsVal :: "nat \<Rightarrow> string \<Rightarrow> nat option" where
  "digitsVal acc [] = Some acc"
| "digitsVal acc (c # cs) =
     (case digitVal c of None \<Rightarrow> None | Some d \<Rightarrow> digitsVal (10 * acc + d) cs)"

definition inInt64 :: "int \<Rightarrow> bool" where
  "inInt64 n \<longleftrightarrow> - (2 ^ 63) \<le> n \<and> n < 2 ^ 63"

text \<open>
  \<^verbatim>\<open>strconv.ParseInt(s, 10, 64)\<close> and \<^verbatim>\<open>strconv.Atoi(s)\<close> on a 64-bit platform: an optional sign
  and at least one digit, in range.
\<close>

definition ParseInt :: "string \<Rightarrow> int option" where
  "ParseInt s =
     (let (neg, ds) = (case s of [] \<Rightarrow> (False, [])
          | c # cs \<Rightarrow> if c = CHR ''-'' then (True, cs) else if c = CHR ''+'' then (False, cs) else (False, s))
      in if ds = [] then None
         else case digitsVal 0 ds of None \<Rightarrow> None
         | Some n \<Rightarrow> (let v = (if neg then - int n else int n) in if inInt64 v then Some v else None))"

fun decimal :: "nat \<Rightarrow> string" where
  "decimal n = (if n < 10 then [char_of (48 + n)] else decimal (n div 10) @ [char_of (48 + n mod 10)])"

declare decimal.simps [simp del]

definition FormatInt :: "int \<Rightarrow> string" where
  "FormatInt n = (if n < 0 then CHR ''-'' # decimal (nat (- n)) else decimal (nat n))"

section \<open>Query strings\<close>

definition hexDigit :: "nat \<Rightarrow> char" where
  "hexDigit n = (if n < 10 then char_of (48 + n) else char_of (55 + n))"

definition unhexDigit :: "char \<Rightarrow> nat option" where
  "unhexDigit c =
     (if CHR ''0'' \<le> c \<and> c \<le> CHR ''9'' then Some (of_char c - 48)
      else if CHR ''A'' \<le> c \<and> c \<le> CHR ''F'' then Some (of_char c - 55)
      else if CHR ''a'' \<le> c \<and> c \<le> CHR ''f'' then Some (of_char c - 87)
      else None)"

definition alnum :: "char \<Rightarrow> bool" where
  "alnum c \<longleftrightarrow> CHR ''A'' \<le> c \<and> c \<le> CHR ''Z'' \<or> CHR ''a'' \<le> c \<and> c \<le> CHR ''z'' \<or> CHR ''0'' \<le> c \<and> c \<le> CHR ''9''"

definition unreserved :: "char \<Rightarrow> bool" where
  "unreserved c \<longleftrightarrow> alnum c \<or> c \<in> set ''-_.~''"

definition escapeChar :: "char \<Rightarrow> string" where
  "escapeChar c =
     (if c = CHR '' '' then ''+''
      else if unreserved c then [c]
      else [CHR ''%'', hexDigit (of_char c div 16), hexDigit (of_char c mod 16)])"

definition QueryEscape :: "string \<Rightarrow> string" where
  "QueryEscape s = concat (map escapeChar s)"

fun QueryUnescape :: "string \<Rightarrow> string option" where
  "QueryUnescape [] = Some []"
| "QueryUnescape (c # cs) =
     (if c = CHR ''%'' then
        (case cs of
           a # b # rest \<Rightarrow>
             (case (unhexDigit a, unhexDigit b) of
                (Some x, Some y) \<Rightarrow> map_option ((#) (char_of (16 * x + y))) (QueryUnescape rest)
              | _ \<Rightarrow> None)
         | _ \<Rightarrow> None)
      else map_option ((#) (if c = CHR ''+'' then CHR '' '' else c)) (QueryUnescape cs))"

text \<open>
  \<^verbatim>\<open>url.Values\<close> is a Go map from names to lists of values. The model keeps it as an association
  list with distinct keys, because \<^verbatim>\<open>Encode\<close> enumerates it (in key order).
\<close>

type_synonym Values = "(string \<times> string list) list"

definition Get :: "Values \<Rightarrow> string \<Rightarrow> string" where
  "Get vs k = (case map_of vs k of Some (v # _) \<Rightarrow> v | _ \<Rightarrow> [])"

definition SetValue :: "string \<Rightarrow> string \<Rightarrow> Values \<Rightarrow> Values" where
  "SetValue k v vs = AList.update k [v] vs"

definition AddValue :: "string \<Rightarrow> string \<Rightarrow> Values \<Rightarrow> Values" where
  "AddValue k v vs = AList.update k ((case map_of vs k of Some ws \<Rightarrow> ws | None \<Rightarrow> []) @ [v]) vs"

definition Encode :: "Values \<Rightarrow> string" where
  "Encode vs =
     Join (concat (map (\<lambda>k. map (\<lambda>v. QueryEscape k @ ''='' @ QueryEscape v)
             (case map_of vs k of Some ws \<Rightarrow> ws | None \<Rightarrow> []))
           (sort (map fst vs)))) ''&''"

text \<open>
  \<^verbatim>\<open>URL.Query()\<close>: the pairs of a raw query; a pair with a semicolon or a bad escape is dropped.
\<close>

definition addPair :: "string \<Rightarrow> Values \<Rightarrow> Values" where
  "addPair p vs =
     (if p = [] \<or> CHR '';'' \<in> set p then vs
      else (let (k, v) = (case Cut p (CHR ''='') of None \<Rightarrow> (p, []) | Some kv \<Rightarrow> kv)
            in case (QueryUnescape k, QueryUnescape v) of
                 (Some k', Some v') \<Rightarrow> AddValue k' v' vs
               | _ \<Rightarrow> vs))"

definition ParseQuery :: "string \<Rightarrow> Values" where
  "ParseQuery q = fold addPair (Split q (CHR ''&'')) []"


section \<open>Facts: white space\<close>

lemma spaceRunes_ne [simp]: "[] \<notin> set spaceRunes"
  by (simp add: spaceRunes_def)

lemma spaceRunes_space: "r \<in> set spaceRunes \<Longrightarrow> CHR '' '' \<in> set r \<Longrightarrow> r = '' ''"
  by (auto simp: spaceRunes_def)

lemma leadSpace_0: "leadSpace s = 0 \<longleftrightarrow> (\<forall>r \<in> set spaceRunes. \<not> prefix r s)"
proof (cases "find (\<lambda>r. prefix r s) spaceRunes")
  case None
  moreover from None have "\<forall>r \<in> set spaceRunes. \<not> prefix r s"
    by (auto simp: find_None_iff)
  ultimately show ?thesis by (simp add: leadSpace_def)
next
  case (Some r)
  then have "r \<in> set spaceRunes" "prefix r s"
    by (auto simp: find_Some_iff)
  with Some show ?thesis
    using spaceRunes_ne by (auto simp: leadSpace_def)
qed

lemma leadSpace_space [simp]: "leadSpace (CHR '' '' # t) = 1"
  by (simp add: leadSpace_def spaceRunes_def)

lemma leadSpace_Nil [simp]: "leadSpace [] = 0"
  using spaceRunes_ne by (auto simp: leadSpace_0)

lemma leadSpace_append: "leadSpace (s @ t) = 0 \<Longrightarrow> leadSpace s = 0"
  by (auto simp: leadSpace_0 prefix_def)

lemma leadSpace_append_space:
  assumes "leadSpace s = 0" and "s \<noteq> []"
  shows "leadSpace (s @ CHR '' '' # t) = 0"
  unfolding leadSpace_0
proof
  fix r
  assume r: "r \<in> set spaceRunes"
  show "\<not> prefix r (s @ CHR '' '' # t)"
  proof
    assume p: "prefix r (s @ CHR '' '' # t)"
    have "prefix r s"
    proof (cases "CHR '' '' \<in> set r")
      case True
      with r have "r = '' ''" by (rule spaceRunes_space)
      with p assms(2) show ?thesis by (cases s) auto
    next
      case False
      with p show ?thesis by (rule prefix_Cons_append)
    qed
    with r assms(1) show False by (auto simp: leadSpace_0)
  qed
qed

text \<open>A string without white space, and one that stays so in front of a continuation.\<close>

fun spaceFreeIn :: "string \<Rightarrow> string \<Rightarrow> bool" where
  "spaceFreeIn [] t = True"
| "spaceFreeIn (c # cs) t = (leadSpace (c # cs @ t) = 0 \<and> spaceFreeIn cs t)"

abbreviation spaceFree :: "string \<Rightarrow> bool" where
  "spaceFree s \<equiv> spaceFreeIn s []"

lemma spaceFreeIn_append: "spaceFreeIn (u @ v) t \<longleftrightarrow> spaceFreeIn u (v @ t) \<and> spaceFreeIn v t"
  by (induction u) auto

lemma spaceFreeIn_shrink: "spaceFreeIn u (v @ t) \<Longrightarrow> spaceFreeIn u v"
proof (induction u)
  case (Cons c u)
  then show ?case
    using leadSpace_append [of "c # u @ v" t] by simp
qed simp

lemma spaceFree_before_space: "spaceFree w \<Longrightarrow> spaceFreeIn w (CHR '' '' # t)"
proof (induction w)
  case (Cons c w)
  then show ?case
    using leadSpace_append_space [of "c # w" t] by simp
qed simp

lemma spaceFree_no_space: "spaceFree w \<Longrightarrow> CHR '' '' \<notin> set w"
proof (induction w)
  case (Cons c w)
  then show ?case by (cases "c = CHR '' ''") auto
qed simp

lemma fieldsFrom_run:
  "spaceFreeIn w t \<Longrightarrow> fieldsFrom cur (w @ t) = fieldsFrom (rev w @ cur) t"
  by (induction w arbitrary: cur) auto

lemma fieldsFrom_word:
  "w \<noteq> [] \<Longrightarrow> spaceFree w \<Longrightarrow> fieldsFrom [] (w @ CHR '' '' # t) = w # fieldsFrom [] t"
  by (simp add: fieldsFrom_run spaceFree_before_space)

lemma Fields_Join:
  "\<forall>w \<in> set ws. w \<noteq> [] \<and> spaceFree w \<Longrightarrow> Fields (Join ws '' '') = ws"
proof (induction ws "'' ''" rule: Join.induct)
  case 1
  then show ?case by (simp add: Fields_def)
next
  case (2 w)
  then have "fieldsFrom [] (w @ []) = fieldsFrom (rev w @ []) []"
    by (intro fieldsFrom_run) simp
  with 2 show ?case by (simp add: Fields_def)
next
  case (3 w v ws)
  then show ?case by (simp add: Fields_def fieldsFrom_word)
qed

lemma fieldsFrom_words:
  "spaceFreeIn (rev cur) s \<Longrightarrow> w \<in> set (fieldsFrom cur s) \<Longrightarrow> w \<noteq> [] \<and> spaceFree w"
proof (induction cur s rule: fieldsFrom.induct)
  case (1 cur)
  then show ?case by (auto split: if_splits)
next
  case (2 cur c cs)
  show ?case
  proof (cases "leadSpace (c # cs) = 0")
    case True
    with 2 show ?thesis by (simp add: spaceFreeIn_append)
  next
    case False
    have "spaceFree (rev cur)"
      using "2.prems"(1) spaceFreeIn_shrink [of "rev cur" "[]" "c # cs"] by simp
    with 2 False show ?thesis by (auto split: if_splits)
  qed
qed

lemma Fields_words: "w \<in> set (Fields s) \<Longrightarrow> w \<noteq> [] \<and> spaceFree w"
  unfolding Fields_def by (rule fieldsFrom_words [of "[]"]) simp_all

section \<open>Facts: separators\<close>

lemma Cut_None: "Cut s sep = None \<longleftrightarrow> sep \<notin> set s"
  by (induction s) auto

lemma Cut_append: "sep \<notin> set a \<Longrightarrow> Cut (a @ sep # b) sep = Some (a, b)"
  by (induction a) auto

lemma Cut_Some: "Cut s sep = Some (a, b) \<longleftrightarrow> s = a @ sep # b \<and> sep \<notin> set a"
proof (induction s arbitrary: a)
  case (Cons c s)
  then show ?case by (cases a) auto
qed simp

lemma ContainsAny_iff: "ContainsAny s chars \<longleftrightarrow> (\<exists>c \<in> set s. c \<in> set chars)"
  by (simp add: ContainsAny_def list_ex_iff)

lemma TrimPrefix_append [simp]: "TrimPrefix (p @ s) p = s"
  by (simp add: TrimPrefix_def)

section \<open>Facts: decimal numbers\<close>

lemma digitVal_char_of: "n < 10 \<Longrightarrow> digitVal (char_of (48 + n)) = Some n"
  by (simp add: digitVal_def less_eq_char_def)

lemma digitsVal_append:
  "digitsVal acc (s @ t) = (case digitsVal acc s of None \<Rightarrow> None | Some n \<Rightarrow> digitsVal n t)"
  by (induction s arbitrary: acc) (auto split: option.splits)

lemma digitsVal_decimal: "digitsVal 0 (decimal n) = Some n"
proof (induction n rule: decimal.induct)
  case (1 n)
  show ?case
  proof (cases "n < 10")
    case True
    then show ?thesis by (subst decimal.simps) (simp add: digitVal_char_of)
  next
    case False
    have "digitVal (char_of (48 + n mod 10)) = Some (n mod 10)"
      by (intro digitVal_char_of) simp
    with 1 False show ?thesis
      by (subst decimal.simps) (simp add: digitsVal_append)
  qed
qed

lemma digitVal_set_decimal: "c \<in> set (decimal n) \<Longrightarrow> CHR ''0'' \<le> c \<and> c \<le> CHR ''9''"
proof (induction n rule: decimal.induct)
  case (1 n)
  show ?case
  proof (cases "n < 10")
    case True
    with "1.prems" show ?thesis by (subst (asm) decimal.simps) (auto simp: less_eq_char_def)
  next
    case False
    with "1.prems" have "c \<in> set (decimal (n div 10)) \<or> c = char_of (48 + n mod 10)"
      by (auto simp: decimal.simps [of n])
    with 1 False show ?thesis by (auto simp: less_eq_char_def)
  qed
qed

lemma decimal_ne: "decimal n \<noteq> []"
  by (subst decimal.simps) simp

lemma ParseInt_FormatInt: "inInt64 n \<Longrightarrow> ParseInt (FormatInt n) = Some n"
proof (cases "n < 0")
  case True
  assume "inInt64 n"
  with True show ?thesis
    by (simp add: ParseInt_def FormatInt_def decimal_ne digitsVal_decimal)
next
  case False
  assume ok: "inInt64 n"
  obtain c cs where d: "decimal (nat n) = c # cs"
    using decimal_ne by (cases "decimal (nat n)") auto
  then have "CHR ''0'' \<le> c" using digitVal_set_decimal [of c "nat n"] by simp
  then have "c \<noteq> CHR ''-''" "c \<noteq> CHR ''+''" by (auto simp: less_eq_char_def)
  with False ok d show ?thesis
    using digitsVal_decimal [of "nat n"] by (simp add: ParseInt_def FormatInt_def)
qed

interpretation decimalCodec: codec FormatInt ParseInt inInt64
  by unfold_locales (rule ParseInt_FormatInt)

section \<open>Facts: query strings\<close>

lemma unhexDigit_hexDigit: "n < 16 \<Longrightarrow> unhexDigit (hexDigit n) = Some n"
  by (simp add: unhexDigit_def hexDigit_def less_eq_char_def)

lemma QueryUnescape_escapeChar:
  "QueryUnescape (escapeChar c @ s) = map_option ((#) c) (QueryUnescape s)"
proof -
  have "of_char c div 16 < (16 :: nat)" "of_char c mod 16 < (16 :: nat)"
    using nat_of_char_less_256 [of c] by (simp_all add: less_mult_imp_div_less)
  moreover have "unreserved c \<Longrightarrow> c \<noteq> CHR ''%'' \<and> c \<noteq> CHR ''+''"
    by (auto simp: unreserved_def alnum_def less_eq_char_def)
  ultimately show ?thesis
    by (simp add: escapeChar_def unhexDigit_hexDigit)
qed

lemma QueryUnescape_QueryEscape: "QueryUnescape (QueryEscape s) = Some s"
proof (induction s)
  case Nil
  then show ?case by (simp add: QueryEscape_def)
next
  case (Cons c s)
  have "QueryEscape (c # s) = escapeChar c @ QueryEscape s"
    by (simp add: QueryEscape_def)
  with Cons show ?case by (simp add: QueryUnescape_escapeChar)
qed

interpretation queryCodec: codec QueryEscape QueryUnescape "\<lambda>_. True"
  by unfold_locales (rule QueryUnescape_QueryEscape)

section \<open>Facts: splitting and values\<close>

lemma Split_ne [simp]: "Split s sep \<noteq> []"
  by (cases s) (auto split: list.splits)

lemma Split_append: "Split (a @ sep # b) sep = Split a sep @ Split b sep"
  by (induction a) (auto simp: append_eq_Cons_conv split: list.splits)

lemma Split_no_sep: "w \<in> set (Split s sep) \<Longrightarrow> sep \<notin> set w"
  by (induction s arbitrary: w) (auto split: if_splits list.splits)

lemma Split_plain: "sep \<notin> set s \<Longrightarrow> Split s sep = [s]"
  by (induction s) auto

lemma Split_Join: "ps \<noteq> [] \<Longrightarrow> \<forall>p \<in> set ps. sep \<notin> set p \<Longrightarrow> Split (Join ps [sep]) sep = ps"
proof (induction ps)
  case (Cons p ps)
  then show ?case by (cases ps) (simp_all add: Split_plain Split_append)
qed simp

lemma Get_SetValue [simp]: "Get (SetValue k v vs) k' = (if k' = k then v else Get vs k')"
  by (simp add: Get_def SetValue_def update_conv')

lemma Get_Nil [simp]: "Get [] k = []"
  by (simp add: Get_def)

lemma map_of_map_filter_pair:
  "map_of (List.map_filter (\<lambda>k. map_option (Pair k) (f k)) ks) k = (if k \<in> set ks then f k else None)"
  by (induction ks) (auto simp: List.map_filter_simps split: option.splits)

end
