(* ===== verification/Codec.thy ===== *)
theory Codec
  imports GoStrings "HOL-Library.Word"
begin

unbundle bit_operations_syntax

text \<open>
  The encodings and digests of Go's standard library that the program uses:
  \<^verbatim>\<open>base64.RawURLEncoding\<close>, the \<^verbatim>\<open>%x\<close> verb on byte slices, \<^verbatim>\<open>sha256.Sum256\<close>,
  \<^verbatim>\<open>hmac.New(sha256.New, key)\<close> and \<^verbatim>\<open>subtle.ConstantTimeCompare\<close>. All are
  executable. The facts the components use are the round trips, the lengths and the characters that encodings consist of.
\<close>

section \<open>base64.RawURLEncoding\<close>

definition b64Char :: "nat \<Rightarrow> char" where
  "b64Char n =
     (if n < 26 then char_of (65 + n)
      else if n < 52 then char_of (71 + n)
      else if n < 62 then char_of (n - 4)
      else if n = 62 then CHR ''-'' else CHR ''_'')"

definition b64Val :: "char \<Rightarrow> nat option" where
  "b64Val c =
     (if CHR ''A'' \<le> c \<and> c \<le> CHR ''Z'' then Some (of_char c - 65)
      else if CHR ''a'' \<le> c \<and> c \<le> CHR ''z'' then Some (of_char c - 71)
      else if CHR ''0'' \<le> c \<and> c \<le> CHR ''9'' then Some (of_char c + 4)
      else if c = CHR ''-'' then Some 62
      else if c = CHR ''_'' then Some 63
      else None)"

fun b64Sextets :: "nat list \<Rightarrow> nat list" where
  "b64Sextets [] = []"
| "b64Sextets [a] = [a div 4, (a mod 4) * 16]"
| "b64Sextets [a, b] = [a div 4, (a mod 4) * 16 + b div 16, (b mod 16) * 4]"
| "b64Sextets (a # b # c # rest) =
     [a div 4, (a mod 4) * 16 + b div 16, (b mod 16) * 4 + c div 64, c mod 64] @ b64Sextets rest"

fun b64Octets :: "nat list \<Rightarrow> nat list option" where
  "b64Octets [] = Some []"
| "b64Octets [v] = None"
| "b64Octets [v, w] = Some [v * 4 + w div 16]"
| "b64Octets [v, w, x] = Some [v * 4 + w div 16, (w mod 16) * 16 + x div 4]"
| "b64Octets (v # w # x # y # rest) =
     map_option ((@) [v * 4 + w div 16, (w mod 16) * 16 + x div 4, (x mod 4) * 64 + y]) (b64Octets rest)"

definition EncodeToString :: "string \<Rightarrow> string" where
  "EncodeToString bs = map b64Char (b64Sextets (map of_char bs))"

text \<open>
  The decoder skips carriage returns and line feeds wherever they stand, accepts characters of the
  alphabet only, refuses a lone trailing character and (without strict mode) ignores the unused low
  bits of the last one.
\<close>

definition DecodeString :: "string \<Rightarrow> string option" where
  "DecodeString s =
     (let cs = filter (\<lambda>c. c \<noteq> CHR 0x0A \<and> c \<noteq> CHR 0x0D) s
      in if list_all (\<lambda>c. b64Val c \<noteq> None) cs
         then map_option (map char_of) (b64Octets (map (\<lambda>c. the (b64Val c)) cs))
         else None)"

section \<open>Hexadecimal\<close>

definition lowerHexDigit :: "nat \<Rightarrow> char" where
  "lowerHexDigit n = (if n < 10 then char_of (48 + n) else char_of (87 + n))"

definition hexString :: "string \<Rightarrow> string" where
  "hexString bs = concat (map (\<lambda>c. [lowerHexDigit (of_char c div 16), lowerHexDigit (of_char c mod 16)]) bs)"

section \<open>SHA-256 and HMAC\<close>

type_synonym u32 = "32 word"

definition sha256K :: "u32 list" where
  "sha256K = concat
     [[0x428a2f98, 0x71374491, 0xb5c0fbcf, 0xe9b5dba5, 0x3956c25b, 0x59f111f1, 0x923f82a4, 0xab1c5ed5],
      [0xd807aa98, 0x12835b01, 0x243185be, 0x550c7dc3, 0x72be5d74, 0x80deb1fe, 0x9bdc06a7, 0xc19bf174],
      [0xe49b69c1, 0xefbe4786, 0x0fc19dc6, 0x240ca1cc, 0x2de92c6f, 0x4a7484aa, 0x5cb0a9dc, 0x76f988da],
      [0x983e5152, 0xa831c66d, 0xb00327c8, 0xbf597fc7, 0xc6e00bf3, 0xd5a79147, 0x06ca6351, 0x14292967],
      [0x27b70a85, 0x2e1b2138, 0x4d2c6dfc, 0x53380d13, 0x650a7354, 0x766a0abb, 0x81c2c92e, 0x92722c85],
      [0xa2bfe8a1, 0xa81a664b, 0xc24b8b70, 0xc76c51a3, 0xd192e819, 0xd6990624, 0xf40e3585, 0x106aa070],
      [0x19a4c116, 0x1e376c08, 0x2748774c, 0x34b0bcb5, 0x391c0cb3, 0x4ed8aa4a, 0x5b9cca4f, 0x682e6ff3],
      [0x748f82ee, 0x78a5636f, 0x84c87814, 0x8cc70208, 0x90befffa, 0xa4506ceb, 0xbef9a3f7, 0xc67178f2]]"

definition sha256H :: "u32 list" where
  "sha256H =
     [0x6a09e667, 0xbb67ae85, 0x3c6ef372, 0xa54ff53a, 0x510e527f, 0x9b05688c, 0x1f83d9ab, 0x5be0cd19]"

definition rotr :: "nat \<Rightarrow> u32 \<Rightarrow> u32" where
  "rotr n x = drop_bit n x OR push_bit (32 - n) x"

definition bigSigma0 :: "u32 \<Rightarrow> u32" where
  "bigSigma0 x = rotr 2 x XOR rotr 13 x XOR rotr 22 x"

definition bigSigma1 :: "u32 \<Rightarrow> u32" where
  "bigSigma1 x = rotr 6 x XOR rotr 11 x XOR rotr 25 x"

definition smallSigma0 :: "u32 \<Rightarrow> u32" where
  "smallSigma0 x = rotr 7 x XOR rotr 18 x XOR drop_bit 3 x"

definition smallSigma1 :: "u32 \<Rightarrow> u32" where
  "smallSigma1 x = rotr 17 x XOR rotr 19 x XOR drop_bit 10 x"

text \<open>The message schedule, newest word first.\<close>

fun schedule :: "nat \<Rightarrow> u32 list \<Rightarrow> u32 list" where
  "schedule 0 ws = ws"
| "schedule (Suc n) ws =
     schedule n ((smallSigma1 (ws ! 1) + ws ! 6 + smallSigma0 (ws ! 14) + ws ! 15) # ws)"

fun shaRound :: "u32 list \<Rightarrow> u32 \<times> u32 \<Rightarrow> u32 list" where
  "shaRound [a, b, c, d, e, f, g, h] (k, w) =
     (let t1 = h + bigSigma1 e + ((e AND f) XOR (NOT e AND g)) + k + w;
          t2 = bigSigma0 a + ((a AND b) XOR (a AND c) XOR (b AND c))
      in [t1 + t2, a, b, c, d + t1, e, f, g])"
| "shaRound st kw = st"

definition shaBlock :: "u32 list \<Rightarrow> u32 list \<Rightarrow> u32 list" where
  "shaBlock st ws = map2 (+) st (foldl shaRound st (zip sha256K (rev (schedule 48 (rev ws)))))"

fun beWords :: "nat list \<Rightarrow> u32 list" where
  "beWords (a # b # c # d # rest) = word_of_nat (((a * 256 + b) * 256 + c) * 256 + d) # beWords rest"
| "beWords _ = []"

function shaBlocks :: "u32 list \<Rightarrow> u32 list \<Rightarrow> u32 list" where
  "shaBlocks st ws = (if ws = [] then st else shaBlocks (shaBlock st (take 16 ws)) (drop 16 ws))"
  by pat_completeness auto
termination
  by (relation "measure (\<lambda>(st, ws). length ws)") auto

declare shaBlocks.simps [simp del]

definition beBytes :: "nat \<Rightarrow> nat \<Rightarrow> nat list" where
  "beBytes n v = map (\<lambda>i. v div 256 ^ (n - 1 - i) mod 256) [0..<n]"

definition shaPad :: "nat list \<Rightarrow> nat list" where
  "shaPad bs = bs @ 128 # replicate ((119 - length bs mod 64) mod 64) 0 @ beBytes 8 (8 * length bs)"

definition Sum256 :: "string \<Rightarrow> string" where
  "Sum256 bs =
     map char_of (concat (map (\<lambda>w. beBytes 4 (unat w)) (shaBlocks sha256H (beWords (shaPad (map of_char bs))))))"

definition xorByte :: "nat \<Rightarrow> char \<Rightarrow> char" where
  "xorByte p c = char_of (p XOR of_char c)"

definition hmacKey :: "string \<Rightarrow> string" where
  "hmacKey key =
     (let k = (if length key > 64 then Sum256 key else key) in k @ replicate (64 - length k) (CHR 0x00))"

definition hmacSum :: "string \<Rightarrow> string \<Rightarrow> string" where
  "hmacSum key msg =
     Sum256 (map (xorByte 0x5c) (hmacKey key) @ Sum256 (map (xorByte 0x36) (hmacKey key) @ msg))"

section \<open>Constant-time comparison\<close>

text \<open>
  The result of \<^verbatim>\<open>subtle.ConstantTimeCompare(x, y) == 1\<close>: equal lengths and equal contents. Running
  time is outside the model.
\<close>

definition ConstantTimeCompare :: "string \<Rightarrow> string \<Rightarrow> bool" where
  "ConstantTimeCompare x y \<longleftrightarrow> length x = length y \<and> list_all2 (=) x y"

lemma ConstantTimeCompare_eq [simp]: "ConstantTimeCompare x y \<longleftrightarrow> x = y"
  by (auto simp: ConstantTimeCompare_def list.rel_eq)


section \<open>Facts: base64\<close>

lemma b64Val_b64Char: "n < 64 \<Longrightarrow> b64Val (b64Char n) = Some n"
  by (auto simp: b64Val_def b64Char_def less_eq_char_def)

lemma b64Char_newline: "n < 64 \<Longrightarrow> b64Char n \<noteq> CHR 0x0A \<and> b64Char n \<noteq> CHR 0x0D"
  using b64Val_b64Char [of n] by (auto simp: b64Val_def less_eq_char_def)

lemma b64Sextets_bound: "\<forall>b \<in> set bs. b < 256 \<Longrightarrow> v \<in> set (b64Sextets bs) \<Longrightarrow> v < 64"
  by (induction bs rule: b64Sextets.induct) (auto simp: less_mult_imp_div_less)

lemma b64Octets_b64Sextets: "\<forall>b \<in> set bs. b < 256 \<Longrightarrow> b64Octets (b64Sextets bs) = Some bs"
proof (induction bs rule: b64Sextets.induct)
  case (4 a b c rest)
  have "(a mod 4 * 16 + b div 16) div 16 = a mod 4" "(a mod 4 * 16 + b div 16) mod 16 = b div 16"
    "(b mod 16 * 4 + c div 64) div 4 = b mod 16" "(b mod 16 * 4 + c div 64) mod 4 = c div 64"
    using "4.prems" by auto
  with 4 show ?case by simp
next
  case (3 a b)
  have "(a mod 4 * 16 + b div 16) div 16 = a mod 4" "(a mod 4 * 16 + b div 16) mod 16 = b div 16"
    using "3.prems" by auto
  then show ?case by simp
qed auto

lemma length_b64Sextets: "length (b64Sextets bs) = (4 * length bs + 2) div 3"
  by (induction bs rule: b64Sextets.induct) auto

lemma EncodeToString_chars: "c \<in> set (EncodeToString bs) \<Longrightarrow> \<exists>n < 64. c = b64Char n"
  using b64Sextets_bound [of "map of_char bs"] by (auto simp: EncodeToString_def)

lemma DecodeString_EncodeToString: "DecodeString (EncodeToString bs) = Some bs"
proof -
  let ?vs = "b64Sextets (map of_char bs)"
  have vs: "\<forall>v \<in> set ?vs. v < 64"
    using b64Sextets_bound [of "map of_char bs"] by auto
  then have filt: "filter (\<lambda>c. c \<noteq> CHR 0x0A \<and> c \<noteq> CHR 0x0D) (map b64Char ?vs) = map b64Char ?vs"
    using b64Char_newline by (auto intro!: filter_True)
  have all: "list_all (\<lambda>c. b64Val c \<noteq> None) (map b64Char ?vs)"
    using vs by (auto simp: list_all_iff b64Val_b64Char)
  have inv: "map (\<lambda>c. the (b64Val c)) (map b64Char ?vs) = ?vs"
    using vs by (auto simp: b64Val_b64Char intro!: map_idI)
  have "b64Octets ?vs = Some (map of_char bs)"
    by (intro b64Octets_b64Sextets) auto
  with filt all inv show ?thesis
    unfolding DecodeString_def EncodeToString_def Let_def
    by (simp add: comp_def)
qed

interpretation b64Codec: codec EncodeToString DecodeString "\<lambda>_. True"
  by unfold_locales (rule DecodeString_EncodeToString)

lemma length_EncodeToString: "length (EncodeToString bs) = (4 * length bs + 2) div 3"
  by (simp add: EncodeToString_def length_b64Sextets)

lemma b64Char_unreserved: "n < 64 \<Longrightarrow> unreserved (b64Char n)"
  by (auto simp: b64Char_def unreserved_def alnum_def less_eq_char_def)

lemma b64Char_cases: "n < 64 \<Longrightarrow> b64Char n \<noteq> CHR ''.'' \<and> b64Char n \<noteq> CHR ''|'' \<and> b64Char n \<noteq> CHR '' ''"
  using b64Val_b64Char [of n] by (auto simp: b64Val_def less_eq_char_def)

section \<open>Facts: digests\<close>

lemma lowerHexDigit_range:
  "n < 16 \<Longrightarrow> CHR ''0'' \<le> lowerHexDigit n \<and> lowerHexDigit n \<le> CHR ''9'' \<or>
     CHR ''a'' \<le> lowerHexDigit n \<and> lowerHexDigit n \<le> CHR ''f''"
  by (auto simp: lowerHexDigit_def less_eq_char_def)

lemma hexString_chars:
  assumes "c \<in> set (hexString bs)"
  shows "CHR ''0'' \<le> c \<and> c \<le> CHR ''9'' \<or> CHR ''a'' \<le> c \<and> c \<le> CHR ''f''"
proof -
  obtain b :: char where "c = lowerHexDigit (of_char b div 16) \<or> c = lowerHexDigit (of_char b mod 16)"
    using assms by (auto simp: hexString_def)
  moreover have "of_char b div 16 < (16 :: nat)" "of_char b mod 16 < (16 :: nat)"
    using nat_of_char_less_256 [of b] by (simp_all add: less_mult_imp_div_less)
  ultimately show ?thesis using lowerHexDigit_range by blast
qed

lemma lowerHexDigit_inject: "m < 16 \<Longrightarrow> n < 16 \<Longrightarrow> lowerHexDigit m = lowerHexDigit n \<longleftrightarrow> m = n"
  by (auto simp: lowerHexDigit_def split: if_splits)

lemma of_char_div_16: "of_char c div 16 < (16 :: nat)"
  using nat_of_char_less_256 [of c] by (simp add: less_mult_imp_div_less)

lemma hexString_inject: "hexString bs = hexString cs \<longleftrightarrow> bs = cs"
proof (induction bs arbitrary: cs)
  case Nil
  then show ?case by (cases cs) (simp_all add: hexString_def)
next
  case (Cons b bs)
  show ?case
  proof (cases cs)
    case Nil
    then show ?thesis by (simp add: hexString_def)
  next
    case c: (Cons c cs')
    have less: "of_char b div 16 < (16::nat)" "of_char c div 16 < (16::nat)"
      using of_char_div_16 by simp_all
    have "hexString (b # bs) = hexString (c # cs') \<longleftrightarrow>
        of_char b div 16 = (of_char c div 16 :: nat) \<and> of_char b mod 16 = (of_char c mod 16 :: nat) \<and> hexString bs = hexString cs'"
      using less by (auto simp: hexString_def lowerHexDigit_inject)
    also have "\<dots> \<longleftrightarrow> b = c \<and> bs = cs'"
      using Cons.IH [of cs'] by (metis div_mult_mod_eq of_char_eq_iff)
    finally show ?thesis by (simp add: c)
  qed
qed

lemma length_shaRound [simp]: "length (shaRound st kw) = length st"
  by (cases "(st, kw)" rule: shaRound.cases) (simp_all add: Let_def)

lemma length_foldl_shaRound [simp]: "length (foldl shaRound st kws) = length st"
  by (induction kws arbitrary: st) simp_all

lemma length_shaBlocks: "length (shaBlocks st ws) = length st"
proof (induction st ws rule: shaBlocks.induct)
  case (1 st ws)
  then show ?case by (subst shaBlocks.simps) (simp add: shaBlock_def)
qed

lemma length_concat_beBytes: "length (concat (map (\<lambda>w. beBytes 4 (unat w)) ws)) = 4 * length (ws :: u32 list)"
  by (induction ws) (simp_all add: beBytes_def)

lemma length_Sum256 [simp]: "length (Sum256 bs) = 32"
  by (simp add: Sum256_def length_concat_beBytes length_shaBlocks sha256H_def del: length_concat)

lemma length_hmacSum [simp]: "length (hmacSum key msg) = 32"
  by (simp add: hmacSum_def)

end
