(* ===== verification/Errors.thy ===== *)
theory Errors
  imports Prelude
begin

text \<open>
  The sentinel errors of \<^verbatim>\<open>internal/idp/errors.go\<close>, in the order the file declares them. Every error the
  package returns wraps one of them with dynamic context (the client id, the offending value); the
  model keeps the sentinel, which is what \<^verbatim>\<open>errors.Is\<close> classifies by. \<open>errUpstream\<close> stands for an
  error that wraps no sentinel because it comes from a library call, named by the call.
\<close>

datatype (plugins only: size) idp_error =
    errClientIDEmpty | errPaddedValue | errValueWhitespace | errPublicClientSecret
  | errConfidentialNoSecret | errClientTypeMustBe | errWhitespaceEntry | errDuplicateCCRole
  | errGrantTypesAllowed | errDuplicateGrantType | errGrantNotEnabled | errGrantWantsConfident
  | errCCScopesRequired | errAllowedScopeForm | errAllowedScopeOwnAud | errRedirectURIRequired
  | errEmptyValue | errURLAbsolute | errClientsArrayMissing | errClientsFileShape
  | errFreeOfWhitespace | errDuplicateResAudience | errAppRolesRequired | errDuplicateAppRole
  | errCCRoleNotDefined | errUserRoleNotDefined | errDuplicateClientID | errNoClientsRegistered
  | errNoUsersRegistered
  | errClientsFileUnset | errRemovedVariable | errIntNotWholeNumber | errIntNotPositive
  | errTokenInvalid | errNotAccessToken | errClaimsInvalid | errAudienceMissing
  | errAudienceRejected | errTokenRevoked | errNotIDToken | errIssuerForeign | errTokensUnregCli
  | errKeyringEntryIncomplete | errKeyringStateInvalid | errKeyringDuplicateKid
  | errKeyringContainsNoKeys | errKeyringThumbprintMismatch | errKeyringMultipleActive
  | errKeyringNoActiveKey | errAwaitTimedOut | errKeyDirRequired | errGeneratedKidExists
  | errNoPEMBlock | errNotAnRSAKey | errUnknownKid
  | errUsernameEmpty | errPasswordHashShape | errRolesEmptyEntry | errDuplicateRole
  | errDuplicateUsername | errBcryptCostRange
  | errAssetOverrideTooLarge
  | errUpstream string

end
