(* ===== verification/Store.thy ===== *)
theory Store
  imports Codec Errors
begin

text \<open>
  The in-memory token store of \<^verbatim>\<open>internal/idp/store.go\<close>: authorization codes, refresh tokens (live
  and consumed), the registry of issued access tokens and the revocation denylist.

  Every method holds the store's mutex for its whole body, so a method is one atomic step of the
  state. A method that reads the clock takes its readings as arguments, in the order the code makes
  them; a method that draws random bytes takes the result of \<^verbatim>\<open>rand.Read\<close> (\<^term>\<open>None\<close> when it
  fails).
\<close>

section \<open>State\<close>

record authCode =
  ac_ExpiresAt :: time
  ac_Sub :: string
  ac_ClientID :: string
  ac_RedirectURI :: string
  ac_CodeChallenge :: string
  ac_CodeChallengeMethod :: string
  ac_Nonce :: string
  ac_Scopes :: "string list"

record refreshEntry =
  re_ExpiresAt :: time
  re_Sub :: string
  re_ClientID :: string
  re_Nonce :: string
  re_Family :: string
  re_Scopes :: "string list"

record jtiRecord =
  jr_exp :: time
  jr_sub :: string
  jr_family :: string

record store =
  codes :: "string \<rightharpoonup> authCode"
  refresh :: "string \<rightharpoonup> refreshEntry"
  usedRefresh :: "string \<rightharpoonup> refreshEntry"
  accessJTI :: "string \<rightharpoonup> jtiRecord"
  deniedJTI :: "string \<rightharpoonup> time"

definition newStore :: store where
  "newStore = \<lparr>codes = Map.empty, refresh = Map.empty, usedRefresh = Map.empty,
     accessJTI = Map.empty, deniedJTI = Map.empty\<rparr>"

section \<open>Operations\<close>

definition randomToken :: "string option \<Rightarrow> idp_error + string" where
  "randomToken b = (case b of None \<Rightarrow> Inl (errUpstream ''crypto/rand'') | Some bs \<Rightarrow> Inr (EncodeToString bs))"

definition dropWhere :: "('k \<rightharpoonup> 'v) \<Rightarrow> ('v \<Rightarrow> bool) \<Rightarrow> ('k \<rightharpoonup> 'v)" where
  "dropWhere m expired = keepWhere (\<lambda>v. \<not> expired v) m"

definition dropExpired :: "time \<Rightarrow> store \<Rightarrow> store" where
  "dropExpired now s = s\<lparr>
     codes := dropWhere (codes s) (\<lambda>c. now > ac_ExpiresAt c),
     refresh := dropWhere (refresh s) (\<lambda>f. now > re_ExpiresAt f),
     usedRefresh := dropWhere (usedRefresh s) (\<lambda>f. now > re_ExpiresAt f),
     accessJTI := dropWhere (accessJTI s) (\<lambda>rec. now > jr_exp rec),
     deniedJTI := dropWhere (deniedJTI s) (\<lambda>u. now > u)\<rparr>"

text \<open>The new state is returned on the error path too: the sweep has already happened.\<close>

definition addCode ::
  "time \<Rightarrow> string option \<Rightarrow> time \<Rightarrow> authCode \<Rightarrow> duration \<Rightarrow> store \<Rightarrow> (idp_error + string) \<times> store" where
  "addCode now1 rnd now2 c ttl s =
     (let s = dropExpired now1 s
      in case randomToken rnd of
           Inl e \<Rightarrow> (Inl e, s)
         | Inr tok \<Rightarrow> (Inr tok, s\<lparr>codes := (codes s)(tok \<mapsto> c\<lparr>ac_ExpiresAt := now2 + ttl\<rparr>)\<rparr>))"

definition takeCode :: "time \<Rightarrow> time \<Rightarrow> string \<Rightarrow> store \<Rightarrow> authCode option \<times> store" where
  "takeCode now1 now2 tok s =
     (let s = dropExpired now1 s
      in case codes s tok of
           None \<Rightarrow> (None, s)
         | Some c \<Rightarrow>
             (let s = s\<lparr>codes := (codes s)(tok := None)\<rparr>
              in if now2 > ac_ExpiresAt c then (None, s) else (Some c, s)))"

definition addRefresh ::
  "time \<Rightarrow> string option \<Rightarrow> time \<Rightarrow> refreshEntry \<Rightarrow> duration \<Rightarrow> store \<Rightarrow> (idp_error + string) \<times> store" where
  "addRefresh now1 rnd now2 f ttl s =
     (let s = dropExpired now1 s
      in case randomToken rnd of
           Inl e \<Rightarrow> (Inl e, s)
         | Inr tok \<Rightarrow> (Inr tok, s\<lparr>refresh := (refresh s)(tok \<mapsto> f\<lparr>re_ExpiresAt := now2 + ttl\<rparr>)\<rparr>))"

text \<open>
  The loop over \<^verbatim>\<open>s.accessJTI\<close> moves each live entry of the family to the denylist; entries of other
  families and expired ones stay. Iteration order does not matter, since each key is visited once.
\<close>

definition revokeFamilyLocked :: "time \<Rightarrow> string \<Rightarrow> store \<Rightarrow> store" where
  "revokeFamilyLocked now family s =
     (if family = [] then s
      else s\<lparr>
        refresh := dropWhere (refresh s) (\<lambda>f. re_Family f = family),
        usedRefresh := dropWhere (usedRefresh s) (\<lambda>f. re_Family f = family),
        deniedJTI := (\<lambda>jti. case accessJTI s jti of
            Some rec \<Rightarrow> if jr_family rec = family \<and> now < jr_exp rec then Some (jr_exp rec) else deniedJTI s jti
          | None \<Rightarrow> deniedJTI s jti),
        accessJTI := dropWhere (accessJTI s) (\<lambda>rec. jr_family rec = family \<and> now < jr_exp rec)\<rparr>)"

definition revokeFamilyTokens :: "time \<Rightarrow> string \<Rightarrow> store \<Rightarrow> store" where
  "revokeFamilyTokens now family s = revokeFamilyLocked now family s"

text \<open>
  \<open>now1\<close> is the reading of the sweep, \<open>now2\<close> the one made afterwards: by the family revocation when
  the token was used before, by the expiry check otherwise.
\<close>

definition takeRefresh :: "time \<Rightarrow> time \<Rightarrow> string \<Rightarrow> store \<Rightarrow> (refreshEntry option \<times> bool) \<times> store" where
  "takeRefresh now1 now2 tok s =
     (let s = dropExpired now1 s
      in case usedRefresh s tok of
           Some f \<Rightarrow>
             (let s = revokeFamilyLocked now2 (re_Family f) s
              in ((None, True), s\<lparr>usedRefresh := (usedRefresh s)(tok := None)\<rparr>))
         | None \<Rightarrow>
             (case refresh s tok of
                None \<Rightarrow> ((None, False), s)
              | Some f \<Rightarrow>
                  (let s = s\<lparr>refresh := (refresh s)(tok := None)\<rparr>
                   in if now2 > re_ExpiresAt f then ((None, False), s)
                      else ((Some f, False), s\<lparr>usedRefresh := (usedRefresh s)(tok \<mapsto> f)\<rparr>))))"

definition registerJTI :: "string \<Rightarrow> string \<Rightarrow> string \<Rightarrow> time \<Rightarrow> store \<Rightarrow> store" where
  "registerJTI jti sub family exp s =
     s\<lparr>accessJTI := (accessJTI s)(jti \<mapsto> \<lparr>jr_exp = exp, jr_sub = sub, jr_family = family\<rparr>)\<rparr>"

definition denyJTI :: "string \<Rightarrow> time \<Rightarrow> store \<Rightarrow> store" where
  "denyJTI jti until s = s\<lparr>deniedJTI := (deniedJTI s)(jti \<mapsto> until)\<rparr>"

text \<open>A jti that is not on the denylist reads as the zero time.\<close>

definition isDeniedJTI :: "time \<Rightarrow> string \<Rightarrow> store \<Rightarrow> bool" where
  "isDeniedJTI now jti s = (now < (case deniedJTI s jti of Some u \<Rightarrow> u | None \<Rightarrow> 0))"

definition revokeToken :: "time \<Rightarrow> string \<Rightarrow> store \<Rightarrow> store" where
  "revokeToken now tok s =
     (let s = s\<lparr>codes := (codes s)(tok := None)\<rparr>
      in case refresh s tok of
           Some f \<Rightarrow> revokeFamilyLocked now (re_Family f) (s\<lparr>refresh := (refresh s)(tok := None)\<rparr>)
         | None \<Rightarrow>
             (case usedRefresh s tok of
                Some f \<Rightarrow> revokeFamilyLocked now (re_Family f) s
              | None \<Rightarrow> s))"


section \<open>Runs of the store\<close>

text \<open>
  The request handlers run concurrently and share the store, so its history is an arbitrary
  sequence of method calls, each with its own clock readings and random bytes.
\<close>

datatype storeOp =
    AddCode time "string option" time authCode duration
  | TakeCode time time string
  | AddRefresh time "string option" time refreshEntry duration
  | TakeRefresh time time string
  | RegisterJTI string string string time
  | DenyJTI string time
  | RevokeFamily time string
  | RevokeToken time string

fun execOp :: "storeOp \<Rightarrow> store \<Rightarrow> store" where
  "execOp (AddCode n1 r n2 c ttl) s = snd (addCode n1 r n2 c ttl s)"
| "execOp (TakeCode n1 n2 tok) s = snd (takeCode n1 n2 tok s)"
| "execOp (AddRefresh n1 r n2 f ttl) s = snd (addRefresh n1 r n2 f ttl s)"
| "execOp (TakeRefresh n1 n2 tok) s = snd (takeRefresh n1 n2 tok s)"
| "execOp (RegisterJTI jti sub fam exp) s = registerJTI jti sub fam exp s"
| "execOp (DenyJTI jti until) s = denyJTI jti until s"
| "execOp (RevokeFamily now fam) s = revokeFamilyTokens now fam s"
| "execOp (RevokeToken now tok) s = revokeToken now tok s"

text \<open>The credentials a call hands out and the ones it accepts.\<close>

fun issuedCode :: "storeOp \<Rightarrow> store \<Rightarrow> string option" where
  "issuedCode (AddCode n1 r n2 c ttl) s =
     (case fst (addCode n1 r n2 c ttl s) of Inr tok \<Rightarrow> Some tok | Inl _ \<Rightarrow> None)"
| "issuedCode _ s = None"

fun redeemedCode :: "storeOp \<Rightarrow> store \<Rightarrow> string option" where
  "redeemedCode (TakeCode n1 n2 tok) s = (if fst (takeCode n1 n2 tok s) = None then None else Some tok)"
| "redeemedCode _ s = None"

fun issuedRefresh :: "storeOp \<Rightarrow> store \<Rightarrow> string option" where
  "issuedRefresh (AddRefresh n1 r n2 f ttl) s =
     (case fst (addRefresh n1 r n2 f ttl s) of Inr tok \<Rightarrow> Some tok | Inl _ \<Rightarrow> None)"
| "issuedRefresh _ s = None"

fun redeemedRefresh :: "storeOp \<Rightarrow> store \<Rightarrow> string option" where
  "redeemedRefresh (TakeRefresh n1 n2 tok) s =
     (if fst (fst (takeRefresh n1 n2 tok s)) = None then None else Some tok)"
| "redeemedRefresh _ s = None"

section \<open>What the methods do to each map\<close>

named_theorems store_maps \<open>the maps of the store after a method\<close>

lemma dropExpired_maps [store_maps]:
  "codes (dropExpired now s) = keepWhere (\<lambda>c. now \<le> ac_ExpiresAt c) (codes s)"
  "refresh (dropExpired now s) = keepWhere (\<lambda>f. now \<le> re_ExpiresAt f) (refresh s)"
  "usedRefresh (dropExpired now s) = keepWhere (\<lambda>f. now \<le> re_ExpiresAt f) (usedRefresh s)"
  "accessJTI (dropExpired now s) = keepWhere (\<lambda>r. now \<le> jr_exp r) (accessJTI s)"
  "deniedJTI (dropExpired now s) = keepWhere (\<lambda>u. now \<le> u) (deniedJTI s)"
  by (simp_all add: dropExpired_def dropWhere_def not_less)

lemma revokeFamilyLocked_maps [store_maps]:
  "codes (revokeFamilyLocked now fam s) = codes s"
  "refresh (revokeFamilyLocked now fam s) = keepWhere (\<lambda>f. re_Family f \<noteq> fam \<or> fam = []) (refresh s)"
  "usedRefresh (revokeFamilyLocked now fam s) = keepWhere (\<lambda>f. re_Family f \<noteq> fam \<or> fam = []) (usedRefresh s)"
  by (simp_all add: revokeFamilyLocked_def dropWhere_def keepWhere_def fun_eq_iff split: option.splits)

lemma revokeFamilyLocked_denied:
  assumes "accessJTI s jti = Some rec" "jr_family rec = fam" "fam \<noteq> []" "now < jr_exp rec"
  shows "deniedJTI (revokeFamilyLocked now fam s) jti = Some (jr_exp rec)"
  using assms by (simp add: revokeFamilyLocked_def)

lemma revokeFamilyLocked_undenied:
  "(\<And>rec. accessJTI s jti = Some rec \<Longrightarrow> jr_family rec \<noteq> fam) \<Longrightarrow>
   deniedJTI (revokeFamilyLocked now fam s) jti = deniedJTI s jti"
  by (auto simp: revokeFamilyLocked_def split: option.splits)

lemma revokeFamilyLocked_denied_cases:
  "deniedJTI (revokeFamilyLocked now fam s) jti = deniedJTI s jti \<or>
   (\<exists>rec. accessJTI s jti = Some rec \<and> now < jr_exp rec \<and>
      deniedJTI (revokeFamilyLocked now fam s) jti = Some (jr_exp rec))"
  by (auto simp: revokeFamilyLocked_def split: option.splits)

lemma revokeFamilyLocked_access:
  "accessJTI (revokeFamilyLocked now fam s) \<subseteq>\<^sub>m accessJTI s"
  by (simp add: revokeFamilyLocked_def dropWhere_def keepWhere_le)

lemmas store_ops = addCode_def takeCode_def addRefresh_def takeRefresh_def registerJTI_def denyJTI_def
  revokeFamilyTokens_def revokeToken_def Let_def


section \<open>Single use\<close>

interpretation codesOnce: oneshot execOp "\<lambda>s. dom (codes s)" issuedCode redeemedCode
proof
  fix op s
  show "dom (codes (execOp op s)) \<subseteq> dom (codes s) \<union> set_option (issuedCode op s)"
    by (cases op) (auto simp: store_ops store_maps split: sum.splits option.splits if_splits)
next
  fix op s i
  assume taken: "redeemedCode op s = Some i"
  then show "i \<in> dom (codes s)"
    by (cases op) (auto simp: store_ops store_maps split: option.splits if_splits)
  from taken show "i \<notin> dom (codes (execOp op s))"
    by (cases op) (auto simp: store_ops store_maps split: option.splits if_splits)
  from taken show "issuedCode op s = None"
    by (cases op) auto
qed

interpretation refreshOnce: oneshot execOp "\<lambda>s. dom (refresh s)" issuedRefresh redeemedRefresh
proof
  fix op s
  show "dom (refresh (execOp op s)) \<subseteq> dom (refresh s) \<union> set_option (issuedRefresh op s)"
    by (cases op) (auto simp: store_ops store_maps split: sum.splits option.splits if_splits)
next
  fix op s i
  assume taken: "redeemedRefresh op s = Some i"
  then show "i \<in> dom (refresh s)"
    by (cases op) (auto simp: store_ops store_maps split: option.splits if_splits)
  from taken show "i \<notin> dom (refresh (execOp op s))"
    by (cases op) (auto simp: store_ops store_maps split: option.splits if_splits)
  from taken show "issuedRefresh op s = None"
    by (cases op) auto
qed

lemma newStore_maps [simp]:
  "codes newStore = Map.empty" "refresh newStore = Map.empty" "usedRefresh newStore = Map.empty"
  "accessJTI newStore = Map.empty" "deniedJTI newStore = Map.empty"
  by (simp_all add: newStore_def)

text \<open>
  Authorization codes are single use: in every sequence of store calls from the empty store, in
  any interleaving and with any clock readings, if the random tokens handed out as codes are
  pairwise different, then no code is redeemed twice, and only codes that were issued are redeemed.
\<close>

theorem code_single_use:
  assumes "distinct (observe issuedCode execOp ops newStore)"
  shows "distinct (observe redeemedCode execOp ops newStore)
    \<and> set (observe redeemedCode execOp ops newStore) \<subseteq> set (observe issuedCode execOp ops newStore)"
  using codesOnce.taken_once [OF assms] codesOnce.taken_from [of ops newStore] by simp

text \<open>
  Refresh tokens are single use in the same sense.
\<close>

theorem refresh_single_use:
  assumes "distinct (observe issuedRefresh execOp ops newStore)"
  shows "distinct (observe redeemedRefresh execOp ops newStore)
    \<and> set (observe redeemedRefresh execOp ops newStore) \<subseteq> set (observe issuedRefresh execOp ops newStore)"
  using refreshOnce.taken_once [OF assms] refreshOnce.taken_from [of ops newStore] by simp

section \<open>Expiry\<close>

text \<open>
  Sweeping is invisible to the check that follows it: a code is returned exactly when it is stored
  and not past its expiry at the second reading.
\<close>

lemma takeCode_result:
  "now1 \<le> now2 \<Longrightarrow> fst (takeCode now1 now2 tok s) = Some c \<longleftrightarrow> codes s tok = Some c \<and> now2 \<le> ac_ExpiresAt c"
  by (auto simp: takeCode_def Let_def store_maps split: option.splits if_splits)

lemma takeCode_removes: "codes (snd (takeCode now1 now2 tok s)) tok = None"
  by (auto simp: takeCode_def Let_def store_maps split: option.splits)

lemma takeRefresh_result:
  "now1 \<le> now2 \<Longrightarrow> usedRefresh s tok = None \<Longrightarrow>
   fst (takeRefresh now1 now2 tok s) = (Some f, b) \<longleftrightarrow>
     \<not> b \<and> refresh s tok = Some f \<and> now2 \<le> re_ExpiresAt f"
  by (auto simp: takeRefresh_def Let_def store_maps split: option.splits if_splits)


text \<open>What was added is returned by the first take before the expiry.\<close>

lemma addCode_takeCode:
  assumes "addCode t1 rnd t2 c ttl s = (Inr tok, s')"
    and "n1 \<le> n2" and "n2 \<le> t2 + ttl"
  shows "fst (takeCode n1 n2 tok s') = Some (c\<lparr>ac_ExpiresAt := t2 + ttl\<rparr>)"
  using assms by (subst takeCode_result) (auto simp: addCode_def Let_def split: sum.splits)

section \<open>Reuse detection and revocation\<close>

text \<open>
  C5. Replay of a consumed refresh token: when a token that was consumed before (and has not passed
  its original expiry) is presented again, the call reports reuse and returns no entry, no refresh
  token of the token's family stays in the store, live or consumed, and every access token of the
  family that is registered and has not expired is denied from then on until it expires. Everything
  else that has not expired is untouched: the live and the consumed refresh tokens and the access
  token records of other families, the authorization codes, and the answer of the denylist for every
  access token that is not registered with the family.
\<close>

theorem refresh_reuse_revokes_family:
  assumes "usedRefresh s tok = Some f" and "now1 \<le> re_ExpiresAt f" and "re_Family f \<noteq> []"
    and "takeRefresh now1 now2 tok s = (r, s')" and "now1 \<le> now2"
  shows "r = (None, True)
    \<and> (\<forall>k e. refresh s' k = Some e \<or> usedRefresh s' k = Some e \<longrightarrow> re_Family e \<noteq> re_Family f)
    \<and> (\<forall>jti rec now. accessJTI s jti = Some rec \<and> jr_family rec = re_Family f \<and> now2 < jr_exp rec
          \<and> now < jr_exp rec \<longrightarrow> isDeniedJTI now jti s')
    \<and> (\<forall>k e. re_Family e \<noteq> re_Family f \<and> now1 \<le> re_ExpiresAt e \<longrightarrow>
          (refresh s' k = Some e \<longleftrightarrow> refresh s k = Some e) \<and> (usedRefresh s' k = Some e \<longleftrightarrow> usedRefresh s k = Some e))
    \<and> (\<forall>jti now. (\<forall>rec. accessJTI s jti = Some rec \<longrightarrow> jr_family rec \<noteq> re_Family f) \<and> 0 \<le> now \<and> now1 \<le> now \<longrightarrow>
          (isDeniedJTI now jti s' \<longleftrightarrow> isDeniedJTI now jti s))
    \<and> (\<forall>jti rec. jr_family rec \<noteq> re_Family f \<and> now1 \<le> jr_exp rec \<longrightarrow>
          (accessJTI s' jti = Some rec \<longleftrightarrow> accessJTI s jti = Some rec))
    \<and> (\<forall>k c. now1 \<le> ac_ExpiresAt c \<longrightarrow> (codes s' k = Some c \<longleftrightarrow> codes s k = Some c))"
proof -
  let ?d = "dropExpired now1 s"
  let ?v = "revokeFamilyLocked now2 (re_Family f) ?d"
  have used: "usedRefresh ?d tok = Some f"
    using assms(1,2) by (simp add: store_maps)
  have r: "r = (None, True)" and s': "s' = ?v\<lparr>usedRefresh := (usedRefresh ?v)(tok := None)\<rparr>"
    using assms(4) used by (simp_all add: takeRefresh_def Let_def)
  have denied: "isDeniedJTI now jti s'"
    if "accessJTI s jti = Some rec" "jr_family rec = re_Family f" "now2 < jr_exp rec" "now < jr_exp rec"
    for jti rec now
  proof -
    have "accessJTI ?d jti = Some rec" using that(1,3) assms(5) by (simp add: store_maps)
    then have "deniedJTI ?v jti = Some (jr_exp rec)"
      using that assms(3) by (intro revokeFamilyLocked_denied) auto
    then show ?thesis using that(4) by (simp add: isDeniedJTI_def s')
  qed
  have maps: "refresh s' = refresh ?v" "usedRefresh s' = (usedRefresh ?v)(tok := None)" "codes s' = codes ?v"
    "accessJTI s' = accessJTI ?v" "deniedJTI s' = deniedJTI ?v"
    by (simp_all add: s')
  have other: "isDeniedJTI now jti s' \<longleftrightarrow> isDeniedJTI now jti s"
    if "\<And>rec. accessJTI s jti = Some rec \<Longrightarrow> jr_family rec \<noteq> re_Family f" "0 \<le> now" "now1 \<le> now" for jti now
  proof -
    have "accessJTI ?d jti = Some rec \<Longrightarrow> jr_family rec \<noteq> re_Family f" for rec
      using that(1) by (simp add: store_maps)
    then have "deniedJTI s' jti = deniedJTI ?d jti"
      unfolding maps by (rule revokeFamilyLocked_undenied)
    then show ?thesis
      using that(2,3) by (auto simp: isDeniedJTI_def store_maps keepWhere_def split: option.split)
  qed
  have access: "accessJTI s' jti = Some rec \<longleftrightarrow> accessJTI s jti = Some rec"
    if "jr_family rec \<noteq> re_Family f" "now1 \<le> jr_exp rec" for jti rec
    using that unfolding maps by (auto simp: revokeFamilyLocked_def dropWhere_def store_maps)
  show ?thesis
    using r denied other access assms(1,3) by (auto simp: maps(1-3) store_maps split: if_splits)
qed

text \<open>
  The two critical sections of a refresh are not one: when the token is presented again between the \<^verbatim>\<open>takeRefresh\<close> and the
  \<^verbatim>\<open>addRefresh\<close> of a request, the reuse is detected and the family revoked, and the request then stores a live refresh token of that
  family all the same.
\<close>

theorem interleaved_reuse_revives_family:
  assumes "refresh s tok = Some f" "usedRefresh s tok = None" "now \<le> re_ExpiresAt f" "re_Family f \<noteq> []"
    and "takeRefresh now now tok s = (r1, s1)" "takeRefresh now now tok s1 = (r2, s2)"
    and "addRefresh now (Some bs) now f ttl s2 = (Inr tok', s3)"
  shows "r1 = (Some f, False) \<and> r2 = (None, True) \<and> \<not> (\<exists>k e. refresh s2 k = Some e \<and> re_Family e = re_Family f)
    \<and> (\<exists>e. refresh s3 tok' = Some e \<and> re_Family e = re_Family f)"
proof -
  have r1: "r1 = (Some f, False)" "usedRefresh s1 tok = Some f"
    using assms(1-3,5) by (auto simp: takeRefresh_def store_maps keepWhere_def Let_def split: option.splits if_splits)
  then have "usedRefresh (dropExpired now s1) tok = Some f" using assms(3) by (simp add: store_maps)
  then have "r2 = (None, True)" "refresh s2 = refresh (revokeFamilyLocked now (re_Family f) (dropExpired now s1))"
    using assms(6) by (auto simp: takeRefresh_def Let_def)
  moreover have "\<exists>e. refresh s3 tok' = Some e \<and> re_Family e = re_Family f"
    using assms(7) by (auto simp: addRefresh_def randomToken_def Let_def)
  ultimately show ?thesis using r1 assms(4) by (auto simp: store_maps)
qed

text \<open>
  Revoking a refresh token (consumed or not) revokes the whole authorization it belongs to: no
  refresh token of its family stays in the store and every registered, unexpired access token of
  the family is denied until it expires. The token can no longer be redeemed as a code either.
\<close>

theorem revokeToken_revokes_authorization:
  assumes "refresh s tok = Some f \<or> refresh s tok = None \<and> usedRefresh s tok = Some f"
    and "re_Family f \<noteq> []"
  shows "codes (revokeToken now tok s) tok = None
    \<and> (\<forall>k e. refresh (revokeToken now tok s) k = Some e \<or> usedRefresh (revokeToken now tok s) k = Some e
          \<longrightarrow> re_Family e \<noteq> re_Family f)
    \<and> (\<forall>jti rec t. accessJTI s jti = Some rec \<and> jr_family rec = re_Family f \<and> now < jr_exp rec
          \<and> t < jr_exp rec \<longrightarrow> isDeniedJTI t jti (revokeToken now tok s))"
proof -
  define s0 where "s0 = (if refresh s tok = None then s\<lparr>codes := (codes s)(tok := None)\<rparr>
     else s\<lparr>codes := (codes s)(tok := None), refresh := (refresh s)(tok := None)\<rparr>)"
  have eq: "revokeToken now tok s = revokeFamilyLocked now (re_Family f) s0"
    using assms(1) by (auto simp: revokeToken_def s0_def)
  have "accessJTI s0 = accessJTI s" "codes s0 tok = None"
    by (simp_all add: s0_def)
  moreover have "isDeniedJTI t jti (revokeFamilyLocked now (re_Family f) s0)"
    if "accessJTI s0 jti = Some rec" "jr_family rec = re_Family f" "now < jr_exp rec" "t < jr_exp rec"
    for jti rec t
    using revokeFamilyLocked_denied [OF that(1,2) assms(2) that(3)] that(4) by (simp add: isDeniedJTI_def)
  ultimately show ?thesis
    unfolding eq using assms(2) by (auto simp: store_maps)
qed

section \<open>Denials last\<close>

text \<open>
  A denial until \<open>u\<close> survives every call that the server makes about the same token with the same
  or a later expiry, as long as the sweeps happen no later than \<open>u\<close>.
\<close>

definition deniedUntil :: "string \<Rightarrow> time \<Rightarrow> store \<Rightarrow> bool" where
  "deniedUntil jti u s \<longleftrightarrow>
     (\<exists>u' \<ge> u. deniedJTI s jti = Some u') \<and> (\<forall>rec. accessJTI s jti = Some rec \<longrightarrow> u \<le> jr_exp rec)"

lemma revokeFamilyLocked_deniedUntil:
  assumes "accessJTI s jti = Some rec" "jr_family rec = fam" "fam \<noteq> []" "now < jr_exp rec"
  shows "deniedUntil jti (jr_exp rec) (revokeFamilyLocked now fam s)"
  using assms by (auto simp: deniedUntil_def revokeFamilyLocked_def dropWhere_def)

fun respectsDenial :: "string \<Rightarrow> time \<Rightarrow> storeOp \<Rightarrow> bool" where
  "respectsDenial jti u (AddCode n1 r n2 c ttl) = (n1 \<le> u)"
| "respectsDenial jti u (TakeCode n1 n2 tok) = (n1 \<le> u)"
| "respectsDenial jti u (AddRefresh n1 r n2 f ttl) = (n1 \<le> u)"
| "respectsDenial jti u (TakeRefresh n1 n2 tok) = (n1 \<le> u)"
| "respectsDenial jti u (RegisterJTI j sub fam exp) = (j = jti \<longrightarrow> u \<le> exp)"
| "respectsDenial jti u (DenyJTI j until) = (j = jti \<longrightarrow> u \<le> until)"
| "respectsDenial jti u (RevokeFamily now fam) = True"
| "respectsDenial jti u (RevokeToken now tok) = True"

lemma deniedUntil_dropExpired: "n \<le> u \<Longrightarrow> deniedUntil jti u s \<Longrightarrow> deniedUntil jti u (dropExpired n s)"
  by (fastforce simp: deniedUntil_def store_maps)

lemma deniedUntil_revoke: "deniedUntil jti u s \<Longrightarrow> deniedUntil jti u (revokeFamilyLocked n fam s)"
  using revokeFamilyLocked_denied_cases [of n fam s jti] revokeFamilyLocked_access [of n fam s]
  by (auto simp: deniedUntil_def map_le_def dom_def)

lemma deniedUntil_other [simp]:
  "deniedUntil jti u (s\<lparr>codes := m1\<rparr>) = deniedUntil jti u s"
  "deniedUntil jti u (s\<lparr>refresh := m2\<rparr>) = deniedUntil jti u s"
  "deniedUntil jti u (s\<lparr>usedRefresh := m2\<rparr>) = deniedUntil jti u s"
  by (simp_all add: deniedUntil_def)

lemma deniedUntil_execOp:
  assumes "respectsDenial jti u op" and "deniedUntil jti u s"
  shows "deniedUntil jti u (execOp op s)"
proof (cases op)
  case (RegisterJTI j sub fam exp)
  with assms show ?thesis by (auto simp: deniedUntil_def registerJTI_def)
next
  case (DenyJTI j until)
  with assms show ?thesis by (auto simp: deniedUntil_def denyJTI_def)
qed (use assms in \<open>auto simp: store_ops deniedUntil_dropExpired deniedUntil_revoke split: sum.splits option.splits\<close>)

text \<open>
  Revocation of an access token lasts: once its jti is denied until its expiry \<open>u\<close>, it stays
  denied at every moment before \<open>u\<close>, whatever calls follow, provided they keep the token's own
  expiry (no call about this jti names an earlier one) and sweep no later than \<open>u\<close>.
\<close>

theorem denial_lasts:
  assumes "\<forall>rec. accessJTI s jti = Some rec \<longrightarrow> u \<le> jr_exp rec"
    and "list_all (respectsDenial jti u) ops" and "now < u"
  shows "isDeniedJTI now jti (fold execOp ops (denyJTI jti u s))"
proof -
  have "deniedUntil jti u (denyJTI jti u s)"
    using assms(1) by (simp add: deniedUntil_def denyJTI_def)
  then have "deniedUntil jti u (fold execOp ops (denyJTI jti u s))"
    using assms(2)
    by (induction ops arbitrary: s rule: rev_induct) (auto simp: deniedUntil_execOp)
  with assms(3) show ?thesis by (auto simp: deniedUntil_def isDeniedJTI_def)
qed


section \<open>Reachable stores\<close>

text \<open>
  The random tokens are 256 bits wide; a step of the store draws one that is not in use. Under this
  guard the live and the consumed refresh tokens never overlap, so a live token is never mistaken
  for a replay.
\<close>

inductive store_step :: "store \<Rightarrow> store \<Rightarrow> bool" where
  call: "(\<And>tok. issuedRefresh op s = Some tok \<Longrightarrow> refresh s tok = None \<and> usedRefresh s tok = None) \<Longrightarrow>
    store_step s (execOp op s)"

inductive store_reach :: "store \<Rightarrow> bool" where
  start: "store_reach newStore"
| more: "store_reach s \<Longrightarrow> store_step s t \<Longrightarrow> store_reach t"

inductive_cases store_stepE: "store_step s t"

interpretation storeMachine: machine "\<lambda>s. s = newStore" store_step store_reach
proof
  fix P s
  assume init: "\<And>s. s = newStore \<Longrightarrow> P s"
    and step: "\<And>s t. store_reach s \<Longrightarrow> P s \<Longrightarrow> store_step s t \<Longrightarrow> P t"
  assume "store_reach s"
  then show "P s"
  proof (induction rule: store_reach.induct)
    case start
    show ?case by (rule init) (rule refl)
  next
    case (more s t)
    then show ?case by (blast intro: step)
  qed
qed

definition refreshDisjoint :: "store \<Rightarrow> bool" where
  "refreshDisjoint s \<longleftrightarrow> (\<forall>tok. refresh s tok = None \<or> usedRefresh s tok = None)"

lemma refreshDisjoint_sub:
  "refreshDisjoint s \<Longrightarrow> refresh t \<subseteq>\<^sub>m refresh s \<Longrightarrow> usedRefresh t \<subseteq>\<^sub>m usedRefresh s \<Longrightarrow> refreshDisjoint t"
  unfolding refreshDisjoint_def map_le_def dom_def by (metis (mono_tags) mem_Collect_eq)

lemma refreshDisjoint_drop [simp]: "refreshDisjoint s \<Longrightarrow> refreshDisjoint (dropExpired n s)"
  by (erule refreshDisjoint_sub) (simp_all add: store_maps keepWhere_le)

lemma refreshDisjoint_revoke [simp]: "refreshDisjoint s \<Longrightarrow> refreshDisjoint (revokeFamilyLocked n fam s)"
  by (erule refreshDisjoint_sub) (simp_all add: store_maps keepWhere_le)

lemma refreshDisjoint_other [simp]:
  "refreshDisjoint (s\<lparr>codes := m1\<rparr>) = refreshDisjoint s"
  "refreshDisjoint (s\<lparr>accessJTI := m2\<rparr>) = refreshDisjoint s"
  "refreshDisjoint (s\<lparr>deniedJTI := m3\<rparr>) = refreshDisjoint s"
  "refreshDisjoint s \<Longrightarrow> refreshDisjoint (s\<lparr>refresh := (refresh s)(k := None)\<rparr>)"
  "refreshDisjoint s \<Longrightarrow> refreshDisjoint (s\<lparr>codes := m1, refresh := (refresh s)(k := None)\<rparr>)"
  "refreshDisjoint s \<Longrightarrow> refreshDisjoint (s\<lparr>usedRefresh := (usedRefresh s)(k := None)\<rparr>)"
  "refreshDisjoint s \<Longrightarrow>
    refreshDisjoint (s\<lparr>refresh := (refresh s)(k := None), usedRefresh := (usedRefresh s)(k \<mapsto> f)\<rparr>)"
  "refreshDisjoint s \<Longrightarrow> usedRefresh s k = None \<Longrightarrow> refreshDisjoint (s\<lparr>refresh := (refresh s)(k \<mapsto> f)\<rparr>)"
  by (auto simp: refreshDisjoint_def)

lemma refreshDisjoint_step:
  assumes "refreshDisjoint s" and "store_step s t"
  shows "refreshDisjoint t"
proof -
  obtain op where t: "t = execOp op s"
    and fresh: "\<And>tok. issuedRefresh op s = Some tok \<Longrightarrow> refresh s tok = None \<and> usedRefresh s tok = None"
    using assms(2) by (auto elim: store_stepE)
  show ?thesis
  proof (cases op)
    case (AddRefresh n1 r n2 f ttl)
    have "usedRefresh (dropExpired n1 s) tok = None" if "randomToken r = Inr tok" for tok
      using fresh [of tok] that by (simp add: AddRefresh addRefresh_def Let_def store_maps)
    with assms(1) t AddRefresh show ?thesis
      by (simp add: addRefresh_def Let_def split: sum.splits)
  qed (use assms(1) t in \<open>simp_all add: store_ops split: option.splits sum.splits\<close>)
qed

lemma store_reach_disjoint: "store_reach s \<Longrightarrow> refreshDisjoint s"
proof (rule storeMachine.invariant_rule [where I = refreshDisjoint])
  show "\<And>s. s = newStore \<Longrightarrow> refreshDisjoint s" by (simp add: refreshDisjoint_def)
qed (auto intro: refreshDisjoint_step)

text \<open>
  A live refresh token is always honoured: in every reachable store, presenting a stored token
  before its expiry returns exactly its entry, is not taken for a replay, and moves the token to
  the consumed ones.
\<close>

theorem live_refresh_accepted:
  assumes "store_reach s" and "refresh s tok = Some f" and "now1 \<le> now2" and "now2 \<le> re_ExpiresAt f"
  shows "fst (takeRefresh now1 now2 tok s) = (Some f, False)
    \<and> refresh (snd (takeRefresh now1 now2 tok s)) tok = None
    \<and> usedRefresh (snd (takeRefresh now1 now2 tok s)) tok = Some f"
proof -
  have "usedRefresh s tok = None"
    using store_reach_disjoint [OF assms(1)] assms(2) by (metis refreshDisjoint_def option.distinct(1))
  with assms show ?thesis
    by (auto simp: takeRefresh_def Let_def store_maps split: option.splits)
qed


section \<open>Witnesses\<close>

definition demoCode :: authCode where
  "demoCode = \<lparr>ac_ExpiresAt = 0, ac_Sub = ''alice'', ac_ClientID = ''app'', ac_RedirectURI = ''http://a/cb'',
     ac_CodeChallenge = [], ac_CodeChallengeMethod = [], ac_Nonce = ''n'', ac_Scopes = [''openid'']\<rparr>"

definition demoEntry :: refreshEntry where
  "demoEntry = \<lparr>re_ExpiresAt = 100, re_Sub = ''alice'', re_ClientID = ''app'', re_Nonce = ''n'',
     re_Family = ''fam'', re_Scopes = [''openid'']\<rparr>"

lemma demoToken: "EncodeToString ''A'' = ''QQ''"
  by code_simp

text \<open>A code is issued and presented three times, once by an unknown name.\<close>

theorem code_single_use_witness:
  "distinct (observe issuedCode execOp
       [AddCode 1 (Some ''A'') 2 demoCode 50, TakeCode 3 3 ''QQ'', TakeCode 4 4 ''QQ'', TakeCode 5 5 ''zz''] newStore)
   \<and> observe redeemedCode execOp
       [AddCode 1 (Some ''A'') 2 demoCode 50, TakeCode 3 3 ''QQ'', TakeCode 4 4 ''QQ'', TakeCode 5 5 ''zz''] newStore
     = [''QQ'']
   \<and> distinct (observe redeemedCode execOp
       [AddCode 1 (Some ''A'') 2 demoCode 50, TakeCode 3 3 ''QQ'', TakeCode 4 4 ''QQ'', TakeCode 5 5 ''zz''] newStore)"
  (is "distinct (observe _ _ ?ops _) \<and> ?r \<and> _")
proof -
  have d: "distinct (observe issuedCode execOp ?ops newStore)"
    by (simp add: addCode_def randomToken_def demoToken Let_def split: sum.splits)
  have ?r
    by (simp add: addCode_def takeCode_def randomToken_def demoToken store_maps Let_def demoCode_def keepWhere_def
        newStore_def dropExpired_def dropWhere_def)
  with d code_single_use [OF d] show ?thesis by blast
qed

theorem refresh_single_use_witness:
  "distinct (observe issuedRefresh execOp
       [AddRefresh 1 (Some ''A'') 2 demoEntry 50, TakeRefresh 3 3 ''QQ'', TakeRefresh 4 4 ''QQ''] newStore)
   \<and> observe redeemedRefresh execOp
       [AddRefresh 1 (Some ''A'') 2 demoEntry 50, TakeRefresh 3 3 ''QQ'', TakeRefresh 4 4 ''QQ''] newStore = [''QQ'']
   \<and> distinct (observe redeemedRefresh execOp
       [AddRefresh 1 (Some ''A'') 2 demoEntry 50, TakeRefresh 3 3 ''QQ'', TakeRefresh 4 4 ''QQ''] newStore)"
  (is "distinct (observe _ _ ?ops _) \<and> ?r \<and> _")
proof -
  have d: "distinct (observe issuedRefresh execOp ?ops newStore)"
    by (simp add: addRefresh_def randomToken_def demoToken Let_def split: sum.splits)
  have ?r
    by (simp add: addRefresh_def takeRefresh_def randomToken_def demoToken Let_def demoEntry_def keepWhere_def
        newStore_def dropExpired_def dropWhere_def revokeFamilyLocked_def)
  with d refresh_single_use [OF d] show ?thesis by blast
qed

definition demoStore :: store where
  "demoStore = newStore\<lparr>
     refresh := [''live'' \<mapsto> demoEntry, ''other'' \<mapsto> demoEntry\<lparr>re_Family := ''else''\<rparr>],
     usedRefresh := [''used'' \<mapsto> demoEntry],
     accessJTI := [''jti1'' \<mapsto> \<lparr>jr_exp = 60, jr_sub = ''alice'', jr_family = ''fam''\<rparr>,
       ''jti2'' \<mapsto> \<lparr>jr_exp = 60, jr_sub = ''bob'', jr_family = ''else''\<rparr>]\<rparr>"

lemma demoStore_facts:
  "refresh demoStore ''live'' = Some demoEntry" "usedRefresh demoStore ''used'' = Some demoEntry"
  "refresh demoStore ''other'' = Some (demoEntry\<lparr>re_Family := ''else''\<rparr>)"
  "accessJTI demoStore ''jti1'' = Some \<lparr>jr_exp = 60, jr_sub = ''alice'', jr_family = ''fam''\<rparr>"
  "accessJTI demoStore ''jti2'' = Some \<lparr>jr_exp = 60, jr_sub = ''bob'', jr_family = ''else''\<rparr>"
  "re_Family demoEntry = ''fam''" "re_ExpiresAt demoEntry = 100" "\<not> isDeniedJTI 20 ''jti2'' demoStore"
  by (simp_all add: demoStore_def demoEntry_def isDeniedJTI_def newStore_def)

theorem refresh_reuse_revokes_family_witness:
  "fst (takeRefresh 10 11 ''used'' demoStore) = (None, True)
   \<and> refresh (snd (takeRefresh 10 11 ''used'' demoStore)) ''live'' \<noteq> Some demoEntry
   \<and> refresh (snd (takeRefresh 10 11 ''used'' demoStore)) ''other'' = Some (demoEntry\<lparr>re_Family := ''else''\<rparr>)
   \<and> isDeniedJTI 20 ''jti1'' (snd (takeRefresh 10 11 ''used'' demoStore))
   \<and> \<not> isDeniedJTI 20 ''jti2'' (snd (takeRefresh 10 11 ''used'' demoStore))"
proof -
  have eq: "takeRefresh 10 11 ''used'' demoStore =
      (fst (takeRefresh 10 11 ''used'' demoStore), snd (takeRefresh 10 11 ''used'' demoStore))"
    by simp
  have "10 \<le> re_ExpiresAt demoEntry" "re_Family demoEntry \<noteq> []" "(10 :: time) \<le> 11"
    by (simp_all add: demoStore_facts)
  note reuse = refresh_reuse_revokes_family [OF demoStore_facts(2) this(1,2) eq this(3)]
  note reuse1 = reuse [THEN conjunct2] and reuse2 = reuse [THEN conjunct2, THEN conjunct2]
  note reuse3 = reuse2 [THEN conjunct2] and reuse4 = reuse2 [THEN conjunct2, THEN conjunct2]
  show ?thesis
    using reuse [THEN conjunct1] reuse1 [THEN conjunct1, rule_format, of "''live''" demoEntry]
      reuse2 [THEN conjunct1, rule_format, of "''jti1''"]
      reuse3 [THEN conjunct1, rule_format, of "demoEntry\<lparr>re_Family := ''else''\<rparr>" "''other''"]
      reuse4 [THEN conjunct1, rule_format, of "''jti2''" 20]
    by (auto simp: demoStore_facts)
qed

theorem revokeToken_revokes_authorization_witness:
  "codes (revokeToken 5 ''live'' demoStore) ''live'' = None
   \<and> refresh (revokeToken 5 ''live'' demoStore) ''live'' \<noteq> Some demoEntry
   \<and> isDeniedJTI 7 ''jti1'' (revokeToken 5 ''live'' demoStore)"
proof -
  have "re_Family demoEntry \<noteq> []" by (simp add: demoStore_facts)
  note revoke = revokeToken_revokes_authorization [OF disjI1 [OF demoStore_facts(1)] this, of 5]
  show ?thesis
    using revoke [THEN conjunct1] revoke [THEN conjunct2, THEN conjunct1, rule_format, of "''live''" demoEntry]
      revoke [THEN conjunct2, THEN conjunct2, rule_format, of "''jti1''"]
    by (auto simp: demoStore_facts)
qed

theorem denial_lasts_witness:
  "isDeniedJTI 50 ''jti1''
     (fold execOp [TakeCode 20 21 ''x'', RevokeFamily 30 ''fam'', AddCode 40 None 41 demoCode 5]
        (denyJTI ''jti1'' 60 demoStore))"
  by (rule denial_lasts) (simp_all add: demoStore_def)

theorem live_refresh_accepted_witness:
  "fst (takeRefresh 3 4 ''QQ'' (execOp (AddRefresh 1 (Some ''A'') 2 demoEntry 50) newStore)) =
     (Some (demoEntry\<lparr>re_ExpiresAt := 52\<rparr>), False)"
proof -
  have "store_reach (execOp (AddRefresh 1 (Some ''A'') 2 demoEntry 50) newStore)"
    by (rule store_reach.more [OF store_reach.start]) (rule store_step.call, simp)
  from live_refresh_accepted [OF this, of "''QQ''" "demoEntry\<lparr>re_ExpiresAt := 52\<rparr>" 3 4]
  show ?thesis
    by (simp add: addRefresh_def randomToken_def demoToken Let_def)
qed

end
