(* ===== verification/Users.thy ===== *)
theory Users
  imports GoStrings Errors
begin

text \<open>
  User accounts: \<^verbatim>\<open>internal/idp/users.go\<close> and the account backend \<^verbatim>\<open>staticUserStore\<close> at the end of
  \<^verbatim>\<open>internal/idp/clients.go\<close>. The bcrypt package is not part of the repository: its two functions
  are the parameters \<open>gen\<close> (\<^verbatim>\<open>bcrypt.GenerateFromPassword\<close>, \<^term>\<open>None\<close> for an error; the salt is
  drawn inside, so \<open>gen\<close> stands for one call) and \<open>cmp\<close> (\<^verbatim>\<open>bcrypt.CompareHashAndPassword(..) == nil\<close>).
\<close>

section \<open>Accounts\<close>

record User =
  u_Username :: string
  u_PasswordHash :: string
  u_Email :: string
  u_Name :: string
  u_Roles :: "string list"

abbreviation (input) bcryptMinCost :: int where "bcryptMinCost \<equiv> 4"
abbreviation (input) bcryptMaxCost :: int where "bcryptMaxCost \<equiv> 31"
abbreviation (input) bcryptDefaultCost :: int where "bcryptDefaultCost \<equiv> 10"

definition isBcryptHash :: "string \<Rightarrow> bool" where
  "isBcryptHash s \<longleftrightarrow> length s = 60 \<and> (prefix ''$2a$'' s \<or> prefix ''$2b$'' s \<or> prefix ''$2y$'' s)"

text \<open>The loop over \<^verbatim>\<open>u.Roles\<close>, with the roles seen so far.\<close>

fun userRolesErr :: "string list \<Rightarrow> string list \<Rightarrow> idp_error option" where
  "userRolesErr seen [] = None"
| "userRolesErr seen (role # roles) =
     (if TrimSpace role = [] then Some errRolesEmptyEntry
      else if role \<noteq> TrimSpace role then Some errPaddedValue
      else if role \<in> set seen then Some errDuplicateRole
      else userRolesErr (role # seen) roles)"

definition User_validate :: "User \<Rightarrow> idp_error option" where
  "User_validate u =
     (if TrimSpace (u_Username u) = [] then Some errUsernameEmpty
      else if u_Username u \<noteq> TrimSpace (u_Username u) then Some errPaddedValue
      else if \<not> isBcryptHash (u_PasswordHash u) then Some errPasswordHashShape
      else userRolesErr [] (u_Roles u))"

fun userSliceErr :: "string list \<Rightarrow> User list \<Rightarrow> idp_error option" where
  "userSliceErr seen [] = None"
| "userSliceErr seen (u # users) =
     orErr (User_validate u)
       (if u_Username u \<in> set seen then Some errDuplicateUsername
        else userSliceErr (u_Username u # seen) users)"

definition validateUserSlice :: "User list \<Rightarrow> idp_error option" where
  "validateUserSlice users = userSliceErr [] users"

section \<open>Password hashes\<close>

definition newDummyHash :: "(string \<Rightarrow> int \<Rightarrow> string option) \<Rightarrow> int \<Rightarrow> string option" where
  \<comment> \<open>\<^term>\<open>None\<close> is the panic of a failed generation\<close>
  "newDummyHash gen cost = gen ''minidp-timing-equalizer-dummy'' cost"

definition bcryptCostOf :: "string \<Rightarrow> int" where
  "bcryptCostOf hash =
     (if length hash < 7 \<or> hash ! 0 \<noteq> CHR ''$'' then bcryptDefaultCost
      else case ParseInt (take 2 (drop 4 hash)) of
             None \<Rightarrow> bcryptDefaultCost
           | Some cost \<Rightarrow> if cost < bcryptMinCost \<or> cost > bcryptMaxCost then bcryptDefaultCost else cost)"

definition HashPassword :: "(string \<Rightarrow> int \<Rightarrow> string option) \<Rightarrow> string \<Rightarrow> int \<Rightarrow> idp_error + string" where
  "HashPassword gen password cost =
     (if cost < bcryptMinCost \<or> cost > bcryptMaxCost then Inl errBcryptCostRange
      else case gen password cost of
             None \<Rightarrow> Inl (errUpstream ''bcrypt'')
           | Some h \<Rightarrow> Inr h)"

definition verifyHash :: "(string \<Rightarrow> string \<Rightarrow> bool) \<Rightarrow> string \<Rightarrow> string \<Rightarrow> bool" where
  "verifyHash cmp hash password = cmp hash password"

section \<open>The account backend of one client\<close>

text \<open>
  \<^verbatim>\<open>byName\<close> is a Go map that \<^verbatim>\<open>Count\<close> measures, so it is kept as an association list with distinct
  keys.
\<close>

record staticUserStore =
  byName :: "(string \<times> User) list"
  dummyHash :: string

definition newStaticUserStore :: "(string \<Rightarrow> int \<Rightarrow> string option) \<Rightarrow> User list \<Rightarrow> staticUserStore option" where
  "newStaticUserStore gen users =
     (let cost = (case users of [] \<Rightarrow> bcryptDefaultCost | u # _ \<Rightarrow> bcryptCostOf (u_PasswordHash u))
      in case newDummyHash gen cost of
           None \<Rightarrow> None
         | Some h \<Rightarrow> Some \<lparr>byName = fold (\<lambda>u m. AList.update (u_Username u) u m) users [], dummyHash = h\<rparr>)"

definition Lookup :: "staticUserStore \<Rightarrow> string \<Rightarrow> User option" where
  "Lookup s username = map_of (byName s) username"

definition Count :: "staticUserStore \<Rightarrow> nat" where
  "Count s = length (byName s)"

definition DummyHash :: "staticUserStore \<Rightarrow> string" where
  "DummyHash s = dummyHash s"

section \<open>Validation accepts exactly the well-formed accounts\<close>

interpretation userRoles: seen_loop userRolesErr "\<lambda>r. TrimSpace r \<noteq> [] \<and> r = TrimSpace r" "\<lambda>r. r"
  by unfold_locales auto

interpretation userSlice: seen_loop userSliceErr "\<lambda>u. User_validate u = None" u_Username
  by unfold_locales auto

definition userOk :: "User \<Rightarrow> bool" where
  "userOk u \<longleftrightarrow> u_Username u \<noteq> [] \<and> TrimSpace (u_Username u) = u_Username u
     \<and> isBcryptHash (u_PasswordHash u)
     \<and> (\<forall>r \<in> set (u_Roles u). r \<noteq> [] \<and> TrimSpace r = r) \<and> distinct (u_Roles u)"

lemma User_validate_None: "User_validate u = None \<longleftrightarrow> userOk u"
  unfolding User_validate_def userOk_def by (simp add: userRoles.loop_None) metis

lemma validateUserSlice_None:
  "validateUserSlice users = None \<longleftrightarrow> (\<forall>u \<in> set users. userOk u) \<and> distinct (map u_Username users)"
  by (simp add: validateUserSlice_def userSlice.loop_None User_validate_None)

section \<open>The interface of an account backend\<close>

text \<open>
  What the server relies on in a \<^verbatim>\<open>UserStore\<close>: an account is found under its own username, and the
  count is the number of usernames that are found.
\<close>

locale user_store =
  fixes find :: "'st \<Rightarrow> string \<Rightarrow> User option"
    and cnt :: "'st \<Rightarrow> nat"
    and wf :: "'st \<Rightarrow> bool"
  assumes find_name: "wf s \<Longrightarrow> find s n = Some u \<Longrightarrow> u_Username u = n"
    and cnt_names: "wf s \<Longrightarrow> cnt s = card {n. find s n \<noteq> None}"
begin

lemma find_inject: "wf s \<Longrightarrow> find s n = Some u \<Longrightarrow> find s m = Some u \<Longrightarrow> n = m"
  using find_name by metis

end

definition userStoreOk :: "staticUserStore \<Rightarrow> bool" where
  "userStoreOk s \<longleftrightarrow> distinct (map fst (byName s)) \<and> (\<forall>(n, u) \<in> set (byName s). u_Username u = n)"

interpretation staticUsers: user_store Lookup Count userStoreOk
proof
  fix s n u
  assume "userStoreOk s" "Lookup s n = Some u"
  then show "u_Username u = n"
    by (auto simp: userStoreOk_def Lookup_def dest: map_of_SomeD)
next
  fix s
  assume ok: "userStoreOk s"
  have "{n. Lookup s n \<noteq> None} = fst ` set (byName s)"
    by (auto simp: Lookup_def map_of_eq_None_iff)
  moreover have "card (set (map fst (byName s))) = length (map fst (byName s))"
    using ok by (intro distinct_card) (simp add: userStoreOk_def)
  ultimately show "Count s = card {n. Lookup s n \<noteq> None}"
    by (simp add: Count_def)
qed

lemma fold_users_ok:
  assumes "distinct (map fst m)" "\<forall>(n, u) \<in> set m. u_Username u = n"
  shows "distinct (map fst (fold (\<lambda>u m. AList.update (u_Username u) u m) users m))
    \<and> (\<forall>(n, u) \<in> set (fold (\<lambda>u m. AList.update (u_Username u) u m) users m). u_Username u = n)"
  using assms
proof (induction users arbitrary: m)
  case (Cons u users)
  have "\<forall>(n, v) \<in> set (AList.update (u_Username u) u m). u_Username v = n"
    using Cons.prems(2) set_AList_update [of "u_Username u" u m] by fastforce
  moreover have "distinct (map fst (AList.update (u_Username u) u m))"
    using Cons.prems(1) by (rule distinct_update)
  ultimately show ?case
    using Cons.IH [of "AList.update (u_Username u) u m"] by simp
qed simp

lemma newStaticUserStore_ok: "newStaticUserStore gen users = Some s \<Longrightarrow> userStoreOk s"
  using fold_users_ok [of "[]" users]
  by (auto simp: newStaticUserStore_def userStoreOk_def Let_def split: option.splits)

lemma map_of_fold_users:
  "distinct (map u_Username users) \<Longrightarrow>
   map_of (fold (\<lambda>u m. AList.update (u_Username u) u m) users m) =
     map_of m ++ map_of (map (\<lambda>u. (u_Username u, u)) users)"
proof (induction users arbitrary: m)
  case (Cons u users)
  then have "map_of (map (\<lambda>u. (u_Username u, u)) users) (u_Username u) = None"
    by (auto simp: map_of_eq_None_iff)
  with Cons show ?case
    by (auto simp: update_conv' map_add_def fun_eq_iff split: option.splits)
qed simp

text \<open>The backend of a validated users array finds exactly the accounts of the array.\<close>

lemma Lookup_newStaticUserStore:
  assumes "newStaticUserStore gen users = Some s" and "distinct (map u_Username users)"
  shows "Lookup s n = Some u \<longleftrightarrow> u \<in> set users \<and> u_Username u = n"
proof -
  have "Lookup s n = map_of (map (\<lambda>u. (u_Username u, u)) users) n"
    using assms by (auto simp: newStaticUserStore_def Lookup_def Let_def map_of_fold_users split: option.splits)
  with assms(2) show ?thesis
    using map_of_distinct_filter [of u_Username users u] map_of_key [of u_Username users n u] by auto
qed

end
