(* ===== verification/Clients.thy ===== *)
theory Clients
  imports Codec Users
begin

text \<open>
  Registered clients: the clients-file entries and their validation, the role registry, and the
  in-memory index the server works with (\<^verbatim>\<open>internal/idp/clients.go\<close>).

  \<^verbatim>\<open>url.Parse\<close> is used on registered URLs only. It is the parameter \<open>up\<close> of the definitions that
  call it: a string is either not a URL or has a scheme, a host, a fragment and a raw query, with
  the remaining parts kept together.
\<close>

section \<open>URLs\<close>

record url =
  u_Scheme :: string
  u_Host :: string
  u_Fragment :: string
  u_RawQuery :: string
  u_Rest :: string

type_synonym url_parser = "string \<Rightarrow> url option"

definition wsChars :: string where
  "wsChars = [CHR '' '', CHR 0x09, CHR 0x0D, CHR 0x0A]"

section \<open>Clients\<close>

abbreviation TypePublic :: string where "TypePublic \<equiv> ''public''"
abbreviation TypeConfidential :: string where "TypeConfidential \<equiv> ''confidential''"

abbreviation GrantAuthorizationCode :: string where "GrantAuthorizationCode \<equiv> ''authorization_code''"
abbreviation GrantRefreshToken :: string where "GrantRefreshToken \<equiv> ''refresh_token''"
abbreviation GrantClientCredentials :: string where "GrantClientCredentials \<equiv> ''client_credentials''"

record Client =
  c_ClientID :: string
  c_Type :: string
  c_ClientSecret :: string
  c_Audience :: string
  c_GrantTypes :: "string list"
  c_ClientCredentialsScopes :: "string list"
  c_AllowedScopes :: "string list"
  c_ClientCredentialsRoles :: "string list"
  c_RedirectURIs :: "string list"
  c_PostLogoutRedirectURIs :: "string list"
  c_AllowedOrigins :: "string list"
  c_Users :: "User list"

record ResourceDefinition =
  rd_Audience :: string
  rd_AppRoles :: "string list"

record ClientsFile =
  cf_Clients :: "Client list"
  cf_Resources :: "ResourceDefinition list"

definition Confidential :: "Client \<Rightarrow> bool" where
  "Confidential c \<longleftrightarrow> c_Type c = TypeConfidential"

definition grants :: "Client \<Rightarrow> string list" where
  "grants c = (if length (c_GrantTypes c) = 0 then [GrantAuthorizationCode, GrantRefreshToken] else c_GrantTypes c)"

definition AllowsGrant :: "Client \<Rightarrow> string \<Rightarrow> bool" where
  "AllowsGrant c grant \<longleftrightarrow> grant \<in> set (grants c)"

definition Interactive :: "Client \<Rightarrow> bool" where
  "Interactive c \<longleftrightarrow> AllowsGrant c GrantAuthorizationCode \<or> AllowsGrant c GrantRefreshToken"

definition audience :: "Client \<Rightarrow> string" where
  "audience c = (if c_Audience c \<noteq> [] then c_Audience c else c_ClientID c)"

section \<open>Validation of one entry\<close>

definition validateIdentity :: "Client \<Rightarrow> idp_error option" where
  "validateIdentity c =
     (if TrimSpace (c_ClientID c) = [] then Some errClientIDEmpty
      else if c_ClientID c \<noteq> TrimSpace (c_ClientID c) then Some errPaddedValue
      else if ContainsAny (c_ClientID c) wsChars then Some errValueWhitespace
      else None)"

fun ccRolesErr :: "string list \<Rightarrow> string list \<Rightarrow> idp_error option" where
  "ccRolesErr seen [] = None"
| "ccRolesErr seen (role # roles) =
     (if role = [] \<or> role \<noteq> TrimSpace role \<or> ContainsAny role wsChars then Some errWhitespaceEntry
      else if role \<in> set seen then Some errDuplicateCCRole
      else ccRolesErr (role # seen) roles)"

definition validateCCRoles :: "Client \<Rightarrow> idp_error option" where
  "validateCCRoles c =
     (if length (c_ClientCredentialsRoles c) = 0 then None
      else if \<not> AllowsGrant c GrantClientCredentials then Some errGrantNotEnabled
      else ccRolesErr [] (c_ClientCredentialsRoles c))"

text \<open>The loop over \<^verbatim>\<open>c.GrantTypes\<close>; its result is \<^verbatim>\<open>hasCC\<close>.\<close>

fun scanGrants :: "bool \<Rightarrow> string list \<Rightarrow> string list \<Rightarrow> idp_error + bool" where
  "scanGrants hasCC seen [] = Inr hasCC"
| "scanGrants hasCC seen (g # gs) =
     (if g = GrantAuthorizationCode \<or> g = GrantRefreshToken then
        (if g \<in> set seen then Inl errDuplicateGrantType else scanGrants hasCC (g # seen) gs)
      else if g = GrantClientCredentials then
        (if g \<in> set seen then Inl errDuplicateGrantType else scanGrants True (g # seen) gs)
      else Inl errGrantTypesAllowed)"

definition validateGrants :: "Client \<Rightarrow> idp_error option" where
  "validateGrants c =
     (case scanGrants False [] (c_GrantTypes c) of
        Inl e \<Rightarrow> Some e
      | Inr hasCC \<Rightarrow>
          if \<not> hasCC then (if length (c_ClientCredentialsScopes c) > 0 then Some errGrantNotEnabled else None)
          else if \<not> Confidential c then Some errGrantWantsConfident
          else if length (c_ClientCredentialsScopes c) = 0 then Some errCCScopesRequired
          else firstErr (\<lambda>sc. if TrimSpace sc = [] \<or> sc \<noteq> TrimSpace sc \<or> ContainsAny sc wsChars
                              then Some errWhitespaceEntry else None) (c_ClientCredentialsScopes c))"

definition validateAllowedScopes :: "Client \<Rightarrow> idp_error option" where
  "validateAllowedScopes c =
     (let wantAuthority = TrimPrefix (audience c) ''api://''
      in firstErr (\<lambda>sc.
           if sc = [] \<or> sc \<noteq> TrimSpace sc \<or> ContainsAny sc wsChars then Some errWhitespaceEntry
           else case Cut (TrimPrefix sc ''api://'') (CHR ''/'') of
                  None \<Rightarrow> Some errAllowedScopeForm
                | Some (authority, name) \<Rightarrow>
                    if authority = [] \<or> name = [] then Some errAllowedScopeForm
                    else if authority \<noteq> wantAuthority then Some errAllowedScopeOwnAud
                    else None) (c_AllowedScopes c))"

definition validateProfile :: "Client \<Rightarrow> idp_error option" where
  "validateProfile c =
     orErr (if c_Type c = TypePublic then (if c_ClientSecret c \<noteq> [] then Some errPublicClientSecret else None)
            else if c_Type c = TypeConfidential then (if c_ClientSecret c = [] then Some errConfidentialNoSecret else None)
            else Some errClientTypeMustBe)
       (if ContainsAny (audience c) wsChars then Some errValueWhitespace
        else orErr (validateGrants c) (orErr (validateCCRoles c) (validateAllowedScopes c)))"

definition validateAbsoluteHTTPURL :: "url_parser \<Rightarrow> string \<Rightarrow> idp_error option" where
  "validateAbsoluteHTTPURL up raw =
     (let r = TrimSpace raw
      in if r = [] then Some errEmptyValue
         else case up r of
                None \<Rightarrow> Some (errUpstream ''net/url'')
              | Some u \<Rightarrow>
                  if (u_Scheme u \<noteq> ''http'' \<and> u_Scheme u \<noteq> ''https'') \<or> u_Host u = [] \<or> u_Fragment u \<noteq> []
                  then Some errURLAbsolute else None)"

definition validateURLs :: "url_parser \<Rightarrow> Client \<Rightarrow> idp_error option" where
  "validateURLs up c =
     (if Interactive c \<and> length (c_RedirectURIs c) = 0 then Some errRedirectURIRequired
      else orErr (firstErr (validateAbsoluteHTTPURL up) (c_RedirectURIs c))
          (orErr (firstErr (validateAbsoluteHTTPURL up) (c_PostLogoutRedirectURIs c))
             (firstErr (validateAbsoluteHTTPURL up) (c_AllowedOrigins c))))"

definition Client_validate :: "url_parser \<Rightarrow> Client \<Rightarrow> idp_error option" where
  "Client_validate up c =
     orErr (validateIdentity c)
       (orErr (validateProfile c)
         (orErr (validateURLs up c)
           (validateUserSlice (c_Users c))))"

fun clientSliceErr :: "url_parser \<Rightarrow> string list \<Rightarrow> Client list \<Rightarrow> idp_error option" where
  "clientSliceErr up seen [] = None"
| "clientSliceErr up seen (c # cs) =
     orErr (Client_validate up c)
       (if c_ClientID c \<in> set seen then Some errDuplicateClientID
        else clientSliceErr up (c_ClientID c # seen) cs)"

definition validateClientSlice :: "url_parser \<Rightarrow> Client list \<Rightarrow> idp_error option" where
  "validateClientSlice up clients = clientSliceErr up [] clients"

section \<open>The role registry\<close>

fun appRolesErr :: "string list \<Rightarrow> string list \<Rightarrow> idp_error option" where
  "appRolesErr seen [] = None"
| "appRolesErr seen (role # roles) =
     (if role = [] \<or> ContainsAny role wsChars then Some errFreeOfWhitespace
      else if role \<in> set seen then Some errDuplicateAppRole
      else appRolesErr (role # seen) roles)"

definition validateResourceRoles :: "ResourceDefinition \<Rightarrow> idp_error + (string \<Rightarrow> bool)" where
  "validateResourceRoles res =
     (if length (rd_AppRoles res) = 0 then Inl errAppRolesRequired
      else case appRolesErr [] (rd_AppRoles res) of
             Some e \<Rightarrow> Inl e
           | None \<Rightarrow> Inr (\<lambda>role. role \<in> set (rd_AppRoles res)))"

definition validateClientRolesAgainstRegistry ::
  "Client \<Rightarrow> (string \<rightharpoonup> (string \<Rightarrow> bool)) \<Rightarrow> idp_error option" where
  "validateClientRolesAgainstRegistry c roles =
     (case roles (audience c) of
        None \<Rightarrow> None
      | Some defined \<Rightarrow>
          orErr (firstErr (\<lambda>role. if \<not> defined role then Some errCCRoleNotDefined else None)
                   (c_ClientCredentialsRoles c))
            (firstErr (\<lambda>u. firstErr (\<lambda>role. if \<not> defined role then Some errUserRoleNotDefined else None)
                             (u_Roles u)) (c_Users c)))"

text \<open>The loop over the resources, with the role sets collected so far (their keys are the audiences seen).\<close>

fun scanResources :: "(string \<rightharpoonup> (string \<Rightarrow> bool)) \<Rightarrow> ResourceDefinition list \<Rightarrow>
    idp_error + (string \<rightharpoonup> (string \<Rightarrow> bool))" where
  "scanResources roles [] = Inr roles"
| "scanResources roles (res # rest) =
     (if rd_Audience res = [] \<or> ContainsAny (rd_Audience res) wsChars then Inl errFreeOfWhitespace
      else if roles (rd_Audience res) \<noteq> None then Inl errDuplicateResAudience
      else case validateResourceRoles res of
             Inl e \<Rightarrow> Inl e
           | Inr defined \<Rightarrow> scanResources (roles(rd_Audience res \<mapsto> defined)) rest)"

definition validateResourceRegistry :: "ResourceDefinition list \<Rightarrow> Client list \<Rightarrow> idp_error option" where
  "validateResourceRegistry resources clients =
     (case scanResources Map.empty resources of
        Inl e \<Rightarrow> Some e
      | Inr roles \<Rightarrow> firstErr (\<lambda>c. validateClientRolesAgainstRegistry c roles) clients)"

section \<open>The clients file\<close>

text \<open>
  \<^verbatim>\<open>encoding/json\<close> enters as the record of the four conversions the code performs; \<open>readScopedFile\<close>'s
  result and \<open>saveJSONFile\<close>'s argument are the file's bytes.
\<close>

record clients_codec =
  unmarshalArray :: "string \<Rightarrow> Client list option"
  unmarshalDoc :: "string \<Rightarrow> (Client list option \<times> ResourceDefinition list) option"
  marshalArray :: "Client list \<Rightarrow> string option"
  marshalDoc :: "Client list \<times> ResourceDefinition list \<Rightarrow> string option"

fun firstNonSpace :: "string \<Rightarrow> char" where
  "firstNonSpace [] = CHR 0x00"
| "firstNonSpace (b # bs) = (if b \<in> set wsChars then firstNonSpace bs else b)"

definition ReadClientsFile :: "clients_codec \<Rightarrow> url_parser \<Rightarrow> (idp_error + string) \<Rightarrow> idp_error + ClientsFile" where
  "ReadClientsFile js up file =
     (case file of
        Inl e \<Rightarrow> Inl e
      | Inr raw \<Rightarrow>
          (case (if firstNonSpace raw = CHR ''['' then
                   (case unmarshalArray js raw of
                      None \<Rightarrow> Inl (errUpstream ''encoding/json'')
                    | Some clients \<Rightarrow> Inr \<lparr>cf_Clients = clients, cf_Resources = []\<rparr>)
                 else if firstNonSpace raw = CHR ''{'' then
                   (case unmarshalDoc js raw of
                      None \<Rightarrow> Inl (errUpstream ''encoding/json'')
                    | Some (None, _) \<Rightarrow> Inl errClientsArrayMissing
                    | Some (Some clients, resources) \<Rightarrow> Inr \<lparr>cf_Clients = clients, cf_Resources = resources\<rparr>)
                 else Inl errClientsFileShape) of
             Inl e \<Rightarrow> Inl e
           | Inr file \<Rightarrow>
               (case validateClientSlice up (cf_Clients file) of
                  Some e \<Rightarrow> Inl e
                | None \<Rightarrow>
                    (case validateResourceRegistry (cf_Resources file) (cf_Clients file) of
                       Some e \<Rightarrow> Inl e
                     | None \<Rightarrow> Inr file))))"

definition ReadClients :: "clients_codec \<Rightarrow> url_parser \<Rightarrow> (idp_error + string) \<Rightarrow> idp_error + Client list" where
  "ReadClients js up file =
     (case ReadClientsFile js up file of Inl e \<Rightarrow> Inl e | Inr f \<Rightarrow> Inr (cf_Clients f))"

text \<open>The bytes handed to \<open>saveJSONFile\<close>, or the error.\<close>

definition SaveClientsFile :: "clients_codec \<Rightarrow> url_parser \<Rightarrow> ClientsFile \<Rightarrow> idp_error + string" where
  "SaveClientsFile js up file =
     (case validateClientSlice up (cf_Clients file) of
        Some e \<Rightarrow> Inl e
      | None \<Rightarrow>
          (case validateResourceRegistry (cf_Resources file) (cf_Clients file) of
             Some e \<Rightarrow> Inl e
           | None \<Rightarrow>
               (case (if length (cf_Resources file) > 0
                      then marshalDoc js (cf_Clients file, cf_Resources file)
                      else marshalArray js (cf_Clients file)) of
                  None \<Rightarrow> Inl (errUpstream ''encoding/json'')
                | Some data \<Rightarrow> Inr (data @ [CHR 0x0A]))))"

definition ValidateClient :: "url_parser \<Rightarrow> Client \<Rightarrow> idp_error option" where
  "ValidateClient up c = Client_validate up c"

definition SaveClients :: "clients_codec \<Rightarrow> url_parser \<Rightarrow> Client list \<Rightarrow> idp_error + string" where
  "SaveClients js up clients = SaveClientsFile js up \<lparr>cf_Clients = clients, cf_Resources = []\<rparr>"

section \<open>Registered clients\<close>

record registeredClient =
  rc_users :: staticUserStore
  rc_explicitOrigins :: "string \<Rightarrow> bool"
  rc_client :: Client

definition rc_ID :: "registeredClient \<Rightarrow> string" where
  "rc_ID rc = c_ClientID (rc_client rc)"

definition rc_Audience :: "registeredClient \<Rightarrow> string" where
  "rc_Audience rc = audience (rc_client rc)"

definition rc_Confidential :: "registeredClient \<Rightarrow> bool" where
  "rc_Confidential rc = Confidential (rc_client rc)"

definition rc_AllowsGrant :: "registeredClient \<Rightarrow> string \<Rightarrow> bool" where
  "rc_AllowsGrant rc grant = AllowsGrant (rc_client rc) grant"

definition clientCredentialsScopes :: "registeredClient \<Rightarrow> string list" where
  "clientCredentialsScopes rc = c_ClientCredentialsScopes (rc_client rc)"

definition clientCredentialsRoles :: "registeredClient \<Rightarrow> string list" where
  "clientCredentialsRoles rc = c_ClientCredentialsRoles (rc_client rc)"

definition resolveClientCredentialsScopes :: "registeredClient \<Rightarrow> string \<Rightarrow> string list option" where
  "resolveClientCredentialsScopes rc requested0 =
     (let configured = clientCredentialsScopes rc;
          requested = TrimSpace requested0
      in if requested = [] then Some configured
         else (let aud = TrimPrefix (rc_Audience rc) ''api://''
               in if requested = aud @ ''/.default'' \<or> requested = ''api://'' @ aud @ ''/.default''
                  then Some configured
                  else case find (\<lambda>sc. sc = requested) configured of
                         Some sc \<Rightarrow> Some [sc]
                       | None \<Rightarrow> None))"

definition allowsScope :: "registeredClient \<Rightarrow> string \<Rightarrow> bool" where
  "allowsScope rc sc \<longleftrightarrow> sc \<in> set (c_AllowedScopes (rc_client rc))"

definition rc_secret :: "registeredClient \<Rightarrow> string" where
  "rc_secret rc = c_ClientSecret (rc_client rc)"

definition rc_userCount :: "registeredClient \<Rightarrow> nat" where
  "rc_userCount rc = Count (rc_users rc)"

definition redirectURIAllowed :: "registeredClient \<Rightarrow> string \<Rightarrow> bool" where
  "redirectURIAllowed rc raw \<longleftrightarrow> raw \<in> set (c_RedirectURIs (rc_client rc))"

definition constantTimeEqual :: "string \<Rightarrow> string \<Rightarrow> bool" where
  "constantTimeEqual a b = ConstantTimeCompare a b"

lemma constantTimeEqual_eq [simp]: "constantTimeEqual a b \<longleftrightarrow> a = b"
  by (simp add: constantTimeEqual_def)

section \<open>The registry\<close>

record clientRegistry =
  byID :: "string \<rightharpoonup> registeredClient"
  redirects :: "string \<Rightarrow> string list"
  logoutRedirects :: "string \<Rightarrow> string list"
  audiences :: "string \<Rightarrow> bool"
  origins :: "string \<Rightarrow> bool"
  ids :: "string list"
  hasConfidential :: bool

definition emptyRegistry :: clientRegistry where
  "emptyRegistry = \<lparr>byID = Map.empty, redirects = (\<lambda>_. []), logoutRedirects = (\<lambda>_. []),
     audiences = (\<lambda>_. False), origins = (\<lambda>_. False), ids = [], hasConfidential = False\<rparr>"

definition originsOf :: "url_parser \<Rightarrow> string list \<Rightarrow> string \<Rightarrow> bool" where
  "originsOf up uris org \<longleftrightarrow>
     list_ex (\<lambda>raw. case up raw of None \<Rightarrow> False
                    | Some u \<Rightarrow> u_Host u \<noteq> [] \<and> org = u_Scheme u @ ''://'' @ u_Host u) uris"

definition registerOne :: "url_parser \<Rightarrow> Client \<Rightarrow> staticUserStore \<Rightarrow> clientRegistry \<Rightarrow> clientRegistry" where
  "registerOne up c users r =
     (let rc = \<lparr>rc_users = users,
                rc_explicitOrigins = (\<lambda>org. org \<in> set (map (\<lambda>o'. TrimSuffix o' ''/'') (c_AllowedOrigins c))),
                rc_client = c\<rparr>
      in r\<lparr>origins := (\<lambda>org. origins r org \<or> originsOf up (c_RedirectURIs c) org \<or> rc_explicitOrigins rc org),
           byID := (byID r)(c_ClientID c \<mapsto> rc),
           ids := ids r @ [c_ClientID c],
           redirects := (redirects r)(c_ClientID c := c_RedirectURIs c),
           logoutRedirects := (logoutRedirects r)(c_ClientID c := c_PostLogoutRedirectURIs c),
           audiences := (audiences r)(rc_Audience rc := True),
           hasConfidential := hasConfidential r \<or> rc_Confidential rc\<rparr>)"

fun indexClients :: "url_parser \<Rightarrow> (string \<Rightarrow> int \<Rightarrow> string option) \<Rightarrow> clientRegistry \<Rightarrow> Client list \<Rightarrow>
    idp_error + clientRegistry" where
  "indexClients up gen r [] = Inr r"
| "indexClients up gen r (c # cs) =
     (if Interactive c \<and> length (c_Users c) = 0 then Inl errNoUsersRegistered
      else if byID r (c_ClientID c) \<noteq> None then Inl errDuplicateClientID
      else case newStaticUserStore gen (c_Users c) of
             None \<Rightarrow> Inl (errUpstream ''panic: bcrypt'')
           | Some users \<Rightarrow> indexClients up gen (registerOne up c users r) cs)"

definition newClientRegistry :: "url_parser \<Rightarrow> (string \<Rightarrow> int \<Rightarrow> string option) \<Rightarrow> Client list \<Rightarrow>
    idp_error + clientRegistry" where
  "newClientRegistry up gen clients =
     (if length clients = 0 then Inl errNoClientsRegistered else indexClients up gen emptyRegistry clients)"

definition LoadClients :: "clients_codec \<Rightarrow> url_parser \<Rightarrow> (string \<Rightarrow> int \<Rightarrow> string option) \<Rightarrow> (idp_error + string) \<Rightarrow>
    idp_error + clientRegistry" where
  "LoadClients js up gen file =
     (case ReadClientsFile js up file of
        Inl e \<Rightarrow> Inl e
      | Inr f \<Rightarrow> newClientRegistry up gen (cf_Clients f))"

definition lookup :: "clientRegistry \<Rightarrow> string \<Rightarrow> registeredClient option" where
  "lookup r clientID = byID r clientID"

definition clientIDs :: "clientRegistry \<Rightarrow> string list" where
  "clientIDs r = ids r"

definition allowedOrigins :: "clientRegistry \<Rightarrow> string \<Rightarrow> bool" where
  "allowedOrigins r = origins r"

definition anyConfidential :: "clientRegistry \<Rightarrow> bool" where
  "anyConfidential r = hasConfidential r"

definition anyClientCredentials :: "clientRegistry \<Rightarrow> bool" where
  "anyClientCredentials r =
     list_ex (\<lambda>i. case byID r i of Some rc \<Rightarrow> rc_AllowsGrant rc GrantClientCredentials | None \<Rightarrow> False) (ids r)"

definition audienceAllowed :: "clientRegistry \<Rightarrow> string list \<Rightarrow> bool" where
  "audienceAllowed r aud = list_ex (audiences r) aud"

fun firstWithAudience :: "clientRegistry \<Rightarrow> string \<Rightarrow> string list \<Rightarrow> registeredClient option" where
  "firstWithAudience r aud [] = None"
| "firstWithAudience r aud (i # is) =
     (case byID r i of
        Some rc \<Rightarrow> if rc_Audience rc = aud then Some rc else firstWithAudience r aud is
      | None \<Rightarrow> firstWithAudience r aud is)"

definition clientForAudience :: "clientRegistry \<Rightarrow> string \<Rightarrow> registeredClient option" where
  "clientForAudience r aud = firstWithAudience r aud (ids r)"

fun appendUnseen :: "string list \<Rightarrow> string list \<Rightarrow> string list" where
  "appendUnseen out [] = out"
| "appendUnseen out (sc # scs) = appendUnseen (if sc \<in> set out then out else out @ [sc]) scs"

definition delegatedScopes :: "clientRegistry \<Rightarrow> string list" where
  "delegatedScopes r =
     fold (\<lambda>i out. case byID r i of Some rc \<Rightarrow> appendUnseen out (c_AllowedScopes (rc_client rc)) | None \<Rightarrow> out) (ids r) []"

definition userCount :: "clientRegistry \<Rightarrow> nat" where
  "userCount r = sum_list (map (\<lambda>i. case byID r i of Some rc \<Rightarrow> rc_userCount rc | None \<Rightarrow> 0) (ids r))"

section \<open>Validation accepts exactly the well-formed entries\<close>

definition entryOk :: "string \<Rightarrow> bool" where
  "entryOk s \<longleftrightarrow> s \<noteq> [] \<and> TrimSpace s = s \<and> \<not> ContainsAny s wsChars"

definition scopeOk :: "string \<Rightarrow> string \<Rightarrow> bool" where
  "scopeOk authority sc \<longleftrightarrow>
     entryOk sc \<and> authority \<noteq> [] \<and> (\<exists>name. name \<noteq> [] \<and> Cut (TrimPrefix sc ''api://'') (CHR ''/'') = Some (authority, name))"

definition urlOk :: "url_parser \<Rightarrow> string \<Rightarrow> bool" where
  "urlOk up raw \<longleftrightarrow> TrimSpace raw \<noteq> [] \<and>
     (\<exists>u. up (TrimSpace raw) = Some u \<and> u_Scheme u \<in> {''http'', ''https''} \<and> u_Host u \<noteq> [] \<and> u_Fragment u = [])"

definition grantsOk :: "Client \<Rightarrow> bool" where
  "grantsOk c \<longleftrightarrow>
     distinct (c_GrantTypes c)
     \<and> set (c_GrantTypes c) \<subseteq> {GrantAuthorizationCode, GrantRefreshToken, GrantClientCredentials}
     \<and> (if GrantClientCredentials \<in> set (c_GrantTypes c)
        then Confidential c \<and> c_ClientCredentialsScopes c \<noteq> [] \<and> (\<forall>sc \<in> set (c_ClientCredentialsScopes c). entryOk sc)
        else c_ClientCredentialsScopes c = [])"

definition clientOk :: "url_parser \<Rightarrow> Client \<Rightarrow> bool" where
  "clientOk up c \<longleftrightarrow>
     entryOk (c_ClientID c)
     \<and> (c_Type c = TypePublic \<and> c_ClientSecret c = [] \<or> c_Type c = TypeConfidential \<and> c_ClientSecret c \<noteq> [])
     \<and> \<not> ContainsAny (audience c) wsChars
     \<and> grantsOk c
     \<and> (c_ClientCredentialsRoles c \<noteq> [] \<longrightarrow> AllowsGrant c GrantClientCredentials)
     \<and> (\<forall>role \<in> set (c_ClientCredentialsRoles c). entryOk role) \<and> distinct (c_ClientCredentialsRoles c)
     \<and> (\<forall>sc \<in> set (c_AllowedScopes c). scopeOk (TrimPrefix (audience c) ''api://'') sc)
     \<and> (Interactive c \<longrightarrow> c_RedirectURIs c \<noteq> [])
     \<and> (\<forall>raw \<in> set (c_RedirectURIs c) \<union> set (c_PostLogoutRedirectURIs c) \<union> set (c_AllowedOrigins c). urlOk up raw)
     \<and> (\<forall>u \<in> set (c_Users c). userOk u) \<and> distinct (map u_Username (c_Users c))"

lemma TrimSpace_Nil [simp]: "TrimSpace [] = []"
  by (simp add: TrimSpace_def TrimLeftSpace.simps [of "[]"] TrimRightSpace.simps [of "[]"])

lemma entryOk_alt: "entryOk s \<longleftrightarrow> \<not> (s = [] \<or> s \<noteq> TrimSpace s \<or> ContainsAny s wsChars)"
  unfolding entryOk_def by metis

lemma entryOk_trim: "entryOk s \<longleftrightarrow> \<not> (TrimSpace s = [] \<or> s \<noteq> TrimSpace s \<or> ContainsAny s wsChars)"
  unfolding entryOk_def by (metis TrimSpace_Nil)

interpretation ccRoles: seen_loop ccRolesErr entryOk "\<lambda>role. role"
  by unfold_locales (simp_all add: entryOk_alt if_split_eq1 del: de_Morgan_disj, blast)

interpretation clientSlice: seen_loop "clientSliceErr up" "\<lambda>c. Client_validate up c = None" c_ClientID for up
  by unfold_locales auto

lemma validateIdentity_None: "validateIdentity c = None \<longleftrightarrow> entryOk (c_ClientID c)"
  unfolding validateIdentity_def entryOk_trim by simp

lemma scanGrants_Inr:
  "scanGrants h seen gs = Inr b \<longleftrightarrow>
     set gs \<subseteq> {GrantAuthorizationCode, GrantRefreshToken, GrantClientCredentials} \<and> distinct gs
     \<and> set gs \<inter> set seen = {} \<and> b = (h \<or> GrantClientCredentials \<in> set gs)"
  by (induction gs arbitrary: h seen) auto

lemma validateGrants_None: "validateGrants c = None \<longleftrightarrow> grantsOk c"
proof (cases "scanGrants False [] (c_GrantTypes c)")
  case (Inl e)
  have "\<not> grantsOk c"
  proof
    assume "grantsOk c"
    then have "scanGrants False [] (c_GrantTypes c) = Inr (GrantClientCredentials \<in> set (c_GrantTypes c))"
      by (simp add: scanGrants_Inr grantsOk_def)
    with Inl show False by simp
  qed
  with Inl show ?thesis by (simp add: validateGrants_def)
next
  case (Inr b)
  then have "set (c_GrantTypes c) \<subseteq> {GrantAuthorizationCode, GrantRefreshToken, GrantClientCredentials}"
    "distinct (c_GrantTypes c)" "b = (GrantClientCredentials \<in> set (c_GrantTypes c))"
    by (simp_all add: scanGrants_Inr)
  with Inr show ?thesis
    by (simp add: validateGrants_def grantsOk_def entryOk_trim del: de_Morgan_disj)
qed

lemma scopeErr_None:
  "(if sc = [] \<or> sc \<noteq> TrimSpace sc \<or> ContainsAny sc wsChars then Some errWhitespaceEntry
    else case Cut (TrimPrefix sc ''api://'') (CHR ''/'') of
           None \<Rightarrow> Some errAllowedScopeForm
         | Some (authority, name) \<Rightarrow>
             if authority = [] \<or> name = [] then Some errAllowedScopeForm
             else if authority \<noteq> want then Some errAllowedScopeOwnAud
             else None) = None \<longleftrightarrow> scopeOk want sc"
  unfolding scopeOk_def entryOk_alt
  by (cases "sc = [] \<or> sc \<noteq> TrimSpace sc \<or> ContainsAny sc wsChars")
    (simp_all del: de_Morgan_disj split: option.split prod.split, blast)

lemma validateAllowedScopes_None:
  "validateAllowedScopes c = None \<longleftrightarrow> (\<forall>sc \<in> set (c_AllowedScopes c). scopeOk (TrimPrefix (audience c) ''api://'') sc)"
  unfolding validateAllowedScopes_def Let_def firstErr_None scopeErr_None ..

lemma validateCCRoles_None:
  "validateCCRoles c = None \<longleftrightarrow> (c_ClientCredentialsRoles c \<noteq> [] \<longrightarrow> AllowsGrant c GrantClientCredentials)
     \<and> (\<forall>role \<in> set (c_ClientCredentialsRoles c). entryOk role) \<and> distinct (c_ClientCredentialsRoles c)"
  by (auto simp: validateCCRoles_def ccRoles.loop_None)

lemma validateAbsoluteHTTPURL_None: "validateAbsoluteHTTPURL up raw = None \<longleftrightarrow> urlOk up raw"
  by (auto simp: validateAbsoluteHTTPURL_def urlOk_def Let_def split: option.splits)

lemma validateURLs_None:
  "validateURLs up c = None \<longleftrightarrow> (Interactive c \<longrightarrow> c_RedirectURIs c \<noteq> [])
     \<and> (\<forall>raw \<in> set (c_RedirectURIs c) \<union> set (c_PostLogoutRedirectURIs c) \<union> set (c_AllowedOrigins c). urlOk up raw)"
  by (auto simp: validateURLs_def validateAbsoluteHTTPURL_None)

lemma validateProfile_None:
  "validateProfile c = None \<longleftrightarrow>
     (c_Type c = TypePublic \<and> c_ClientSecret c = [] \<or> c_Type c = TypeConfidential \<and> c_ClientSecret c \<noteq> [])
     \<and> \<not> ContainsAny (audience c) wsChars \<and> validateGrants c = None \<and> validateCCRoles c = None
     \<and> validateAllowedScopes c = None"
  by (auto simp: validateProfile_def)

lemma Client_validate_None: "Client_validate up c = None \<longleftrightarrow> clientOk up c"
  unfolding Client_validate_def clientOk_def orErr_None validateIdentity_None validateProfile_None
    validateGrants_None validateCCRoles_None validateAllowedScopes_None validateURLs_None validateUserSlice_None
  by blast

lemma validateClientSlice_None:
  "validateClientSlice up clients = None \<longleftrightarrow> (\<forall>c \<in> set clients. clientOk up c) \<and> distinct (map c_ClientID clients)"
  by (simp add: validateClientSlice_def clientSlice.loop_None Client_validate_None)

subsection \<open>The rules of the documentation\<close>

text \<open>
  The rules of \<^verbatim>\<open>docs/clients.md\<close> and of the comments of the fields, written out without the functions that check them. Blanks are
  the space, tab, carriage return and line feed.
\<close>

definition cleanEntry :: "string \<Rightarrow> bool" where
  "cleanEntry s \<longleftrightarrow> s \<noteq> [] \<and> TrimSpace s = s \<and> set s \<inter> {CHR '' '', CHR 0x09, CHR 0x0D, CHR 0x0A} = {}"

definition documentedUser :: "User \<Rightarrow> bool" where
  "documentedUser u \<longleftrightarrow> u_Username u \<noteq> [] \<and> TrimSpace (u_Username u) = u_Username u
     \<and> length (u_PasswordHash u) = 60 \<and> (\<exists>p \<in> {''$2a$'', ''$2b$'', ''$2y$''}. prefix p (u_PasswordHash u))
     \<and> (\<forall>r \<in> set (u_Roles u). r \<noteq> [] \<and> TrimSpace r = r) \<and> distinct (u_Roles u)"

definition documentedEntry :: "url_parser \<Rightarrow> Client \<Rightarrow> bool" where
  "documentedEntry up c \<longleftrightarrow>
     (let aud = (if c_Audience c = [] then c_ClientID c else c_Audience c);
          confidential = (c_Type c = ''confidential'');
          allowed = (if c_GrantTypes c = [] then [''authorization_code'', ''refresh_token''] else c_GrantTypes c);
          machine = (''client_credentials'' \<in> set allowed)
      in cleanEntry (c_ClientID c)
       \<and> c_Type c \<in> {''public'', ''confidential''} \<and> (confidential \<longleftrightarrow> c_ClientSecret c \<noteq> [])
       \<and> set aud \<inter> {CHR '' '', CHR 0x09, CHR 0x0D, CHR 0x0A} = {}
       \<and> set allowed \<subseteq> {''authorization_code'', ''refresh_token'', ''client_credentials''} \<and> distinct allowed
       \<and> (machine \<longrightarrow> confidential) \<and> (machine \<longleftrightarrow> c_ClientCredentialsScopes c \<noteq> [])
       \<and> (\<forall>sc \<in> set (c_ClientCredentialsScopes c). cleanEntry sc)
       \<and> (c_ClientCredentialsRoles c \<noteq> [] \<longrightarrow> machine)
       \<and> (\<forall>role \<in> set (c_ClientCredentialsRoles c). cleanEntry role) \<and> distinct (c_ClientCredentialsRoles c)
       \<and> (\<forall>sc \<in> set (c_AllowedScopes c). cleanEntry sc
            \<and> (\<exists>authority name. authority \<noteq> [] \<and> CHR ''/'' \<notin> set authority \<and> name \<noteq> [] \<and> (aud = authority \<or> aud = ''api://'' @ authority)
                \<and> sc = ''api://'' @ authority @ ''/'' @ name))
       \<and> (''authorization_code'' \<in> set allowed \<or> ''refresh_token'' \<in> set allowed \<longrightarrow> c_RedirectURIs c \<noteq> [])
       \<and> (\<forall>raw \<in> set (c_RedirectURIs c) \<union> set (c_PostLogoutRedirectURIs c) \<union> set (c_AllowedOrigins c).
            raw \<noteq> [] \<and> (\<exists>u. up raw = Some u \<and> u_Scheme u \<in> {''http'', ''https''} \<and> u_Host u \<noteq> [] \<and> u_Fragment u = []))
       \<and> (\<forall>u \<in> set (c_Users c). documentedUser u) \<and> distinct (map u_Username (c_Users c)))"

lemma cleanEntry_ok: "entryOk s \<longleftrightarrow> cleanEntry s"
  by (auto simp: entryOk_def cleanEntry_def ContainsAny_def wsChars_def list_ex_iff)

lemma documentedUser_ok: "userOk u \<longleftrightarrow> documentedUser u"
  by (auto simp: userOk_def documentedUser_def isBcryptHash_def)

lemma documentedScope_ok:
  assumes "prefix ''api://'' sc"
  shows "scopeOk (TrimPrefix aud ''api://'') sc \<longleftrightarrow>
    cleanEntry sc \<and> (\<exists>authority name. authority \<noteq> [] \<and> CHR ''/'' \<notin> set authority \<and> name \<noteq> [] \<and> (aud = authority \<or> aud = ''api://'' @ authority)
                \<and> sc = ''api://'' @ authority @ ''/'' @ name)"
proof -
  obtain rest where sc: "sc = ''api://'' @ rest" using assms(1) by (auto simp: prefix_def)
  have aud: "aud = authority \<or> aud = ''api://'' @ authority \<longleftrightarrow> authority = TrimPrefix aud ''api://''"
    if "CHR ''/'' \<notin> set authority" for authority
    using that by (auto simp: TrimPrefix_def prefix_def)
  have trim: "TrimPrefix sc ''api://'' = rest" by (simp only: sc TrimPrefix_append)
  have "scopeOk (TrimPrefix aud ''api://'') sc \<longleftrightarrow> cleanEntry sc \<and>
      (\<exists>authority name. authority = TrimPrefix aud ''api://'' \<and> authority \<noteq> [] \<and> CHR ''/'' \<notin> set authority \<and> name \<noteq> []
        \<and> rest = authority @ ''/'' @ name)"
    by (auto simp: scopeOk_def cleanEntry_ok trim Cut_Some)
  moreover have "authority = TrimPrefix aud ''api://'' \<and> authority \<noteq> [] \<and> CHR ''/'' \<notin> set authority \<and> name \<noteq> [] \<and> rest = authority @ ''/'' @ name
      \<longleftrightarrow> authority \<noteq> [] \<and> CHR ''/'' \<notin> set authority \<and> name \<noteq> [] \<and> (aud = authority \<or> aud = ''api://'' @ authority)
        \<and> sc = ''api://'' @ authority @ ''/'' @ name" for authority name
  proof -
    have "sc = ''api://'' @ authority @ ''/'' @ name \<longleftrightarrow> rest = authority @ ''/'' @ name"
      unfolding sc by (rule same_append_eq)
    then show ?thesis using aud [of authority] by argo
  qed
  ultimately show ?thesis by (simp only:)
qed

text \<open>
  C27. Validation of a clients-file entry accepts exactly the entries that the documentation describes: a clean client id, a secret
  if and only if the client is confidential, known and distinct grants, machine-to-machine scopes and roles only
  (and non-empty scopes always) with the client-credentials grant of a confidential client, delegated scopes of the form
  \<^verbatim>\<open>api://<audience>/<name>\<close> with the client's own audience only, absolute http(s) URLs without fragment, at least one redirect URI for
  an interactive client, and well-formed users with distinct names. This is for entries whose delegated scopes start with
  \<^verbatim>\<open>api://\<close> and whose URLs have no surrounding blanks; outside of these the code and its documentation differ.
\<close>

theorem client_validation_exact:
  assumes "\<forall>sc \<in> set (c_AllowedScopes c). prefix ''api://'' sc"
    and "\<forall>raw \<in> set (c_RedirectURIs c) \<union> set (c_PostLogoutRedirectURIs c) \<union> set (c_AllowedOrigins c). TrimSpace raw = raw"
  shows "Client_validate up c = None \<longleftrightarrow> documentedEntry up c"
proof -
  have aud: "audience c = (if c_Audience c = [] then c_ClientID c else c_Audience c)" by (simp add: audience_def)
  have gs: "grants c = (if c_GrantTypes c = [] then [GrantAuthorizationCode, GrantRefreshToken] else c_GrantTypes c)" by (simp add: grants_def)
  have scopes: "(\<forall>sc \<in> set (c_AllowedScopes c). scopeOk (TrimPrefix (audience c) ''api://'') sc) \<longleftrightarrow>
      (\<forall>sc \<in> set (c_AllowedScopes c). cleanEntry sc \<and> (\<exists>authority name. authority \<noteq> [] \<and> CHR ''/'' \<notin> set authority \<and> name \<noteq> []
         \<and> (audience c = authority \<or> audience c = ''api://'' @ authority) \<and> sc = ''api://'' @ authority @ ''/'' @ name))"
    by (intro ball_cong refl documentedScope_ok) (use assms(1) in blast)
  have "urlOk up raw \<longleftrightarrow> raw \<noteq> [] \<and> (\<exists>u. up raw = Some u \<and> u_Scheme u \<in> {''http'', ''https''} \<and> u_Host u \<noteq> [] \<and> u_Fragment u = [])"
    if "raw \<in> set (c_RedirectURIs c) \<union> set (c_PostLogoutRedirectURIs c) \<union> set (c_AllowedOrigins c)" for raw
    using assms(2) that by (auto simp: urlOk_def)
  then have urls: "(\<forall>raw \<in> set (c_RedirectURIs c) \<union> set (c_PostLogoutRedirectURIs c) \<union> set (c_AllowedOrigins c). urlOk up raw) \<longleftrightarrow>
      (\<forall>raw \<in> set (c_RedirectURIs c) \<union> set (c_PostLogoutRedirectURIs c) \<union> set (c_AllowedOrigins c). raw \<noteq> []
        \<and> (\<exists>u. up raw = Some u \<and> u_Scheme u \<in> {''http'', ''https''} \<and> u_Host u \<noteq> [] \<and> u_Fragment u = []))"
    by (rule ball_cong [OF refl])
  have gr: "grantsOk c \<longleftrightarrow> set (grants c) \<subseteq> {''authorization_code'', ''refresh_token'', ''client_credentials''} \<and> distinct (grants c)
      \<and> (''client_credentials'' \<in> set (grants c) \<longrightarrow> c_Type c = ''confidential'')
      \<and> (''client_credentials'' \<in> set (grants c) \<longleftrightarrow> c_ClientCredentialsScopes c \<noteq> [])
      \<and> (\<forall>sc \<in> set (c_ClientCredentialsScopes c). cleanEntry sc)"
    by (auto simp: grantsOk_def gs Confidential_def cleanEntry_ok)
  have blanks: "\<not> ContainsAny (audience c) wsChars \<longleftrightarrow> set (audience c) \<inter> {CHR '' '', CHR 0x09, CHR 0x0D, CHR 0x0A} = {}"
    by (auto simp: ContainsAny_def wsChars_def list_ex_iff)
  have type: "c_Type c = ''public'' \<and> c_ClientSecret c = [] \<or> c_Type c = ''confidential'' \<and> c_ClientSecret c \<noteq> [] \<longleftrightarrow>
      c_Type c \<in> {''public'', ''confidential''} \<and> (c_Type c = ''confidential'' \<longleftrightarrow> c_ClientSecret c \<noteq> [])"
    by auto
  show ?thesis
    unfolding Client_validate_None clientOk_def documentedEntry_def Let_def Interactive_def AllowsGrant_def gr scopes urls blanks type
      cleanEntry_ok documentedUser_ok aud [symmetric] gs [symmetric]
    by (simp only: conj_assoc)
qed

section \<open>The registry built from a validated file\<close>

definition usersMatch :: "staticUserStore \<Rightarrow> User list \<Rightarrow> bool" where
  "usersMatch s users \<longleftrightarrow> userStoreOk s \<and> (\<forall>n u. Lookup s n = Some u \<longleftrightarrow> u \<in> set users \<and> u_Username u = n)"

text \<open>One entry of the index is a validated client with its own accounts and its own redirect policy.\<close>

definition entryIndexed :: "url_parser \<Rightarrow> clientRegistry \<Rightarrow> string \<Rightarrow> registeredClient \<Rightarrow> bool" where
  "entryIndexed up r i rc \<longleftrightarrow>
     rc_ID rc = i \<and> clientOk up (rc_client rc) \<and> usersMatch (rc_users rc) (c_Users (rc_client rc))
     \<and> (Interactive (rc_client rc) \<longrightarrow> c_Users (rc_client rc) \<noteq> [])
     \<and> redirects r i = c_RedirectURIs (rc_client rc)
     \<and> logoutRedirects r i = c_PostLogoutRedirectURIs (rc_client rc)"

definition registryOk :: "url_parser \<Rightarrow> clientRegistry \<Rightarrow> bool" where
  "registryOk up r \<longleftrightarrow>
     distinct (ids r) \<and> (\<forall>i. i \<in> set (ids r) \<longleftrightarrow> byID r i \<noteq> None)
     \<and> (\<forall>i rc. byID r i = Some rc \<longrightarrow> entryIndexed up r i rc)
     \<and> (\<forall>i. byID r i = None \<longrightarrow> redirects r i = [] \<and> logoutRedirects r i = [])
     \<and> (\<forall>a. audiences r a \<longleftrightarrow> (\<exists>i rc. byID r i = Some rc \<and> rc_Audience rc = a))
     \<and> (hasConfidential r \<longleftrightarrow> (\<exists>i rc. byID r i = Some rc \<and> rc_Confidential rc))
     \<and> (\<forall>org. origins r org \<longleftrightarrow> (\<exists>i rc. byID r i = Some rc
            \<and> (originsOf up (c_RedirectURIs (rc_client rc)) org
               \<or> org \<in> set (map (\<lambda>o'. TrimSuffix o' ''/'') (c_AllowedOrigins (rc_client rc))))))"

lemma registryOk_empty: "registryOk up emptyRegistry"
  by (simp add: registryOk_def emptyRegistry_def)

lemma entryIndexed_registerOne:
  assumes "entryIndexed up r i rc" "i \<noteq> c_ClientID c"
  shows "entryIndexed up (registerOne up c users r) i rc"
  using assms by (simp add: entryIndexed_def registerOne_def Let_def)

lemma registerOne_maps:
  "byID (registerOne up c users r) =
     (byID r)(c_ClientID c \<mapsto> \<lparr>rc_users = users,
        rc_explicitOrigins = (\<lambda>org. org \<in> set (map (\<lambda>o'. TrimSuffix o' ''/'') (c_AllowedOrigins c))), rc_client = c\<rparr>)"
  "ids (registerOne up c users r) = ids r @ [c_ClientID c]"
  "redirects (registerOne up c users r) = (redirects r)(c_ClientID c := c_RedirectURIs c)"
  "logoutRedirects (registerOne up c users r) = (logoutRedirects r)(c_ClientID c := c_PostLogoutRedirectURIs c)"
  "audiences (registerOne up c users r) = (audiences r)(audience c := True)"
  "hasConfidential (registerOne up c users r) = (hasConfidential r \<or> Confidential c)"
  "origins (registerOne up c users r) = (\<lambda>org. origins r org \<or> originsOf up (c_RedirectURIs c) org
      \<or> org \<in> set (map (\<lambda>o'. TrimSuffix o' ''/'') (c_AllowedOrigins c)))"
  by (simp_all add: registerOne_def Let_def rc_Audience_def rc_Confidential_def)

lemma registryOk_registerOne:
  assumes ok: "registryOk up r" and new: "byID r (c_ClientID c) = None" and c: "clientOk up c"
    and users: "newStaticUserStore gen (c_Users c) = Some users" "Interactive c \<longrightarrow> c_Users c \<noteq> []"
  shows "registryOk up (registerOne up c users r)"
proof -
  let ?r = "registerOne up c users r"
  have match: "usersMatch users (c_Users c)"
    using newStaticUserStore_ok [OF users(1)] Lookup_newStaticUserStore [OF users(1)] c
    by (simp add: usersMatch_def clientOk_def)
  have "distinct (ids ?r)" "\<And>i. i \<in> set (ids ?r) \<longleftrightarrow> byID ?r i \<noteq> None"
    using ok new by (auto simp: registryOk_def registerOne_maps)
  moreover have "entryIndexed up ?r i rc" if "byID ?r i = Some rc" for i rc
  proof (cases "i = c_ClientID c")
    case True
    with that show ?thesis
      using match c users(2) by (auto simp: entryIndexed_def registerOne_maps rc_ID_def)
  next
    case False
    with that ok have "entryIndexed up r i rc"
      by (simp add: registerOne_maps registryOk_def)
    then show ?thesis using False by (rule entryIndexed_registerOne)
  qed
  moreover have "redirects ?r i = [] \<and> logoutRedirects ?r i = []" if "byID ?r i = None" for i
    using that ok by (auto simp: registerOne_maps registryOk_def split: if_splits)
  moreover have "audiences ?r a \<longleftrightarrow> (\<exists>i rc. byID ?r i = Some rc \<and> rc_Audience rc = a)" for a
    using ok unfolding registerOne_maps ex_map_upd [of "byID r", OF new] by (auto simp: registryOk_def rc_Audience_def)
  moreover have "hasConfidential ?r \<longleftrightarrow> (\<exists>i rc. byID ?r i = Some rc \<and> rc_Confidential rc)"
    using ok unfolding registerOne_maps ex_map_upd [of "byID r", OF new] by (simp add: registryOk_def rc_Confidential_def)
  moreover have "origins ?r org \<longleftrightarrow> (\<exists>i rc. byID ?r i = Some rc
            \<and> (originsOf up (c_RedirectURIs (rc_client rc)) org
               \<or> org \<in> set (map (\<lambda>o'. TrimSuffix o' ''/'') (c_AllowedOrigins (rc_client rc)))))" for org
    using ok unfolding registerOne_maps ex_map_upd [of "byID r", OF new] by (simp add: registryOk_def)
  ultimately show ?thesis
    unfolding registryOk_def by blast
qed

lemma indexClients_ok:
  "indexClients up gen r cs = Inr r' \<Longrightarrow> registryOk up r \<Longrightarrow> \<forall>c \<in> set cs. clientOk up c \<Longrightarrow>
     registryOk up r' \<and> ids r' = ids r @ map c_ClientID cs"
proof (induction cs arbitrary: r)
  case (Cons c cs)
  then obtain users where users: "newStaticUserStore gen (c_Users c) = Some users"
    and rest: "indexClients up gen (registerOne up c users r) cs = Inr r'"
    and new: "byID r (c_ClientID c) = None" "Interactive c \<longrightarrow> c_Users c \<noteq> []"
    by (auto split: if_splits option.splits)
  have "registryOk up (registerOne up c users r)"
    using Cons.prems new users by (intro registryOk_registerOne [where gen = gen]) auto
  from Cons.IH [OF rest this] Cons.prems(3) show ?case
    by (simp add: registerOne_maps)
qed simp

lemma LoadClients_ok:
  assumes "LoadClients js up gen file = Inr r"
  shows "registryOk up r \<and> ids r \<noteq> []"
proof -
  from assms obtain f where f: "ReadClientsFile js up file = Inr f" "newClientRegistry up gen (cf_Clients f) = Inr r"
    by (auto simp: LoadClients_def split: sum.splits)
  then have "\<forall>c \<in> set (cf_Clients f). clientOk up c"
    by (auto simp: ReadClientsFile_def validateClientSlice_None split: sum.splits option.splits)
  with f(2) show ?thesis
    using indexClients_ok [OF _ registryOk_empty, of up gen "cf_Clients f" r]
    by (auto simp: newClientRegistry_def split: if_splits)
qed

section \<open>The interface of the client directory\<close>

text \<open>
  What the endpoints rely on when they resolve a client: a client is found under its own identifier, and the
  identifiers that are listed are exactly the ones that are found, each once.
\<close>

locale client_directory =
  fixes find_client :: "'r \<Rightarrow> string \<Rightarrow> registeredClient option"
    and names :: "'r \<Rightarrow> string list"
    and wf :: "'r \<Rightarrow> bool"
  assumes find_self: "wf r \<Longrightarrow> find_client r i = Some rc \<Longrightarrow> rc_ID rc = i"
    and names_found: "wf r \<Longrightarrow> i \<in> set (names r) \<longleftrightarrow> find_client r i \<noteq> None"
    and names_distinct: "wf r \<Longrightarrow> distinct (names r)"
begin

lemma one_client:
  "wf r \<Longrightarrow> find_client r i = Some rc \<Longrightarrow> find_client r j = Some rc' \<Longrightarrow> rc_ID rc = rc_ID rc' \<Longrightarrow> rc = rc'"
  using find_self by (metis option.inject)

lemma ex_listed:
  "wf r \<Longrightarrow> (\<exists>i \<in> set (names r). \<exists>rc. find_client r i = Some rc \<and> P rc) \<longleftrightarrow> (\<exists>i rc. find_client r i = Some rc \<and> P rc)"
  using names_found by fastforce

end

interpretation directory: client_directory lookup ids "registryOk up" for up
  by unfold_locales (auto simp: registryOk_def lookup_def entryIndexed_def)

lemma firstWithAudience_Some:
  "firstWithAudience r aud is = Some rc \<Longrightarrow> (\<exists>i \<in> set is. lookup r i = Some rc) \<and> rc_Audience rc = aud"
  by (induction "is") (auto simp: lookup_def split: option.splits if_splits)

lemma firstWithAudience_None:
  "firstWithAudience r aud is = None \<longleftrightarrow> \<not> (\<exists>i \<in> set is. \<exists>rc. lookup r i = Some rc \<and> rc_Audience rc = aud)"
  by (induction "is") (auto simp: lookup_def split: option.splits)

lemma appendUnseen_facts:
  "distinct out \<Longrightarrow> distinct (appendUnseen out scs)" "set (appendUnseen out scs) = set out \<union> set scs"
  by (induction out scs rule: appendUnseen.induct) auto

lemma fold_delegated:
  "distinct out \<Longrightarrow>
   distinct (fold (\<lambda>i out. case byID r i of Some rc \<Rightarrow> appendUnseen out (c_AllowedScopes (rc_client rc)) | None \<Rightarrow> out) is out)
   \<and> set (fold (\<lambda>i out. case byID r i of Some rc \<Rightarrow> appendUnseen out (c_AllowedScopes (rc_client rc)) | None \<Rightarrow> out) is out)
      = set out \<union> {sc. \<exists>i \<in> set is. \<exists>rc. lookup r i = Some rc \<and> allowsScope rc sc}"
proof (induction "is" arbitrary: out)
  case (Cons i "is")
  show ?case
  proof (cases "byID r i")
    case None
    then show ?thesis using Cons by (auto simp: lookup_def)
  next
    case (Some rc)
    then show ?thesis
      using Cons.IH [of "appendUnseen out (c_AllowedScopes (rc_client rc))"] Cons.prems
      by (auto simp: appendUnseen_facts lookup_def allowsScope_def)
  qed
qed simp

lemma clientForAudience_Some:
  "clientForAudience r aud = Some rc \<Longrightarrow> \<exists>i. lookup r i = Some rc \<and> rc_Audience rc = aud"
  using firstWithAudience_Some [of r aud "ids r" rc] by (auto simp: clientForAudience_def)

text \<open>
  A clients file that loads gives a coherent registry: the identifiers are distinct and each one leads to a
  validated client of that name with exactly its own users and its own redirect lists; every interactive client
  has users; the audience set, the confidential flag and the CORS origins are the unions over the registered clients.
\<close>

theorem loaded_registry_coherent:
  assumes "LoadClients js up gen file = Inr r"
  shows "registryOk up r \<and> ids r \<noteq> []"
  using assms by (rule LoadClients_ok)

text \<open>
  The registry's queries answer what they are asked: whether some client is confidential or may use the
  client-credentials grant, whether one of the given audiences belongs to a registered client, the client of an
  audience (none only if there is none), and the delegated scopes of all clients without repetition.
\<close>

theorem registry_queries:
  assumes "LoadClients js up gen file = Inr r"
  shows "(anyConfidential r \<longleftrightarrow> (\<exists>i rc. lookup r i = Some rc \<and> rc_Confidential rc))
    \<and> (anyClientCredentials r \<longleftrightarrow> (\<exists>i rc. lookup r i = Some rc \<and> rc_AllowsGrant rc GrantClientCredentials))
    \<and> (audienceAllowed r auds \<longleftrightarrow> (\<exists>i rc. lookup r i = Some rc \<and> rc_Audience rc \<in> set auds))
    \<and> (\<forall>rc. clientForAudience r aud = Some rc \<longrightarrow> rc_Audience rc = aud \<and> lookup r (rc_ID rc) = Some rc)
    \<and> (clientForAudience r aud = None \<longleftrightarrow> \<not> (\<exists>i rc. lookup r i = Some rc \<and> rc_Audience rc = aud))
    \<and> distinct (delegatedScopes r)
    \<and> set (delegatedScopes r) = {sc. \<exists>i rc. lookup r i = Some rc \<and> allowsScope rc sc}"
proof -
  have ok: "registryOk up r" using LoadClients_ok [OF assms] by simp
  note listed = directory.ex_listed [OF ok]
  have "anyConfidential r \<longleftrightarrow> (\<exists>i rc. lookup r i = Some rc \<and> rc_Confidential rc)"
    using ok by (simp add: anyConfidential_def registryOk_def lookup_def)
  moreover have "anyClientCredentials r \<longleftrightarrow> (\<exists>i rc. lookup r i = Some rc \<and> rc_AllowsGrant rc GrantClientCredentials)"
    unfolding listed [symmetric]
    by (auto simp: anyClientCredentials_def list_ex_iff lookup_def split: option.splits)
  moreover have "audienceAllowed r auds \<longleftrightarrow> (\<exists>i rc. lookup r i = Some rc \<and> rc_Audience rc \<in> set auds)"
    using ok by (auto simp: audienceAllowed_def list_ex_iff registryOk_def lookup_def)
  moreover have "rc_Audience rc = aud \<and> lookup r (rc_ID rc) = Some rc" if "clientForAudience r aud = Some rc" for rc
    using clientForAudience_Some [OF that] directory.find_self [OF ok] by blast
  moreover have "clientForAudience r aud = None \<longleftrightarrow> \<not> (\<exists>i rc. lookup r i = Some rc \<and> rc_Audience rc = aud)"
    unfolding clientForAudience_def firstWithAudience_None listed ..
  moreover have "distinct (delegatedScopes r)"
    and "set (delegatedScopes r) = {sc. \<exists>i rc. lookup r i = Some rc \<and> allowsScope rc sc}"
    using fold_delegated [of "[]" r "ids r"] by (simp_all add: delegatedScopes_def listed)
  ultimately show ?thesis by blast
qed

lemma resolve_within_configuration:
  assumes "resolveClientCredentialsScopes rc req = Some scs"
  shows "set scs \<subseteq> set (clientCredentialsScopes rc)"
proof -
  have "sc \<in> set (clientCredentialsScopes rc)" if "find (\<lambda>sc. sc = r) (clientCredentialsScopes rc) = Some sc" for sc r
    using that by (auto simp: find_Some_iff)
  with assms show ?thesis
    by (auto simp: resolveClientCredentialsScopes_def Let_def split: if_splits option.splits)
qed

lemma resolve_nonempty:
  "resolveClientCredentialsScopes rc req = Some scs \<Longrightarrow> clientCredentialsScopes rc \<noteq> [] \<Longrightarrow> scs \<noteq> []"
  by (auto simp: resolveClientCredentialsScopes_def Let_def split: if_splits option.splits)

section \<open>A sample registry\<close>

definition sampleURL :: url_parser where
  "sampleURL raw = Some \<lparr>u_Scheme = ''https'', u_Host = ''app.example'', u_Fragment = [], u_RawQuery = [], u_Rest = ''/cb''\<rparr>"

definition sampleUser :: User where
  "sampleUser = \<lparr>u_Username = ''ada'', u_PasswordHash = ''$2a$10$'' @ replicate 53 (CHR ''x''), u_Email = ''ada@example'',
     u_Name = ''Ada'', u_Roles = [''admin'']\<rparr>"

definition sampleClient :: Client where
  "sampleClient = \<lparr>c_ClientID = ''app'', c_Type = TypePublic, c_ClientSecret = [], c_Audience = [], c_GrantTypes = [],
     c_ClientCredentialsScopes = [], c_AllowedScopes = [''api://app/read''], c_ClientCredentialsRoles = [],
     c_RedirectURIs = [''https://app.example/cb''], c_PostLogoutRedirectURIs = [], c_AllowedOrigins = [],
     c_Users = [sampleUser]\<rparr>"

definition sampleService :: Client where
  "sampleService = \<lparr>c_ClientID = ''job'', c_Type = TypeConfidential, c_ClientSecret = ''s3cret'', c_Audience = ''api://res'',
     c_GrantTypes = [GrantClientCredentials], c_ClientCredentialsScopes = [''api://res/run'', ''api://res/stat''], c_AllowedScopes = [],
     c_ClientCredentialsRoles = [''worker''], c_RedirectURIs = [], c_PostLogoutRedirectURIs = [], c_AllowedOrigins = [],
     c_Users = []\<rparr>"

definition sampleJSON :: clients_codec where
  "sampleJSON = \<lparr>unmarshalArray = (\<lambda>_. Some [sampleClient, sampleService]), unmarshalDoc = (\<lambda>_. None),
     marshalArray = (\<lambda>_. Some ''[]''), marshalDoc = (\<lambda>_. None)\<rparr>"

lemma trims [simp]:
  "TrimSpace ''app'' = ''app''" "TrimSpace ''ada'' = ''ada''" "TrimSpace ''admin'' = ''admin''" "TrimSpace ''job'' = ''job''"
  "TrimSpace ''api://app/read'' = ''api://app/read''" "TrimSpace ''worker'' = ''worker''"
  "TrimSpace ''api://res/run'' = ''api://res/run''" "TrimSpace ''api://res/stat'' = ''api://res/stat''"
  "TrimSpace ''https://app.example/cb'' = ''https://app.example/cb''"
  by code_simp+

lemma sample_chars [simp]:
  "\<not> ContainsAny ''app'' wsChars" "\<not> ContainsAny ''job'' wsChars" "\<not> ContainsAny ''api://app/read'' wsChars"
  "\<not> ContainsAny ''api://res'' wsChars" "\<not> ContainsAny ''worker'' wsChars" "\<not> ContainsAny ''api://res/run'' wsChars"
  "\<not> ContainsAny ''api://res/stat'' wsChars"
  by code_simp+

lemma sampleClient_fields:
  "c_ClientID sampleClient = ''app''" "c_Type sampleClient = TypePublic" "c_ClientSecret sampleClient = []"
  "c_Audience sampleClient = []" "c_GrantTypes sampleClient = []" "c_ClientCredentialsScopes sampleClient = []"
  "c_AllowedScopes sampleClient = [''api://app/read'']" "c_ClientCredentialsRoles sampleClient = []"
  "c_RedirectURIs sampleClient = [''https://app.example/cb'']" "c_PostLogoutRedirectURIs sampleClient = []"
  "c_AllowedOrigins sampleClient = []" "c_Users sampleClient = [sampleUser]"
  by (simp_all add: sampleClient_def)

lemma sampleService_fields:
  "c_ClientID sampleService = ''job''" "c_Type sampleService = TypeConfidential" "c_ClientSecret sampleService = ''s3cret''"
  "c_Audience sampleService = ''api://res''" "c_GrantTypes sampleService = [GrantClientCredentials]"
  "c_ClientCredentialsScopes sampleService = [''api://res/run'', ''api://res/stat'']"
  "c_AllowedScopes sampleService = []" "c_ClientCredentialsRoles sampleService = [''worker'']"
  "c_RedirectURIs sampleService = []" "c_PostLogoutRedirectURIs sampleService = []"
  "c_AllowedOrigins sampleService = []" "c_Users sampleService = []"
  by (simp_all add: sampleService_def)

lemma sampleUser_ok: "userOk sampleUser"
  by (simp add: userOk_def sampleUser_def isBcryptHash_def)

lemma sampleClient_ok: "clientOk sampleURL sampleClient"
proof -
  have "scopeOk ''app'' ''api://app/read''"
    by (simp add: scopeOk_def entryOk_def TrimPrefix_def)
  moreover have "TrimPrefix ''app'' ''api://'' = ''app''"
    by (simp add: TrimPrefix_def)
  ultimately show ?thesis
    using sampleUser_ok
    by (simp add: clientOk_def grantsOk_def sampleClient_fields entryOk_def urlOk_def audience_def sampleURL_def)
qed

theorem client_validation_exact_witness: "documentedEntry sampleURL sampleClient \<and> Client_validate sampleURL sampleClient = None"
proof -
  have "TrimSpace ''https://app.example/cb'' = ''https://app.example/cb''" by code_simp
  then have "Client_validate sampleURL sampleClient = None \<longleftrightarrow> documentedEntry sampleURL sampleClient"
    by (intro client_validation_exact) (simp_all add: sampleClient_fields)
  then show ?thesis using sampleClient_ok Client_validate_None [of sampleURL sampleClient] by simp
qed

lemma sampleService_ok: "clientOk sampleURL sampleService"
  by (simp add: clientOk_def grantsOk_def sampleService_fields entryOk_def audience_def Confidential_def Interactive_def
      AllowsGrant_def grants_def)

definition sampleGen :: "string \<Rightarrow> int \<Rightarrow> string option" where
  "sampleGen pw cost = Some (''$2a$10$'' @ replicate 53 (CHR ''x''))"

definition sampleRegistry :: clientRegistry where
  "sampleRegistry =
     (case (newStaticUserStore sampleGen [sampleUser], newStaticUserStore sampleGen []) of
        (Some us, Some none) \<Rightarrow> registerOne sampleURL sampleService none (registerOne sampleURL sampleClient us emptyRegistry)
      | _ \<Rightarrow> emptyRegistry)"

lemma sample_reads: "ReadClientsFile sampleJSON sampleURL (Inr ''[]'') = Inr \<lparr>cf_Clients = [sampleClient, sampleService], cf_Resources = []\<rparr>"
proof -
  have "validateClientSlice sampleURL [sampleClient, sampleService] = None"
    using sampleClient_ok sampleService_ok
    by (simp add: validateClientSlice_None sampleClient_fields sampleService_fields)
  moreover have "validateResourceRegistry [] [sampleClient, sampleService] = None"
    by (simp add: validateResourceRegistry_def validateClientRolesAgainstRegistry_def)
  moreover have "firstNonSpace ''[]'' = CHR ''[''"
    by (simp add: wsChars_def)
  ultimately show ?thesis
    by (simp add: ReadClientsFile_def sampleJSON_def)
qed

lemma sample_loads: "LoadClients sampleJSON sampleURL sampleGen (Inr ''[]'') = Inr sampleRegistry"
proof -
  note sample_reads
  moreover have "\<not> Interactive sampleService"
    by (simp add: Interactive_def AllowsGrant_def grants_def sampleService_fields)
  moreover obtain us none where "newStaticUserStore sampleGen [sampleUser] = Some us" "newStaticUserStore sampleGen [] = Some none"
    by (simp add: newStaticUserStore_def newDummyHash_def sampleGen_def Let_def)
  ultimately show ?thesis
    by (simp add: LoadClients_def newClientRegistry_def sampleRegistry_def emptyRegistry_def registerOne_maps
        sampleClient_fields sampleService_fields)
qed

theorem loaded_registry_coherent_witness: "registryOk sampleURL sampleRegistry \<and> ids sampleRegistry \<noteq> []"
  using loaded_registry_coherent [OF sample_loads] .

theorem registry_queries_witness:
  "anyConfidential sampleRegistry \<longleftrightarrow> (\<exists>i rc. lookup sampleRegistry i = Some rc \<and> rc_Confidential rc)"
  by (rule registry_queries [OF sample_loads, THEN conjunct1])

end
