(* ===== verification/Float64.thy ===== *)
theory Float64
  imports Complex_Main "HOL-Library.Log_Nat"
begin

text \<open>
  Go's \<^verbatim>\<open>float64\<close> arithmetic on the range the rate limiter uses. A finite double is the rational
  number it denotes; every operation computes the exact result and rounds it to 53 significant bits,
  ties to even. Overflow to infinity and subnormal numbers are outside the range of the values that
  occur (between a nanosecond's share of one attempt and the attempts of some centuries).
\<close>

definition roundEven :: "rat \<Rightarrow> int" where
  "roundEven x =
     (let f = \<lfloor>x\<rfloor>; d = x - of_int f
      in if d < 1/2 then f else if d > 1/2 then f + 1 else if even f then f else f + 1)"

text \<open>The binary exponent of a positive number.\<close>

definition expo :: "rat \<Rightarrow> int" where
  "expo x =
     (let (p, q) = quotient_of x; k = bitlen p - bitlen q
      in if x < 2 powi k then k - 1 else k)"

definition fl64 :: "rat \<Rightarrow> rat" where
  "fl64 x =
     (if x = 0 then 0
      else let u = 2 powi (expo \<bar>x\<bar> - 52) in sgn x * (of_int (roundEven (\<bar>x\<bar> / u)) * u))"

section \<open>Rounding\<close>

lemma roundEven_of_int [simp]: "roundEven (of_int n) = n"
  by (simp add: roundEven_def)

lemma roundEven_cases: "roundEven x = \<lfloor>x\<rfloor> \<or> roundEven x = \<lfloor>x\<rfloor> + 1"
  by (simp add: roundEven_def Let_def)

lemma roundEven_mono:
  assumes "x \<le> y"
  shows "roundEven x \<le> roundEven y"
proof (cases "\<lfloor>x\<rfloor> = \<lfloor>y\<rfloor>")
  case True
  then show ?thesis
    using assms by (auto simp: roundEven_def Let_def)
next
  case False
  with floor_mono [OF assms] have "\<lfloor>x\<rfloor> + 1 \<le> \<lfloor>y\<rfloor>" by simp
  then show ?thesis
    using roundEven_cases [of x] roundEven_cases [of y] by auto
qed

lemma bitlen_powi:
  assumes "0 < n"
  shows "(2::rat) powi (bitlen n - 1) \<le> of_int n" "of_int n < (2::rat) powi bitlen n"
proof -
  have pos: "0 < bitlen n"
    using assms by (simp add: bitlen_def floorlog_def zero_le_log_cancel_iff add_pos_nonneg)
  have eq: "(2::rat) powi bitlen n = of_int (2 ^ nat (bitlen n))"
    "(2::rat) powi (bitlen n - 1) = of_int (2 ^ nat (bitlen n - 1))"
    using pos by (simp_all add: power_int_def)
  have "2 ^ nat (bitlen n - 1) \<le> n" "n < 2 ^ nat (bitlen n)"
    using bitlen_bounds [OF assms] by simp_all
  then show "(2::rat) powi (bitlen n - 1) \<le> of_int n" "of_int n < (2::rat) powi bitlen n"
    unfolding eq of_int_le_iff of_int_less_iff by simp_all
qed

lemma expo_bounds:
  assumes "0 < x"
  shows "2 powi expo x \<le> x" "x < 2 powi (expo x + 1)"
proof -
  obtain p q where pq: "quotient_of x = (p, q)" by fastforce
  then have q: "0 < q" and x: "x = of_int p / of_int q"
    by (auto simp: quotient_of_denom_pos quotient_of_div)
  with assms have p: "0 < p" by (simp add: zero_less_divide_iff)
  let ?k = "bitlen p - bitlen q"
  have split: "(2::rat) powi (?k + 1) = 2 powi bitlen p / 2 powi (bitlen q - 1)"
    "(2::rat) powi (?k - 1) = 2 powi (bitlen p - 1) / 2 powi bitlen q"
    by (simp_all add: power_int_diff [symmetric] algebra_simps)
  have "x < 2 powi (?k + 1)"
    unfolding x split using bitlen_powi [OF p] bitlen_powi [OF q] p
    by (intro frac_less) auto
  moreover have "2 powi (?k - 1) \<le> x"
    unfolding x split using bitlen_powi [OF p] bitlen_powi [OF q] p q
    by (intro frac_le) (auto intro: less_imp_le)
  ultimately show "2 powi expo x \<le> x" "x < 2 powi (expo x + 1)"
    by (auto simp: expo_def pq Let_def)
qed

lemma powi_less_D: "(2::rat) powi a < 2 powi b \<Longrightarrow> a < b"
  using power_int_increasing [of b a "2::rat"] by (cases "a < b") auto

lemma expo_less: "0 < x \<Longrightarrow> x < 2 powi n \<Longrightarrow> expo x < n"
  using expo_bounds(1) [of x] powi_less_D [of "expo x" n] by auto

lemma expo_ge: "0 < x \<Longrightarrow> 2 powi n \<le> x \<Longrightarrow> n \<le> expo x"
  using expo_bounds(2) [of x] powi_less_D [of n "expo x + 1"] by auto

lemma expo_mono: "0 < x \<Longrightarrow> x \<le> y \<Longrightarrow> expo x \<le> expo y"
  using expo_bounds(1) [of x] by (intro expo_ge) auto

section \<open>The two laws the arithmetic rests on\<close>

text \<open>Numbers with at most 53 significant bits are not changed.\<close>

lemma fl64_fix:
  assumes "0 \<le> m" "m \<le> 2 ^ 53"
  shows "fl64 (of_int m * 2 powi e) = of_int m * 2 powi e"
proof (cases "m = 0")
  case False
  define x where "x = of_int m * (2::rat) powi e"
  define d where "d = expo x - 52"
  have pos: "0 < x" using assms(1) False by (simp add: x_def)
  have top: "of_int m \<le> (2::rat) ^ 53"
    using assms(2) of_int_le_iff [of m "2 ^ 53", where 'a = rat] by simp
  have "\<exists>n. x / 2 powi d = of_int n"
  proof (cases "m = 2 ^ 53")
    case True
    then have "x = 2 powi (e + 53)"
      by (simp add: x_def power_int_add)
    then have "expo x = e + 53"
      using expo_ge [of x "e + 53"] expo_less [of x "e + 54"] pos by (simp add: power_int_add)
    then have "x / 2 powi d = of_int (2 ^ 52)"
      using \<open>x = 2 powi (e + 53)\<close> by (simp add: d_def power_int_diff [symmetric])
    then show ?thesis by blast
  next
    case False
    with assms(2) have "of_int m < (2::rat) ^ 53"
      using of_int_less_iff [of m "2 ^ 53", where 'a = rat] by simp
    then have "x < 2 powi (e + 53)"
      by (simp add: x_def power_int_add)
    then have "0 \<le> e - d"
      using expo_less [of x "e + 53"] pos by (simp add: d_def)
    then have "(2::rat) powi e / 2 powi d = of_int (2 ^ nat (e - d))"
      by (subst power_int_diff [symmetric]) (simp_all add: power_int_def)
    then have "x / 2 powi d = of_int (m * 2 ^ nat (e - d))"
      by (simp only: x_def times_divide_eq_right [symmetric] of_int_mult)
    then show ?thesis by blast
  qed
  then obtain n where n: "x / 2 powi d = of_int n" by blast
  then have "fl64 x = of_int n * 2 powi d"
    using pos by (simp add: fl64_def Let_def d_def [symmetric])
  also have "\<dots> = x" by (simp flip: n)
  finally show ?thesis by (simp add: x_def)
qed (simp add: fl64_def)

text \<open>Rounding keeps the order.\<close>

lemma fl64_pos:
  "0 < x \<Longrightarrow> fl64 x = of_int (roundEven (x / 2 powi (expo x - 52))) * 2 powi (expo x - 52)"
  by (simp add: fl64_def Let_def)

lemma fl64_between:
  assumes "0 < x"
  shows "2 powi expo x \<le> fl64 x" "fl64 x \<le> 2 powi (expo x + 1)"
proof -
  let ?u = "(2::rat) powi (expo x - 52)"
  have scale: "of_int (2 ^ 52) * ?u = 2 powi expo x" "of_int (2 ^ 53) * ?u = 2 powi (expo x + 1)"
    by (simp_all add: power_int_diff power_int_add)
  from expo_bounds [OF assms] have lo: "of_int (2 ^ 52) \<le> x / ?u" and hi: "x / ?u \<le> of_int (2 ^ 53)"
    by (simp_all only: pos_le_divide_eq pos_divide_le_eq zero_less_power_int zero_less_numeral scale less_imp_le)
  from roundEven_mono [OF lo] roundEven_mono [OF hi]
  have "2 ^ 52 \<le> roundEven (x / ?u)" "roundEven (x / ?u) \<le> 2 ^ 53"
    unfolding roundEven_of_int by simp_all
  then have "of_int (2 ^ 52) * ?u \<le> of_int (roundEven (x / ?u)) * ?u"
    "of_int (roundEven (x / ?u)) * ?u \<le> of_int (2 ^ 53) * ?u"
    by (simp_all only: of_int_le_iff mult_right_mono zero_le_power_int zero_le_numeral)
  then show "2 powi expo x \<le> fl64 x" "fl64 x \<le> 2 powi (expo x + 1)"
    unfolding fl64_pos [OF assms] scale by simp_all
qed

lemma fl64_mono:
  assumes "0 \<le> x" "x \<le> y"
  shows "fl64 x \<le> fl64 y"
proof (cases "x = 0")
  case True
  then show ?thesis
    using assms fl64_between(1) [of y] by (cases "y = 0") (auto simp: fl64_def intro: order_trans [rotated])
next
  case False
  with assms have pos: "0 < x" "0 < y" by auto
  show ?thesis
  proof (cases "expo x = expo y")
    case True
    have "roundEven (x / 2 powi (expo y - 52)) \<le> roundEven (y / 2 powi (expo y - 52))"
      using assms(2) by (intro roundEven_mono divide_right_mono) auto
    then show ?thesis
      by (simp add: fl64_pos pos True mult_right_mono)
  next
    case False
    with expo_mono [OF pos(1) assms(2)] have "expo x + 1 \<le> expo y" by simp
    then have "(2::rat) powi (expo x + 1) \<le> 2 powi expo y"
      by (intro power_int_increasing) auto
    with fl64_between(2) [OF pos(1)] fl64_between(1) [OF pos(2)] show ?thesis by linarith
  qed
qed

lemma fl64_0 [simp]: "fl64 0 = 0"
  by (simp add: fl64_def)

lemma fl64_nonneg: "0 \<le> x \<Longrightarrow> 0 \<le> fl64 x"
  using fl64_mono [of 0 x] by simp

lemma fl64_of_int: "0 \<le> m \<Longrightarrow> m \<le> 2 ^ 53 \<Longrightarrow> fl64 (of_int m) = of_int m"
  using fl64_fix [of m 0] by simp

lemma fl64_le_of_int: "0 \<le> x \<Longrightarrow> x \<le> of_int m \<Longrightarrow> m \<le> 2 ^ 53 \<Longrightarrow> fl64 x \<le> of_int m"
  using fl64_mono [of x "of_int m"] fl64_of_int [of m] by (cases "0 \<le> m") auto

end
