(* ===== verification/RateLimit.thy ===== *)
theory RateLimit
  imports Prelude Float64 "HOL-Library.Mapping" "HOL-Library.Signed_Division"
begin

text \<open>
  The login rate limiter (\<^verbatim>\<open>internal/idp/ratelimit.go\<close>): one token bucket per client address. The
  reading of the clock that a call makes under the lock is an argument.

  The arithmetic is that of \<^verbatim>\<open>float64\<close> with each operation rounded on its own. (On targets where
  the compiler fuses \<^verbatim>\<open>x*y + z\<close> the intermediate rounding of the refill is skipped.)
\<close>

section \<open>State and operations\<close>

record bucket =
  b_last :: time
  b_tokens :: rat

record loginLimiter =
  lastSweep :: time
  buckets :: "(string, bucket) mapping"
  perMinute :: int

text \<open>\<^verbatim>\<open>t.Sub(u)\<close> saturates at the ends of the 64-bit range; \<^verbatim>\<open>d.Seconds()\<close> adds the whole seconds and the rest.\<close>

definition Sub :: "time \<Rightarrow> time \<Rightarrow> duration" where
  "Sub t u = max (- (2 ^ 63)) (min (2 ^ 63 - 1) (t - u))"

definition Seconds :: "duration \<Rightarrow> rat" where
  "Seconds d = fl64 (fl64 (of_int (d sdiv second)) + fl64 (fl64 (of_int (d smod second)) / 1000000000))"

definition newLimiter :: "time \<Rightarrow> int \<Rightarrow> loginLimiter" where
  "newLimiter now n = \<lparr>lastSweep = now, buckets = Mapping.empty, perMinute = n\<rparr>"

definition sweepLocked :: "time \<Rightarrow> loginLimiter \<Rightarrow> loginLimiter" where
  "sweepLocked now l =
     (if Mapping.size (buckets l) < 1024 \<and> Sub now (lastSweep l) < minute then l
      else (let idle = 2 * minute
            in l\<lparr>lastSweep := now, buckets := Mapping.filter (\<lambda>key b. \<not> Sub now (b_last b) > idle) (buckets l)\<rparr>))"

text \<open>The continuous refill of a bucket up to the current reading.\<close>

definition refilled :: "int \<Rightarrow> time \<Rightarrow> bucket \<Rightarrow> rat" where
  "refilled n now b =
     (let refill = fl64 (fl64 (of_int n) / 60)
      in min (fl64 (of_int n)) (fl64 (b_tokens b + fl64 (Seconds (Sub now (b_last b)) * refill))))"

definition allow :: "time \<Rightarrow> string \<Rightarrow> loginLimiter option \<Rightarrow> bool \<times> loginLimiter option" where
  "allow now key lp =
     (case lp of
        None \<Rightarrow> (True, None)
      | Some l0 \<Rightarrow>
          if perMinute l0 \<le> 0 then (True, lp)
          else
            let l = sweepLocked now l0;
                b = (case Mapping.lookup (buckets l) key of
                       Some b \<Rightarrow> b
                     | None \<Rightarrow> \<lparr>b_last = now, b_tokens = fl64 (of_int (perMinute l))\<rparr>);
                tokens = refilled (perMinute l) now b
            in if tokens < 1
               then (False, Some (l\<lparr>buckets := Mapping.update key \<lparr>b_last = now, b_tokens = tokens\<rparr> (buckets l)\<rparr>))
               else (True, Some (l\<lparr>buckets := Mapping.update key \<lparr>b_last = now, b_tokens = fl64 (tokens - 1)\<rparr> (buckets l)\<rparr>)))"

text \<open>A history of login attempts: the verdicts, in order, and the limiter at the end.\<close>

fun allowAll :: "(time \<times> string) list \<Rightarrow> loginLimiter option \<Rightarrow> bool list \<times> loginLimiter option" where
  "allowAll [] lp = ([], lp)"
| "allowAll ((now, key) # calls) lp =
     (let (v, lp') = allow now key lp; (vs, lp'') = allowAll calls lp' in (v # vs, lp''))"

section \<open>Specification\<close>

text \<open>
  The limiter without its memory management: a bucket per address that is never dropped, full when
  the address is first seen.
\<close>

definition attempt :: "int \<Rightarrow> time \<Rightarrow> bucket option \<Rightarrow> bool \<times> bucket" where
  "attempt n now ob =
     (let tokens = (case ob of None \<Rightarrow> of_int n | Some b \<Rightarrow> refilled n now b)
      in if tokens < 1 then (False, \<lparr>b_last = now, b_tokens = tokens\<rparr>)
         else (True, \<lparr>b_last = now, b_tokens = fl64 (tokens - 1)\<rparr>))"

fun attempts :: "int \<Rightarrow> (time \<times> string) list \<Rightarrow> (string \<rightharpoonup> bucket) \<Rightarrow> bool list" where
  "attempts n [] m = []"
| "attempts n ((now, key) # calls) m =
     (let (v, b) = attempt n now (m key) in v # attempts n calls (m(key \<mapsto> b)))"

section \<open>Arithmetic of the refill\<close>

definition rateOk :: "int \<Rightarrow> bool" where
  "rateOk n \<longleftrightarrow> 0 < n \<and> n \<le> 2 ^ 53"

definition bucketOk :: "int \<Rightarrow> time \<Rightarrow> bucket \<Rightarrow> bool" where
  "bucketOk n now b \<longleftrightarrow> 0 \<le> b_tokens b \<and> b_tokens b \<le> of_int n \<and> b_last b \<le> now"

lemma Sub_nonneg: "u \<le> t \<Longrightarrow> 0 \<le> Sub t u"
  by (simp add: Sub_def)

lemma Sub_idle: "2 * minute < Sub t u \<longleftrightarrow> 2 * minute < t - u"
  by (auto simp: Sub_def)

lemma whole_seconds:
  fixes d :: int
  assumes "0 \<le> d"
  shows "d sdiv second = d div second" "d smod second = d mod second"
  using assms by (cases "d = 0"; simp add: signed_divide_int_def signed_modulo_int_def minus_div_mult_eq_mod)+

lemma Seconds_nonneg:
  assumes "0 \<le> d"
  shows "0 \<le> Seconds d"
proof -
  have "0 \<le> d sdiv second" "0 \<le> d smod second"
    using assms by (simp_all add: whole_seconds)
  then show ?thesis
    unfolding Seconds_def by (intro fl64_nonneg add_nonneg_nonneg divide_nonneg_nonneg) simp_all
qed

lemma Seconds_ge:
  assumes "s * second \<le> d" "0 \<le> s" "s \<le> 2 ^ 53"
  shows "of_int s \<le> Seconds d"
proof -
  have d: "0 \<le> d" using assms by (simp add: order_trans [rotated])
  have "s \<le> d sdiv second" "0 \<le> d smod second"
    using zdiv_mono1 [OF assms(1), of second] d by (simp_all add: whole_seconds)
  then have "fl64 (of_int s) \<le> fl64 (of_int (d sdiv second))"
    and "0 \<le> fl64 (fl64 (of_int (d smod second)) / 1000000000)"
    using assms by (simp_all add: fl64_mono fl64_nonneg)
  then have "fl64 (of_int s) \<le> Seconds d"
    unfolding Seconds_def using assms by (intro fl64_mono) (simp_all add: fl64_of_int)
  then show ?thesis using assms by (simp add: fl64_of_int)
qed

lemma refill_ge:
  assumes "rateOk n"
  shows "of_int n / 64 \<le> fl64 (fl64 (of_int n) / 60)"
proof -
  have "of_int n / (64::rat) = of_int n * 2 powi (- 6)"
    by (simp add: power_int_minus)
  then have "fl64 (of_int n / 64) = of_int n / 64"
    using assms fl64_fix [of n "- 6"] by (simp only: rateOk_def less_imp_le)
  moreover have "fl64 (of_int n / 64) \<le> fl64 (fl64 (of_int n) / 60)"
    using assms by (intro fl64_mono) (simp_all add: rateOk_def fl64_of_int field_simps)
  ultimately show ?thesis by simp
qed

text \<open>The bucket is full again after 64 seconds at the latest.\<close>

lemma refilled_full:
  assumes "rateOk n" "0 \<le> b_tokens b" "64 * second \<le> now - b_last b"
  shows "refilled n now b = of_int n"
proof -
  have n: "0 < n" "n \<le> 2 ^ 53" using assms(1) by (simp_all add: rateOk_def)
  have "of_int 64 \<le> Seconds (Sub now (b_last b))"
    using assms(3) by (intro Seconds_ge) (simp_all add: Sub_def)
  then have "64 * (of_int n / 64) \<le> Seconds (Sub now (b_last b)) * fl64 (fl64 (of_int n) / 60)"
    using refill_ge [OF assms(1)] n by (intro mult_mono) simp_all
  then have "fl64 (of_int n) \<le> fl64 (Seconds (Sub now (b_last b)) * fl64 (fl64 (of_int n) / 60))"
    using n by (intro fl64_mono) simp_all
  then have "fl64 (of_int n) \<le> fl64 (b_tokens b + fl64 (Seconds (Sub now (b_last b)) * fl64 (fl64 (of_int n) / 60)))"
    using n assms(2) by (intro fl64_mono) (simp_all add: fl64_of_int)
  then show ?thesis
    using n by (simp add: refilled_def Let_def fl64_of_int)
qed

lemma refilled_bounds:
  assumes "rateOk n" "bucketOk n now b"
  shows "0 \<le> refilled n now b" "refilled n now b \<le> of_int n"
proof -
  have "0 \<le> Seconds (Sub now (b_last b)) * fl64 (fl64 (of_int n) / 60)"
    using assms by (intro mult_nonneg_nonneg Seconds_nonneg Sub_nonneg fl64_nonneg divide_nonneg_nonneg)
      (simp_all add: bucketOk_def rateOk_def)
  then show "0 \<le> refilled n now b" "refilled n now b \<le> of_int n"
    using assms by (auto simp: refilled_def Let_def bucketOk_def rateOk_def fl64_of_int
        intro!: fl64_nonneg add_nonneg_nonneg)
qed

lemma refilled_now:
  assumes "rateOk n" "b_last b = now" "0 \<le> b_tokens b" "b_tokens b \<le> of_int m" "m \<le> n"
  shows "refilled n now b \<le> of_int m"
proof -
  have "fl64 (b_tokens b) \<le> of_int m"
    using assms by (intro fl64_le_of_int) (simp_all add: rateOk_def)
  then show ?thesis
    using assms(2) by (simp add: refilled_def Let_def Sub_def Seconds_def whole_seconds min_def)
qed

lemma refilled_now_eq:
  assumes "rateOk n" "b_last b = now" "b_tokens b = of_int m" "0 \<le> m" "m \<le> n"
  shows "refilled n now b = of_int m"
  using assms by (simp add: refilled_def Let_def Sub_def Seconds_def whole_seconds rateOk_def fl64_of_int min_def)

section \<open>Every attempt keeps the buckets within bounds\<close>

lemma attempt_bucketOk:
  assumes "rateOk n" "\<And>b. ob = Some b \<Longrightarrow> bucketOk n now b"
  shows "bucketOk n now (snd (attempt n now ob))"
proof -
  define t where "t = (case ob of None \<Rightarrow> of_int n | Some b \<Rightarrow> refilled n now b)"
  have t: "0 \<le> t" "t \<le> of_int n"
    using assms refilled_bounds by (auto simp: t_def rateOk_def split: option.splits)
  have "fl64 (t - 1) \<le> of_int n" if "1 \<le> t"
    using that t assms(1) by (intro fl64_le_of_int) (auto simp: rateOk_def)
  then show ?thesis
    using t by (auto simp: attempt_def bucketOk_def Let_def t_def [symmetric] intro: fl64_nonneg)
qed

lemma bucketOk_later: "bucketOk n now b \<Longrightarrow> now \<le> later \<Longrightarrow> bucketOk n later b"
  by (simp add: bucketOk_def)

section \<open>The limiter implements the specification\<close>

text \<open>
  The buckets in memory are the specification's, less some that have been idle for more than two
  minutes, which would be full again by now.
\<close>

definition tracks :: "int \<Rightarrow> time \<Rightarrow> (string \<rightharpoonup> bucket) \<Rightarrow> loginLimiter \<Rightarrow> bool" where
  "tracks n now m l \<longleftrightarrow> perMinute l = n \<and>
     (\<forall>k b. m k = Some b \<longrightarrow> bucketOk n now b) \<and>
     (\<forall>k. Mapping.lookup (buckets l) k = m k \<or>
          Mapping.lookup (buckets l) k = None \<and> (\<exists>b. m k = Some b \<and> 2 * minute < now - b_last b))"

lemma sweepLocked_lookup:
  "perMinute (sweepLocked now l) = perMinute l"
  "Mapping.lookup (buckets (sweepLocked now l)) k = Mapping.lookup (buckets l) k \<or>
   Mapping.lookup (buckets (sweepLocked now l)) k = None \<and>
     (\<exists>b. Mapping.lookup (buckets l) k = Some b \<and> 2 * minute < now - b_last b)"
  using Sub_idle [of now]
  by (auto simp: sweepLocked_def Let_def lookup_filter not_less not_le split: option.splits)

lemma tracks_sweep:
  assumes "tracks n t m l" "t \<le> now"
  shows "tracks n now m (sweepLocked now l)"
proof -
  have "Mapping.lookup (buckets (sweepLocked now l)) k = m k \<or>
      Mapping.lookup (buckets (sweepLocked now l)) k = None \<and> (\<exists>b. m k = Some b \<and> 2 * minute < now - b_last b)" for k
  proof (cases "Mapping.lookup (buckets l) k = m k")
    case True
    then show ?thesis using sweepLocked_lookup(2) [of now l k] by auto
  next
    case False
    with assms obtain b where "Mapping.lookup (buckets l) k = None" "m k = Some b" "2 * minute < t - b_last b"
      unfolding tracks_def by blast
    then show ?thesis
      using sweepLocked_lookup(2) [of now l k] assms(2) by auto
  qed
  then show ?thesis
    using assms by (auto simp: tracks_def sweepLocked_lookup(1) intro: bucketOk_later)
qed

lemma allow_attempt:
  assumes "rateOk n" "tracks n t m l" "t \<le> now"
  obtains l' where "allow now key (Some l) = (fst (attempt n now (m key)), Some l')"
    and "tracks n now (m(key \<mapsto> snd (attempt n now (m key)))) l'"
proof -
  let ?s = "sweepLocked now l"
  let ?full = "\<lparr>b_last = now, b_tokens = fl64 (of_int (perMinute ?s))\<rparr>"
  let ?b = "case Mapping.lookup (buckets ?s) key of Some b \<Rightarrow> b | None \<Rightarrow> ?full"
  have s: "tracks n now m ?s" using tracks_sweep [OF assms(2,3)] .
  have n: "0 < n" "n \<le> 2 ^ 53" using assms(1) by (simp_all add: rateOk_def)
  have rate: "perMinute l = n" "perMinute ?s = n"
    using s by (simp_all add: tracks_def sweepLocked_lookup(1))
  have full: "refilled n now ?full = of_int n"
    using n rate(2) by (intro refilled_now_eq [OF assms(1)]) (simp_all add: fl64_of_int)
  have tokens: "refilled n now ?b = (case m key of None \<Rightarrow> of_int n | Some b \<Rightarrow> refilled n now b)"
  proof (cases "Mapping.lookup (buckets ?s) key = m key")
    case True
    then show ?thesis using full by (simp split: option.splits)
  next
    case False
    with s obtain b where "Mapping.lookup (buckets ?s) key = None" "m key = Some b" "2 * minute < now - b_last b"
      and "bucketOk n now b"
      unfolding tracks_def by blast
    then show ?thesis
      using full refilled_full [OF assms(1), of b now] by (simp add: bucketOk_def)
  qed
  let ?b' = "snd (attempt n now (m key))"
  have "bucketOk n now ?b'"
    using attempt_bucketOk [OF assms(1)] s by (auto simp: tracks_def)
  then have "tracks n now (m(key \<mapsto> ?b')) (?s\<lparr>buckets := Mapping.update key ?b' (buckets ?s)\<rparr>)"
    using s by (auto simp: tracks_def lookup_update')
  moreover have "allow now key (Some l) =
      (fst (attempt n now (m key)), Some (?s\<lparr>buckets := Mapping.update key ?b' (buckets ?s)\<rparr>))"
    using tokens n by (simp add: allow_def attempt_def Let_def rate)
  ultimately show ?thesis by (rule that [rotated])
qed

lemma allowAll_attempts:
  assumes "rateOk n" "sorted (map fst calls)" "tracks n t m l" "\<forall>c \<in> set calls. t \<le> fst c"
  shows "fst (allowAll calls (Some l)) = attempts n calls m"
  using assms(2-)
proof (induction calls arbitrary: t m l)
  case (Cons c calls)
  obtain now key where c: "c = (now, key)" by fastforce
  with Cons.prems obtain l' where l': "allow now key (Some l) = (fst (attempt n now (m key)), Some l')"
    "tracks n now (m(key \<mapsto> snd (attempt n now (m key)))) l'"
    using allow_attempt [OF assms(1), of t m l now key] by auto
  have "fst (allowAll calls (Some l')) = attempts n calls (m(key \<mapsto> snd (attempt n now (m key))))"
    using Cons.prems c by (intro Cons.IH [OF _ l'(2)]) auto
  then show ?case
    using l'(1) by (simp add: c case_prod_beta Let_def)
qed simp

lemma tracks_new: "tracks n now Map.empty (newLimiter now n)"
  by (simp add: tracks_def newLimiter_def)

text \<open>
  C16. The limiter's memory management cannot be observed: for every rate up to \<open>2^53\<close> attempts per minute and every
  sequence of attempts with non-decreasing clock readings, the limiter with its sweep of idle buckets gives
  the same verdicts as the specification that keeps one bucket per address for ever, full when first seen.
\<close>

theorem limiter_refines_buckets:
  assumes "0 < n" "n \<le> 2 ^ 53" "sorted (map fst calls)" "\<forall>c \<in> set calls. start \<le> fst c"
  shows "fst (allowAll calls (Some (newLimiter start n))) = attempts n calls Map.empty"
  using assms tracks_new [of n start] by (intro allowAll_attempts [of n calls start]) (auto simp: rateOk_def)

theorem limiter_refines_buckets_witness:
  "fst (allowAll [(5, ''10.0.0.1''), (7, ''10.0.0.2''), (7, ''10.0.0.1'')] (Some (newLimiter 3 30)))
     = attempts 30 [(5, ''10.0.0.1''), (7, ''10.0.0.2''), (7, ''10.0.0.1'')] Map.empty"
  by (rule limiter_refines_buckets) simp_all

section \<open>Burst\<close>

fun bucketsAfter :: "int \<Rightarrow> (time \<times> string) list \<Rightarrow> (string \<rightharpoonup> bucket) \<Rightarrow> (string \<rightharpoonup> bucket)" where
  "bucketsAfter n [] m = m"
| "bucketsAfter n ((now, key) # calls) m = bucketsAfter n calls (m(key \<mapsto> snd (attempt n now (m key))))"

lemma attempts_append:
  "attempts n (xs @ ys) m = attempts n xs m @ attempts n ys (bucketsAfter n xs m)"
  by (induction xs arbitrary: m) (auto simp: case_prod_beta Let_def)

lemma length_attempts [simp]: "length (attempts n calls m) = length calls"
  by (induction calls arbitrary: m) (auto simp: case_prod_beta Let_def)

lemma bucketsAfter_ok:
  assumes "rateOk n" "sorted (map fst calls)" "\<And>k b. m k = Some b \<Longrightarrow> bucketOk n t b"
    and "\<forall>c \<in> set calls. t \<le> fst c \<and> fst c \<le> now" "t \<le> now" "bucketsAfter n calls m k = Some b"
  shows "bucketOk n now b"
  using assms(2-)
proof (induction calls arbitrary: m t)
  case (Cons c calls)
  obtain u key where c: "c = (u, key)" by fastforce
  have "bucketOk n u b'" if "m k' = Some b'" for k' b'
    using bucketOk_later [OF Cons.prems(2) [OF that]] Cons.prems(3) c by auto
  then have "\<And>k' b'. (m(key \<mapsto> snd (attempt n u (m key)))) k' = Some b' \<Longrightarrow> bucketOk n u b'"
    using attempt_bucketOk [OF assms(1)] by (auto split: if_splits)
  then show ?case
    by (rule Cons.IH [rotated]) (use Cons.prems c in auto)
qed (auto intro: bucketOk_later)

lemma bucketsAfter_last:
  "bucketsAfter n calls m key = Some b \<Longrightarrow> m key = Some b \<or> (b_last b, key) \<in> set calls"
  by (induction n calls m rule: bucketsAfter.induct)
    (fastforce simp: attempt_def Let_def split: if_splits)+

lemma attempts_burst:
  assumes "rateOk n" "0 \<le> m" "m \<le> n" "refilled n now b \<le> of_int m" "bucketOk n now b" "bs key = Some b"
  shows "int (count_list (attempts n (replicate k (now, key)) bs) True) \<le> m"
  using assms(2-)
proof (induction k arbitrary: m b bs)
  case (Suc k)
  let ?t = "refilled n now b"
  have t: "0 \<le> ?t" using refilled_bounds [OF assms(1) Suc.prems(4)] by simp
  define b' where "b' = snd (attempt n now (Some b))"
  have ok: "bucketOk n now b'" "b_last b' = now"
    using attempt_bucketOk [OF assms(1), of "Some b" now] Suc.prems(4)
    by (auto simp: b'_def attempt_def Let_def)
  define m' where "m' = (if ?t < 1 then m else m - 1)"
  have m': "0 \<le> m'" "m' \<le> n"
    using Suc.prems(1-3) by (auto simp: m'_def)
  have "b_tokens b' \<le> of_int m'"
  proof (cases "?t < 1")
    case True
    then show ?thesis using Suc.prems(3) by (simp add: b'_def m'_def attempt_def)
  next
    case False
    then have "fl64 (?t - 1) \<le> of_int (m - 1)"
      using Suc.prems(2,3) assms(1) by (intro fl64_le_of_int) (auto simp: rateOk_def)
    then show ?thesis using False by (simp add: b'_def m'_def attempt_def)
  qed
  then have "refilled n now b' \<le> of_int m'"
    using ok m' by (intro refilled_now [OF assms(1)]) (simp_all add: bucketOk_def)
  then have "int (count_list (attempts n (replicate k (now, key)) (bs(key \<mapsto> b'))) True) \<le> m'"
    using ok m' by (intro Suc.IH) auto
  then show ?case
    using Suc.prems(5) by (auto simp: m'_def b'_def attempt_def Let_def split: if_splits)
qed simp

lemma attempts_all:
  assumes "rateOk n" "0 \<le> m" "m \<le> n" "refilled n now b = of_int m" "bs key = Some b"
  shows "count_list (attempts n (replicate k (now, key)) bs) True = min k (nat m)"
  using assms(2-)
proof (induction k arbitrary: m b bs)
  case (Suc k)
  show ?case
  proof (cases "m = 0")
    case True
    let ?b = "\<lparr>b_last = now, b_tokens = of_int m\<rparr>"
    have "refilled n now ?b = of_int m"
      using Suc.prems by (intro refilled_now_eq [OF assms(1)]) auto
    with Suc.prems have "count_list (attempts n (replicate k (now, key)) (bs(key \<mapsto> ?b))) True = min k (nat m)"
      by (intro Suc.IH) auto
    then show ?thesis using True Suc.prems by (simp add: attempt_def)
  next
    case False
    let ?b = "\<lparr>b_last = now, b_tokens = of_int (m - 1)\<rparr>"
    have "refilled n now ?b = of_int (m - 1)"
      using Suc.prems False by (intro refilled_now_eq [OF assms(1)]) auto
    with Suc.prems False have "count_list (attempts n (replicate k (now, key)) (bs(key \<mapsto> ?b))) True = min k (nat (m - 1))"
      by (intro Suc.IH) auto
    moreover have "fl64 (of_int m - 1) = of_int (m - 1)"
      using fl64_of_int [of "m - 1"] Suc.prems False assms(1) by (simp add: rateOk_def)
    moreover have "attempt n now (bs key) = (True, ?b)"
      using Suc.prems False \<open>fl64 (of_int m - 1) = _\<close> by (simp add: attempt_def)
    ultimately show ?thesis using Suc.prems False by (simp add: min_def nat_diff_distrib) linarith
  qed
qed simp

lemma attempts_new:
  assumes "rateOk n" "bs key = None"
  shows "attempts n (replicate k (now, key)) bs =
    attempts n (replicate k (now, key)) (bs(key \<mapsto> \<lparr>b_last = now, b_tokens = of_int n\<rparr>))"
proof -
  have "refilled n now \<lparr>b_last = now, b_tokens = of_int n\<rparr> = of_int n"
    using assms(1) by (intro refilled_now_eq) (auto simp: rateOk_def)
  then show ?thesis
    using assms(2) by (cases k) (auto simp: attempt_def Let_def)
qed

text \<open>
  C35. A burst is bounded by the configured rate and an idle address gets all of it: after any
  history of attempts, out of \<open>k\<close> further attempts that one address makes at the same instant, at most
  \<open>perMinute\<close> are allowed, and exactly \<open>min k perMinute\<close> are allowed if the address made no attempt
  during the preceding 64 seconds (whether its bucket is still in memory or has been swept).
\<close>

theorem limiter_burst:
  assumes "0 < n" "n \<le> 2 ^ 53" "sorted (map fst calls)" "\<forall>c \<in> set calls. start \<le> fst c \<and> fst c \<le> now" "start \<le> now"
    and "verdicts = fst (allowAll (calls @ replicate k (now, key)) (Some (newLimiter start n)))"
  shows "int (count_list (drop (length calls) verdicts) True) \<le> n
    \<and> ((\<forall>t. (t, key) \<in> set calls \<longrightarrow> 64 * second \<le> now - t) \<longrightarrow>
        count_list (drop (length calls) verdicts) True = min k (nat n))"
proof -
  let ?m = "bucketsAfter n calls Map.empty"
  have rate: "rateOk n" using assms(1,2) by (simp add: rateOk_def)
  have "sorted (map fst (calls @ replicate k (now, key)))"
    using assms(3,4) by (auto simp: sorted_append)
  then have verdicts: "drop (length calls) verdicts = attempts n (replicate k (now, key)) ?m"
    unfolding assms(6) using assms tracks_new [of n start]
    by (subst allowAll_attempts [OF rate, of _ start Map.empty]) (auto simp: attempts_append)
  have ok: "bucketOk n now b" if "?m key = Some b" for b
    using bucketsAfter_ok [OF rate assms(3) _ assms(4,5) that] by simp
  let ?full = "\<lparr>b_last = now, b_tokens = of_int n\<rparr>"
  have full: "refilled n now ?full = of_int n"
    using assms(1) by (intro refilled_now_eq [OF rate]) auto
  show ?thesis
  proof (cases "?m key")
    case None
    then show ?thesis
      using attempts_all [OF rate, of n now ?full "?m(key \<mapsto> ?full)" key k] attempts_new [OF rate, of ?m key k now] None full assms(1)
      by (simp add: verdicts)
  next
    case (Some b)
    have "int (count_list (drop (length calls) verdicts) True) \<le> n"
      unfolding verdicts using ok [OF Some] refilled_bounds [OF rate ok [OF Some]] assms(1) Some
      by (intro attempts_burst [OF rate, of n now b]) auto
    moreover have "count_list (drop (length calls) verdicts) True = min k (nat n)"
      if "\<forall>t. (t, key) \<in> set calls \<longrightarrow> 64 * second \<le> now - t"
      unfolding verdicts using that bucketsAfter_last [OF Some] ok [OF Some] refilled_full [OF rate, of b now] assms(1) Some
      by (intro attempts_all [OF rate, of n now b]) (auto simp: bucketOk_def)
    ultimately show ?thesis by blast
  qed
qed

theorem limiter_burst_witness:
  "count_list (drop 1 (fst (allowAll ([(3, ''10.0.0.1'')] @ replicate 40 (64 * second + 3, ''10.0.0.1''))
     (Some (newLimiter 2 30))))) True = 30"
  using limiter_burst [of 30 "[(3, ''10.0.0.1'')]" 2 "64 * second + 3" _ 40 "''10.0.0.1''", OF _ _ _ _ _ refl]
  by simp

end
