(* ===== verification/CSRF.thy ===== *)
theory CSRF
  imports Codec
begin

text \<open>
  The signed login-form tokens (\<^verbatim>\<open>internal/idp/csrf.go\<close>): a token is the expiry, the form action, a
  digest of the request parameters and a digest of the browser nonce, under an HMAC with the server's
  secret. The clock reading of \<open>issue\<close> and of the expiry check in \<open>claimsMatch\<close> is an argument.
\<close>

section \<open>Operations\<close>

record csrfManager =
  csrf_key :: string
  csrf_ttl :: duration

definition newCSRFManager :: "string \<Rightarrow> duration \<Rightarrow> csrfManager" where
  "newCSRFManager secret ttl = \<lparr>csrf_key = secret, csrf_ttl = ttl\<rparr>"

definition fingerprint :: "Values \<Rightarrow> string" where
  "fingerprint params = hexString (Sum256 (Encode params))"

definition nonceFingerprint :: "string \<Rightarrow> string" where
  "nonceFingerprint nonce = hexString (Sum256 nonce)"

definition csrfPayload :: "int \<Rightarrow> string \<Rightarrow> string \<Rightarrow> string \<Rightarrow> string" where
  "csrfPayload expUnix action fp nfp = FormatInt expUnix @ ''|'' @ action @ ''|'' @ fp @ ''|'' @ nfp"

definition issue :: "csrfManager \<Rightarrow> time \<Rightarrow> string \<Rightarrow> Values \<Rightarrow> string \<Rightarrow> string" where
  "issue m now action params nonce =
     (let exp = now + csrf_ttl m;
          payload = csrfPayload (Unix exp) action (fingerprint params) (nonceFingerprint nonce)
      in payload @ ''.'' @ EncodeToString (hmacSum (csrf_key m) payload))"

definition validSignature :: "csrfManager \<Rightarrow> string \<Rightarrow> string \<Rightarrow> bool" where
  "validSignature m payload sig =
     (case DecodeString sig of
        None \<Rightarrow> False
      | Some expected \<Rightarrow> ConstantTimeCompare (hmacSum (csrf_key m) payload) expected)"

definition claimsMatch :: "time \<Rightarrow> string list \<Rightarrow> string \<Rightarrow> Values \<Rightarrow> string \<Rightarrow> bool" where
  "claimsMatch now parts action params nonce =
     (case ParseInt (parts ! 0) of
        None \<Rightarrow> False
      | Some expUnix \<Rightarrow>
          if Unix now > expUnix then False
          else ConstantTimeCompare (parts ! 1) action
             \<and> ConstantTimeCompare (parts ! 2) (fingerprint params)
             \<and> ConstantTimeCompare (parts ! 3) (nonceFingerprint nonce))"

definition verify :: "csrfManager \<Rightarrow> time \<Rightarrow> string \<Rightarrow> Values \<Rightarrow> string \<Rightarrow> string \<Rightarrow> bool" where
  "verify m now action params nonce token =
     (if length nonce = 0 then False
      else case Cut token (CHR ''.'') of
             None \<Rightarrow> False
           | Some (payload, sig) \<Rightarrow>
               if \<not> validSignature m payload sig then False
               else (let parts = SplitN payload (CHR ''|'') 4
                     in if length parts \<noteq> 4 then False
                        else claimsMatch now parts action params nonce))"

section \<open>The fields of a payload\<close>

text \<open>An action with neither of the two separators (the program's form actions are fixed paths).\<close>

definition plainAction :: "string \<Rightarrow> bool" where
  "plainAction action \<longleftrightarrow> CHR ''|'' \<notin> set action \<and> CHR ''.'' \<notin> set action"

lemma hexString_separators: "CHR ''|'' \<notin> set (hexString bs)" "CHR ''.'' \<notin> set (hexString bs)"
  using hexString_chars [of "CHR ''|''" bs] hexString_chars [of "CHR ''.''" bs]
  by (auto simp: less_eq_char_def)

lemma FormatInt_separators: "CHR ''|'' \<notin> set (FormatInt n)" "CHR ''.'' \<notin> set (FormatInt n)"
  using digitVal_set_decimal [of "CHR ''|''"] digitVal_set_decimal [of "CHR ''.''"]
  by (auto simp: FormatInt_def less_eq_char_def)

lemma SplitN_4:
  assumes "sep \<notin> set a" "sep \<notin> set b" "sep \<notin> set c"
  shows "SplitN (a @ sep # b @ sep # c @ sep # d) sep 4 = [a, b, c, d]"
  using assms by (simp add: Cut_append numeral_eq_Suc)

lemma SplitN_4_length:
  assumes "length (SplitN s sep 4) = 4"
  obtains a b c d where "SplitN s sep 4 = [a, b, c, d]" "s = a @ sep # b @ sep # c @ sep # d"
proof -
  from assms obtain a b c d where "s = a @ sep # b @ sep # c @ sep # d" "sep \<notin> set a" "sep \<notin> set b" "sep \<notin> set c"
    by (auto simp: numeral_eq_Suc Cut_Some split: option.splits)
  with SplitN_4 [of sep a b c d] show ?thesis by (intro that) simp_all
qed

lemma csrfPayload_fields:
  assumes "plainAction action"
  shows "SplitN (csrfPayload e action (fingerprint ps) (nonceFingerprint n)) (CHR ''|'') 4 =
      [FormatInt e, action, fingerprint ps, nonceFingerprint n]"
    and "CHR ''.'' \<notin> set (csrfPayload e action (fingerprint ps) (nonceFingerprint n))"
  using assms SplitN_4 [of "CHR ''|''" "FormatInt e" action "fingerprint ps" "nonceFingerprint n"]
  by (auto simp: csrfPayload_def plainAction_def fingerprint_def nonceFingerprint_def
      hexString_separators FormatInt_separators)

lemma verify_issue:
  assumes "plainAction action" "inInt64 (Unix (t + csrf_ttl m))"
  shows "verify m now action' params' nonce' (issue m t action params nonce) \<longleftrightarrow>
    nonce' \<noteq> [] \<and> Unix now \<le> Unix (t + csrf_ttl m) \<and> action' = action
    \<and> Sum256 (Encode params') = Sum256 (Encode params) \<and> Sum256 nonce' = Sum256 nonce"
proof -
  let ?p = "csrfPayload (Unix (t + csrf_ttl m)) action (fingerprint params) (nonceFingerprint nonce)"
  have "Cut (issue m t action params nonce) (CHR ''.'') = Some (?p, EncodeToString (hmacSum (csrf_key m) ?p))"
    using Cut_append [OF csrfPayload_fields(2) [OF assms(1)]] by (simp add: issue_def Let_def)
  moreover have "validSignature m ?p (EncodeToString (hmacSum (csrf_key m) ?p))"
    by (simp add: validSignature_def DecodeString_EncodeToString)
  ultimately have "verify m now action' params' nonce' (issue m t action params nonce) \<longleftrightarrow>
      nonce' \<noteq> [] \<and> claimsMatch now
        [FormatInt (Unix (t + csrf_ttl m)), action, fingerprint params, nonceFingerprint nonce] action' params' nonce'"
    by (simp add: verify_def csrfPayload_fields [OF assms(1)])
  also have "\<dots> \<longleftrightarrow> nonce' \<noteq> [] \<and> Unix now \<le> Unix (t + csrf_ttl m) \<and> action' = action
      \<and> fingerprint params' = fingerprint params \<and> nonceFingerprint nonce' = nonceFingerprint nonce"
    using ParseInt_FormatInt [OF assms(2)] by (auto simp: claimsMatch_def)
  finally show ?thesis by (simp add: fingerprint_def nonceFingerprint_def hexString_inject)
qed

section \<open>Properties\<close>

text \<open>
  C17. What a login-form token is good for: a token issued for an action, request parameters and a browser
  nonce is accepted for a submission exactly when the submission carries a nonce with the same digest, the
  same action and parameters with the same digest, and the token's lifetime (counted in whole
  seconds) is not over.
\<close>

theorem csrf_token_binding:
  assumes "plainAction action" "inInt64 (Unix (t + csrf_ttl m))"
  shows "verify m now action' params' nonce' (issue m t action params nonce) \<longleftrightarrow>
    nonce' \<noteq> [] \<and> Unix now \<le> Unix (t + csrf_ttl m) \<and> action' = action
    \<and> Sum256 (Encode params') = Sum256 (Encode params) \<and> Sum256 nonce' = Sum256 nonce"
  using assms by (rule verify_issue)

theorem csrf_token_binding_witness:
  "verify (newCSRFManager ''k'' (10 * minute)) (9 * minute) ''/authorize'' [(''scope'', [''openid''])] ''nonce''
     (issue (newCSRFManager ''k'' (10 * minute)) 0 ''/authorize'' [(''scope'', [''openid''])] ''nonce'')
   \<and> \<not> verify (newCSRFManager ''k'' (10 * minute)) (11 * minute) ''/authorize'' [(''scope'', [''openid''])] ''nonce''
     (issue (newCSRFManager ''k'' (10 * minute)) 0 ''/authorize'' [(''scope'', [''openid''])] ''nonce'')
   \<and> \<not> verify (newCSRFManager ''k'' (10 * minute)) 0 ''/login'' [(''scope'', [''openid''])] ''nonce''
     (issue (newCSRFManager ''k'' (10 * minute)) 0 ''/authorize'' [(''scope'', [''openid''])] ''nonce'')"
proof -
  have h: "plainAction ''/authorize''" "inInt64 (Unix (0 + csrf_ttl (newCSRFManager ''k'' (10 * minute))))"
    by (simp_all add: plainAction_def inInt64_def Unix_def newCSRFManager_def)
  show ?thesis
    unfolding csrf_token_binding [OF h] by (simp add: Unix_def newCSRFManager_def)
qed

text \<open>
  Nothing else is accepted: a token that passes the check for an action, parameters and a nonce consists
  of a payload whose four fields are an expiry that has not passed, that action, the digest of those
  parameters and the digest of that nonce, and of a signature that decodes to the HMAC of
  this payload under the server's secret.
\<close>

theorem csrf_verify_sound:
  assumes "verify m now action params nonce token"
  shows "nonce \<noteq> [] \<and> (\<exists>e expUnix sig.
      token = (e @ ''|'' @ action @ ''|'' @ fingerprint params @ ''|'' @ nonceFingerprint nonce) @ ''.'' @ sig
      \<and> DecodeString sig =
          Some (hmacSum (csrf_key m) (e @ ''|'' @ action @ ''|'' @ fingerprint params @ ''|'' @ nonceFingerprint nonce))
      \<and> ParseInt e = Some expUnix \<and> Unix now \<le> expUnix)"
proof -
  from assms obtain payload sig where cut: "Cut token (CHR ''.'') = Some (payload, sig)"
    and sig: "validSignature m payload sig" and len: "length (SplitN payload (CHR ''|'') 4) = 4"
    and claims: "claimsMatch now (SplitN payload (CHR ''|'') 4) action params nonce" and nonce: "nonce \<noteq> []"
    by (auto simp: verify_def Let_def split: if_splits option.splits)
  from len obtain a b c d where "SplitN payload (CHR ''|'') 4 = [a, b, c, d]"
    and payload: "payload = a @ CHR ''|'' # b @ CHR ''|'' # c @ CHR ''|'' # d"
    by (rule SplitN_4_length)
  with claims obtain expUnix where a: "ParseInt a = Some expUnix" "Unix now \<le> expUnix"
    and "b = action" "c = fingerprint params" "d = nonceFingerprint nonce"
    by (auto simp: claimsMatch_def split: option.splits if_splits)
  with payload have p: "payload = a @ ''|'' @ action @ ''|'' @ fingerprint params @ ''|'' @ nonceFingerprint nonce"
    by simp
  have "token = payload @ ''.'' @ sig" using cut by (simp add: Cut_Some)
  moreover have "DecodeString sig = Some (hmacSum (csrf_key m) payload)"
    using sig by (simp add: validSignature_def split: option.splits)
  ultimately show ?thesis
    using a nonce unfolding p by blast
qed

theorem csrf_verify_sound_witness:
  "\<exists>e sig. issue (newCSRFManager ''k'' (10 * minute)) 0 ''/login'' [] ''nonce'' =
     (e @ ''|'' @ ''/login'' @ ''|'' @ fingerprint [] @ ''|'' @ nonceFingerprint ''nonce'') @ ''.'' @ sig"
proof -
  have "verify (newCSRFManager ''k'' (10 * minute)) 0 ''/login'' [] ''nonce''
      (issue (newCSRFManager ''k'' (10 * minute)) 0 ''/login'' [] ''nonce'')"
    by (subst verify_issue) (simp_all add: plainAction_def inInt64_def Unix_def newCSRFManager_def)
  from csrf_verify_sound [OF this] show ?thesis by blast
qed

end
