(* ===== verification/Files.thy ===== *)
theory Files
  imports Errors Store
begin

text \<open>
  Atomic file replacement (\<^verbatim>\<open>internal/idp/jsonfile.go\<close>, and the two writers of \<^verbatim>\<open>internal/idp/key.go\<close>): the
  data goes to a temporary file that is renamed over the final name.

  A directory maps file names to contents; a file may also exist and be unreadable. Every system call of a writer
  may fail; a write may stop after any number of bytes. A writer is modelled by the sequence of directory states it passes
  through, oldest first, with the write appearing byte by byte, so that a crash at any moment leaves one
  of the states of the sequence behind.
\<close>

section \<open>Directories and faults\<close>

datatype node = Contents string | Unreadable

type_synonym dir = "string \<rightharpoonup> node"

record faults =
  openFails :: bool
  writeFailsAfter :: "nat option"
  closeFails :: bool
  renameFails :: bool
  removeFails :: bool

definition noFaults :: faults where
  "noFaults = \<lparr>openFails = False, writeFailsAfter = None, closeFails = False, renameFails = False, removeFails = False\<rparr>"

text \<open>\<^verbatim>\<open>removeTempFile\<close>: a failed removal is only logged.\<close>

definition removeTempFile :: "faults \<Rightarrow> string \<Rightarrow> dir \<Rightarrow> dir" where
  "removeTempFile io tmpName d = (if removeFails io then d else d(tmpName := None))"

text \<open>The states of the directory while \<open>n\<close> bytes of the data are written to the open temporary file.\<close>

definition writing :: "string \<Rightarrow> string \<Rightarrow> nat \<Rightarrow> dir \<Rightarrow> dir list" where
  "writing tmpName data n d = map (\<lambda>k. d(tmpName \<mapsto> Contents (take k data))) [0..<Suc n]"

text \<open>Write, close, rename: what all writers do once their temporary file is open and empty.\<close>

definition writeAndRename :: "faults \<Rightarrow> string \<Rightarrow> string \<Rightarrow> string \<Rightarrow> dir \<Rightarrow> idp_error option \<times> dir list" where
  "writeAndRename io tmpName name data d =
     (case writeFailsAfter io of
        Some n \<Rightarrow>
          (let d1 = d(tmpName \<mapsto> Contents (take n data))
           in (Some (errUpstream ''write''), writing tmpName data n d @ [removeTempFile io tmpName d1]))
      | None \<Rightarrow>
          (let d1 = d(tmpName \<mapsto> Contents data); steps = writing tmpName data (length data) d
           in if closeFails io then (Some (errUpstream ''close''), steps @ [removeTempFile io tmpName d1])
              else if renameFails io then (Some (errUpstream ''rename''), steps @ [removeTempFile io tmpName d1])
              else (None, steps @ [d1(name \<mapsto> Contents data, tmpName := None)])))"

section \<open>The writers\<close>

text \<open>\<^verbatim>\<open>saveJSONFile\<close>: \<open>rnd\<close> are the random bytes of the temporary name; the create is exclusive.\<close>

definition saveJSONFile :: "faults \<Rightarrow> string option \<Rightarrow> string \<Rightarrow> string \<Rightarrow> dir \<Rightarrow> idp_error option \<times> dir list" where
  "saveJSONFile io rnd name data d =
     (case randomToken rnd of
        Inl e \<Rightarrow> (Some e, [d])
      | Inr suff \<Rightarrow>
          (let tmpName = name @ ''.tmp-'' @ suff
           in if openFails io \<or> d tmpName \<noteq> None then (Some (errUpstream ''open''), [d])
              else (case writeAndRename io tmpName name data d of (e, steps) \<Rightarrow> (e, d # steps))))"

text \<open>\<^verbatim>\<open>persistKeyPEM\<close>, given the PEM bytes: fixed temporary name, exclusive create.\<close>

definition persistKeyPEM :: "faults \<Rightarrow> string \<Rightarrow> string \<Rightarrow> dir \<Rightarrow> idp_error option \<times> dir list" where
  "persistKeyPEM io name pemBytes d =
     (let tmpName = name @ ''.tmp''
      in if openFails io \<or> d tmpName \<noteq> None then (Some (errUpstream ''open''), [d])
         else (case writeAndRename io tmpName name pemBytes d of (e, steps) \<Rightarrow> (e, d # steps)))"

text \<open>\<^verbatim>\<open>saveKeyRing\<close>, given the marshalled document: a leftover temporary file is truncated.\<close>

definition saveKeyRing :: "faults \<Rightarrow> string \<Rightarrow> string option \<Rightarrow> dir \<Rightarrow> idp_error option \<times> dir list" where
  "saveKeyRing io name marshalled d =
     (case marshalled of
        None \<Rightarrow> (Some (errUpstream ''encoding/json''), [d])
      | Some json \<Rightarrow>
          (let data = json @ [CHR 0x0A]; tmpName = name @ ''.tmp''
           in if openFails io then (Some (errUpstream ''open''), [d])
              else (case writeAndRename io tmpName name data d of (e, steps) \<Rightarrow> (e, d # steps))))"

section \<open>Atomicity\<close>

text \<open>
  The contract every writer keeps: in every state it passes through, the final name holds what it held before or
  all of the new data; other names than the final and the temporary one are never touched; the writer reports
  success exactly when the last state has the new data under the final name and no temporary file, and after a
  failure the final name is as before.
\<close>

definition atomicWrite :: "string \<Rightarrow> string \<Rightarrow> string \<Rightarrow> dir \<Rightarrow> idp_error option \<times> dir list \<Rightarrow> bool" where
  "atomicWrite tmpName name data d res \<longleftrightarrow>
     snd res \<noteq> [] \<and> hd (snd res) = d
     \<and> (\<forall>s \<in> set (snd res). (s name = d name \<or> s name = Some (Contents data))
          \<and> (\<forall>other. other \<noteq> name \<and> other \<noteq> tmpName \<longrightarrow> s other = d other))
     \<and> (fst res = None \<longrightarrow> last (snd res) = d(name \<mapsto> Contents data, tmpName := None))
     \<and> (fst res \<noteq> None \<longrightarrow> last (snd res) name = d name)"

lemma writeAndRename_atomic:
  assumes "tmpName \<noteq> name"
  shows "atomicWrite tmpName name data d (fst (writeAndRename io tmpName name data d), d # snd (writeAndRename io tmpName name data d))"
  using assms
  by (auto simp: atomicWrite_def writeAndRename_def writing_def removeTempFile_def Let_def fun_upd_twist split: option.splits)

lemma writeAndRename_done:
  assumes "writeAndRename io tmpName name data d = (None, steps)" "tmpName \<noteq> name"
  shows "last steps = d(name \<mapsto> Contents data, tmpName := None)"
  using assms by (auto simp: writeAndRename_def Let_def fun_upd_twist split: option.splits if_splits)

lemma atomicWrite_refused: "atomicWrite tmpName name data d (Some e, [d])"
  by (simp add: atomicWrite_def)

lemma saveJSONFile_atomic:
  assumes "randomToken rnd = Inr suff"
  shows "atomicWrite (name @ ''.tmp-'' @ suff) name data d (saveJSONFile io rnd name data d)"
  using writeAndRename_atomic [of "name @ ''.tmp-'' @ suff" name data d io]
  by (simp add: saveJSONFile_def assms atomicWrite_refused Let_def case_prod_beta)

lemma persistKeyPEM_atomic: "atomicWrite (name @ ''.tmp'') name pemBytes d (persistKeyPEM io name pemBytes d)"
  using writeAndRename_atomic [of "name @ ''.tmp''" name pemBytes d io]
  by (simp add: persistKeyPEM_def atomicWrite_refused Let_def case_prod_beta)

lemma saveKeyRing_atomic:
  "atomicWrite (name @ ''.tmp'') name (json @ [CHR 0x0A]) d (saveKeyRing io name (Some json) d)"
  using writeAndRename_atomic [of "name @ ''.tmp''" name "json @ [CHR 0x0A]" d io]
  by (simp add: saveKeyRing_def atomicWrite_refused Let_def case_prod_beta)

text \<open>
  C31. The clients file and the key files are replaced atomically: whatever system call fails, and at whatever moment
  the process is killed (after any number of bytes), the file under the final name is the old one or the complete
  new one, no other file is touched, success is reported only when the new data is in place and the
  temporary file is gone, and after an error the old file is still there.
\<close>

theorem file_replacement_atomic:
  "(randomToken rnd = Inr suff \<longrightarrow> atomicWrite (name @ ''.tmp-'' @ suff) name data d (saveJSONFile io rnd name data d))
   \<and> atomicWrite (name @ ''.tmp'') name pemBytes d (persistKeyPEM io name pemBytes d)
   \<and> atomicWrite (name @ ''.tmp'') name (json @ [CHR 0x0A]) d (saveKeyRing io name (Some json) d)"
  by (intro conjI impI saveJSONFile_atomic persistKeyPEM_atomic saveKeyRing_atomic)

theorem file_replacement_atomic_witness:
  "atomicWrite (''clients.json.tmp-'' @ EncodeToString (replicate 32 (CHR ''r''))) ''clients.json'' ''[]'' Map.empty
     (saveJSONFile noFaults (Some (replicate 32 (CHR ''r''))) ''clients.json'' ''[]'' Map.empty)"
  using file_replacement_atomic [of "Some (replicate 32 (CHR ''r''))" "EncodeToString (replicate 32 (CHR ''r''))" "''clients.json''"
      "''[]''" Map.empty noFaults, THEN conjunct1]
  by (simp add: randomToken_def)

end
