(* ===== verification/Utf8.thy ===== *)
theory Utf8
  imports GoStrings
begin

text \<open>
  UTF-8 as Go's \<^verbatim>\<open>unicode/utf8\<close> decodes and encodes it, and the string literals of JSON: how \<^verbatim>\<open>encoding/json\<close> writes a string
  between quotes and reads it back. A Go string is any sequence of bytes; bytes that are no encoding of a code point are replaced by
  U+FFFD on the way, so that a string survives exactly when it is valid UTF-8.
\<close>

section \<open>Code points\<close>

abbreviation (input) octet :: "char \<Rightarrow> nat" where "octet c \<equiv> of_char c"

definition octetIn :: "nat \<Rightarrow> nat \<Rightarrow> char \<Rightarrow> bool" where
  "octetIn lo hi c \<longleftrightarrow> lo \<le> octet c \<and> octet c \<le> hi"

text \<open>The number of bytes of the encoded code point at the head of a string, 0 when there is none (\<^verbatim>\<open>utf8.DecodeRune\<close>).\<close>

fun runeLen :: "string \<Rightarrow> nat" where
  "runeLen [] = 0"
| "runeLen (a # s) =
     (if octet a < 0x80 then 1
      else if octetIn 0xC2 0xDF a then (case s of b # _ \<Rightarrow> if octetIn 0x80 0xBF b then 2 else 0 | _ \<Rightarrow> 0)
      else if octetIn 0xE0 0xEF a then
        (case s of b # c # _ \<Rightarrow>
           if octetIn (if octet a = 0xE0 then 0xA0 else 0x80) (if octet a = 0xED then 0x9F else 0xBF) b \<and> octetIn 0x80 0xBF c then 3 else 0
         | _ \<Rightarrow> 0)
      else if octetIn 0xF0 0xF4 a then
        (case s of b # c # d # _ \<Rightarrow>
           if octetIn (if octet a = 0xF0 then 0x90 else 0x80) (if octet a = 0xF4 then 0x8F else 0xBF) b
              \<and> octetIn 0x80 0xBF c \<and> octetIn 0x80 0xBF d then 4 else 0
         | _ \<Rightarrow> 0)
      else 0)"

declare runeLen.simps(2) [simp del]

text \<open>A string as the sequence of its code points, each with its bytes; \<^term>\<open>None\<close> stands for a byte that belongs to none.\<close>

function runes :: "string \<Rightarrow> string option list" where
  "runes s =
     (if s = [] then []
      else if runeLen s = 0 then None # runes (tl s)
      else Some (take (runeLen s) s) # runes (drop (runeLen s) s))"
  by pat_completeness auto
termination
  by (relation "measure length") auto

declare runes.simps [simp del]

definition replacementRune :: string where
  "replacementRune = [CHR 0xEF, CHR 0xBF, CHR 0xBD]"

definition runeBytes :: "string option \<Rightarrow> string" where
  "runeBytes r = (case r of None \<Rightarrow> replacementRune | Some bs \<Rightarrow> bs)"

definition validUTF8 :: "string \<Rightarrow> bool" where
  "validUTF8 s \<longleftrightarrow> None \<notin> set (runes s)"

text \<open>A string with every stray byte replaced (\<^verbatim>\<open>strings.ToValidUTF8\<close>, byte by byte).\<close>

definition coerceUTF8 :: "string \<Rightarrow> string" where
  "coerceUTF8 s = concat (map runeBytes (runes s))"

text \<open>\<^verbatim>\<open>utf8.EncodeRune\<close>\<close>

definition EncodeRune :: "nat \<Rightarrow> string" where
  "EncodeRune n =
     (if n < 0x80 then [char_of n]
      else if n < 0x800 then [char_of (0xC0 + n div 64), char_of (0x80 + n mod 64)]
      else if 0x10FFFF < n \<or> 0xD800 \<le> n \<and> n < 0xE000 then replacementRune
      else if n < 0x10000 then [char_of (0xE0 + n div 4096), char_of (0x80 + n div 64 mod 64), char_of (0x80 + n mod 64)]
      else [char_of (0xF0 + n div 262144), char_of (0x80 + n div 4096 mod 64), char_of (0x80 + n div 64 mod 64), char_of (0x80 + n mod 64)])"

section \<open>String literals\<close>

definition lowHex :: "nat \<Rightarrow> char" where
  "lowHex n = (if n < 10 then char_of (48 + n) else char_of (87 + n))"

text \<open>\<^verbatim>\<open>appendString\<close> of \<^verbatim>\<open>encoding/json\<close> with the escaping of HTML characters switched on, for one code point.\<close>

definition quoteRune :: "string option \<Rightarrow> string" where
  "quoteRune r =
     (case r of
        Some [c] \<Rightarrow>
          (if c = CHR 0x22 \<or> c = CHR 0x5C then [CHR 0x5C, c]
           else if c = CHR 0x08 then [CHR 0x5C, CHR ''b'']
           else if c = CHR 0x0C then [CHR 0x5C, CHR ''f'']
           else if c = CHR 0x0A then [CHR 0x5C, CHR ''n'']
           else if c = CHR 0x0D then [CHR 0x5C, CHR ''r'']
           else if c = CHR 0x09 then [CHR 0x5C, CHR ''t'']
           else if octet c < 0x20 \<or> c = CHR ''<'' \<or> c = CHR ''>'' \<or> c = CHR ''&''
             then [CHR 0x5C, CHR ''u'', CHR ''0'', CHR ''0'', lowHex (octet c div 16), lowHex (octet c mod 16)]
           else [c])
      | Some bs \<Rightarrow>
          (if bs = [CHR 0xE2, CHR 0x80, CHR 0xA8] then CHR 0x5C # ''u2028''
           else if bs = [CHR 0xE2, CHR 0x80, CHR 0xA9] then CHR 0x5C # ''u2029''
           else bs)
      | None \<Rightarrow> CHR 0x5C # ''ufffd'')"

definition quoteBody :: "string \<Rightarrow> string" where
  "quoteBody s = concat (map quoteRune (runes s))"

text \<open>\<^verbatim>\<open>getu4\<close>: four hexadecimal digits.\<close>

fun getu4 :: "string \<Rightarrow> (nat \<times> string) option" where
  "getu4 (a # b # c # d # r) =
     (case (unhexDigit a, unhexDigit b, unhexDigit c, unhexDigit d) of
        (Some w, Some x, Some y, Some z) \<Rightarrow> Some (4096 * w + 256 * x + 16 * y + z, r)
      | _ \<Rightarrow> None)"
| "getu4 _ = None"

lemma getu4_length: "getu4 s = Some (n, r) \<Longrightarrow> length s = length r + 4"
  by (cases s rule: getu4.cases) (auto split: option.splits)

definition escapeOf :: "char \<Rightarrow> char option" where
  "escapeOf e =
     (if e = CHR 0x22 \<or> e = CHR 0x5C \<or> e = CHR ''/'' then Some e
      else if e = CHR ''b'' then Some (CHR 0x08)
      else if e = CHR ''f'' then Some (CHR 0x0C)
      else if e = CHR ''n'' then Some (CHR 0x0A)
      else if e = CHR ''r'' then Some (CHR 0x0D)
      else if e = CHR ''t'' then Some (CHR 0x09)
      else None)"

text \<open>The code point after \<^verbatim>\<open>\u\<close> and the rest: two surrogate halves are put together, a lone one is replaced.\<close>

definition unicodeEscape :: "string \<Rightarrow> (string \<times> string) option" where
  "unicodeEscape s =
     (case getu4 s of
        None \<Rightarrow> None
      | Some (rr, r) \<Rightarrow>
          if 0xD800 \<le> rr \<and> rr < 0xE000 then
            (case r of
               b # u # r1 \<Rightarrow>
                 (case (if b = CHR 0x5C \<and> u = CHR ''u'' then getu4 r1 else None) of
                    Some (rr1, r2) \<Rightarrow>
                      if rr < 0xDC00 \<and> 0xDC00 \<le> rr1 \<and> rr1 < 0xE000
                      then Some (EncodeRune ((rr - 0xD800) * 1024 + (rr1 - 0xDC00) + 0x10000), r2)
                      else Some (replacementRune, r)
                  | None \<Rightarrow> Some (replacementRune, r))
             | _ \<Rightarrow> Some (replacementRune, r))
          else Some (EncodeRune rr, r))"

lemma unicodeEscape_length: "unicodeEscape s = Some (bs, r) \<Longrightarrow> length r < length s"
  by (auto simp: unicodeEscape_def dest!: getu4_length split: option.splits if_splits list.splits)

text \<open>\<^verbatim>\<open>unquote\<close> on the bytes between the quotes.\<close>

function unquote :: "string \<Rightarrow> string option" where
  "unquote s =
     (case s of
        [] \<Rightarrow> Some []
      | c # cs \<Rightarrow>
          if c = CHR 0x5C then
            (case cs of
               [] \<Rightarrow> None
             | e # r \<Rightarrow>
                 if e = CHR ''u'' then
                   (case unicodeEscape r of
                      None \<Rightarrow> None
                    | Some (bs, r') \<Rightarrow> map_option ((@) bs) (unquote r'))
                 else (case escapeOf e of None \<Rightarrow> None | Some x \<Rightarrow> map_option ((#) x) (unquote r)))
          else if c = CHR 0x22 \<or> octet c < 0x20 then None
          else if runeLen s = 0 then map_option ((@) replacementRune) (unquote cs)
          else map_option ((@) (take (runeLen s) s)) (unquote (drop (runeLen s) s)))"
  by pat_completeness auto
termination
  by (relation "measure length") (auto dest: unicodeEscape_length)

declare unquote.simps [simp del]

section \<open>Strings of octet points\<close>

definition isRune :: "string \<Rightarrow> bool" where
  "isRune bs \<longleftrightarrow> bs \<noteq> [] \<and> runeLen bs = length bs"

lemma octet_eq: "c = d \<longleftrightarrow> octet c = octet d"
  by simp

lemma octet_less [simp]: "octet c < 256"
  by (metis of_char_of char_of_char mod_less_divisor zero_less_numeral)

lemma runeLen_le: "runeLen s \<le> length s"
  by (cases s) (auto simp: runeLen.simps(2) split: list.splits)

lemma runeLen_cases [consumes 1, case_names one two three four]:
  assumes "0 < runeLen s"
  obtains a t where "s = a # t" "octet a < 0x80"
  | a b t where "s = a # b # t" "octetIn 0xC2 0xDF a" "octetIn 0x80 0xBF b"
  | a b c t where "s = a # b # c # t" "octetIn 0xE0 0xEF a"
      "octetIn (if octet a = 0xE0 then 0xA0 else 0x80) (if octet a = 0xED then 0x9F else 0xBF) b" "octetIn 0x80 0xBF c"
  | a b c d t where "s = a # b # c # d # t" "octetIn 0xF0 0xF4 a"
      "octetIn (if octet a = 0xF0 then 0x90 else 0x80) (if octet a = 0xF4 then 0x8F else 0xBF) b" "octetIn 0x80 0xBF c" "octetIn 0x80 0xBF d"
proof (cases s)
  case (Cons a s1)
  consider "octet a < 0x80" | "\<not> octet a < 0x80" "octetIn 0xC2 0xDF a" | "\<not> octet a < 0x80" "\<not> octetIn 0xC2 0xDF a" "octetIn 0xE0 0xEF a"
    | "\<not> octet a < 0x80" "\<not> octetIn 0xC2 0xDF a" "\<not> octetIn 0xE0 0xEF a" "octetIn 0xF0 0xF4 a"
    using assms Cons by (auto simp: runeLen.simps(2) split: if_splits)
  then show ?thesis
  proof cases
    case 1 with Cons that(1) show ?thesis by blast
  next
    case 2
    with assms Cons obtain b t where "s1 = b # t" "octetIn 0x80 0xBF b"
      by (cases s1) (auto simp: runeLen.simps(2) split: if_splits)
    with Cons 2 that(2) show ?thesis by blast
  next
    case 3
    with assms Cons have "0 < (case s1 of b # c # t \<Rightarrow>
           if octetIn (if octet a = 0xE0 then 0xA0 else 0x80) (if octet a = 0xED then 0x9F else 0xBF) b \<and> octetIn 0x80 0xBF c then 3 else 0
         | _ \<Rightarrow> (0 :: nat))" by (simp only: runeLen.simps if_True if_False)
    with Cons 3 that(3) show ?thesis by (auto split: list.splits if_split_asm)
  next
    case 4
    with assms Cons have "0 < (case s1 of b # c # d # t \<Rightarrow>
           if octetIn (if octet a = 0xF0 then 0x90 else 0x80) (if octet a = 0xF4 then 0x8F else 0xBF) b
              \<and> octetIn 0x80 0xBF c \<and> octetIn 0x80 0xBF d then 4 else 0
         | _ \<Rightarrow> (0 :: nat))" by (simp only: runeLen.simps if_True if_False)
    with Cons 4 that(4) show ?thesis by (auto split: list.splits if_split_asm)
  qed
qed (use assms in simp)

lemma runeLen_1: "octet a < 0x80 \<Longrightarrow> runeLen (a # t) = 1"
  by (simp add: runeLen.simps(2))

lemma runeLen_2: "octetIn 0xC2 0xDF a \<Longrightarrow> octetIn 0x80 0xBF b \<Longrightarrow> runeLen (a # b # t) = 2"
  by (simp add: runeLen.simps(2)) (simp add: octetIn_def)

lemma runeLen_3:
  "octetIn 0xE0 0xEF a \<Longrightarrow> octetIn (if octet a = 0xE0 then 0xA0 else 0x80) (if octet a = 0xED then 0x9F else 0xBF) b \<Longrightarrow>
   octetIn 0x80 0xBF c \<Longrightarrow> runeLen (a # b # c # t) = 3"
  by (simp only: runeLen.simps list.case simp_thms if_True if_False) (simp add: octetIn_def)

lemma runeLen_4:
  "octetIn 0xF0 0xF4 a \<Longrightarrow> octetIn (if octet a = 0xF0 then 0x90 else 0x80) (if octet a = 0xF4 then 0x8F else 0xBF) b \<Longrightarrow>
   octetIn 0x80 0xBF c \<Longrightarrow> octetIn 0x80 0xBF d \<Longrightarrow> runeLen (a # b # c # d # t) = 4"
  by (simp only: runeLen.simps list.case simp_thms if_True if_False) (simp add: octetIn_def)

lemmas runeLen_eqs = runeLen_1 runeLen_2 runeLen_3 runeLen_4

lemma runeLen_local: "0 < runeLen s \<Longrightarrow> runeLen (take (runeLen s) s @ t) = runeLen s"
proof (induction rule: runeLen_cases)
  case (one a u) then show ?case by (simp add: runeLen_1)
next
  case (two a b u) then show ?case by (simp add: runeLen_2)
next
  case (three a b c u)
  then have "runeLen s = 3" "runeLen (a # b # c # t) = 3" by (simp_all only: runeLen_3)
  with three(1) show ?case by simp
next
  case (four a b c d u)
  then have "runeLen s = 4" "runeLen (a # b # c # d # t) = 4" by (simp_all only: runeLen_4)
  with four(1) show ?case by simp
qed

lemma isRune_take: "0 < runeLen s \<Longrightarrow> isRune (take (runeLen s) s)"
  using runeLen_local [of s "[]"] runeLen_le [of s] by (auto simp: isRune_def)

lemma isRune_append: "isRune bs \<Longrightarrow> runeLen (bs @ t) = length bs"
  using runeLen_local [of bs t] by (simp add: isRune_def)

lemma runes_Nil [simp]: "runes [] = []"
  by (simp add: runes.simps)

lemma runes_rune: "isRune bs \<Longrightarrow> runes (bs @ t) = Some bs # runes t"
  by (subst runes.simps) (simp add: isRune_append, simp add: isRune_def)

lemma runes_isRune: "Some bs \<in> set (runes s) \<Longrightarrow> isRune bs"
proof (induction s rule: runes.induct)
  case (1 s)
  then show ?case
    by (cases "s = []"; cases "runeLen s = 0")
      (auto simp: runes.simps [of s] isRune_take)
qed

lemma isRune_ascii: "octet c < 0x80 \<Longrightarrow> isRune [c]"
  by (simp add: isRune_def runeLen.simps(2))

lemma isRune_replacement [simp]: "isRune replacementRune"
  by (simp add: isRune_def replacementRune_def runeLen.simps(2) octetIn_def)

lemma isRune_runeBytes: "r \<in> set (runes s) \<Longrightarrow> isRune (runeBytes r)"
  by (cases r) (auto simp: runeBytes_def dest: runes_isRune)

lemma runes_concat: "\<forall>bs \<in> set bss. isRune bs \<Longrightarrow> runes (concat bss) = map Some bss"
  by (induction bss) (auto simp: runes_rune)

lemma runes_coerce: "runes (coerceUTF8 s) = map (Some \<circ> runeBytes) (runes s)"
  by (simp add: coerceUTF8_def runes_concat isRune_runeBytes)

lemma validUTF8_coerce [simp]: "validUTF8 (coerceUTF8 s)"
  by (auto simp: validUTF8_def runes_coerce)

lemma concat_runes: "None \<notin> set (runes s) \<Longrightarrow> concat (map runeBytes (runes s)) = s"
proof (induction s rule: runes.induct)
  case (1 s)
  then show ?case
    by (cases "s = []"; cases "runeLen s = 0") (simp_all add: runes.simps [of s] runeBytes_def)
qed

lemma coerce_valid: "coerceUTF8 s = s \<longleftrightarrow> validUTF8 s"
  using concat_runes [of s] validUTF8_coerce [of s] by (auto simp: coerceUTF8_def validUTF8_def)

lemma validUTF8_Nil [simp]: "validUTF8 []"
  by (simp add: validUTF8_def)

lemma validUTF8_rune: "isRune bs \<Longrightarrow> validUTF8 (bs @ t) \<longleftrightarrow> validUTF8 t"
  by (simp add: validUTF8_def runes_rune)

lemma validUTF8_append: "validUTF8 s \<Longrightarrow> validUTF8 (s @ t) \<longleftrightarrow> validUTF8 t"
proof (induction s rule: runes.induct)
  case (1 s)
  show ?case
  proof (cases "s = []")
    case False
    with "1.prems" have n: "0 < runeLen s" by (cases "runeLen s") (auto simp: validUTF8_def runes.simps [of s])
    then have "isRune (take (runeLen s) s)" by (rule isRune_take)
    note v = validUTF8_rune [OF this]
    have "validUTF8 (drop (runeLen s) s)" using "1.prems" v [of "drop (runeLen s) s"] by simp
    with 1 False n have "validUTF8 (drop (runeLen s) s @ t) \<longleftrightarrow> validUTF8 t" by simp
    then show ?thesis using v [of "drop (runeLen s) s @ t"] by (metis append.assoc append_take_drop_id)
  qed simp
qed

lemma validUTF8_Cons: "octet c < 0x80 \<Longrightarrow> validUTF8 (c # s) \<longleftrightarrow> validUTF8 s"
  using validUTF8_rune [OF isRune_ascii, of c s] by simp

lemma validUTF8_ascii: "\<forall>c \<in> set s. octet c < 0x80 \<Longrightarrow> validUTF8 s"
  by (induction s) (auto simp: validUTF8_Cons)

lemma octetIn_char_of [simp]: "n < 256 \<Longrightarrow> octetIn lo hi (char_of n) \<longleftrightarrow> lo \<le> n \<and> n \<le> hi"
  by (simp add: octetIn_def)

lemma isRune_EncodeRune: "isRune (EncodeRune n)"
proof -
  consider "n < 0x80" | "0x80 \<le> n" "n < 0x800" | "0x800 \<le> n" "n < 0x10000" "\<not> (0xD800 \<le> n \<and> n < 0xE000)"
    | "0xD800 \<le> n \<and> n < 0xE000 \<or> 0x10FFFF < n" | "0x10000 \<le> n" "n \<le> 0x10FFFF" by linarith
  then show ?thesis
  proof cases
    case 1 then show ?thesis by (simp add: EncodeRune_def isRune_ascii)
  next
    case 2
    then have "2 \<le> n div 64" "n div 64 < 32" by auto
    then have "0xC2 \<le> 0xC0 + n div 64" "0xC0 + n div 64 \<le> 0xDF" "0x80 + n mod 64 \<le> 0xBF" by auto
    then have "runeLen [char_of (0xC0 + n div 64), char_of (0x80 + n mod 64)] = 2" by (intro runeLen_2) simp_all
    with 2 show ?thesis by (simp add: EncodeRune_def isRune_def)
  next
    case 3
    let ?a = "0xE0 + n div 4096" and ?b = "0x80 + n div 64 mod 64" and ?c = "0x80 + n mod 64"
    define m where "m = n div 64"
    have m: "n div 4096 = m div 64" by (simp add: m_def div_mult2_eq [symmetric])
    have "32 \<le> m" "m < 1024" "m < 864 \<or> 896 \<le> m" using 3 by (auto simp: m_def)
    then have "m div 64 \<le> 15" "m div 64 = 0 \<longrightarrow> 32 \<le> m mod 64" "m div 64 = 13 \<longrightarrow> m mod 64 \<le> 31"
      using mult_div_mod_eq [of 64 m] mod_less_divisor [of 64 m] by linarith+
    then have "?a \<le> 0xEF" "?a = 0xE0 \<longrightarrow> 0xA0 \<le> ?b" "?a = 0xED \<longrightarrow> ?b \<le> 0x9F" "?b \<le> 0xBF" "?c \<le> 0xBF" unfolding m m_def [symmetric] by auto
    then have "runeLen [char_of ?a, char_of ?b, char_of ?c] = 3" by (intro runeLen_3) simp_all
    with 3 show ?thesis by (auto simp: EncodeRune_def isRune_def)
  next
    case 4 then show ?thesis by (auto simp: EncodeRune_def)
  next
    case 5
    let ?a = "0xF0 + n div 262144" and ?b = "0x80 + n div 4096 mod 64" and ?c = "0x80 + n div 64 mod 64" and ?d = "0x80 + n mod 64"
    define m where "m = n div 4096"
    have m: "n div 262144 = m div 64" by (simp add: m_def div_mult2_eq [symmetric])
    have "16 \<le> m" "m < 272" using 5 by (auto simp: m_def)
    then have "m div 64 \<le> 4" "m div 64 = 0 \<longrightarrow> 16 \<le> m mod 64" "m div 64 = 4 \<longrightarrow> m mod 64 \<le> 15"
      using mult_div_mod_eq [of 64 m] mod_less_divisor [of 64 m] by linarith+
    then have "?a \<le> 0xF4" "?a = 0xF0 \<longrightarrow> 0x90 \<le> ?b" "?a = 0xF4 \<longrightarrow> ?b \<le> 0x8F" "?b \<le> 0xBF" "?c \<le> 0xBF" "?d \<le> 0xBF" unfolding m m_def [symmetric] by auto
    then have "runeLen [char_of ?a, char_of ?b, char_of ?c, char_of ?d] = 4" by (intro runeLen_4) simp_all
    with 5 show ?thesis by (auto simp: EncodeRune_def isRune_def)
  qed
qed

section \<open>Literals read back\<close>

lemma unhex_lowHex: "n < 16 \<Longrightarrow> unhexDigit (lowHex n) = Some n"
  by (auto simp: unhexDigit_def lowHex_def less_eq_char_def)

lemma unicodeEscape_ascii:
  "octet c < 0x80 \<Longrightarrow> unicodeEscape (CHR ''0'' # CHR ''0'' # lowHex (octet c div 16) # lowHex (octet c mod 16) # t) = Some ([c], t)"
  by (simp add: unicodeEscape_def unhex_lowHex unhexDigit_def [of "CHR ''0''"] less_eq_char_def EncodeRune_def)

lemma char_of_bytes:
  "char_of (226 :: nat) = CHR 0xE2" "char_of (128 :: nat) = CHR 0x80" "char_of (168 :: nat) = CHR 0xA8" "char_of (169 :: nat) = CHR 0xA9"
  "char_of (239 :: nat) = CHR 0xEF" "char_of (191 :: nat) = CHR 0xBF" "char_of (189 :: nat) = CHR 0xBD"
  by code_simp+

lemma unicodeEscape_special:
  "unicodeEscape (''2028'' @ t) = Some ([CHR 0xE2, CHR 0x80, CHR 0xA8], t)"
  "unicodeEscape (''2029'' @ t) = Some ([CHR 0xE2, CHR 0x80, CHR 0xA9], t)"
  "unicodeEscape (''fffd'' @ t) = Some (replacementRune, t)"
  by (simp_all add: unicodeEscape_def unhexDigit_def less_eq_char_def EncodeRune_def replacementRune_def char_of_bytes)

lemma unquote_Nil [simp]: "unquote [] = Some []"
  by (simp add: unquote.simps)

lemma unquote_plain:
  assumes "isRune bs" "hd bs \<noteq> CHR 0x5C" "hd bs \<noteq> CHR 0x22" "0x20 \<le> octet (hd bs)"
  shows "unquote (bs @ t) = map_option ((@) bs) (unquote t)"
proof -
  have "runeLen (bs @ t) = length bs" using assms(1) by (rule isRune_append)
  moreover obtain c cs where "bs = c # cs" using assms(1) by (cases bs) (auto simp: isRune_def)
  ultimately show ?thesis using assms(2-) by (subst unquote.simps) simp
qed

lemma unquote_u: "unicodeEscape s = Some (bs, r) \<Longrightarrow> unquote (CHR 0x5C # CHR ''u'' # s) = map_option ((@) bs) (unquote r)"
  by (subst unquote.simps) simp

lemma unquote_escape: "e \<noteq> CHR ''u'' \<Longrightarrow> escapeOf e = Some x \<Longrightarrow> unquote (CHR 0x5C # e # r) = map_option ((#) x) (unquote r)"
  by (subst unquote.simps) simp

lemma isRune_head: "isRune bs \<Longrightarrow> (\<exists>c. bs = [c] \<and> octet c < 0x80) \<or> (0x80 \<le> octet (hd bs) \<and> 2 \<le> length bs)"
proof -
  assume r: "isRune bs"
  then have "0 < runeLen bs" by (simp add: isRune_def)
  then show ?thesis using r by (cases rule: runeLen_cases) (auto simp: isRune_def runeLen_1 octetIn_def)
qed

lemma unquote_quote_short:
  assumes "c \<in> {CHR 0x22, CHR 0x5C, CHR 0x08, CHR 0x0C, CHR 0x0A, CHR 0x0D, CHR 0x09}"
  shows "unquote (quoteRune (Some [c]) @ t) = map_option ((#) c) (unquote t)"
proof -
  have "\<exists>e. quoteRune (Some [c]) = [CHR 0x5C, e] \<and> e \<noteq> CHR ''u'' \<and> escapeOf e = Some c"
    using assms by (auto simp: quoteRune_def escapeOf_def)
  then show ?thesis using unquote_escape by auto
qed

lemma unquote_quote_ascii:
  assumes "octet c < 0x80"
  shows "unquote (quoteRune (Some [c]) @ t) = map_option ((#) c) (unquote t)"
proof -
  consider "c \<in> {CHR 0x22, CHR 0x5C, CHR 0x08, CHR 0x0C, CHR 0x0A, CHR 0x0D, CHR 0x09}"
    | (u) "quoteRune (Some [c]) = [CHR 0x5C, CHR ''u'', CHR ''0'', CHR ''0'', lowHex (octet c div 16), lowHex (octet c mod 16)]"
    | (plain) "quoteRune (Some [c]) = [c]" "c \<noteq> CHR 0x5C" "c \<noteq> CHR 0x22" "0x20 \<le> octet c"
  proof (cases "c \<in> {CHR 0x22, CHR 0x5C, CHR 0x08, CHR 0x0C, CHR 0x0A, CHR 0x0D, CHR 0x09}")
    case False
    with that(2,3) show ?thesis
      by (cases "octet c < 0x20 \<or> c = CHR ''<'' \<or> c = CHR ''>'' \<or> c = CHR ''&''") (auto simp: quoteRune_def)
  qed (use that in blast)
  then show ?thesis
  proof cases
    case 1 then show ?thesis by (rule unquote_quote_short)
  next
    case u
    have "(@) [c] = (#) c" by auto
    with u unquote_u [OF unicodeEscape_ascii [OF assms], of t] show ?thesis by simp
  next
    case plain
    have "(@) [c] = (#) c" by auto
    with plain unquote_plain [OF isRune_ascii [OF assms], of t] show ?thesis by simp
  qed
qed

lemma quoteRune_wide: "2 \<le> length bs \<Longrightarrow> quoteRune (Some bs) =
    (if bs = [CHR 0xE2, CHR 0x80, CHR 0xA8] then CHR 0x5C # ''u2028''
     else if bs = [CHR 0xE2, CHR 0x80, CHR 0xA9] then CHR 0x5C # ''u2029'' else bs)"
  by (cases bs; cases "tl bs") (simp_all add: quoteRune_def)

lemma unquote_quoteRune:
  assumes "r \<in> set (runes s)"
  shows "unquote (quoteRune r @ t) = map_option ((@) (runeBytes r)) (unquote t)"
proof (cases r)
  case None
  then show ?thesis using unquote_u [OF unicodeEscape_special(3)] by (simp add: quoteRune_def runeBytes_def)
next
  case (Some bs)
  then have r: "isRune bs" using assms runes_isRune by blast
  show ?thesis
  proof (cases "\<exists>c. bs = [c] \<and> octet c < 0x80")
    case True
    then obtain c where c: "bs = [c]" "octet c < 0x80" by blast
    have "(@) [c] = (#) c" by auto
    with Some c unquote_quote_ascii [OF c(2), of t] show ?thesis by (simp add: runeBytes_def)
  next
    case False
    with isRune_head [OF r] have h: "0x80 \<le> octet (hd bs)" "2 \<le> length bs" by auto
    then have "hd bs \<noteq> CHR 0x5C" "hd bs \<noteq> CHR 0x22" "0x20 \<le> octet (hd bs)" by auto
    with Some h show ?thesis
      using unquote_plain [OF r, of t] unquote_u [OF unicodeEscape_special(1), of t] unquote_u [OF unicodeEscape_special(2), of t]
      by (simp add: quoteRune_wide runeBytes_def)
  qed
qed

theorem unquote_quoteBody: "unquote (quoteBody s) = Some (coerceUTF8 s)"
proof -
  have "set rs \<subseteq> set (runes s) \<Longrightarrow> unquote (concat (map quoteRune rs)) = Some (concat (map runeBytes rs))" for rs
    by (induction rs) (auto simp: unquote_quoteRune)
  then show ?thesis by (simp add: quoteBody_def coerceUTF8_def)
qed

lemma unicodeEscape_rune: "unicodeEscape s = Some (bs, r) \<Longrightarrow> isRune bs"
  by (auto simp: unicodeEscape_def isRune_EncodeRune split: option.splits if_splits list.splits)

lemma escapeOf_ascii: "escapeOf e = Some x \<Longrightarrow> octet x < 0x80"
  by (auto simp: escapeOf_def split: if_splits)

text \<open>Whatever is in the literal, the string that is read from it is valid UTF-8.\<close>

theorem unquote_valid: "unquote s = Some t \<Longrightarrow> validUTF8 t"
proof (induction s arbitrary: t rule: unquote.induct)
  case (1 s)
  show ?case
  proof (cases s)
    case Nil
    with "1.prems" show ?thesis by (simp add: unquote.simps)
  next
    case (Cons c cs)
    consider (uni) bs r r' u where "c = CHR 0x5C" "cs = CHR ''u'' # r" "unicodeEscape r = Some (bs, r')" "unquote r' = Some u" "t = bs @ u"
      | (esc) e r x u where "c = CHR 0x5C" "cs = e # r" "e \<noteq> CHR ''u''" "escapeOf e = Some x" "unquote r = Some u" "t = x # u"
      | (stray) u where "c \<noteq> CHR 0x5C" "\<not> (c = CHR 0x22 \<or> octet c < 0x20)" "runeLen s = 0" "unquote cs = Some u" "t = replacementRune @ u"
      | (plain) u where "c \<noteq> CHR 0x5C" "\<not> (c = CHR 0x22 \<or> octet c < 0x20)" "runeLen s \<noteq> 0" "unquote (drop (runeLen s) s) = Some u"
          "t = take (runeLen s) s @ u"
      using "1.prems" Cons by (subst (asm) unquote.simps) (auto split: if_splits list.splits option.splits)
    then show ?thesis
    proof cases
      case uni
      with "1.IH"(1) [OF Cons] have "validUTF8 u" by simp
      with uni unicodeEscape_rune show ?thesis by (simp add: validUTF8_rune)
    next
      case esc
      with "1.IH"(2) [OF Cons] have "validUTF8 u" by simp
      with esc escapeOf_ascii show ?thesis by (simp add: validUTF8_Cons)
    next
      case stray
      with "1.IH"(3) [OF Cons] have "validUTF8 u" by simp
      with stray show ?thesis by (simp add: validUTF8_rune)
    next
      case plain
      with "1.IH"(4) [OF Cons] have "validUTF8 u" by simp
      moreover have "isRune (take (runeLen s) s)" using plain by (intro isRune_take) simp
      ultimately show ?thesis using plain by (simp add: validUTF8_rune)
    qed
  qed
qed

section \<open>Cutting a string at a character\<close>

text \<open>
  A byte that starts a code point is never inside another one, so a valid string cut in front of such a byte falls into two valid
  strings: the text functions that cut at ASCII characters and at white space keep the encoding.
\<close>

lemma runeLen_inside: "0 < i \<Longrightarrow> i < runeLen s \<Longrightarrow> octetIn 0x80 0xBF (s ! i)"
proof -
  assume i: "0 < i" "i < runeLen s"
  then have "0 < runeLen s" by simp
  then show ?thesis
  proof (cases rule: runeLen_cases)
    case (one a t)
    with i show ?thesis by (simp add: runeLen_1)
  next
    case (two a b t)
    with i have "i = 1" by (simp add: runeLen_2)
    with two show ?thesis by simp
  next
    case (three a b c t)
    have "runeLen s = 3" unfolding three(1) by (rule runeLen_3 [OF three(2-4)])
    with i have "i = 1 \<or> i = 2" by linarith
    moreover have "s ! 1 = b" "s ! 2 = c" by (simp_all add: three(1))
    moreover have "octetIn 0x80 0xBF b" using three(3) by (simp add: octetIn_def split: if_splits)
    ultimately show ?thesis using three(4) by blast
  next
    case (four a b c d t)
    have "runeLen s = 4" unfolding four(1) by (rule runeLen_4 [OF four(2-5)])
    with i have "i = 1 \<or> i = 2 \<or> i = 3" by linarith
    moreover have "s ! 1 = b" "s ! 2 = c" "s ! 3 = d" by (simp_all add: four(1))
    moreover have "octetIn 0x80 0xBF b" using four(3) by (simp add: octetIn_def split: if_splits)
    ultimately show ?thesis using four(4,5) by blast
  qed
qed

lemma validUTF8_cut:
  assumes "validUTF8 (a @ c # b)" "\<not> octetIn 0x80 0xBF c"
  shows "validUTF8 a" "validUTF8 (c # b)"
proof -
  have "validUTF8 a"
    using assms(1)
  proof (induction "length a" arbitrary: a rule: less_induct)
    case less
    let ?s = "a @ c # b"
    show ?case
    proof (cases "a = []")
      case False
      define n where "n = runeLen ?s"
      have n: "0 < n"
        using less.prems False unfolding n_def by (cases "runeLen ?s") (auto simp: validUTF8_def runes.simps [of ?s])
      have len: "n \<le> length a"
      proof (rule ccontr)
        assume "\<not> n \<le> length a"
        with False have "octetIn 0x80 0xBF (?s ! length a)" unfolding n_def by (intro runeLen_inside) auto
        with assms(2) show False by simp
      qed
      have "isRune (take n ?s)" unfolding n_def by (rule isRune_take) (use n in \<open>simp add: n_def\<close>)
      then have rune: "isRune (take n a)" using len by simp
      have "validUTF8 (take n a @ (drop n a @ c # b))" using less.prems by (metis append.assoc append_take_drop_id)
      then have "validUTF8 (drop n a @ c # b)" by (simp only: validUTF8_rune [OF rune])
      moreover have "length (drop n a) < length a" using n False by simp
      ultimately have "validUTF8 (drop n a)" using less.hyps by blast
      then have "validUTF8 (take n a @ drop n a)" by (simp only: validUTF8_rune [OF rune])
      then show ?thesis by simp
    qed simp
  qed
  then show "validUTF8 a" "validUTF8 (c # b)" using assms(1) validUTF8_append by blast+
qed

lemma validUTF8_cut_ascii:
  assumes "validUTF8 (a @ c # b)" "octet c < 0x80"
  shows "validUTF8 a" "validUTF8 b"
proof -
  have "\<not> octetIn 0x80 0xBF c" using assms(2) by (simp add: octetIn_def)
  from validUTF8_cut [OF assms(1) this] show "validUTF8 a" "validUTF8 b" using assms(2) by (simp_all add: validUTF8_Cons)
qed

lemma validUTF8_Split:
  assumes "validUTF8 s" "octet sep < 0x80"
  shows "list_all validUTF8 (Split s sep)"
  using assms(1)
proof (induction "length s" arbitrary: s rule: less_induct)
  case less
  show ?case
  proof (cases "sep \<in> set s")
    case True
    then obtain a b where s: "s = a @ sep # b" "sep \<notin> set a" by (meson split_list_first)
    have "validUTF8 a" "validUTF8 b" using validUTF8_cut_ascii less.prems assms(2) s(1) by blast+
    moreover have "list_all validUTF8 (Split b sep)" using calculation(2) by (intro less.hyps) (simp_all add: s(1))
    ultimately show ?thesis by (simp add: s Split_append Split_plain)
  qed (simp add: Split_plain less.prems)
qed

lemma spaceRunes_start: "r \<in> set spaceRunes \<Longrightarrow> isRune r \<and> (\<exists>x t. r = x # t \<and> \<not> octetIn 0x80 0xBF x)"
proof -
  have "list_all (\<lambda>r. r \<noteq> [] \<and> runeLen r = length r \<and> \<not> octetIn 0x80 0xBF (hd r)) spaceRunes" by code_simp
  moreover assume "r \<in> set spaceRunes"
  ultimately have "r \<noteq> []" "runeLen r = length r" "\<not> octetIn 0x80 0xBF (hd r)" by (auto simp: list_all_iff)
  then show ?thesis by (cases r) (auto simp: isRune_def)
qed

lemma leadSpace_rune:
  assumes "leadSpace s \<noteq> 0"
  shows "\<exists>r \<in> set spaceRunes. s = r @ drop (leadSpace s) s"
proof -
  obtain r where "find (\<lambda>r. prefix r s) spaceRunes = Some r" "leadSpace s = length r"
    using assms by (auto simp: leadSpace_def split: option.splits)
  then show ?thesis by (auto simp: find_Some_iff prefix_def intro!: bexI [of _ r])
qed

lemma tailSpace_rune:
  assumes "tailSpace s \<noteq> 0"
  shows "\<exists>r \<in> set spaceRunes. s = take (length s - tailSpace s) s @ r"
proof -
  obtain r where "find (\<lambda>r. suffix r s) spaceRunes = Some r" "tailSpace s = length r"
    using assms by (auto simp: tailSpace_def split: option.splits)
  then show ?thesis by (auto simp: find_Some_iff suffix_def intro!: bexI [of _ r])
qed

lemma validUTF8_TrimLeft: "validUTF8 s \<Longrightarrow> validUTF8 (TrimLeftSpace s)"
proof (induction s rule: TrimLeftSpace.induct)
  case (1 s)
  show ?case
  proof (cases "leadSpace s = 0 \<or> s = []")
    case False
    then obtain r where r: "r \<in> set spaceRunes" "s = r @ drop (leadSpace s) s" using leadSpace_rune by blast
    with 1(2) have "validUTF8 (drop (leadSpace s) s)" using spaceRunes_start validUTF8_rune by metis
    with 1(1) False show ?thesis by (subst TrimLeftSpace.simps) simp
  qed (use 1(2) in \<open>simp add: TrimLeftSpace.simps\<close>)
qed

lemma validUTF8_TrimRight: "validUTF8 s \<Longrightarrow> validUTF8 (TrimRightSpace s)"
proof (induction s rule: TrimRightSpace.induct)
  case (1 s)
  show ?case
  proof (cases "tailSpace s = 0 \<or> s = []")
    case False
    then obtain r where r: "r \<in> set spaceRunes" "s = take (length s - tailSpace s) s @ r" using tailSpace_rune by blast
    obtain x t where "r = x # t" "\<not> octetIn 0x80 0xBF x" using spaceRunes_start [OF r(1)] by blast
    with r(2) 1(2) have "validUTF8 (take (length s - tailSpace s) s)" using validUTF8_cut(1) by metis
    with 1(1) False show ?thesis by (subst TrimRightSpace.simps) simp
  qed (use 1(2) in \<open>simp add: TrimRightSpace.simps\<close>)
qed

lemma validUTF8_TrimSpace: "validUTF8 s \<Longrightarrow> validUTF8 (TrimSpace s)"
  by (simp add: TrimSpace_def validUTF8_TrimLeft validUTF8_TrimRight)

lemma validUTF8_takeWhile:
  assumes "validUTF8 s" "\<And>c. \<not> P c \<Longrightarrow> octet c < 0x80"
  shows "validUTF8 (takeWhile P s)"
proof (cases "dropWhile P s")
  case Nil
  then have "takeWhile P s = s" by (metis append_Nil2 takeWhile_dropWhile_id)
  with assms(1) show ?thesis by (simp only:)
next
  case (Cons c b)
  then have "\<not> P c" using hd_dropWhile [of P s] by simp
  moreover have "validUTF8 (takeWhile P s @ c # b)" using assms(1) Cons by (metis takeWhile_dropWhile_id)
  ultimately show ?thesis using assms(2) validUTF8_cut_ascii(1) by blast
qed

lemma validUTF8_dropRight:
  assumes "validUTF8 s" "\<And>c. P c \<Longrightarrow> octet c < 0x80"
  shows "validUTF8 (rev (dropWhile P (rev s)))"
  using assms(1)
proof (induction s rule: rev_induct)
  case (snoc c s)
  show ?case
  proof (cases "P c")
    case True
    then have "validUTF8 s" using snoc.prems assms(2) validUTF8_cut_ascii(1) by blast
    with True snoc.IH show ?thesis by simp
  qed (use snoc.prems in simp)
qed simp

end
