(* ===== verification/JsonText.thy ===== *)
theory JsonText
  imports Utf8
begin

text \<open>
  The text of JSON documents as \<^verbatim>\<open>encoding/json\<close> reads and writes it. A document is a tree in which string literals and numbers
  keep their bytes (\<open>jsyn\<close>). Reading first splits the bytes into tokens and then runs a machine with a stack of open
  arrays and objects over them, which is how the scanner of the package works; writing lays the tree out with or without indentation.
  The main fact is that a document that was written is read back.
\<close>

section \<open>Documents\<close>

datatype jsyn = SNull | SBool bool | SNum string | SStr string | SArr "jsyn list" | SObj "(string \<times> jsyn) list"

datatype jtoken = LBrace | RBrace | LBrack | RBrack | Colon | Comma | TNull | TBool bool | TNum string | TStr string

section \<open>Tokens\<close>

definition jsonSpace :: "char \<Rightarrow> bool" where
  "jsonSpace c \<longleftrightarrow> c = CHR '' '' \<or> c = CHR 0x09 \<or> c = CHR 0x0D \<or> c = CHR 0x0A"

definition isDigit :: "char \<Rightarrow> bool" where
  "isDigit c \<longleftrightarrow> CHR ''0'' \<le> c \<and> c \<le> CHR ''9''"

definition numChar :: "char \<Rightarrow> bool" where
  "numChar c \<longleftrightarrow> isDigit c \<or> c \<in> set ''+-.eE''"

text \<open>The grammar of numbers: a sign, an integer without leading zero, a fraction, an exponent.\<close>

definition expTail :: "string \<Rightarrow> bool" where
  "expTail r \<longleftrightarrow>
     (case r of
        [] \<Rightarrow> True
      | c # r' \<Rightarrow>
          (c = CHR ''e'' \<or> c = CHR ''E'')
          \<and> (let ds = (case r' of s # x \<Rightarrow> if s = CHR ''+'' \<or> s = CHR ''-'' then x else r' | [] \<Rightarrow> [])
             in ds \<noteq> [] \<and> list_all isDigit ds))"

definition numTail :: "string \<Rightarrow> bool" where
  "numTail r \<longleftrightarrow>
     (case r of
        [] \<Rightarrow> True
      | c # r' \<Rightarrow> if c = CHR ''.'' then r' \<noteq> [] \<and> isDigit (hd r') \<and> expTail (dropWhile isDigit r') else expTail r)"

definition validNumber :: "string \<Rightarrow> bool" where
  "validNumber s \<longleftrightarrow>
     (case (case s of c # r \<Rightarrow> if c = CHR ''-'' then r else s | [] \<Rightarrow> []) of
        [] \<Rightarrow> False
      | c # r \<Rightarrow> if c = CHR ''0'' then numTail r else isDigit c \<and> numTail (dropWhile isDigit r))"

text \<open>
  Where the tokenizer is: between tokens, in a string (after a backslash, or with hexadecimal digits to come), in a number, in a
  literal word. The bytes of an open token are kept in reverse. A number ends at the first byte that cannot be in one.
\<close>

datatype lexMode = Between | InStr string | InEsc string | InHex nat string | InNum string | InWord string jtoken

definition wordStart :: "char \<Rightarrow> lexMode option" where
  "wordStart c =
     (if c = CHR ''t'' then Some (InWord ''rue'' (TBool True))
      else if c = CHR ''f'' then Some (InWord ''alse'' (TBool False))
      else if c = CHR ''n'' then Some (InWord ''ull'' TNull)
      else None)"

definition punct :: "char \<Rightarrow> jtoken option" where
  "punct c =
     (if c = CHR ''{'' then Some LBrace else if c = CHR ''}'' then Some RBrace
      else if c = CHR ''['' then Some LBrack else if c = CHR '']'' then Some RBrack
      else if c = CHR '':'' then Some Colon else if c = CHR '','' then Some Comma else None)"

function (sequential) lexJSON :: "lexMode \<Rightarrow> string \<Rightarrow> jtoken list option" where
  "lexJSON Between [] = Some []"
| "lexJSON Between (c # cs) =
     (if jsonSpace c then lexJSON Between cs
      else if c = CHR 0x22 then lexJSON (InStr []) cs
      else if isDigit c \<or> c = CHR ''-'' then lexJSON (InNum [c]) cs
      else (case punct c of
              Some t \<Rightarrow> map_option ((#) t) (lexJSON Between cs)
            | None \<Rightarrow> (case wordStart c of Some m \<Rightarrow> lexJSON m cs | None \<Rightarrow> None)))"
| "lexJSON (InStr acc) [] = None"
| "lexJSON (InStr acc) (c # cs) =
     (if c = CHR 0x22 then map_option ((#) (TStr (rev acc))) (lexJSON Between cs)
      else if c = CHR 0x5C then lexJSON (InEsc (c # acc)) cs
      else if octet c < 0x20 then None
      else lexJSON (InStr (c # acc)) cs)"
| "lexJSON (InEsc acc) [] = None"
| "lexJSON (InEsc acc) (c # cs) =
     (if c = CHR ''u'' then lexJSON (InHex 3 (c # acc)) cs
      else if escapeOf c \<noteq> None then lexJSON (InStr (c # acc)) cs
      else None)"
| "lexJSON (InHex n acc) [] = None"
| "lexJSON (InHex n acc) (c # cs) =
     (if unhexDigit c = None then None
      else if n = 0 then lexJSON (InStr (c # acc)) cs
      else lexJSON (InHex (n - 1) (c # acc)) cs)"
| "lexJSON (InNum acc) [] = (if validNumber (rev acc) then Some [TNum (rev acc)] else None)"
| "lexJSON (InNum acc) (c # cs) =
     (if numChar c then lexJSON (InNum (c # acc)) cs
      else if validNumber (rev acc) then map_option ((#) (TNum (rev acc))) (lexJSON Between (c # cs))
      else None)"
| "lexJSON (InWord w t) [] = None"
| "lexJSON (InWord w t) (c # cs) =
     (if w \<noteq> [] \<and> c = hd w then (if tl w = [] then map_option ((#) t) (lexJSON Between cs) else lexJSON (InWord (tl w) t) cs)
      else None)"
  by pat_completeness auto
termination
  by (relation "measures [\<lambda>(m, s). length s, \<lambda>(m, s). case m of InNum _ \<Rightarrow> 1 | _ \<Rightarrow> 0]") auto

section \<open>The machine\<close>

datatype jframe = InArr "jsyn list" | InObj "(string \<times> jsyn) list" string

datatype pmode = PValue | PElem | PKey bool | PColon | PAfter jsyn

text \<open>Arrays and objects nest at most to the depth \<^verbatim>\<open>maxNestingDepth\<close>.\<close>

definition maxNestingDepth :: nat where
  "maxNestingDepth = 10000"

definition startValue :: "jframe list \<Rightarrow> jtoken \<Rightarrow> (jframe list \<times> pmode) option" where
  "startValue st t =
     (case t of
        LBrack \<Rightarrow> if length st < maxNestingDepth then Some (InArr [] # st, PElem) else None
      | LBrace \<Rightarrow> if length st < maxNestingDepth then Some (InObj [] [] # st, PKey True) else None
      | TNull \<Rightarrow> Some (st, PAfter SNull)
      | TBool b \<Rightarrow> Some (st, PAfter (SBool b))
      | TNum n \<Rightarrow> Some (st, PAfter (SNum n))
      | TStr s \<Rightarrow> Some (st, PAfter (SStr s))
      | _ \<Rightarrow> None)"

fun scanStep :: "jframe list \<Rightarrow> pmode \<Rightarrow> jtoken \<Rightarrow> (jframe list \<times> pmode) option" where
  "scanStep st PValue t = startValue st t"
| "scanStep st PElem t =
     (if t = RBrack then (case st of InArr vs # st' \<Rightarrow> Some (st', PAfter (SArr (rev vs))) | _ \<Rightarrow> None)
      else startValue st t)"
| "scanStep st (PKey first) t =
     (case st of
        InObj ms _ # st' \<Rightarrow>
          (case t of
             TStr k \<Rightarrow> Some (InObj ms k # st', PColon)
           | RBrace \<Rightarrow> if first then Some (st', PAfter (SObj (rev ms))) else None
           | _ \<Rightarrow> None)
      | _ \<Rightarrow> None)"
| "scanStep st PColon t = (if t = Colon then Some (st, PValue) else None)"
| "scanStep st (PAfter v) t =
     (case st of
        [] \<Rightarrow> None
      | InArr vs # st' \<Rightarrow>
          (if t = Comma then Some (InArr (v # vs) # st', PValue)
           else if t = RBrack then Some (st', PAfter (SArr (rev (v # vs))))
           else None)
      | InObj ms k # st' \<Rightarrow>
          (if t = Comma then Some (InObj ((k, v) # ms) [] # st', PKey False)
           else if t = RBrace then Some (st', PAfter (SObj (rev ((k, v) # ms))))
           else None))"

fun scanTokens :: "jframe list \<Rightarrow> pmode \<Rightarrow> jtoken list \<Rightarrow> jsyn option" where
  "scanTokens st m [] = (case (st, m) of ([], PAfter v) \<Rightarrow> Some v | _ \<Rightarrow> None)"
| "scanTokens st m (t # ts) = (case scanStep st m t of Some (st', m') \<Rightarrow> scanTokens st' m' ts | None \<Rightarrow> None)"

definition parseJSON :: "string \<Rightarrow> jsyn option" where
  "parseJSON data = (case lexJSON Between data of None \<Rightarrow> None | Some ts \<Rightarrow> scanTokens [] PValue ts)"

section \<open>Writing\<close>

fun sepBy :: "'a list \<Rightarrow> 'a list list \<Rightarrow> 'a list" where
  "sepBy s [] = []"
| "sepBy s [x] = x"
| "sepBy s (x # y # ys) = x @ s @ sepBy s (y # ys)"

definition inQuotes :: "string \<Rightarrow> string" where
  "inQuotes raw = CHR 0x22 # raw @ [CHR 0x22]"

text \<open>
  A document laid out: \<open>nl d\<close> is the line break with the indentation of depth \<open>d\<close> (nothing in the compact form), \<open>col\<close> separates a key
  from its value. Empty arrays and objects stay on one line.
\<close>

fun layout :: "(nat \<Rightarrow> string) \<Rightarrow> string \<Rightarrow> nat \<Rightarrow> jsyn \<Rightarrow> string" where
  "layout nl col d SNull = ''null''"
| "layout nl col d (SBool b) = (if b then ''true'' else ''false'')"
| "layout nl col d (SNum n) = n"
| "layout nl col d (SStr raw) = inQuotes raw"
| "layout nl col d (SArr vs) =
     (if vs = [] then ''[]''
      else ''['' @ sepBy '','' (map (\<lambda>v. nl (Suc d) @ layout nl col (Suc d) v) vs) @ nl d @ '']'')"
| "layout nl col d (SObj ms) =
     (if ms = [] then ''{}''
      else ''{'' @ sepBy '','' (map (\<lambda>m. nl (Suc d) @ inQuotes (fst m) @ col @ layout nl col (Suc d) (snd m)) ms) @ nl d @ ''}'')"

definition compactJSON :: "jsyn \<Rightarrow> string" where
  "compactJSON v = layout (\<lambda>_. []) '':'' 0 v"

text \<open>\<^verbatim>\<open>json.MarshalIndent(v, "", "  ")\<close>\<close>

definition indentJSON :: "jsyn \<Rightarrow> string" where
  "indentJSON v = layout (\<lambda>d. CHR 0x0A # replicate (2 * d) (CHR '' '')) '': '' 0 v"

section \<open>Documents are read back\<close>

fun toks :: "jsyn \<Rightarrow> jtoken list" where
  "toks SNull = [TNull]"
| "toks (SBool b) = [TBool b]"
| "toks (SNum n) = [TNum n]"
| "toks (SStr s) = [TStr s]"
| "toks (SArr vs) = LBrack # sepBy [Comma] (map toks vs) @ [RBrack]"
| "toks (SObj ms) = LBrace # sepBy [Comma] (map (\<lambda>m. TStr (fst m) # Colon # toks (snd m)) ms) @ [RBrace]"

text \<open>Arrays and objects are nested at most \<open>n\<close> deep.\<close>

fun nests :: "nat \<Rightarrow> jsyn \<Rightarrow> bool" where
  "nests n (SArr vs) \<longleftrightarrow> 0 < n \<and> (\<forall>v \<in> set vs. nests (n - 1) v)"
| "nests n (SObj ms) \<longleftrightarrow> 0 < n \<and> (\<forall>m \<in> set ms. nests (n - 1) (snd m))"
| "nests n _ \<longleftrightarrow> True"

text \<open>Over the tokens of a value the machine comes to the state after the value, at stacks of at most \<open>k\<close> frames.\<close>

definition readsBack :: "nat \<Rightarrow> jsyn \<Rightarrow> bool" where
  "readsBack k v \<longleftrightarrow>
     (\<forall>st m ts. length st \<le> k \<longrightarrow> m = PValue \<or> m = PElem \<longrightarrow> scanTokens st m (toks v @ ts) = scanTokens st (PAfter v) ts)"

lemma readsBackD: "readsBack k v \<Longrightarrow> length st \<le> k \<Longrightarrow> m = PValue \<or> m = PElem \<Longrightarrow> scanTokens st m (toks v @ ts) = scanTokens st (PAfter v) ts"
  unfolding readsBack_def by blast

lemma scan_elems:
  assumes "\<forall>v \<in> set vs. readsBack k v" "length st < k" "vs \<noteq> []" "m = PValue \<or> m = PElem"
  shows "scanTokens (InArr acc # st) m (sepBy [Comma] (map toks vs) @ RBrack # ts) = scanTokens st (PAfter (SArr (rev acc @ vs))) ts"
  using assms
proof (induction vs arbitrary: acc m rule: induct_list012)
  case (2 v)
  then have "readsBack k v" by simp
  from readsBackD [OF this _ "2.prems"(4), of "InArr acc # st"] "2.prems"(2) show ?case by simp
next
  case (3 v w vs)
  then have "readsBack k v" by simp
  from readsBackD [OF this _ "3.prems"(4), of "InArr acc # st"] "3.prems"(2)
  have "scanTokens (InArr acc # st) m (toks v @ Comma # sepBy [Comma] (map toks (w # vs)) @ RBrack # ts)
      = scanTokens (InArr (v # acc) # st) PValue (sepBy [Comma] (map toks (w # vs)) @ RBrack # ts)"
    by simp
  also have "\<dots> = scanTokens st (PAfter (SArr (rev (v # acc) @ (w # vs)))) ts"
    using "3.prems" by (intro "3.IH"(2)) auto
  finally show ?case by simp
qed simp

lemma scan_members:
  assumes "\<forall>mb \<in> set ms. readsBack k (snd mb)" "length st < k" "ms \<noteq> []"
  shows "scanTokens (InObj acc key # st) (PKey b) (sepBy [Comma] (map (\<lambda>m. TStr (fst m) # Colon # toks (snd m)) ms) @ RBrace # ts)
      = scanTokens st (PAfter (SObj (rev acc @ ms))) ts"
  using assms
proof (induction ms arbitrary: acc key b rule: induct_list012)
  case (2 v)
  then have "readsBack k (snd v)" by simp
  from readsBackD [OF this, of "InObj acc (fst v) # st" PValue] "2.prems"(2) show ?case by simp
next
  case (3 v w vs)
  let ?f = "\<lambda>m. TStr (fst m) # Colon # toks (snd m)"
  from 3 have "readsBack k (snd v)" by simp
  from readsBackD [OF this, of "InObj acc (fst v) # st" PValue] "3.prems"(2)
  have "scanTokens (InObj acc key # st) (PKey b) (?f v @ Comma # sepBy [Comma] (map ?f (w # vs)) @ RBrace # ts)
      = scanTokens (InObj (v # acc) [] # st) (PKey False) (sepBy [Comma] (map ?f (w # vs)) @ RBrace # ts)"
    by simp
  also have "\<dots> = scanTokens st (PAfter (SObj (rev (v # acc) @ (w # vs)))) ts"
    using "3.prems" by (intro "3.IH"(2)) auto
  finally show ?case by simp
qed simp

lemma nests_reads: "nests n v \<Longrightarrow> k + n \<le> maxNestingDepth \<Longrightarrow> readsBack k v"
proof (induction v arbitrary: n k)
  case (SArr vs)
  have ih: "\<forall>v \<in> set vs. readsBack (Suc k) v" using SArr.IH [of _ "n - 1" "Suc k"] SArr.prems by auto
  show ?case unfolding readsBack_def
  proof (intro allI impI)
    fix st :: "jframe list" and m ts
    assume "length st \<le> k" "m = PValue \<or> m = PElem"
    then show "scanTokens st m (toks (SArr vs) @ ts) = scanTokens st (PAfter (SArr vs)) ts"
      using scan_elems [OF ih, of st PElem "[]" ts] SArr.prems by (cases "vs = []") (auto simp: startValue_def)
  qed
next
  case (SObj ms)
  have ih: "\<forall>mb \<in> set ms. readsBack (Suc k) (snd mb)"
  proof
    fix mb assume m: "mb \<in> set ms"
    then have "nests (n - 1) (snd mb)" using SObj.prems(1) by simp
    moreover have "snd mb \<in> Basic_BNFs.snds mb" by (cases mb) simp
    ultimately show "readsBack (Suc k) (snd mb)" using SObj.IH [OF m] SObj.prems by simp
  qed
  show ?case unfolding readsBack_def
  proof (intro allI impI)
    fix st :: "jframe list" and m ts
    assume "length st \<le> k" "m = PValue \<or> m = PElem"
    then show "scanTokens st m (toks (SObj ms) @ ts) = scanTokens st (PAfter (SObj ms)) ts"
      using scan_members [OF ih, of st "[]" "[]" True ts] SObj.prems by (cases "ms = []") (auto simp: startValue_def)
  qed
qed (auto simp: startValue_def readsBack_def)

subsection \<open>Tokens of a laid-out document\<close>

abbreviation blank :: "string \<Rightarrow> bool" where "blank s \<equiv> list_all jsonSpace s"

definition endsNum :: "string \<Rightarrow> bool" where
  "endsNum r \<longleftrightarrow> r = [] \<or> \<not> numChar (hd r)"

text \<open>The body of a string literal: the tokenizer reads over it.\<close>

definition litOk :: "string \<Rightarrow> bool" where
  "litOk raw \<longleftrightarrow> (\<forall>acc rest. lexJSON (InStr acc) (raw @ rest) = lexJSON (InStr (rev raw @ acc)) rest)"

fun wfSyn :: "jsyn \<Rightarrow> bool" where
  "wfSyn (SNum n) \<longleftrightarrow> validNumber n \<and> list_all numChar n"
| "wfSyn (SStr raw) \<longleftrightarrow> litOk raw"
| "wfSyn (SArr vs) \<longleftrightarrow> (\<forall>v \<in> set vs. wfSyn v)"
| "wfSyn (SObj ms) \<longleftrightarrow> (\<forall>m \<in> set ms. litOk (fst m) \<and> wfSyn (snd m))"
| "wfSyn _ \<longleftrightarrow> True"

lemma litOk_Nil [simp]: "litOk []"
  by (simp add: litOk_def)

lemma litOk_append: "litOk a \<Longrightarrow> litOk b \<Longrightarrow> litOk (a @ b)"
  by (simp add: litOk_def)

lemma litOk_concat: "\<forall>a \<in> set as. litOk a \<Longrightarrow> litOk (concat as)"
  by (induction as) (simp_all add: litOk_append)

lemma litOk_plain: "\<forall>c \<in> set s. 0x20 \<le> octet c \<and> c \<noteq> CHR 0x22 \<and> c \<noteq> CHR 0x5C \<Longrightarrow> litOk s"
  by (induction s) (simp_all add: litOk_def)

lemma litOk_hex:
  "unhexDigit a \<noteq> None \<Longrightarrow> unhexDigit b \<noteq> None \<Longrightarrow> unhexDigit c \<noteq> None \<Longrightarrow> unhexDigit d \<noteq> None \<Longrightarrow>
   litOk [CHR 0x5C, CHR ''u'', a, b, c, d]"
  by (auto simp: litOk_def numeral_eq_Suc)

lemma lex_blank: "blank w \<Longrightarrow> lexJSON Between (w @ r) = lexJSON Between r"
  by (induction w) auto

lemma lex_inQuotes: "litOk raw \<Longrightarrow> lexJSON Between (inQuotes raw @ r) = map_option ((#) (TStr raw)) (lexJSON Between r)"
  by (simp add: inQuotes_def litOk_def jsonSpace_def)

lemma lex_InNum: "list_all numChar s \<Longrightarrow> lexJSON (InNum acc) (s @ r) = lexJSON (InNum (rev s @ acc)) r"
  by (induction s arbitrary: acc) auto

lemma validNumber_start: "validNumber (c # s) \<Longrightarrow> isDigit c \<or> c = CHR ''-''"
  by (auto simp: validNumber_def isDigit_def split: if_splits)

lemma space_numChar: "jsonSpace c \<Longrightarrow> \<not> numChar c"
  by (auto simp: jsonSpace_def numChar_def isDigit_def less_eq_char_def)

lemma digit_facts: "isDigit c \<or> c = CHR ''-'' \<Longrightarrow> \<not> jsonSpace c \<and> c \<noteq> CHR 0x22"
  by (auto simp: jsonSpace_def isDigit_def less_eq_char_def)

lemma lex_number:
  assumes "validNumber n" "list_all numChar n" "endsNum r"
  shows "lexJSON Between (n @ r) = map_option ((#) (TNum n)) (lexJSON Between r)"
proof -
  obtain c s where n: "n = c # s" using assms(1) by (cases n) (auto simp: validNumber_def)
  with assms(1) have c: "isDigit c \<or> c = CHR ''-''" using validNumber_start by blast
  then have "lexJSON Between (n @ r) = lexJSON (InNum (rev n)) r"
    using n assms(2) lex_InNum [of s "[c]" r] digit_facts [OF c] by simp
  then show ?thesis using assms(1,3) by (cases r) (auto simp: endsNum_def)
qed

lemma endsNum_blank: "blank w \<Longrightarrow> endsNum (c # r) \<Longrightarrow> endsNum (w @ c # r)"
  by (cases w) (auto simp: endsNum_def space_numChar)

lemma endsNum_punct [simp]: "endsNum (CHR '','' # r)" "endsNum (CHR '']'' # r)" "endsNum (CHR ''}'' # r)"
  by (auto simp: endsNum_def numChar_def isDigit_def less_eq_char_def)

lemma lex_punct:
  "lexJSON Between (CHR '','' # r) = map_option ((#) Comma) (lexJSON Between r)" "lexJSON Between (CHR '']'' # r) = map_option ((#) RBrack) (lexJSON Between r)"
  "lexJSON Between (CHR ''['' # r) = map_option ((#) LBrack) (lexJSON Between r)" "lexJSON Between (CHR ''}'' # r) = map_option ((#) RBrace) (lexJSON Between r)"
  "lexJSON Between (CHR ''{'' # r) = map_option ((#) LBrace) (lexJSON Between r)" "lexJSON Between (CHR '':'' # r) = map_option ((#) Colon) (lexJSON Between r)"
  by (simp_all add: jsonSpace_def isDigit_def less_eq_char_def punct_def)

lemma lex_words:
  "lexJSON Between (''null'' @ r) = map_option ((#) TNull) (lexJSON Between r)"
  "lexJSON Between (''true'' @ r) = map_option ((#) (TBool True)) (lexJSON Between r)"
  "lexJSON Between (''false'' @ r) = map_option ((#) (TBool False)) (lexJSON Between r)"
  by (simp_all add: jsonSpace_def isDigit_def less_eq_char_def punct_def wordStart_def)

declare lexJSON.simps(2) [simp del]

lemma append_one: "(@) [a] = (#) a"
  by auto

lemma lex_sepBy:
  assumes "\<forall>x \<in> set xs. \<forall>r. endsNum r \<longrightarrow> lexJSON Between (f x @ r) = map_option ((@) (g x)) (lexJSON Between r)" "endsNum r"
  shows "lexJSON Between (sepBy '','' (map f xs) @ r) = map_option ((@) (sepBy [Comma] (map g xs))) (lexJSON Between r)"
  using assms(1)
proof (induction xs rule: induct_list012)
  case (3 x y ys)
  then have "lexJSON Between (f x @ CHR '','' # sepBy '','' (map f (y # ys)) @ r)
      = map_option ((@) (g x)) (lexJSON Between (CHR '','' # sepBy '','' (map f (y # ys)) @ r))" by simp
  with "3.IH"(2) "3.prems" show ?case by (simp add: lex_punct option.map_comp comp_def)
next
  case 1
  show ?case by (cases "lexJSON Between r") simp_all
qed (use assms(2) in simp)

theorem lex_render:
  assumes "\<forall>d. blank (nl d)" "blank w"
  shows "wfSyn v \<Longrightarrow> endsNum r \<Longrightarrow> lexJSON Between (layout nl (CHR '':'' # w) d v @ r) = map_option ((@) (toks v)) (lexJSON Between r)"
proof (induction v arbitrary: d r)
  case (SNum n)
  then show ?case by (simp add: lex_number)
next
  case (SStr raw)
  then show ?case by (simp add: lex_inQuotes)
next
  case (SArr vs)
  have "\<forall>v \<in> set vs. \<forall>r. endsNum r \<longrightarrow>
      lexJSON Between ((nl (Suc d) @ layout nl (CHR '':'' # w) (Suc d) v) @ r) = map_option ((@) (toks v)) (lexJSON Between r)"
    using SArr assms(1) by (simp add: lex_blank)
  note L = lex_sepBy [OF this, of "nl d @ CHR '']'' # r"]
  show ?case
    using L assms(1) by (auto simp: lex_punct lex_blank endsNum_blank option.map_comp comp_def)
next
  case (SObj ms)
  have "\<forall>m \<in> set ms. \<forall>r. endsNum r \<longrightarrow>
      lexJSON Between ((nl (Suc d) @ inQuotes (fst m) @ (CHR '':'' # w) @ layout nl (CHR '':'' # w) (Suc d) (snd m)) @ r)
        = map_option ((@) (TStr (fst m) # Colon # toks (snd m))) (lexJSON Between r)"
  proof (intro ballI allI impI)
    fix m r
    assume m: "m \<in> set ms" "endsNum r"
    then have "wfSyn (snd m)" using SObj.prems(1) by simp
    moreover have "snd m \<in> Basic_BNFs.snds m" by (cases m) simp
    ultimately have "lexJSON Between (layout nl (CHR '':'' # w) (Suc d) (snd m) @ r) = map_option ((@) (toks (snd m))) (lexJSON Between r)"
      using SObj.IH m by blast
    then show "lexJSON Between ((nl (Suc d) @ inQuotes (fst m) @ (CHR '':'' # w) @ layout nl (CHR '':'' # w) (Suc d) (snd m)) @ r)
        = map_option ((@) (TStr (fst m) # Colon # toks (snd m))) (lexJSON Between r)"
      using m SObj.prems(1) assms
      by (cases "lexJSON Between r") (simp_all add: lex_blank lex_inQuotes lex_punct)
  qed
  note L = lex_sepBy [OF this, of "nl d @ CHR ''}'' # r"]
  show ?case
    using L assms(1) by (auto simp: lex_punct lex_blank endsNum_blank option.map_comp comp_def)
qed (auto simp: lex_words [simplified] append_one)

lemma parse_render:
  assumes "wfSyn v" "nests maxNestingDepth v" "\<forall>d. blank (nl d)" "blank w" "blank r"
  shows "parseJSON (layout nl (CHR '':'' # w) d v @ r) = Some v"
proof -
  have "endsNum r" using assms(5) by (cases r) (auto simp: endsNum_def space_numChar)
  moreover have "lexJSON Between r = Some []" using lex_blank [OF assms(5), of "[]"] by simp
  ultimately have "lexJSON Between (layout nl (CHR '':'' # w) d v @ r) = Some (toks v)"
    using lex_render [OF assms(3,4,1)] by simp
  then show ?thesis using readsBackD [OF nests_reads [OF assms(2), of 0], of "[]" PValue "[]"] by (simp add: parseJSON_def)
qed

theorem parse_indentJSON: "wfSyn v \<Longrightarrow> nests maxNestingDepth v \<Longrightarrow> blank r \<Longrightarrow> parseJSON (indentJSON v @ r) = Some v"
  unfolding indentJSON_def by (rule parse_render) (simp_all add: jsonSpace_def list_all_iff)

theorem parse_compactJSON: "wfSyn v \<Longrightarrow> nests maxNestingDepth v \<Longrightarrow> blank r \<Longrightarrow> parseJSON (compactJSON v @ r) = Some v"
  unfolding compactJSON_def by (rule parse_render) simp_all

lemma litOk_two: "e \<noteq> CHR ''u'' \<Longrightarrow> escapeOf e \<noteq> None \<Longrightarrow> litOk [CHR 0x5C, e]"
  by (auto simp: litOk_def)

lemma rune_bytes_high: "isRune bs \<Longrightarrow> 2 \<le> length bs \<Longrightarrow> \<forall>c \<in> set bs. 0x80 \<le> octet c"
proof -
  assume r: "isRune bs" "2 \<le> length bs"
  then have "0 < runeLen bs" by (simp add: isRune_def)
  then show ?thesis using r
  proof (cases rule: runeLen_cases)
    case one then show ?thesis using r by (simp add: isRune_def runeLen_1)
  next
    case two then show ?thesis using r by (simp add: isRune_def runeLen_2 octetIn_def)
  next
    case (three a b c t)
    then have "runeLen bs = 3" by (simp only: runeLen_3)
    then have "t = []" using r three(1) by (simp add: isRune_def)
    with three show ?thesis by (auto simp: octetIn_def split: if_splits)
  next
    case (four a b c d t)
    then have "runeLen bs = 4" by (simp only: runeLen_4)
    then have "t = []" using r four(1) by (simp add: isRune_def)
    with four show ?thesis by (auto simp: octetIn_def split: if_splits)
  qed
qed

lemma unhex_digits: "unhexDigit (CHR ''0'') \<noteq> None" "unhexDigit (CHR ''2'') \<noteq> None" "unhexDigit (CHR ''8'') \<noteq> None" "unhexDigit (CHR ''9'') \<noteq> None"
  "unhexDigit (CHR ''f'') \<noteq> None" "unhexDigit (CHR ''d'') \<noteq> None"
  by (simp_all add: unhexDigit_def less_eq_char_def)

lemma litOk_quoteRune:
  assumes "r \<in> set (runes s)"
  shows "litOk (quoteRune r)"
proof (cases r)
  case None
  then show ?thesis by (simp add: quoteRune_def litOk_hex unhex_digits)
next
  case (Some bs)
  with assms have R: "isRune bs" using runes_isRune by blast
  show ?thesis
  proof (cases "\<exists>c. bs = [c] \<and> octet c < 0x80")
    case True
    then obtain c where c: "bs = [c]" "octet c < 0x80" by blast
    consider e where "quoteRune (Some [c]) = [CHR 0x5C, e]" "e \<noteq> CHR ''u''" "escapeOf e \<noteq> None"
      | "quoteRune (Some [c]) = [CHR 0x5C, CHR ''u'', CHR ''0'', CHR ''0'', lowHex (octet c div 16), lowHex (octet c mod 16)]"
      | "quoteRune (Some [c]) = [c]" "c \<noteq> CHR 0x5C" "c \<noteq> CHR 0x22" "0x20 \<le> octet c"
    proof (cases "c \<in> {CHR 0x22, CHR 0x5C, CHR 0x08, CHR 0x0C, CHR 0x0A, CHR 0x0D, CHR 0x09}")
      case True
      then have "\<exists>e. quoteRune (Some [c]) = [CHR 0x5C, e] \<and> e \<noteq> CHR ''u'' \<and> escapeOf e \<noteq> None"
        by (auto simp: quoteRune_def escapeOf_def)
      with that(1) show ?thesis by blast
    next
      case False
      with that(2,3) show ?thesis
        by (cases "octet c < 0x20 \<or> c = CHR ''<'' \<or> c = CHR ''>'' \<or> c = CHR ''&''") (auto simp: quoteRune_def)
    qed
    then show ?thesis
    proof cases
      case 1 with Some c show ?thesis by (simp add: litOk_two)
    next
      case 2 with Some c show ?thesis by (simp add: litOk_hex unhex_digits unhex_lowHex)
    next
      case 3 with Some c show ?thesis by (simp add: litOk_plain)
    qed
  next
    case False
    with isRune_head [OF R] have l: "2 \<le> length bs" by auto
    have "litOk bs" using rune_bytes_high [OF R l] by (intro litOk_plain) fastforce
    with Some l show ?thesis by (simp add: quoteRune_wide litOk_hex unhex_digits)
  qed
qed

theorem litOk_quoteBody: "litOk (quoteBody s)"
  by (auto simp: quoteBody_def intro!: litOk_concat litOk_quoteRune)

end
