(* ===== verification/GoTime.thy ===== *)
theory GoTime
  imports GoStrings
begin

text \<open>
  The text form of a \<^verbatim>\<open>time.Time\<close> in JSON documents: RFC 3339 with up to nine digits of a second, as Go's package \<^verbatim>\<open>time\<close> writes
  and reads it. An instant counts nanoseconds from the beginning of year 1; its calendar date is computed
  with the cycles of 400, 100, 4 and 1 years. The text of an instant in any zone is read back as the same instant and zone.
\<close>

section \<open>Dates\<close>

definition isLeap :: "int \<Rightarrow> bool" where
  "isLeap y \<longleftrightarrow> y mod 4 = 0 \<and> (y mod 100 \<noteq> 0 \<or> y mod 400 = 0)"

text \<open>Days before the first of January of a year.\<close>

definition yearStart :: "int \<Rightarrow> int" where
  "yearStart y = 365 * (y - 1) + (y - 1) div 4 - (y - 1) div 100 + (y - 1) div 400"

definition monthLens :: "int \<Rightarrow> int list" where
  "monthLens y = [31, if isLeap y then 29 else 28, 31, 30, 31, 30, 31, 31, 30, 31, 30, 31]"

definition daysIn :: "int \<Rightarrow> int \<Rightarrow> int" where
  "daysIn m y = monthLens y ! nat (m - 1)"

definition dateDays :: "int \<Rightarrow> int \<Rightarrow> int \<Rightarrow> int" where
  "dateDays y m d = yearStart y + sum_list (take (nat (m - 1)) (monthLens y)) + (d - 1)"

text \<open>The year of a day and the day in the year.\<close>

definition yearAndDay :: "int \<Rightarrow> int \<times> int" where
  "yearAndDay n =
     (let a = n div 146097; r = n mod 146097;
          b = min 3 (r div 36524); r = r - 36524 * b;
          c = r div 1461; r = r mod 1461;
          e = min 3 (r div 365)
      in (400 * a + 100 * b + 4 * c + e + 1, r - 365 * e))"

fun monthAndDay :: "int list \<Rightarrow> int \<Rightarrow> int \<Rightarrow> int \<times> int" where
  "monthAndDay (l # ls) m yd = (if yd < l \<or> ls = [] then (m, yd + 1) else monthAndDay ls (m + 1) (yd - l))"
| "monthAndDay [] m yd = (m, yd + 1)"

definition civil :: "int \<Rightarrow> int \<times> int \<times> int" where
  "civil n = (let (y, yd) = yearAndDay n in (y, monthAndDay (monthLens y) 1 yd))"

lemma capped_div:
  fixes r k :: int
  assumes "0 < k" "0 \<le> r" "b = min 3 (r div k)"
  shows "0 \<le> b" "b \<le> 3" "0 \<le> r - k * b" "b < 3 \<longrightarrow> r - k * b < k"
proof -
  have "0 \<le> r div k" using assms by (simp add: pos_imp_zdiv_nonneg_iff)
  then show "0 \<le> b" "b \<le> 3" using assms(3) by simp_all
  have "k * b \<le> k * (r div k)" using assms(1,3) by (intro mult_left_mono) simp_all
  also have "\<dots> \<le> r" using pos_mod_sign [OF assms(1), of r] minus_mult_div_eq_mod [of r k] by simp
  finally show "0 \<le> r - k * b" by simp
  show "b < 3 \<longrightarrow> r - k * b < k"
  proof
    assume "b < 3"
    then have "b = r div k" using assms(3) by simp
    then show "r - k * b < k" using assms(1) by (simp add: minus_mult_div_eq_mod)
  qed
qed

lemma yearAndDay_correct:
  assumes "yearAndDay n = (y, yd)"
  shows "yearStart y + yd = n" "0 \<le> yd" "yd < (if isLeap y then 366 else 365)"
proof -
  define a r b r1 c r2 e where "a = n div 146097" and "r = n mod 146097" and "b = min 3 (r div 36524)" and "r1 = r - 36524 * b"
    and "c = r1 div 1461" and "r2 = r1 mod 1461" and "e = min 3 (r2 div 365)"
  have "yearAndDay n = (400 * a + 100 * b + 4 * c + e + 1, r2 - 365 * e)"
    unfolding yearAndDay_def Let_def e_def r2_def c_def r1_def b_def r_def a_def by (rule refl)
  then have y: "y = 400 * a + 100 * b + 4 * c + e + 1" and yd: "yd = r2 - 365 * e" using assms by simp_all
  have n: "n = 146097 * a + r" "0 \<le> r" "r < 146097" by (simp_all add: a_def r_def)
  have b: "0 \<le> b" "b \<le> 3" "0 \<le> r1" "b < 3 \<longrightarrow> r1 < 36524"
    using capped_div [OF _ n(2) b_def] by (simp_all add: r1_def)
  moreover have "r1 \<le> 36524" using b n(3) by (cases "b = 3") (auto simp: r1_def)
  note b = b this
  have c: "r1 = 1461 * c + r2" "0 \<le> r2" "r2 < 1461" by (simp_all add: c_def r2_def)
  have c24: "0 \<le> c" "c \<le> 24" using b c by linarith+
  have e: "0 \<le> e" "e \<le> 3" "0 \<le> yd" "e < 3 \<longrightarrow> yd < 365"
    using capped_div [OF _ c(2) e_def] by (simp_all add: yd)
  moreover have "yd \<le> 365" using e c(3) by (cases "e = 3") (auto simp: yd)
  note e = e this
  have k: "y - 1 = 4 * (100 * a + 25 * b + c) + e" "y - 1 = 100 * (4 * a + b) + (4 * c + e)" "y - 1 = 400 * a + (100 * b + 4 * c + e)"
    using y by simp_all
  have d4: "(y - 1) div 4 = 100 * a + 25 * b + c" unfolding k(1) using e by simp
  have d100: "(y - 1) div 100 = 4 * a + b" unfolding k(2) using e c24 by simp
  have d400: "(y - 1) div 400 = a" unfolding k(3) using e c24 b by simp
  have "r = 36524 * b + r1" by (simp add: r1_def)
  then have "n = 146097 * a + 36524 * b + 1461 * c + r2" using n(1) c(1) by simp
  then show "yearStart y + yd = n"
    unfolding yearStart_def d4 d100 d400 by (simp add: y yd)
  show "0 \<le> yd" by (rule e)
  have "yd = 365 \<Longrightarrow> e = 3 \<and> (c = 24 \<longrightarrow> b = 3)"
    using e(4) e(2) c b yd by linarith
  moreover have "isLeap y" if "e = 3" "c = 24 \<longrightarrow> b = 3"
  proof -
    have "y = 4 * (100 * a + 25 * b + c + 1)" using y that by simp
    then have "y mod 4 = 0" by simp
    moreover have "y mod 100 \<noteq> 0 \<or> y mod 400 = 0"
    proof (cases "c = 24")
      case True
      with that y have "y = 400 * (a + 1)" by simp
      then have "y mod 400 = 0" by simp
      then show ?thesis ..
    next
      case False
      have "y = 100 * (4 * a + b) + (4 * c + 4)" using y that by simp
      then have "y mod 100 = (4 * c + 4) mod 100" by (simp only: mod_mult_self4)
      also have "\<dots> = 4 * c + 4" using c24 False by (intro mod_pos_pos_trivial) auto
      finally show ?thesis using c24 by simp
    qed
    ultimately show ?thesis by (simp add: isLeap_def)
  qed
  ultimately show "yd < (if isLeap y then 366 else 365)" using e(5) by (cases "yd = 365") auto
qed

lemma monthAndDay_correct:
  assumes "monthAndDay ls m yd = (m', d)" "0 \<le> yd" "yd < sum_list ls"
  shows "sum_list (take (nat (m' - m)) ls) + (d - 1) = yd \<and> m \<le> m' \<and> m' < m + int (length ls) \<and> 1 \<le> d \<and> d \<le> ls ! nat (m' - m)"
  using assms
proof (induction ls m yd rule: monthAndDay.induct)
  case (1 l ls m yd)
  show ?case
  proof (cases "yd < l \<or> ls = []")
    case True
    with 1 show ?thesis by auto
  next
    case False
    with 1 have ih: "sum_list (take (nat (m' - (m + 1))) ls) + (d - 1) = yd - l" "m + 1 \<le> m'" "m' < m + 1 + int (length ls)" "1 \<le> d"
      "d \<le> ls ! nat (m' - (m + 1))" by auto
    have "nat (m' - m) = Suc (nat (m' - (m + 1)))" using ih(2) by simp
    with ih show ?thesis by auto
  qed
qed auto

lemma sum_monthLens: "sum_list (monthLens y) = (if isLeap y then 366 else 365)"
  by (simp add: monthLens_def)

theorem civil_correct:
  assumes "civil n = (y, m, d)"
  shows "dateDays y m d = n" "1 \<le> m" "m \<le> 12" "1 \<le> d" "d \<le> daysIn m y"
proof -
  obtain yd where yd: "yearAndDay n = (y, yd)" "monthAndDay (monthLens y) 1 yd = (m, d)"
    using assms by (auto simp: civil_def split: prod.splits)
  note Y = yearAndDay_correct [OF yd(1)]
  have "yd < sum_list (monthLens y)" using Y(3) by (simp add: sum_monthLens)
  note M = monthAndDay_correct [OF yd(2) Y(2) this]
  have l: "length (monthLens y) = 12" by (simp add: monthLens_def)
  show "dateDays y m d = n" "1 \<le> m" "m \<le> 12" "1 \<le> d" "d \<le> daysIn m y"
    using M Y(1) l by (auto simp: dateDays_def daysIn_def)
qed

section \<open>The text of an instant\<close>

fun padDigits :: "nat \<Rightarrow> nat \<Rightarrow> string" where
  "padDigits 0 n = []"
| "padDigits (Suc w) n = padDigits w (n div 10) @ [char_of (48 + n mod 10)]"

definition pad :: "nat \<Rightarrow> int \<Rightarrow> string" where
  "pad w n = padDigits w (nat n)"

definition stripZeros :: "string \<Rightarrow> string" where
  "stripZeros s = rev (dropWhile (\<lambda>c. c = CHR ''0'') (rev s))"

text \<open>Nine digits of a second without the trailing zeros, nothing for a whole second.\<close>

definition formatNano :: "int \<Rightarrow> string" where
  "formatNano ns = (if ns = 0 then [] else CHR ''.'' # stripZeros (pad 9 ns))"

text \<open>A zone is its offset from UTC in seconds; the text has whole minutes.\<close>

definition formatZone :: "int \<Rightarrow> string" where
  "formatZone off =
     (if off = 0 then ''Z''
      else (let m = \<bar>off\<bar> div 60
            in (if off \<le> - 60 then CHR ''-'' else CHR ''+'') # pad 2 (m div 60) @ CHR '':'' # pad 2 (m mod 60)))"

text \<open>\<^verbatim>\<open>Time.MarshalJSON\<close> without the quotes; an error for a year or a zone that has no RFC 3339 form.\<close>

definition formatTime :: "int \<Rightarrow> time \<Rightarrow> string option" where
  "formatTime off t =
     (let secs = t div second + off; (y, m, d) = civil (secs div 86400); sod = secs mod 86400
      in if y < 0 \<or> 9999 < y \<or> 24 * 3600 \<le> \<bar>off\<bar> then None
         else Some (pad 4 y @ CHR ''-'' # pad 2 m @ CHR ''-'' # pad 2 d @ CHR ''T''
           # pad 2 (sod div 3600) @ CHR '':'' # pad 2 (sod div 60 mod 60) @ CHR '':'' # pad 2 (sod mod 60)
           @ formatNano (t mod second) @ formatZone off))"

text \<open>\<^verbatim>\<open>parseRFC3339\<close>: the fields at their places, the fraction, the zone.\<close>

definition parseUint :: "string \<Rightarrow> int \<Rightarrow> int \<Rightarrow> int option" where
  "parseUint s lo hi =
     (case digitsVal 0 s of None \<Rightarrow> None | Some n \<Rightarrow> if lo \<le> int n \<and> int n \<le> hi then Some (int n) else None)"

definition isDec :: "char \<Rightarrow> bool" where
  "isDec c \<longleftrightarrow> digitVal c \<noteq> None"

definition parseNano :: "string \<Rightarrow> int" where
  "parseNano ds = (let ds = take 9 ds in int (the (digitsVal 0 ds)) * 10 ^ (9 - length ds))"

definition parseFraction :: "string \<Rightarrow> int \<times> string" where
  "parseFraction s =
     (case s of
        p # c # r \<Rightarrow> if p = CHR ''.'' \<and> isDec c then (parseNano (takeWhile isDec (c # r)), dropWhile isDec (c # r)) else (0, s)
      | _ \<Rightarrow> (0, s))"

definition parseZone :: "string \<Rightarrow> int option" where
  "parseZone s =
     (if s = ''Z'' then Some 0
      else (case s of
              [sg, h1, h2, c, m1, m2] \<Rightarrow>
                (case (parseUint [h1, h2] 0 23, parseUint [m1, m2] 0 59) of
                   (Some h, Some m) \<Rightarrow>
                     if (sg = CHR ''-'' \<or> sg = CHR ''+'') \<and> c = CHR '':''
                     then Some ((if sg = CHR ''-'' then - 1 else 1) * (h * 60 + m) * 60) else None
                 | _ \<Rightarrow> None)
            | _ \<Rightarrow> None))"

definition parseTime :: "string \<Rightarrow> (time \<times> int) option" where
  "parseTime s =
     (if length s < 19 then None
      else (case (parseUint (take 4 s) 0 9999, parseUint (take 2 (drop 5 s)) 1 12) of
              (Some y, Some m) \<Rightarrow>
                (case (parseUint (take 2 (drop 8 s)) 1 (daysIn m y), parseUint (take 2 (drop 11 s)) 0 23,
                       parseUint (take 2 (drop 14 s)) 0 59, parseUint (take 2 (drop 17 s)) 0 59) of
                   (Some d, Some hh, Some mm, Some ss) \<Rightarrow>
                     if \<not> (s ! 4 = CHR ''-'' \<and> s ! 7 = CHR ''-'' \<and> s ! 10 = CHR ''T'' \<and> s ! 13 = CHR '':'' \<and> s ! 16 = CHR '':'') then None
                     else (let (ns, z) = parseFraction (drop 19 s)
                           in case parseZone z of
                                None \<Rightarrow> None
                              | Some off \<Rightarrow>
                                  Some ((dateDays y m d * 86400 + hh * 3600 + mm * 60 + ss - off) * second + ns, off))
                 | _ \<Rightarrow> None)
            | _ \<Rightarrow> None))"

section \<open>Instants are read back\<close>

lemma length_padDigits [simp]: "length (padDigits w n) = w"
  by (induction w arbitrary: n) auto

lemma length_pad [simp]: "length (pad w n) = w"
  by (simp add: pad_def)

lemma digitsVal_padDigits: "digitsVal 0 (padDigits w n) = Some (n mod 10 ^ w)"
proof (induction w arbitrary: n)
  case (Suc w)
  have "n mod 10 ^ Suc w = 10 * (n div 10 mod 10 ^ w) + n mod 10"
    by (simp add: mod_mult2_eq)
  then show ?case using Suc by (simp add: digitsVal_append digitVal_char_of)
qed simp

lemma parseUint_pad:
  assumes "0 \<le> n" "n < 10 ^ w" "lo \<le> n" "n \<le> hi"
  shows "parseUint (pad w n) lo hi = Some n"
proof -
  have "nat n < 10 ^ w" using assms(1,2) by (simp add: nat_less_iff)
  then show ?thesis using assms by (simp add: parseUint_def pad_def digitsVal_padDigits)
qed

lemma isDec_pad: "c \<in> set (padDigits w n) \<Longrightarrow> isDec c"
  by (induction w arbitrary: n) (auto simp: isDec_def digitVal_char_of)

lemma digitsVal_zeros: "digitsVal acc (replicate k (CHR ''0'')) = Some (acc * 10 ^ k)"
  by (induction k arbitrary: acc) (auto simp: digitVal_def)

lemma digitsVal_total: "\<forall>c \<in> set s. isDec c \<Longrightarrow> \<exists>v. digitsVal acc s = Some v"
  by (induction s arbitrary: acc) (auto simp: isDec_def)

lemma stripZeros_append: "\<exists>k. s = stripZeros s @ replicate k (CHR ''0'')"
proof (induction s rule: rev_induct)
  case (snoc c s)
  then obtain k where k: "s = stripZeros s @ replicate k (CHR ''0'')" by blast
  show ?case
  proof (cases "c = CHR ''0''")
    case True
    then have "stripZeros (s @ [c]) = stripZeros s" by (simp add: stripZeros_def)
    moreover have "s @ [c] = stripZeros s @ replicate (Suc k) (CHR ''0'')"
      using k True by (metis append.assoc replicate_append_same replicate_Suc)
    ultimately show ?thesis by metis
  qed (auto simp: stripZeros_def intro: exI [of _ 0])
qed (simp add: stripZeros_def)

lemma stripZeros_dec: "\<forall>c \<in> set (stripZeros (pad w n)). isDec c"
  using isDec_pad [of _ w "nat n"] set_dropWhileD [of _ _ "rev (pad w n)"] by (auto simp: stripZeros_def pad_def)

lemma parseNano_strip:
  assumes "0 \<le> ns" "ns < second"
  shows "parseNano (stripZeros (pad 9 ns)) = ns"
proof -
  let ?s = "stripZeros (pad 9 ns)"
  obtain k where k: "pad 9 ns = ?s @ replicate k (CHR ''0'')" using stripZeros_append by blast
  then have "length (pad 9 ns) = length ?s + k" by (metis length_append length_replicate)
  then have len: "length ?s + k = 9" by simp
  obtain v where v: "digitsVal 0 ?s = Some v" using digitsVal_total stripZeros_dec by blast
  have "nat ns < 10 ^ 9" using assms by simp
  then have "digitsVal 0 (pad 9 ns) = Some (nat ns)" by (simp only: pad_def digitsVal_padDigits mod_less)
  moreover have "digitsVal 0 (pad 9 ns) = Some (v * 10 ^ k)" using v by (subst k) (simp add: digitsVal_append digitsVal_zeros)
  ultimately have "nat ns = v * 10 ^ k" by simp
  then have "int v * 10 ^ k = ns" using assms(1) by (metis int_nat_eq of_nat_mult of_nat_numeral of_nat_power)
  moreover have "9 - length ?s = k" "length ?s \<le> 9" using len by simp_all
  ultimately show ?thesis using v by (simp add: parseNano_def Let_def)
qed

lemma isDec_zone: "z = formatZone off \<Longrightarrow> z \<noteq> [] \<and> \<not> isDec (hd z) \<and> hd z \<noteq> CHR ''.''"
  by (auto simp: formatZone_def isDec_def digitVal_def less_eq_char_def Let_def)

lemma parseFraction_format:
  assumes "0 \<le> ns" "ns < second"
  shows "parseFraction (formatNano ns @ formatZone off) = (ns, formatZone off)"
proof (cases "ns = 0")
  case True
  then show ?thesis using isDec_zone [OF refl, of off] by (auto simp: formatNano_def parseFraction_def split: list.splits)
next
  case False
  let ?s = "stripZeros (pad 9 ns)"
  have dec: "\<forall>c \<in> set ?s. isDec c" by (rule stripZeros_dec)
  have "?s \<noteq> []" using parseNano_strip [OF assms] False by (auto simp: parseNano_def)
  then obtain c r where s: "?s = c # r" by (cases ?s) auto
  obtain a z where z: "formatZone off = a # z" "\<not> isDec a" using isDec_zone [OF refl, of off] by (cases "formatZone off") auto
  have tw: "takeWhile isDec (?s @ a # z) = ?s" "dropWhile isDec (?s @ a # z) = a # z"
    using dec z(2) by (simp_all add: takeWhile_append dropWhile_append)
  have "parseFraction (CHR ''.'' # ?s @ a # z) = (parseNano (takeWhile isDec (?s @ a # z)), dropWhile isDec (?s @ a # z))"
    using s dec by (simp add: parseFraction_def)
  then show ?thesis using False z parseNano_strip [OF assms] tw by (simp add: formatNano_def)
qed

lemma pad2: obtains a b where "pad 2 n = [a, b]"
  by (metis length_0_conv length_Suc_conv length_pad numeral_2_eq_2)

lemma parseZone_format:
  assumes "\<bar>off\<bar> < 24 * 3600" "off mod 60 = 0"
  shows "parseZone (formatZone off) = Some off"
proof (cases "off = 0")
  case False
  define m where "m = \<bar>off\<bar> div 60"
  have off: "\<bar>off\<bar> = 60 * m" using assms(2) by (auto simp: m_def abs_if mod_0_imp_dvd dvd_mult_div_cancel)
  have m: "0 \<le> m div 60" "m div 60 \<le> 23" "0 \<le> m mod 60" "m mod 60 \<le> 59" using assms(1) off by auto
  obtain a b where ab: "pad 2 (m div 60) = [a, b]" by (rule pad2)
  obtain c d where cd: "pad 2 (m mod 60) = [c, d]" by (rule pad2)
  have h: "parseUint [a, b] 0 23 = Some (m div 60)" using m unfolding ab [symmetric] by (intro parseUint_pad) simp_all
  have n: "parseUint [c, d] 0 59 = Some (m mod 60)" using m unfolding cd [symmetric] by (intro parseUint_pad) simp_all
  have sum: "m div 60 * 60 + m mod 60 = m" by simp
  show ?thesis
  proof (cases "off < 0")
    case True
    then have "0 < m" using off by simp
    then have "off \<le> - 60" using off True by simp
    then have "formatZone off = [CHR ''-'', a, b, CHR '':'', c, d]"
      using False unfolding formatZone_def m_def [symmetric] Let_def by (simp add: ab cd)
    then show ?thesis using True off by (simp add: parseZone_def h n sum)
  next
    case pos: False
    then have "formatZone off = [CHR ''+'', a, b, CHR '':'', c, d]"
      using False unfolding formatZone_def m_def [symmetric] Let_def by (simp add: ab cd)
    then show ?thesis using pos off by (simp add: parseZone_def h n sum)
  qed
qed (simp add: formatZone_def parseZone_def)

lemma parseTime_intro:
  assumes "19 \<le> length s" "parseUint (take 4 s) 0 9999 = Some y" "parseUint (take 2 (drop 5 s)) 1 12 = Some m"
    and "parseUint (take 2 (drop 8 s)) 1 (daysIn m y) = Some d" "parseUint (take 2 (drop 11 s)) 0 23 = Some hh"
    and "parseUint (take 2 (drop 14 s)) 0 59 = Some mm" "parseUint (take 2 (drop 17 s)) 0 59 = Some ss"
    and "s ! 4 = CHR ''-''" "s ! 7 = CHR ''-''" "s ! 10 = CHR ''T''" "s ! 13 = CHR '':''" "s ! 16 = CHR '':''"
    and "parseFraction (drop 19 s) = (ns, z)" "parseZone z = Some off"
  shows "parseTime s = Some ((dateDays y m d * 86400 + hh * 3600 + mm * 60 + ss - off) * second + ns, off)"
  using assms by (simp add: parseTime_def)

theorem parse_formatTime:
  assumes "formatTime off t = Some s" "off mod 60 = 0"
  shows "parseTime s = Some (t, off)"
proof -
  define secs where "secs = t div second + off"
  obtain y m d where c: "civil (secs div 86400) = (y, m, d)" by (metis prod_cases3)
  define sod where "sod = secs mod 86400"
  have s: "s = pad 4 y @ CHR ''-'' # pad 2 m @ CHR ''-'' # pad 2 d @ CHR ''T''
      # pad 2 (sod div 3600) @ CHR '':'' # pad 2 (sod div 60 mod 60) @ CHR '':'' # pad 2 (sod mod 60)
      @ formatNano (t mod second) @ formatZone off" and y: "0 \<le> y" "y \<le> 9999" and off: "\<bar>off\<bar> < 24 * 3600"
    using assms(1) c by (auto simp: formatTime_def Let_def secs_def [symmetric] sod_def [symmetric] split: if_splits)
  note C = civil_correct [OF c]
  have d31: "d \<le> 31" using C(2-5) by (auto simp: daysIn_def monthLens_def nth_Cons split: nat.splits if_splits)
  have sod: "0 \<le> sod" "sod < 86400" by (simp_all add: sod_def)
  have f: "parseUint (pad 4 y) 0 9999 = Some y" "parseUint (pad 2 m) 1 12 = Some m" "parseUint (pad 2 d) 1 (daysIn m y) = Some d"
    "parseUint (pad 2 (sod div 3600)) 0 23 = Some (sod div 3600)" "parseUint (pad 2 (sod div 60 mod 60)) 0 59 = Some (sod div 60 mod 60)"
    "parseUint (pad 2 (sod mod 60)) 0 59 = Some (sod mod 60)"
    using y C(2-5) d31 sod by (auto intro!: parseUint_pad)
  have frac: "parseFraction (drop 19 s) = (t mod second, formatZone off)"
    using parseFraction_format [of "t mod second" off] by (simp add: s)
  have inst: "(dateDays y m d * 86400 + sod div 3600 * 3600 + sod div 60 mod 60 * 60 + sod mod 60 - off) * second + t mod second = t"
  proof -
    have sum: "x * 60 + y = q \<Longrightarrow> q * 60 + z = r \<Longrightarrow> x * 3600 + y * 60 + z = r" for x y z q r :: int by simp
    have q: "sod div 3600 = sod div 60 div 60" by (simp add: zdiv_zmult2_eq [symmetric])
    have "sod div 3600 * 3600 + sod div 60 mod 60 * 60 + sod mod 60 = sod"
      unfolding q by (rule sum [OF div_mult_mod_eq div_mult_mod_eq])
    moreover have "secs div 86400 * 86400 + sod = secs" by (simp add: sod_def)
    ultimately have "dateDays y m d * 86400 + sod div 3600 * 3600 + sod div 60 mod 60 * 60 + sod mod 60 - off = t div second"
      using C(1) unfolding secs_def by linarith
    then show ?thesis by (simp only: div_mult_mod_eq)
  qed
  have len: "19 \<le> length s" by (simp add: s)
  have parts: "take 4 s = pad 4 y" "take 2 (drop 5 s) = pad 2 m" "take 2 (drop 8 s) = pad 2 d" "take 2 (drop 11 s) = pad 2 (sod div 3600)"
    "take 2 (drop 14 s) = pad 2 (sod div 60 mod 60)" "take 2 (drop 17 s) = pad 2 (sod mod 60)"
    and seps: "s ! 4 = CHR ''-''" "s ! 7 = CHR ''-''" "s ! 10 = CHR ''T''" "s ! 13 = CHR '':''" "s ! 16 = CHR '':''"
    unfolding s by (simp_all add: nth_append)
  show ?thesis
    using parseTime_intro [OF len, unfolded parts, OF f seps frac parseZone_format [OF off assms(2)]] unfolding inst .
qed

end
