(* ===== verification/GoJson.thy ===== *)
theory GoJson
  imports JsonText GoTime
begin

text \<open>
  How \<^verbatim>\<open>encoding/json\<close> converts between documents and Go values. The package walks over the type of a value by reflection;
  here a type is a descriptor (\<open>gotype\<close>) with the names and the \<^verbatim>\<open>omitempty\<close> flags of the struct tags, a value is a tree (\<open>gval\<close>), and
  \<open>decode\<close> and \<open>encode\<close> go along the descriptor. Decoding works on the value that is already there: a field without a member keeps its
  value, \<^verbatim>\<open>null\<close> changes a string or a struct not at all, and the elements of an array overwrite the elements of the slice one by one, those
  beyond its length that an earlier decoding left in its storage included.

  The main facts: decoded values have the type they were decoded for, and every string in them is valid UTF-8; a value that was encoded is
  decoded again, up to stray bytes and empty fields with \<^verbatim>\<open>omitempty\<close>.
\<close>

section \<open>Types and values\<close>

datatype gotype = KString | KTime | KSlice gotype | KStruct "(string \<times> bool \<times> gotype) list" | KPtr gotype

text \<open>
  A slice that is not \<^verbatim>\<open>nil\<close> has its elements and those that are left in its storage behind them. A time has its instant and the offset of its
  zone.
\<close>

datatype gval = VString string | VTime time int | VNilSlice | VSlice "gval list" "gval list" | VStruct "gval list" | VNilPtr | VPtr gval

primrec zeroVal :: "gotype \<Rightarrow> gval" where
  "zeroVal KString = VString []"
| "zeroVal KTime = VTime 0 0"
| "zeroVal (KSlice t) = VNilSlice"
| "zeroVal (KStruct fs) = VStruct (map snd (map (map_prod id snd) (map (map_prod id (map_prod id zeroVal)) fs)))"
| "zeroVal (KPtr t) = VNilPtr"

section \<open>Decoding\<close>

type_synonym decoder = "gval \<Rightarrow> jsyn \<Rightarrow> gval option"

text \<open>Names of fields match exactly or, failing that, without regard to case (\<^verbatim>\<open>foldName\<close>).\<close>

fun foldName :: "string \<Rightarrow> string" where
  "foldName [] = []"
| "foldName (c # s) =
     (if c = CHR 0xC5 \<and> s \<noteq> [] \<and> hd s = CHR 0xBF then CHR ''S'' # foldName (tl s)
      else if c = CHR 0xE2 \<and> take 2 s = [CHR 0x84, CHR 0xAA] then CHR ''K'' # foldName (drop 2 s)
      else (if CHR ''a'' \<le> c \<and> c \<le> CHR ''z'' then char_of (octet c - 32) else c) # foldName s)"

fun indexWhere :: "('a \<Rightarrow> bool) \<Rightarrow> 'a list \<Rightarrow> nat option" where
  "indexWhere P [] = None"
| "indexWhere P (x # xs) = (if P x then Some 0 else map_option Suc (indexWhere P xs))"

definition fieldIndex :: "string list \<Rightarrow> string \<Rightarrow> nat option" where
  "fieldIndex names key =
     (case indexWhere (\<lambda>n. n = key) names of
        Some i \<Rightarrow> Some i
      | None \<Rightarrow> indexWhere (\<lambda>n. foldName n = foldName key) names)"

definition stringDecoder :: decoder where
  "stringDecoder v j =
     (case j of
        SNull \<Rightarrow> Some v
      | SStr raw \<Rightarrow> map_option VString (unquote raw)
      | _ \<Rightarrow> None)"

definition timeDecoder :: decoder where
  "timeDecoder v j =
     (case j of
        SNull \<Rightarrow> Some v
      | SStr raw \<Rightarrow> map_option (\<lambda>(t, off). VTime t off) (parseTime raw)
      | _ \<Rightarrow> None)"

fun storage :: "gval \<Rightarrow> gval list" where
  "storage (VSlice vs hidden) = vs @ hidden"
| "storage _ = []"

fun decodeElems :: "decoder \<Rightarrow> gval \<Rightarrow> gval list \<Rightarrow> jsyn list \<Rightarrow> gval list option" where
  "decodeElems d z old [] = Some []"
| "decodeElems d z old (j # js) =
     (case d (case old of [] \<Rightarrow> z | o1 # _ \<Rightarrow> o1) j of
        None \<Rightarrow> None
      | Some v \<Rightarrow> map_option ((#) v) (decodeElems d z (tl old) js))"

definition sliceDecoder :: "decoder \<Rightarrow> gval \<Rightarrow> decoder" where
  "sliceDecoder d z v j =
     (case j of
        SNull \<Rightarrow> Some VNilSlice
      | SArr js \<Rightarrow>
          (if js = [] then Some (VSlice [] [])
           else map_option (\<lambda>vs. VSlice vs (drop (length js) (storage v))) (decodeElems d z (storage v) js))
      | _ \<Rightarrow> None)"

text \<open>One member of an object after the other; a member that belongs to no field is skipped.\<close>

fun decodeMembers :: "(string \<times> decoder) list \<Rightarrow> gval list \<Rightarrow> (string \<times> jsyn) list \<Rightarrow> gval list option" where
  "decodeMembers fs vs [] = Some vs"
| "decodeMembers fs vs ((k, j) # ms) =
     (case unquote k of
        None \<Rightarrow> None
      | Some key \<Rightarrow>
          (case fieldIndex (map fst fs) key of
             None \<Rightarrow> decodeMembers fs vs ms
           | Some i \<Rightarrow>
               (case snd (fs ! i) (vs ! i) j of
                  None \<Rightarrow> None
                | Some v \<Rightarrow> decodeMembers fs (vs[i := v]) ms)))"

definition structDecoder :: "(string \<times> decoder) list \<Rightarrow> decoder" where
  "structDecoder fs v j =
     (case (v, j) of
        (VStruct vs, SObj ms) \<Rightarrow> map_option VStruct (decodeMembers fs vs ms)
      | (_, SNull) \<Rightarrow> Some v
      | _ \<Rightarrow> None)"

definition ptrDecoder :: "decoder \<Rightarrow> gval \<Rightarrow> decoder" where
  "ptrDecoder d z v j =
     (if j = SNull then Some VNilPtr
      else map_option VPtr (d (case v of VPtr w \<Rightarrow> w | _ \<Rightarrow> z) j))"

primrec decode :: "gotype \<Rightarrow> decoder" where
  "decode KString = stringDecoder"
| "decode KTime = timeDecoder"
| "decode (KSlice t) = sliceDecoder (decode t) (zeroVal t)"
| "decode (KStruct fs) = structDecoder (map (map_prod id snd) (map (map_prod id (map_prod id decode)) fs))"
| "decode (KPtr t) = ptrDecoder (decode t) (zeroVal t)"

text \<open>\<^verbatim>\<open>json.Unmarshal(data, &v)\<close> for a fresh \<^verbatim>\<open>v\<close> of the type.\<close>

definition Unmarshal :: "gotype \<Rightarrow> string \<Rightarrow> gval option" where
  "Unmarshal t data = (case parseJSON data of None \<Rightarrow> None | Some j \<Rightarrow> decode t (zeroVal t) j)"

section \<open>Encoding\<close>

fun isEmptyValue :: "gval \<Rightarrow> bool" where
  "isEmptyValue (VString s) \<longleftrightarrow> s = []"
| "isEmptyValue (VSlice vs _) \<longleftrightarrow> vs = []"
| "isEmptyValue VNilSlice \<longleftrightarrow> True"
| "isEmptyValue VNilPtr \<longleftrightarrow> True"
| "isEmptyValue _ \<longleftrightarrow> False"

type_synonym encoder = "gval \<Rightarrow> jsyn option"

fun encodeAll :: "encoder \<Rightarrow> gval list \<Rightarrow> jsyn list option" where
  "encodeAll e [] = Some []"
| "encodeAll e (v # vs) = (case (e v, encodeAll e vs) of (Some j, Some js) \<Rightarrow> Some (j # js) | _ \<Rightarrow> None)"

fun encodeFields :: "(string \<times> bool \<times> encoder) list \<Rightarrow> gval list \<Rightarrow> (string \<times> jsyn) list option" where
  "encodeFields ((n, om, e) # fs) (v # vs) =
     (if om \<and> isEmptyValue v then encodeFields fs vs
      else (case (e v, encodeFields fs vs) of (Some j, Some ms) \<Rightarrow> Some ((quoteBody n, j) # ms) | _ \<Rightarrow> None))"
| "encodeFields _ _ = Some []"

primrec encode :: "gotype \<Rightarrow> encoder" where
  "encode KString = (\<lambda>v. case v of VString s \<Rightarrow> Some (SStr (quoteBody s)) | _ \<Rightarrow> None)"
| "encode KTime = (\<lambda>v. case v of VTime t off \<Rightarrow> map_option SStr (formatTime off t) | _ \<Rightarrow> None)"
| "encode (KSlice t) = (\<lambda>v. case v of VSlice vs _ \<Rightarrow> map_option SArr (encodeAll (encode t) vs) | _ \<Rightarrow> Some SNull)"
| "encode (KStruct fs) = (\<lambda>v. case v of VStruct vs \<Rightarrow> map_option SObj (encodeFields (map (map_prod id (map_prod id encode)) fs) vs) | _ \<Rightarrow> None)"
| "encode (KPtr t) = (\<lambda>v. case v of VPtr w \<Rightarrow> encode t w | _ \<Rightarrow> Some SNull)"

text \<open>\<^verbatim>\<open>json.Marshal(v)\<close> and \<^verbatim>\<open>json.MarshalIndent(v, "", "  ")\<close>\<close>

definition Marshal :: "gotype \<Rightarrow> gval \<Rightarrow> string option" where
  "Marshal t v = map_option compactJSON (encode t v)"

definition MarshalIndent :: "gotype \<Rightarrow> gval \<Rightarrow> string option" where
  "MarshalIndent t v = map_option indentJSON (encode t v)"

section \<open>Values of a type\<close>

text \<open>A value of a type whose strings satisfy \<open>P\<close>, hidden elements included. Zones have whole minutes.\<close>

primrec hasType :: "(string \<Rightarrow> bool) \<Rightarrow> gotype \<Rightarrow> gval \<Rightarrow> bool" where
  "hasType P KString = (\<lambda>v. case v of VString s \<Rightarrow> P s | _ \<Rightarrow> False)"
| "hasType P KTime = (\<lambda>v. case v of VTime _ off \<Rightarrow> off mod 60 = 0 | _ \<Rightarrow> False)"
| "hasType P (KSlice t) = (\<lambda>v. case v of VNilSlice \<Rightarrow> True | VSlice vs hs \<Rightarrow> list_all (hasType P t) (vs @ hs) | _ \<Rightarrow> False)"
| "hasType P (KStruct fs) =
     (\<lambda>v. case v of VStruct vs \<Rightarrow> list_all2 (\<lambda>f v. f v) (map snd (map (map_prod id snd) (map (map_prod id (map_prod id (hasType P))) fs))) vs | _ \<Rightarrow> False)"
| "hasType P (KPtr t) = (\<lambda>v. case v of VNilPtr \<Rightarrow> True | VPtr w \<Rightarrow> hasType P t w | _ \<Rightarrow> False)"

lemma hasType_struct [simp]:
  "hasType P (KStruct fs) (VStruct vs) \<longleftrightarrow> list_all2 (\<lambda>f v. hasType P (snd (snd f)) v) fs vs"
  by (simp add: list_all2_map1 comp_def)

lemma zeroVal_struct [simp]: "zeroVal (KStruct fs) = VStruct (map (\<lambda>f. zeroVal (snd (snd f))) fs)"
  by simp

lemma decode_struct [simp]: "decode (KStruct fs) = structDecoder (map (\<lambda>f. (fst f, decode (snd (snd f)))) fs)"
  by (simp add: comp_def) (rule arg_cong [of _ _ structDecoder], auto)

lemma encode_struct [simp]:
  "encode (KStruct fs) (VStruct vs) = map_option SObj (encodeFields (map (\<lambda>f. (fst f, fst (snd f), encode (snd (snd f)))) fs) vs)"
proof -
  have "map_prod id (map_prod id encode) = (\<lambda>f :: string \<times> bool \<times> gotype. (fst f, fst (snd f), encode (snd (snd f))))" by auto
  then show ?thesis by (simp only: encode.simps gval.case)
qed

lemmas [simp del] = zeroVal.simps(4) decode.simps(4) encode.simps(4) hasType.simps(4)

lemma hasType_structE:
  assumes "hasType P (KStruct fs) v"
  obtains vs where "v = VStruct vs" "list_all2 (\<lambda>f v. hasType P (snd (snd f)) v) fs vs"
  using assms by (cases v) (auto simp: hasType.simps(4) list_all2_map1 comp_def)

lemma field_in: "f \<in> set fs \<Longrightarrow> snd f \<in> Basic_BNFs.snds f \<and> snd (snd f) \<in> Basic_BNFs.snds (snd f)"
  by (cases f; cases "snd f") auto

text \<open>Induction over types with the fields of a struct as one hypothesis.\<close>

lemma gotype_rule [case_names String Time Slice Struct Ptr]:
  assumes "Q KString" "Q KTime" "\<And>t. Q t \<Longrightarrow> Q (KSlice t)" "\<And>fs. (\<And>f. f \<in> set fs \<Longrightarrow> Q (snd (snd f))) \<Longrightarrow> Q (KStruct fs)"
    "\<And>t. Q t \<Longrightarrow> Q (KPtr t)"
  shows "Q t"
proof (induction t)
  case (KStruct fs)
  then show ?case using assms(4) field_in by metis
qed (use assms in auto)

lemma zero_typed: "P [] \<Longrightarrow> hasType P t (zeroVal t)"
  by (induction t rule: gotype_rule) (auto simp: list_all2_map2 list.rel_map list_all2_same)

section \<open>Decoded values have their type\<close>

definition keepsType :: "(gval \<Rightarrow> bool) \<Rightarrow> decoder \<Rightarrow> bool" where
  "keepsType Q d \<longleftrightarrow> (\<forall>v j v'. Q v \<longrightarrow> d v j = Some v' \<longrightarrow> Q v')"

lemma keepsTypeI: "(\<And>v j v'. Q v \<Longrightarrow> d v j = Some v' \<Longrightarrow> Q v') \<Longrightarrow> keepsType Q d"
  by (simp add: keepsType_def)

lemma decodeElems_keeps:
  "keepsType Q d \<Longrightarrow> Q z \<Longrightarrow> list_all Q old \<Longrightarrow> decodeElems d z old js = Some vs \<Longrightarrow> list_all Q vs"
proof (induction d z old js arbitrary: vs rule: decodeElems.induct)
  case (2 d z old j js)
  then show ?case by (cases old) (auto simp: keepsType_def split: option.splits)
qed simp

lemma decodeMembers_keeps:
  assumes "list_all2 (\<lambda>d Q. keepsType Q (snd d)) ds Qs"
  shows "list_all2 (\<lambda>Q v. Q v) Qs vs \<Longrightarrow> decodeMembers ds vs ms = Some vs' \<Longrightarrow> list_all2 (\<lambda>Q v. Q v) Qs vs'"
proof (induction ms arbitrary: vs)
  case (Cons m ms)
  obtain k j where m: "m = (k, j)" by (cases m)
  from Cons.prems(2) m obtain key where key: "unquote k = Some key" by (auto split: option.splits)
  show ?case
  proof (cases "fieldIndex (map fst ds) key")
    case None
    with Cons m key show ?thesis by simp
  next
    case (Some i)
    with Cons.prems m key obtain v where v: "snd (ds ! i) (vs ! i) j = Some v" "decodeMembers ds (vs[i := v]) ms = Some vs'"
      by (auto split: option.splits)
    have "list_all2 (\<lambda>Q v. Q v) Qs (vs[i := v])"
    proof (cases "i < length vs")
      case True
      with Cons.prems(1) assms have "(Qs ! i) (vs ! i)" "keepsType (Qs ! i) (snd (ds ! i))" by (auto simp: list_all2_conv_all_nth)
      with v(1) have "(Qs ! i) v" by (auto simp: keepsType_def)
      with Cons.prems(1) True show ?thesis by (auto simp: list_all2_conv_all_nth nth_list_update)
    qed (use Cons.prems(1) in \<open>simp add: list_update_beyond\<close>)
    with Cons.IH v(2) show ?thesis by blast
  qed
qed simp

lemma parseTime_zone: "parseTime s = Some (t, off) \<Longrightarrow> off mod 60 = 0"
proof -
  assume "parseTime s = Some (t, off)"
  then obtain z where "parseZone z = Some off" by (auto simp: parseTime_def split: if_splits option.splits prod.splits)
  then show ?thesis by (auto simp: parseZone_def split: if_splits list.splits option.splits)
qed

lemma decode_keeps:
  assumes "\<And>s. validUTF8 s \<Longrightarrow> P s"
  shows "keepsType (hasType P t) (decode t)"
proof (induction t rule: gotype_rule)
  case String
  show ?case using assms unquote_valid
    by (intro keepsTypeI) (auto simp: stringDecoder_def split: jsyn.splits gval.splits)
next
  case Time
  show ?case by (intro keepsTypeI) (auto simp: timeDecoder_def dest: parseTime_zone split: jsyn.splits gval.splits)
next
  case (Slice t)
  show ?case
  proof (rule keepsTypeI)
    fix v j v'
    assume v: "hasType P (KSlice t) v" "decode (KSlice t) v j = Some v'"
    have s: "list_all (hasType P t) (storage v)" using v(1) by (cases v) auto
    have z: "hasType P t (zeroVal t)" using assms [of "[]"] zero_typed by simp
    have "list_all (hasType P t) (drop n (storage v))" for n using s by (metis append_take_drop_id list_all_append)
    then show "hasType P (KSlice t) v'"
      using v(2) decodeElems_keeps [OF Slice z s] s
      by (auto simp: sliceDecoder_def split: jsyn.splits if_splits)
  qed
next
  case (Struct fs)
  show ?case
  proof (rule keepsTypeI)
    fix v j v'
    assume v: "hasType P (KStruct fs) v" "decode (KStruct fs) v j = Some v'"
    from v(1) obtain vs where vs: "v = VStruct vs" "list_all2 (\<lambda>f v. hasType P (snd (snd f)) v) fs vs" by (rule hasType_structE)
    let ?ds = "map (\<lambda>f. (fst f, decode (snd (snd f)))) fs" and ?Qs = "map (\<lambda>f. hasType P (snd (snd f))) fs"
    have "list_all2 (\<lambda>d Q. keepsType Q (snd d)) ?ds ?Qs" using Struct by (auto simp: list.rel_map list_all2_same)
    note K = decodeMembers_keeps [OF this, of vs]
    show "hasType P (KStruct fs) v'"
      using v vs K by (auto simp: structDecoder_def list_all2_map1 split: jsyn.splits)
  qed
next
  case (Ptr t)
  have "hasType P t (zeroVal t)" using assms [of "[]"] zero_typed by simp
  then show ?case using Ptr by (intro keepsTypeI) (auto simp: ptrDecoder_def keepsType_def split: if_splits gval.splits)
qed

theorem Unmarshal_typed: "Unmarshal t data = Some v \<Longrightarrow> hasType validUTF8 t v"
  using decode_keeps [of validUTF8 t] zero_typed [of validUTF8 t] by (auto simp: Unmarshal_def keepsType_def split: option.splits)

section \<open>Encoded values are decoded again\<close>

text \<open>What is left of a value: stray bytes are replaced, empty fields with \<^verbatim>\<open>omitempty\<close> are zero, hidden elements are gone.\<close>

fun normalFields :: "(bool \<times> gval \<times> (gval \<Rightarrow> gval)) list \<Rightarrow> gval list \<Rightarrow> gval list" where
  "normalFields ((om, z, f) # fs) (v # vs) = (if om \<and> isEmptyValue v then z else f v) # normalFields fs vs"
| "normalFields _ _ = []"

primrec normalVal :: "gotype \<Rightarrow> gval \<Rightarrow> gval" where
  "normalVal KString = (\<lambda>v. case v of VString s \<Rightarrow> VString (coerceUTF8 s) | _ \<Rightarrow> v)"
| "normalVal KTime = (\<lambda>v. v)"
| "normalVal (KSlice t) = (\<lambda>v. case v of VSlice vs _ \<Rightarrow> VSlice (map (normalVal t) vs) [] | _ \<Rightarrow> VNilSlice)"
| "normalVal (KStruct fs) =
     (\<lambda>v. case v of VStruct vs \<Rightarrow>
        VStruct (normalFields (map (\<lambda>(n, om, t, f). (om, zeroVal t, f)) (map (map_prod id (map_prod id (\<lambda>t. (t, normalVal t)))) fs)) vs) | _ \<Rightarrow> v)"
| "normalVal (KPtr t) = (\<lambda>v. case v of VPtr w \<Rightarrow> VPtr (normalVal t w) | _ \<Rightarrow> VNilPtr)"

lemma normalVal_struct [simp]:
  "normalVal (KStruct fs) (VStruct vs) = VStruct (normalFields (map (\<lambda>f. (fst (snd f), zeroVal (snd (snd f)), normalVal (snd (snd f)))) fs) vs)"
proof -
  have "(\<lambda>(n, om, t, f). (om, zeroVal t, f)) \<circ> map_prod id (map_prod id (\<lambda>t. (t, normalVal t)))
      = (\<lambda>f :: string \<times> bool \<times> gotype. (fst (snd f), zeroVal (snd (snd f)), normalVal (snd (snd f))))" by auto
  then show ?thesis by simp
qed

text \<open>The types that are written: no pointers, and the names of the fields are distinct.\<close>

primrec plainType :: "gotype \<Rightarrow> bool" where
  "plainType KString \<longleftrightarrow> True"
| "plainType KTime \<longleftrightarrow> True"
| "plainType (KSlice t) \<longleftrightarrow> plainType t"
| "plainType (KStruct fs) \<longleftrightarrow>
     distinct (map fst fs) \<and> list_all validUTF8 (map fst fs)
     \<and> list_all (snd \<circ> snd) (map (map_prod id (map_prod id plainType)) fs)"
| "plainType (KPtr t) \<longleftrightarrow> False"

primrec typeFits :: "gotype \<Rightarrow> nat \<Rightarrow> bool" where
  "typeFits KString = (\<lambda>n. True)"
| "typeFits KTime = (\<lambda>n. True)"
| "typeFits (KSlice t) = (\<lambda>n. 0 < n \<and> typeFits t (n - 1))"
| "typeFits (KStruct fs) = (\<lambda>n. 0 < n \<and> list_all (\<lambda>f. (snd (snd f)) (n - 1)) (map (map_prod id (map_prod id typeFits)) fs))"
| "typeFits (KPtr t) = (\<lambda>n. typeFits t n)"

lemma plainType_struct [simp]:
  "plainType (KStruct fs) \<longleftrightarrow> distinct (map fst fs) \<and> list_all validUTF8 (map fst fs) \<and> (\<forall>f \<in> set fs. plainType (snd (snd f)))"
  by (auto simp: list_all_iff)

lemma typeFits_struct [simp]: "typeFits (KStruct fs) n \<longleftrightarrow> 0 < n \<and> (\<forall>f \<in> set fs. typeFits (snd (snd f)) (n - 1))"
  by (auto simp: list_all_iff)

lemmas [simp del] = plainType.simps(4) typeFits.simps(4) normalVal.simps(4)

lemma indexWhere_at:
  "P x \<Longrightarrow> \<forall>y \<in> set pre. \<not> P y \<Longrightarrow> indexWhere P (pre @ x # suf) = Some (length pre)"
  by (induction pre) auto

lemma fieldIndex_at: "distinct (pre @ n # suf) \<Longrightarrow> fieldIndex (pre @ n # suf) n = Some (length pre)"
proof -
  assume "distinct (pre @ n # suf)"
  then have "\<forall>y \<in> set pre. \<not> y = n" by auto
  from indexWhere_at [of "\<lambda>m. m = n", OF refl this] show ?thesis by (simp add: fieldIndex_def)
qed

lemma decodeMembers_fields:
  assumes "distinct (map fst (pre @ suf))" "list_all validUTF8 (map fst suf)" "length done = length pre"
    and "encodeFields (map (\<lambda>f. (fst f, fst (snd f), encode (snd (snd f)))) suf) vs = Some ms"
    and "list_all2 (\<lambda>f v. \<forall>j. encode (snd (snd f)) v = Some j \<longrightarrow> decode (snd (snd f)) (zeroVal (snd (snd f))) j = Some (normalVal (snd (snd f)) v)) suf vs"
  shows "decodeMembers (map (\<lambda>f. (fst f, decode (snd (snd f)))) (pre @ suf)) (done @ map (\<lambda>f. zeroVal (snd (snd f))) suf) ms
      = Some (done @ normalFields (map (\<lambda>f. (fst (snd f), zeroVal (snd (snd f)), normalVal (snd (snd f)))) suf) vs)"
  using assms
proof (induction suf arbitrary: pre "done" vs ms)
  case (Cons f suf)
  obtain n om t where f: "f = (n, om, t)" by (cases f)
  from Cons.prems(5) obtain v ws where v: "vs = v # ws" by (cases vs) auto
  let ?z = "map (\<lambda>f. zeroVal (snd (snd f))) suf" and ?d = "map (\<lambda>f. (fst f, decode (snd (snd f))))"
  have ih: "decodeMembers (?d (pre @ f # suf)) ((done @ [w]) @ ?z) ms'
      = Some ((done @ [w]) @ normalFields (map (\<lambda>f. (fst (snd f), zeroVal (snd (snd f)), normalVal (snd (snd f)))) suf) ws)"
    if "encodeFields (map (\<lambda>f. (fst f, fst (snd f), encode (snd (snd f)))) suf) ws = Some ms'" for w ms'
    using Cons.IH [of "pre @ [f]" "done @ [w]" ws ms'] Cons.prems that v by simp
  show ?case
  proof (cases "om \<and> isEmptyValue v")
    case True
    with Cons.prems(4) f v have "encodeFields (map (\<lambda>f. (fst f, fst (snd f), encode (snd (snd f)))) suf) ws = Some ms" by simp
    from ih [OF this, of "zeroVal t"] f v True show ?thesis by simp
  next
    case False
    with Cons.prems(4) f v obtain j ms' where j: "encode t v = Some j"
      and ms': "encodeFields (map (\<lambda>f. (fst f, fst (snd f), encode (snd (snd f)))) suf) ws = Some ms'" and ms: "ms = (quoteBody n, j) # ms'"
      by (auto split: option.splits)
    have "unquote (quoteBody n) = Some n"
      using Cons.prems(2) f by (simp add: unquote_quoteBody coerce_valid)
    moreover have "fieldIndex (map fst (?d (pre @ f # suf))) n = Some (length pre)"
      using Cons.prems(1) f fieldIndex_at [of "map fst pre" n "map fst suf"] by (simp add: comp_def)
    moreover have "snd (?d (pre @ f # suf) ! length pre) ((done @ zeroVal t # ?z) ! length pre) j = Some (normalVal t v)"
      using Cons.prems(3,5) f v j by (simp add: nth_append)
    ultimately have "decodeMembers (?d (pre @ f # suf)) (done @ zeroVal t # ?z) ms
        = decodeMembers (?d (pre @ f # suf)) ((done @ [normalVal t v]) @ ?z) ms'"
      using ms by (simp add: list_update_append Cons.prems(3))
    with ih [OF ms', of "normalVal t v"] f v False show ?thesis by auto
  qed
qed (auto split: list.splits)

lemma decodeElems_encoded:
  "encodeAll e vs = Some js \<Longrightarrow> list_all (\<lambda>v. \<forall>j. e v = Some j \<longrightarrow> d z j = Some (f v)) vs \<Longrightarrow> decodeElems d z [] js = Some (map f vs)"
  by (induction vs arbitrary: js) (auto split: option.splits)

lemma encodeAll_length: "encodeAll e vs = Some js \<Longrightarrow> length js = length vs"
  by (induction vs arbitrary: js) (auto split: option.splits)

theorem decode_encode:
  "plainType t \<Longrightarrow> hasType P t v \<Longrightarrow> encode t v = Some j \<Longrightarrow> decode t (zeroVal t) j = Some (normalVal t v)"
proof (induction t arbitrary: v j rule: gotype_rule)
  case String
  then show ?case by (auto simp: stringDecoder_def unquote_quoteBody split: gval.splits)
next
  case Time
  then show ?case by (auto simp: timeDecoder_def parse_formatTime split: gval.splits)
next
  case (Slice t)
  show ?case
  proof (cases "\<exists>vs hs. v = VSlice vs hs")
    case True
    then obtain vs hs where v: "v = VSlice vs hs" by blast
    with Slice.prems obtain js where js: "encodeAll (encode t) vs = Some js" "j = SArr js" by auto
    have "list_all (\<lambda>v. \<forall>j. encode t v = Some j \<longrightarrow> decode t (zeroVal t) j = Some (normalVal t v)) vs"
      using Slice.IH Slice.prems(1,2) v by (auto simp: list_all_iff)
    from decodeElems_encoded [of "encode t" vs js "decode t" "zeroVal t" "normalVal t", OF js(1) this] v js encodeAll_length [OF js(1)] show ?thesis
      by (auto simp: sliceDecoder_def)
  qed (use Slice.prems in \<open>auto simp: sliceDecoder_def split: gval.splits\<close>)
next
  case (Struct fs)
  from Struct.prems(2) obtain vs where vs: "v = VStruct vs" "list_all2 (\<lambda>f v. hasType P (snd (snd f)) v) fs vs" by (rule hasType_structE)
  from Struct.prems(3) vs(1) obtain ms where ms: "encodeFields (map (\<lambda>f. (fst f, fst (snd f), encode (snd (snd f)))) fs) vs = Some ms" "j = SObj ms"
    by auto
  have "list_all2 (\<lambda>f v. \<forall>j. encode (snd (snd f)) v = Some j \<longrightarrow> decode (snd (snd f)) (zeroVal (snd (snd f))) j = Some (normalVal (snd (snd f)) v)) fs vs"
    using vs(2) by (rule list.rel_mono_strong) (use Struct.IH Struct.prems(1) in auto)
  then show ?case
    using decodeMembers_fields [of "[]" fs "[]" vs ms] ms vs(1) Struct.prems(1) by (simp add: structDecoder_def)
qed simp

section \<open>Encoded values are documents\<close>

lemma litOk_time: "formatTime off t = Some s \<Longrightarrow> litOk s"
proof -
  assume s: "formatTime off t = Some s"
  have dec: "0x30 \<le> octet c \<and> octet c \<le> 0x39" if "isDec c" for c
    using that by (auto simp: isDec_def digitVal_def less_eq_char_def split: if_splits)
  have p: "\<forall>c \<in> set (pad w n). 0x20 \<le> octet c \<and> c \<noteq> CHR 0x22 \<and> c \<noteq> CHR 0x5C" for w n
  proof
    fix c assume "c \<in> set (pad w n)"
    then have "isDec c" using isDec_pad by (simp add: pad_def)
    from dec [OF this] show "0x20 \<le> octet c \<and> c \<noteq> CHR 0x22 \<and> c \<noteq> CHR 0x5C" by auto
  qed
  have f: "\<forall>c \<in> set (formatNano n). 0x20 \<le> octet c \<and> c \<noteq> CHR 0x22 \<and> c \<noteq> CHR 0x5C" for n
  proof -
    have "set (stripZeros (pad 9 n)) \<subseteq> set (pad 9 n)" by (auto simp only: stripZeros_def set_rev dest: set_dropWhileD)
    with p [of 9 n] show ?thesis by (auto simp: formatNano_def)
  qed
  have z: "\<forall>c \<in> set (formatZone off). 0x20 \<le> octet c \<and> c \<noteq> CHR 0x22 \<and> c \<noteq> CHR 0x5C"
    using p by (auto simp: formatZone_def Let_def)
  let ?secs = "t div second + off"
  obtain y m d where c: "civil (?secs div 86400) = (y, m, d)" by (metis prod_cases3)
  let ?sod = "?secs mod 86400"
  have "s = pad 4 y @ CHR ''-'' # pad 2 m @ CHR ''-'' # pad 2 d @ CHR ''T''
           # pad 2 (?sod div 3600) @ CHR '':'' # pad 2 (?sod div 60 mod 60) @ CHR '':'' # pad 2 (?sod mod 60)
           @ formatNano (t mod second) @ formatZone off"
    using s unfolding formatTime_def Let_def c prod.case by (simp only: option.inject option.distinct simp_thms split: if_split_asm)
  then show ?thesis
    by (simp only:, intro litOk_plain) (simp only: set_append list.set ball_Un ball_simps, simp, intro conjI p f z)
qed

lemma encodeAll_all: "encodeAll e vs = Some js \<Longrightarrow> \<forall>v \<in> set vs. \<forall>j. e v = Some j \<longrightarrow> Q j \<Longrightarrow> \<forall>j \<in> set js. Q j"
  by (induction vs arbitrary: js) (auto split: option.splits)

lemma encodeFields_all:
  "encodeFields (map (\<lambda>f. (fst f, fst (snd f), encode (snd (snd f)))) fs) vs = Some ms \<Longrightarrow>
   \<forall>f \<in> set fs. \<forall>v j. encode (snd (snd f)) v = Some j \<longrightarrow> Q j \<Longrightarrow> \<forall>m \<in> set ms. (\<exists>n. fst m = quoteBody n) \<and> Q (snd m)"
proof (induction fs arbitrary: vs ms)
  case (Cons f fs)
  show ?case
  proof (cases vs)
    case Nil
    with Cons.prems(1) show ?thesis by (cases f) simp
  next
    case (Cons v ws)
    note vs = this
    let ?e = "encodeFields (map (\<lambda>f. (fst f, fst (snd f), encode (snd (snd f)))) fs) ws"
    from Cons.prems(1) vs consider "?e = Some ms"
      | j ms' where "encode (snd (snd f)) v = Some j" "?e = Some ms'" "ms = (quoteBody (fst f), j) # ms'"
      by (cases f) (auto split: if_splits option.splits)
    then show ?thesis
    proof cases
      case 1
      with Cons.IH Cons.prems(2) show ?thesis by simp
    next
      case 2
      have "Q j" using Cons.prems(2) 2(1) by simp
      moreover have "\<forall>m \<in> set ms'. (\<exists>n. fst m = quoteBody n) \<and> Q (snd m)" using Cons.IH [OF 2(2)] Cons.prems(2) by simp
      ultimately show ?thesis using 2(3) by auto
    qed
  qed
qed simp

lemma wfSyn_encode: "encode t v = Some j \<Longrightarrow> wfSyn j"
proof (induction t arbitrary: v j rule: gotype_rule)
  case (Slice t)
  then show ?case by (cases v) (auto dest!: encodeAll_all [where Q = wfSyn])
next
  case (Struct fs)
  then show ?case
  proof (cases v)
    case (VStruct vs)
    with Struct.prems obtain ms where ms: "encodeFields (map (\<lambda>f. (fst f, fst (snd f), encode (snd (snd f)))) fs) vs = Some ms" "j = SObj ms" by auto
    have "\<forall>m \<in> set ms. (\<exists>n. fst m = quoteBody n) \<and> wfSyn (snd m)" using Struct.IH by (intro encodeFields_all [OF ms(1)]) blast
    then show ?thesis using ms(2) litOk_quoteBody by fastforce
  qed (auto simp: encode.simps(4))
qed (auto simp: litOk_quoteBody litOk_time split: gval.splits)

lemma nests_encode: "typeFits t n \<Longrightarrow> encode t v = Some j \<Longrightarrow> nests n j"
proof (induction t arbitrary: v j n rule: gotype_rule)
  case (Slice t)
  then show ?case by (cases v) (auto dest!: encodeAll_all [where Q = "nests (n - 1)"])
next
  case (Struct fs)
  then show ?case
  proof (cases v)
    case (VStruct vs)
    with Struct.prems obtain ms where ms: "encodeFields (map (\<lambda>f. (fst f, fst (snd f), encode (snd (snd f)))) fs) vs = Some ms" "j = SObj ms" by auto
    have "\<forall>m \<in> set ms. (\<exists>n. fst m = quoteBody n) \<and> nests (n - 1) (snd m)"
      using Struct.IH Struct.prems(1) by (intro encodeFields_all [OF ms(1)]) (auto simp: list_all_iff)
    then show ?thesis using ms(2) Struct.prems(1) by auto
  qed (auto simp: encode.simps(4))
qed (auto split: gval.splits)

theorem MarshalIndent_Unmarshal:
  assumes "plainType t" "typeFits t maxNestingDepth" "hasType P t v" "MarshalIndent t v = Some data" "blank w"
  shows "Unmarshal t (data @ w) = Some (normalVal t v)"
proof -
  obtain j where j: "encode t v = Some j" "data = indentJSON j" using assms(4) by (auto simp: MarshalIndent_def)
  then have "parseJSON (data @ w) = Some j"
    using parse_indentJSON [OF wfSyn_encode nests_encode [OF assms(2)] assms(5)] by simp
  then show ?thesis using decode_encode [OF assms(1,3) j(1)] by (simp add: Unmarshal_def)
qed

section \<open>Values without times\<close>

text \<open>Without times every value is encoded.\<close>

primrec timeless :: "gotype \<Rightarrow> bool" where
  "timeless KString \<longleftrightarrow> True"
| "timeless KTime \<longleftrightarrow> False"
| "timeless (KSlice t) \<longleftrightarrow> timeless t"
| "timeless (KStruct fs) \<longleftrightarrow> list_all (snd \<circ> snd) (map (map_prod id (map_prod id timeless)) fs)"
| "timeless (KPtr t) \<longleftrightarrow> timeless t"

lemma timeless_struct [simp]: "timeless (KStruct fs) \<longleftrightarrow> (\<forall>f \<in> set fs. timeless (snd (snd f)))"
  by (auto simp: list_all_iff)

lemmas [simp del] = timeless.simps(4)

lemma encodeAll_total: "\<forall>v \<in> set vs. e v \<noteq> None \<Longrightarrow> encodeAll e vs \<noteq> None"
  by (induction vs) (auto split: option.splits)

lemma encodeFields_total:
  "list_all2 (\<lambda>f v. encode (snd (snd f)) v \<noteq> None) fs vs \<Longrightarrow>
   encodeFields (map (\<lambda>f. (fst f, fst (snd f), encode (snd (snd f)))) fs) vs \<noteq> None"
  by (induction fs vs rule: list_all2_induct) (auto split: option.splits)

lemma encode_total: "timeless t \<Longrightarrow> hasType P t v \<Longrightarrow> encode t v \<noteq> None"
proof (induction t arbitrary: v rule: gotype_rule)
  case (Slice t)
  have "encodeAll (encode t) vs \<noteq> None" if "list_all (hasType P t) (vs @ hs)" for vs hs
    using Slice.IH Slice.prems(1) that by (intro encodeAll_total) (auto simp: list_all_iff)
  with Slice.prems(2) show ?case by (cases v) auto
next
  case (Struct fs)
  from Struct.prems(2) obtain vs where vs: "v = VStruct vs" "list_all2 (\<lambda>f v. hasType P (snd (snd f)) v) fs vs" by (rule hasType_structE)
  from vs(2) have "list_all2 (\<lambda>f v. encode (snd (snd f)) v \<noteq> None) fs vs"
    by (rule list.rel_mono_strong) (use Struct in auto)
  from encodeFields_total [OF this] vs(1) show ?case by simp
qed (auto split: gval.splits)

end
