(* ===== verification/KeyringFormat.thy ===== *)
theory KeyringFormat
  imports GoJson
begin

text \<open>
  The bytes of the keyring document (\<^verbatim>\<open>keyring.json\<close> in the key directory, \<^verbatim>\<open>internal/idp/key.go\<close>): its entries with their
  struct tags, and the conversions of \<^verbatim>\<open>readKeyRing\<close> and \<^verbatim>\<open>saveKeyRing\<close>. The instants of an entry are written in the zones of their
  \<^verbatim>\<open>time.Time\<close> values, which the records leave out: \<open>zone\<close> gives the two offsets of the entry at a position. An instant is read back
  exactly from any zone.
\<close>

record keyringEntry =
  ke_CreatedAt :: time
  ke_RetireAt :: time
  ke_KID :: string
  ke_File :: string
  ke_State :: string

section \<open>The document\<close>

definition entryT :: gotype where
  "entryT = KStruct [(''created_at'', False, KTime), (''retire_at'', False, KTime), (''kid'', False, KString), (''file'', False, KString),
     (''state'', False, KString)]"

definition ringT :: gotype where
  "ringT = KStruct [(''keys'', False, KSlice entryT)]"

definition entryVal :: "int \<times> int \<Rightarrow> keyringEntry \<Rightarrow> gval" where
  "entryVal z e = VStruct [VTime (ke_CreatedAt e) (fst z), VTime (ke_RetireAt e) (snd z), VString (ke_KID e), VString (ke_File e),
     VString (ke_State e)]"

fun instantOf :: "gval \<Rightarrow> time" where
  "instantOf (VTime t _) = t"
| "instantOf _ = 0"

fun partsOf :: "gval \<Rightarrow> gval list" where
  "partsOf (VStruct vs) = vs"
| "partsOf (VSlice vs _) = vs"
| "partsOf _ = []"

fun textOf :: "gval \<Rightarrow> string" where
  "textOf (VString s) = s"
| "textOf _ = []"

definition entryOf :: "gval \<Rightarrow> keyringEntry" where
  "entryOf v = (let f = (!) (partsOf v) in
     \<lparr>ke_CreatedAt = instantOf (f 0), ke_RetireAt = instantOf (f 1), ke_KID = textOf (f 2), ke_File = textOf (f 3), ke_State = textOf (f 4)\<rparr>)"

definition ringUnmarshal :: "string \<Rightarrow> keyringEntry list option" where
  "ringUnmarshal raw = map_option (\<lambda>v. map entryOf (partsOf (partsOf v ! 0))) (Unmarshal ringT raw)"

text \<open>An empty list of keys is \<^verbatim>\<open>nil\<close> or not; after a rotation it has at least one entry.\<close>

definition ringMarshal :: "(nat \<Rightarrow> int \<times> int) \<Rightarrow> keyringEntry list \<Rightarrow> string option" where
  "ringMarshal zone ring = MarshalIndent ringT (VStruct [VSlice (map (\<lambda>(i, e). entryVal (zone i) e) (enumerate 0 ring)) []])"

section \<open>Entries are read back\<close>

definition utf8Entry :: "keyringEntry \<Rightarrow> bool" where
  "utf8Entry e \<longleftrightarrow> validUTF8 (ke_KID e) \<and> validUTF8 (ke_File e) \<and> validUTF8 (ke_State e)"

definition minuteZones :: "(nat \<Rightarrow> int \<times> int) \<Rightarrow> bool" where
  "minuteZones zone \<longleftrightarrow> (\<forall>i. fst (zone i) mod 60 = 0 \<and> snd (zone i) mod 60 = 0)"

lemma typed_entry: "minuteZones zone \<Longrightarrow> hasType (\<lambda>_. True) entryT (entryVal (zone i) e)"
  by (simp add: entryT_def entryVal_def minuteZones_def)

lemma normal_entry: "utf8Entry e \<Longrightarrow> entryOf (normalVal entryT (entryVal z e)) = e"
  by (simp add: entryT_def entryVal_def entryOf_def utf8Entry_def coerce_valid [THEN iffD2])

theorem ring_reads_back:
  assumes "ringMarshal zone ring = Some s" "minuteZones zone" "list_all utf8Entry ring" "blank w"
  shows "ringUnmarshal (s @ w) = Some ring"
proof -
  let ?es = "map (\<lambda>(i, e). entryVal (zone i) e) (enumerate 0 ring)"
  have "hasType (\<lambda>_. True) ringT (VStruct [VSlice ?es []])"
    using typed_entry [OF assms(2)] by (auto simp: ringT_def list_all_iff)
  moreover have "plainType ringT" "typeFits ringT maxNestingDepth"
    by (simp_all add: ringT_def entryT_def validUTF8_ascii maxNestingDepth_def)
  ultimately have "Unmarshal ringT (s @ w) = Some (normalVal ringT (VStruct [VSlice ?es []]))"
    using MarshalIndent_Unmarshal [OF _ _ _ _ assms(4)] assms(1) by (simp add: ringMarshal_def)
  moreover have "map (entryOf \<circ> normalVal entryT) (map (\<lambda>(i, e). entryVal (zone i) e) (enumerate n ring)) = ring" for n
    using assms(3) by (induction ring arbitrary: n) (auto simp: normal_entry)
  ultimately show ?thesis by (simp add: ringUnmarshal_def ringT_def comp_def)
qed

lemma entry_utf8: "hasType validUTF8 entryT v \<Longrightarrow> utf8Entry (entryOf v)"
proof -
  have str: "hasType validUTF8 KString w \<Longrightarrow> validUTF8 (textOf w)" for w by (cases w) auto
  assume "hasType validUTF8 entryT v"
  then show ?thesis
    unfolding entryT_def by (elim hasType_structE) (auto simp: list_all2_Cons1 utf8Entry_def entryOf_def str simp del: hasType.simps(1))
qed

theorem ring_utf8: "ringUnmarshal raw = Some ring \<Longrightarrow> list_all utf8Entry ring"
proof -
  assume "ringUnmarshal raw = Some ring"
  then obtain v where v: "Unmarshal ringT raw = Some v" "ring = map entryOf (partsOf (partsOf v ! 0))" by (auto simp: ringUnmarshal_def)
  from Unmarshal_typed [OF v(1)] obtain w where w: "v = VStruct [w]" "hasType validUTF8 (KSlice entryT) w"
    unfolding ringT_def by (elim hasType_structE) (auto simp: list_all2_Cons1 simp del: hasType.simps)
  from w(2) have "list_all (hasType validUTF8 entryT) (partsOf w)" by (cases w) auto
  with v(2) w(1) entry_utf8 show ?thesis by (auto simp: list_all_iff)
qed

end
