(* ===== verification/Keys.thy ===== *)
theory Keys
  imports Files KeyringFormat
begin

text \<open>
  Signing keys (\<^verbatim>\<open>internal/idp/key.go\<close>): the key directory with its keyring document, staged rotation, the key set of a
  running server and the choice of the verification key.

  An RSA key is its modulus, public exponent and private exponent. PEM and PKCS parsing and key generation come from
  libraries: they are the record \<open>key_codec\<close> and the arguments \<open>gen\<close>. The bytes of the keyring document are those of
  KeyringFormat; \<open>localZone\<close> gives the offsets of the zones in which its instants are written (\<^verbatim>\<open>time.Now\<close> is in the local zone).
  The \<^verbatim>\<open>File\<close> of a keyring entry is the name of a file in the key directory.
\<close>

section \<open>JSON values\<close>

text \<open>Decoded JSON, as \<^verbatim>\<open>map[string]any\<close> holds it; the numbers that occur are whole.\<close>

datatype json = JNull | JBool bool | JNum int | JStr string | JArr "json list" | JObj "(string \<times> json) list"

type_synonym jsonMap = "(string \<times> json) list"

definition claimString :: "jsonMap \<Rightarrow> string \<Rightarrow> string" where
  "claimString m key =
     (case map_of m key of
        None \<Rightarrow> []
      | Some v \<Rightarrow> (case v of JStr s \<Rightarrow> s | _ \<Rightarrow> []))"

section \<open>Keys and the keyring\<close>

abbreviation keyFileName :: string where "keyFileName \<equiv> ''minidp-rsa.pem''"
abbreviation keyRingFileName :: string where "keyRingFileName \<equiv> ''keyring.json''"
abbreviation legacyKid :: string where "legacyKid \<equiv> ''minidp-1''"
abbreviation keyStateActive :: string where "keyStateActive \<equiv> ''active''"
abbreviation keyStateRetiring :: string where "keyStateRetiring \<equiv> ''retiring''"
abbreviation typIDToken :: string where "typIDToken \<equiv> ''JWT''"
abbreviation typAccessToken :: string where "typAccessToken \<equiv> ''at+jwt''"

record publicKey =
  pk_N :: nat
  pk_E :: nat

record rsaKey =
  rk_N :: nat
  rk_E :: nat
  rk_D :: nat

definition PublicKey :: "rsaKey \<Rightarrow> publicKey" where
  "PublicKey k = \<lparr>pk_N = rk_N k, pk_E = rk_E k\<rparr>"

record signingKey =
  sk_key :: rsaKey
  sk_kid :: string
  sk_version :: string

record keySet =
  ks_active :: "signingKey option"
  ks_published :: "signingKey list"

record key_codec =
  pemDecode :: "string \<Rightarrow> string option"
  ParsePKCS1PrivateKey :: "string \<Rightarrow> rsaKey option"
  ParsePKCS8PrivateKey :: "string \<Rightarrow> rsaKey option option"
  encodePEM :: "rsaKey \<Rightarrow> string"
  localZone :: "nat \<Rightarrow> int \<times> int"

text \<open>\<^verbatim>\<open>big.Int.Bytes\<close>: big-endian without leading zeros.\<close>

fun bigBytes :: "nat \<Rightarrow> string" where
  "bigBytes n = (if n = 0 then [] else bigBytes (n div 256) @ [char_of (n mod 256)])"

declare bigBytes.simps [simp del]

definition jwkThumbprint :: "publicKey \<Rightarrow> string" where
  "jwkThumbprint pub =
     (let e = EncodeToString (bigBytes (pk_E pub));
          n = EncodeToString (bigBytes (pk_N pub));
          canonical = ''{\"e\":\"'' @ e @ ''\",\"kty\":\"RSA\",\"n\":\"'' @ n @ ''\"}''
      in EncodeToString (Sum256 canonical))"

definition pkceS256 :: "string \<Rightarrow> string" where
  "pkceS256 verifier = EncodeToString (Sum256 verifier)"

section \<open>Reading the key directory\<close>

definition loadSigningKey :: "key_codec \<Rightarrow> dir \<Rightarrow> string \<Rightarrow> idp_error + signingKey" where
  "loadSigningKey kc d name =
     (case d name of
        None \<Rightarrow> Inl (errUpstream ''open'')
      | Some Unreadable \<Rightarrow> Inl (errUpstream ''read'')
      | Some (Contents raw) \<Rightarrow>
          (case pemDecode kc raw of
             None \<Rightarrow> Inl errNoPEMBlock
           | Some block \<Rightarrow>
               (case (case ParsePKCS1PrivateKey kc block of
                        Some key \<Rightarrow> Inr key
                      | None \<Rightarrow> (case ParsePKCS8PrivateKey kc block of
                                   None \<Rightarrow> Inl (errUpstream ''crypto/x509'')
                                 | Some None \<Rightarrow> Inl errNotAnRSAKey
                                 | Some (Some rk) \<Rightarrow> Inr rk)) of
                  Inl e \<Rightarrow> Inl e
                | Inr key \<Rightarrow> Inr \<lparr>sk_key = key, sk_kid = legacyKid, sk_version = ''1.0''\<rparr>)))"

text \<open>\<^term>\<open>None\<close> is the missing document (\<^verbatim>\<open>os.ErrNotExist\<close>).\<close>

definition readKeyRing :: "key_codec \<Rightarrow> dir \<Rightarrow> string \<Rightarrow> (idp_error + keyringEntry list) option" where
  "readKeyRing kc d name =
     (case d name of
        None \<Rightarrow> None
      | Some Unreadable \<Rightarrow> Some (Inl (errUpstream ''read''))
      | Some (Contents raw) \<Rightarrow>
          (case ringUnmarshal raw of
             None \<Rightarrow> Some (Inl (errUpstream ''encoding/json''))
           | Some ring \<Rightarrow> Some (Inr ring)))"

text \<open>
  The loop of \<^verbatim>\<open>pruneRetiredKeys\<close>: the entries kept so far, the kids seen, and the directory from which the files of expired
  retiring keys are removed. \<open>rmFails\<close> says which existing files cannot be removed.
\<close>

fun pruneLoop :: "time \<Rightarrow> (string \<Rightarrow> bool) \<Rightarrow> string list \<Rightarrow> keyringEntry list \<Rightarrow> keyringEntry list \<Rightarrow> dir \<Rightarrow>
    (idp_error + keyringEntry list) \<times> dir" where
  "pruneLoop now rmFails seen kept [] d = (Inr kept, d)"
| "pruneLoop now rmFails seen kept (entry # entries) d =
     (if ke_KID entry = [] \<or> ke_File entry = [] then (Inl errKeyringEntryIncomplete, d)
      else if ke_State entry \<noteq> keyStateActive \<and> ke_State entry \<noteq> keyStateRetiring then (Inl errKeyringStateInvalid, d)
      else if ke_KID entry \<in> set seen then (Inl errKeyringDuplicateKid, d)
      else if ke_State entry = keyStateRetiring \<and> ke_RetireAt entry \<noteq> 0 \<and> ke_RetireAt entry < now then
        (if d (ke_File entry) \<noteq> None \<and> rmFails (ke_File entry) then (Inl (errUpstream ''remove''), d)
         else pruneLoop now rmFails (ke_KID entry # seen) kept entries (d(ke_File entry := None)))
      else pruneLoop now rmFails (ke_KID entry # seen) (kept @ [entry]) entries d)"

definition pruneRetiredKeys :: "time \<Rightarrow> (string \<Rightarrow> bool) \<Rightarrow> keyringEntry list \<Rightarrow> dir \<Rightarrow>
    (idp_error + keyringEntry list) \<times> dir" where
  "pruneRetiredKeys now rmFails ring d =
     (case pruneLoop now rmFails [] [] ring d of
        (Inl e, d') \<Rightarrow> (Inl e, d')
      | (Inr kept, d') \<Rightarrow> if length kept = 0 then (Inl errKeyringContainsNoKeys, d') else (Inr kept, d'))"

fun publishLoop :: "key_codec \<Rightarrow> dir \<Rightarrow> keySet \<Rightarrow> keyringEntry list \<Rightarrow> idp_error + keySet" where
  "publishLoop kc d ks [] = Inr ks"
| "publishLoop kc d ks (entry # entries) =
     (case loadSigningKey kc d (ke_File entry) of
        Inl e \<Rightarrow> if ke_State entry = keyStateRetiring then publishLoop kc d ks entries else Inl e
      | Inr k0 \<Rightarrow>
          if ke_KID entry \<noteq> legacyKid \<and> jwkThumbprint (PublicKey (sk_key k0)) \<noteq> ke_KID entry
          then Inl errKeyringThumbprintMismatch
          else
            let k = k0\<lparr>sk_kid := ke_KID entry\<rparr>
            in if ke_State entry = keyStateActive then
                 (if ks_active ks \<noteq> None then Inl errKeyringMultipleActive
                  else publishLoop kc d (ks\<lparr>ks_active := Some k, ks_published := ks_published ks @ [k]\<rparr>) entries)
               else publishLoop kc d (ks\<lparr>ks_published := ks_published ks @ [k]\<rparr>) entries)"

definition loadPublishedKeys :: "key_codec \<Rightarrow> dir \<Rightarrow> keyringEntry list \<Rightarrow> idp_error + keySet" where
  "loadPublishedKeys kc d kept = publishLoop kc d \<lparr>ks_active = None, ks_published = []\<rparr> kept"

definition keySetOf :: "signingKey \<Rightarrow> keySet" where
  "keySetOf k = \<lparr>ks_active = Some k, ks_published = [k]\<rparr>"

section \<open>The single-key layout\<close>

text \<open>\<^verbatim>\<open>generateAndPersistKey\<close> with the temporary file already open; \<open>gen\<close> is the generated key, if generation succeeds.\<close>

definition generateAndPersistKey :: "key_codec \<Rightarrow> faults \<Rightarrow> rsaKey option \<Rightarrow> string \<Rightarrow> string \<Rightarrow> dir \<Rightarrow> (idp_error + rsaKey) \<times> dir" where
  "generateAndPersistKey kc io gen tmpName name d =
     (case gen of
        None \<Rightarrow> (Inl (errUpstream ''crypto/rsa''), removeTempFile io tmpName d)
      | Some key \<Rightarrow>
          (case writeAndRename io tmpName name (encodePEM kc key) d of
             (Some e, steps) \<Rightarrow> (Inl e, last steps)
           | (None, steps) \<Rightarrow> (Inr key, last steps)))"

text \<open>
  The rounds of \<^verbatim>\<open>persistentSigningKey\<close>. Another instance may hold the temporary file; \<open>waits\<close> are the outcomes of
  the successive waits for the final file (the directory in which it has appeared, or a time-out), and the result is
  \<^term>\<open>None\<close> while a wait has no outcome yet.
\<close>

fun persistentLoop :: "key_codec \<Rightarrow> faults \<Rightarrow> rsaKey option \<Rightarrow> nat \<Rightarrow> dir option list \<Rightarrow> dir \<Rightarrow>
    ((idp_error + signingKey) \<times> dir) option" where
  "persistentLoop kc io gen attempt waits d =
     (let tmpName = keyFileName @ ''.tmp''
      in if d keyFileName \<noteq> None then Some (loadSigningKey kc d keyFileName, d)
         else if d tmpName \<noteq> None then
           (case waits of
              [] \<Rightarrow> None
            | w # ws \<Rightarrow>
                (case w of
                   Some d' \<Rightarrow> persistentLoop kc io gen (attempt + 1) ws d'
                 | None \<Rightarrow>
                     if attempt > 0 then Some (Inl errAwaitTimedOut, d)
                     else persistentLoop kc io gen (attempt + 1) ws (removeTempFile io tmpName d)))
         else if openFails io then Some (Inl (errUpstream ''open''), d)
         else
           (case generateAndPersistKey kc io gen tmpName keyFileName (d(tmpName \<mapsto> Contents [])) of
              (Inl e, d') \<Rightarrow> Some (Inl e, d')
            | (Inr key, d') \<Rightarrow> Some (Inr \<lparr>sk_key = key, sk_kid = legacyKid, sk_version = ''1.0''\<rparr>, d')))"

declare persistentLoop.simps [simp del]

definition persistentSigningKey :: "key_codec \<Rightarrow> faults \<Rightarrow> rsaKey option \<Rightarrow> dir option list \<Rightarrow> dir \<Rightarrow>
    ((idp_error + signingKey) \<times> dir) option" where
  "persistentSigningKey kc io gen waits d = persistentLoop kc io gen 0 waits d"

definition keySetFromDir :: "key_codec \<Rightarrow> faults \<Rightarrow> (string \<Rightarrow> bool) \<Rightarrow> rsaKey option \<Rightarrow> dir option list \<Rightarrow> time \<Rightarrow> dir \<Rightarrow>
    ((idp_error + keySet) \<times> dir) option" where
  "keySetFromDir kc io rmFails gen waits now d =
     (case readKeyRing kc d keyRingFileName of
        None \<Rightarrow>
          (case persistentSigningKey kc io gen waits d of
             None \<Rightarrow> None
           | Some (Inl e, d') \<Rightarrow> Some (Inl e, d')
           | Some (Inr k, d') \<Rightarrow> Some (Inr (keySetOf k), d'))
      | Some (Inl e) \<Rightarrow> Some (Inl e, d)
      | Some (Inr ring) \<Rightarrow>
          (case pruneRetiredKeys now rmFails ring d of
             (Inl e, d') \<Rightarrow> Some (Inl e, d')
           | (Inr kept, d') \<Rightarrow>
               (case loadPublishedKeys kc d' kept of
                  Inl e \<Rightarrow> Some (Inl e, d')
                | Inr ks \<Rightarrow> if ks_active ks = None then Some (Inl errKeyringNoActiveKey, d') else Some (Inr ks, d'))))"

section \<open>Rotation\<close>

definition loadOrCreateRing :: "key_codec \<Rightarrow> time \<Rightarrow> dir \<Rightarrow> idp_error + keyringEntry list" where
  "loadOrCreateRing kc now d =
     (case readKeyRing kc d keyRingFileName of
        Some (Inr ring) \<Rightarrow> Inr ring
      | None \<Rightarrow>
          if d keyFileName \<noteq> None
          then Inr [\<lparr>ke_CreatedAt = now, ke_RetireAt = 0, ke_KID = legacyKid, ke_File = keyFileName, ke_State = keyStateActive\<rparr>]
          else Inr []
      | Some (Inl e) \<Rightarrow> Inl e)"

fun retireRingKeys :: "time \<Rightarrow> keyringEntry list \<Rightarrow> idp_error + keyringEntry list" where
  "retireRingKeys retireAt [] = Inr []"
| "retireRingKeys retireAt (entry # entries) =
     (if ke_State entry = keyStateActive then
        (case retireRingKeys retireAt entries of
           Inl e \<Rightarrow> Inl e
         | Inr rest \<Rightarrow> Inr (entry\<lparr>ke_State := keyStateRetiring, ke_RetireAt := retireAt\<rparr> # rest))
      else if ke_State entry = keyStateRetiring then
        (case retireRingKeys retireAt entries of Inl e \<Rightarrow> Inl e | Inr rest \<Rightarrow> Inr (entry # rest))
      else Inl errKeyringStateInvalid)"

definition keyFileOf :: "string \<Rightarrow> string" where
  "keyFileOf kid = ''minidp-rsa-'' @ kid @ ''.pem''"

text \<open>
  \<open>now0\<close> is the reading for the adopted legacy entry, \<open>now\<close> the one for the rotation; \<open>io1\<close> and \<open>io2\<close> are the faults of
  the two file writes; \<open>opened\<close> is the key directory if it can be opened.
\<close>

definition RotateKeys :: "key_codec \<Rightarrow> faults \<Rightarrow> faults \<Rightarrow> time \<Rightarrow> time \<Rightarrow> rsaKey option \<Rightarrow> string \<Rightarrow> duration \<Rightarrow> dir option \<Rightarrow>
    idp_error option \<times> dir option" where
  "RotateKeys kc io1 io2 now0 now gen keyDir retention opened =
     (if TrimSpace keyDir = [] then (Some errKeyDirRequired, opened)
      else case opened of
        None \<Rightarrow> (Some (errUpstream ''open''), None)
      | Some d \<Rightarrow>
          (case loadOrCreateRing kc now0 d of
             Inl e \<Rightarrow> (Some e, opened)
           | Inr ring0 \<Rightarrow>
               (case retireRingKeys (now + retention) ring0 of
                  Inl e \<Rightarrow> (Some e, opened)
                | Inr ring \<Rightarrow>
                    (case gen of
                       None \<Rightarrow> (Some (errUpstream ''crypto/rsa''), opened)
                     | Some key \<Rightarrow>
                         (let kid = jwkThumbprint (PublicKey key)
                          in if kid \<in> set (map ke_KID ring) then (Some errGeneratedKidExists, opened)
                             else (case persistKeyPEM io1 (keyFileOf kid) (encodePEM kc key) d of
                                     (Some e, steps) \<Rightarrow> (Some e, Some (last steps))
                                   | (None, steps) \<Rightarrow>
                                       (let ring' = ring @ [\<lparr>ke_CreatedAt = now, ke_RetireAt = 0, ke_KID = kid,
                                                             ke_File = keyFileOf kid, ke_State = keyStateActive\<rparr>]
                                        in case saveKeyRing io2 keyRingFileName (ringMarshal (localZone kc) ring') (last steps) of
                                             (e, steps2) \<Rightarrow> (e, Some (last steps2)))))))))"

section \<open>The key set of a running server\<close>

definition NewSigningKey :: "key_codec \<Rightarrow> faults \<Rightarrow> rsaKey option \<Rightarrow> dir option list \<Rightarrow> (dir \<times> string) option \<Rightarrow> dir option \<Rightarrow>
    ((idp_error + signingKey) \<times> dir option) option" where
  \<comment> \<open>\<open>pemPath\<close>: the directory and name of the configured PEM file; \<open>keyDir\<close>: the configured key directory\<close>
  "NewSigningKey kc io gen waits pemPath keyDir =
     (case pemPath of
        Some (d, name) \<Rightarrow> Some (loadSigningKey kc d name, keyDir)
      | None \<Rightarrow>
          (case keyDir of
             Some d \<Rightarrow> map_option (\<lambda>(res, d'). (res, Some d')) (persistentSigningKey kc io gen waits d)
           | None \<Rightarrow>
               (case gen of
                  None \<Rightarrow> Some (Inl (errUpstream ''crypto/rsa''), None)
                | Some key \<Rightarrow> Some (Inr \<lparr>sk_key = key, sk_kid = legacyKid, sk_version = ''1.0''\<rparr>, None))))"

definition NewSigningKeySet :: "key_codec \<Rightarrow> faults \<Rightarrow> (string \<Rightarrow> bool) \<Rightarrow> rsaKey option \<Rightarrow> dir option list \<Rightarrow> time \<Rightarrow>
    (dir \<times> string) option \<Rightarrow> dir option \<Rightarrow> ((idp_error + keySet) \<times> dir option) option" where
  "NewSigningKeySet kc io rmFails gen waits now pemPath keyDir =
     (case (pemPath, keyDir) of
        (None, Some d) \<Rightarrow> map_option (\<lambda>(res, d'). (res, Some d')) (keySetFromDir kc io rmFails gen waits now d)
      | _ \<Rightarrow>
          (case NewSigningKey kc io gen waits pemPath None of
             None \<Rightarrow> None
           | Some (Inl e, _) \<Rightarrow> Some (Inl e, keyDir)
           | Some (Inr k, _) \<Rightarrow> Some (Inr (keySetOf k), keyDir)))"

definition verifyKey :: "keySet \<Rightarrow> jsonMap \<Rightarrow> idp_error + publicKey" where
  "verifyKey ks header =
     (let kid = claimString header ''kid''
      in case find (\<lambda>k. sk_kid k = kid) (ks_published ks) of
           Some k \<Rightarrow> Inr (PublicKey (sk_key k))
         | None \<Rightarrow> Inl errUnknownKid)"

text \<open>\<^verbatim>\<open>token.SignedString\<close> of the JWT library is the parameter \<open>signer\<close>.\<close>

type_synonym jwt_signer = "rsaKey \<Rightarrow> jsonMap \<Rightarrow> jsonMap \<Rightarrow> string option"

definition signTyped :: "jwt_signer \<Rightarrow> signingKey \<Rightarrow> jsonMap \<Rightarrow> string \<Rightarrow> idp_error + string" where
  "signTyped signer k claims typ =
     (let header = AList.update ''typ'' (JStr typ) (AList.update ''kid'' (JStr (sk_kid k))
                     [(''typ'', JStr ''JWT''), (''alg'', JStr ''RS256'')])
      in case signer (sk_key k) header claims of
           None \<Rightarrow> Inl (errUpstream ''jwt'')
         | Some str \<Rightarrow> Inr str)"

definition signingKey_sign :: "jwt_signer \<Rightarrow> signingKey \<Rightarrow> jsonMap \<Rightarrow> idp_error + string" where
  [simp]: "signingKey_sign signer k claims = signTyped signer k claims typIDToken"

definition signingKey_signAccess :: "jwt_signer \<Rightarrow> signingKey \<Rightarrow> jsonMap \<Rightarrow> idp_error + string" where
  [simp]: "signingKey_signAccess signer k claims = signTyped signer k claims typAccessToken"

text \<open>The active key of a loaded key set is never missing; \<^term>\<open>Inl\<close> in that case stands for the nil dereference.\<close>

definition sign :: "jwt_signer \<Rightarrow> keySet \<Rightarrow> jsonMap \<Rightarrow> idp_error + string" where
  "sign signer ks claims =
     (case ks_active ks of None \<Rightarrow> Inl (errUpstream ''panic'') | Some k \<Rightarrow> signingKey_sign signer k claims)"

definition signAccess :: "jwt_signer \<Rightarrow> keySet \<Rightarrow> jsonMap \<Rightarrow> idp_error + string" where
  "signAccess signer ks claims =
     (case ks_active ks of None \<Rightarrow> Inl (errUpstream ''panic'') | Some k \<Rightarrow> signingKey_signAccess signer k claims)"

section \<open>What pruning and publishing compute\<close>

definition expired :: "time \<Rightarrow> keyringEntry \<Rightarrow> bool" where
  "expired now e \<longleftrightarrow> ke_State e = keyStateRetiring \<and> ke_RetireAt e \<noteq> 0 \<and> ke_RetireAt e < now"

definition entryValid :: "keyringEntry \<Rightarrow> bool" where
  "entryValid e \<longleftrightarrow> ke_KID e \<noteq> [] \<and> ke_File e \<noteq> [] \<and> ke_State e \<in> {keyStateActive, keyStateRetiring}"

lemma pruneLoop_step:
  assumes "entryValid e" "ke_KID e \<notin> set seen" "\<not> (expired now e \<and> d (ke_File e) \<noteq> None \<and> rmFails (ke_File e))"
  shows "pruneLoop now rmFails seen kept (e # entries) d =
    (if expired now e then pruneLoop now rmFails (ke_KID e # seen) kept entries (d(ke_File e := None))
     else pruneLoop now rmFails (ke_KID e # seen) (kept @ [e]) entries d)"
proof -
  have "ke_KID e \<noteq> []" "ke_File e \<noteq> []" "\<not> (ke_State e \<noteq> keyStateActive \<and> ke_State e \<noteq> keyStateRetiring)"
    using assms(1) by (auto simp: entryValid_def)
  with assms(2,3) show ?thesis
    by (simp only: pruneLoop.simps expired_def if_False if_True simp_thms de_Morgan_disj split: if_split) blast
qed

lemma pruneLoop_error:
  assumes "\<not> (entryValid e \<and> ke_KID e \<notin> set seen \<and> \<not> (expired now e \<and> d (ke_File e) \<noteq> None \<and> rmFails (ke_File e)))"
  shows "\<exists>err. pruneLoop now rmFails seen kept (e # entries) d = (Inl err, d)"
  using assms by (simp only: pruneLoop.simps expired_def entryValid_def split: if_split) blast

definition prunes :: "time \<Rightarrow> keyringEntry list \<Rightarrow> dir \<Rightarrow> dir \<Rightarrow> bool" where
  "prunes now entries d d' \<longleftrightarrow> (\<forall>f. f \<notin> ke_File ` set (filter (expired now) entries) \<longrightarrow> d' f = d f)"

lemma pruneLoop_Inr:
  assumes "pruneLoop now rmFails seen kept entries d = (Inr kept', d')"
  shows "kept' = kept @ filter (\<lambda>e. \<not> expired now e) entries \<and> (\<forall>e \<in> set entries. entryValid e)
    \<and> distinct (map ke_KID entries) \<and> set seen \<inter> ke_KID ` set entries = {} \<and> prunes now entries d d'"
  using assms
proof (induction entries arbitrary: seen kept d)
  case Nil
  then show ?case by (simp add: prunes_def)
next
  case (Cons e entries)
  have ok: "entryValid e" "ke_KID e \<notin> set seen" "\<not> (expired now e \<and> d (ke_File e) \<noteq> None \<and> rmFails (ke_File e))"
    using Cons.prems pruneLoop_error [of e seen now d rmFails kept entries] by auto
  note step = Cons.prems [unfolded pruneLoop_step [of e seen now d rmFails, OF ok]]
  show ?case
  proof (cases "expired now e")
    case True
    with step have "pruneLoop now rmFails (ke_KID e # seen) kept entries (d(ke_File e := None)) = (Inr kept', d')" by simp
    from Cons.IH [OF this] ok True show ?thesis by (auto simp: prunes_def)
  next
    case False
    with step have "pruneLoop now rmFails (ke_KID e # seen) (kept @ [e]) entries d = (Inr kept', d')" by simp
    from Cons.IH [OF this] ok False show ?thesis by (auto simp: prunes_def)
  qed
qed

lemma pruneLoop_succeeds:
  assumes "\<forall>e \<in> set entries. entryValid e" "distinct (map ke_KID entries)" "set seen \<inter> ke_KID ` set entries = {}"
  shows "\<exists>kept' d'. pruneLoop now (\<lambda>_. False) seen kept entries d = (Inr kept', d')"
  using assms
proof (induction entries arbitrary: seen kept d)
  case (Cons e entries)
  have "set (ke_KID e # seen) \<inter> ke_KID ` set entries = {}"
    using Cons.prems by auto
  then have "\<exists>kept' d'. pruneLoop now (\<lambda>_. False) (ke_KID e # seen) kept0 entries d0 = (Inr kept', d')" for kept0 d0
    using Cons.prems by (intro Cons.IH) auto
  moreover have "entryValid e" "ke_KID e \<notin> set seen" using Cons.prems by auto
  ultimately show ?case by (simp add: pruneLoop_step del: pruneLoop.simps)
qed simp

text \<open>The key an entry contributes, if its file can be loaded.\<close>

definition entryKey :: "key_codec \<Rightarrow> dir \<Rightarrow> keyringEntry \<Rightarrow> signingKey option" where
  "entryKey kc d e =
     (case loadSigningKey kc d (ke_File e) of Inl _ \<Rightarrow> None | Inr k \<Rightarrow> Some (k\<lparr>sk_kid := ke_KID e\<rparr>))"

definition entryLoads :: "key_codec \<Rightarrow> dir \<Rightarrow> keyringEntry \<Rightarrow> bool" where
  "entryLoads kc d e \<longleftrightarrow>
     (case loadSigningKey kc d (ke_File e) of
        Inl _ \<Rightarrow> ke_State e = keyStateRetiring
      | Inr k \<Rightarrow> ke_KID e = legacyKid \<or> jwkThumbprint (PublicKey (sk_key k)) = ke_KID e)"

abbreviation keysOf :: "key_codec \<Rightarrow> dir \<Rightarrow> keyringEntry list \<Rightarrow> signingKey list" where
  "keysOf kc d entries \<equiv> List.map_filter (entryKey kc d) entries"

abbreviation actives :: "keyringEntry list \<Rightarrow> keyringEntry list" where
  "actives entries \<equiv> filter (\<lambda>e. ke_State e = keyStateActive) entries"

lemma publishLoop_Inr:
  "publishLoop kc d ks entries = Inr ks' \<longleftrightarrow>
     (\<forall>e \<in> set entries. entryLoads kc d e)
     \<and> length (actives entries) + (if ks_active ks = None then 0 else 1) \<le> 1
     \<and> ks_published ks' = ks_published ks @ keysOf kc d entries
     \<and> ks_active ks' = (case keysOf kc d (actives entries) of [] \<Rightarrow> ks_active ks | k # _ \<Rightarrow> Some k)"
proof (induction entries arbitrary: ks)
  case Nil
  then show ?case by (cases ks; cases ks') (auto simp: List.map_filter_def)
next
  case (Cons e entries)
  show ?case
  proof (cases "loadSigningKey kc d (ke_File e)")
    case (Inl err)
    then show ?thesis
      using Cons.IH [of ks] by (auto simp: entryLoads_def entryKey_def map_filter_simps)
  next
    case (Inr k0)
    define good where "good \<longleftrightarrow> ke_KID e = legacyKid \<or> jwkThumbprint (PublicKey (sk_key k0)) = ke_KID e"
    have e: "entryLoads kc d e \<longleftrightarrow> good" "entryKey kc d e = Some (k0\<lparr>sk_kid := ke_KID e\<rparr>)"
      by (simp_all add: entryLoads_def entryKey_def Inr good_def)
    have step: "publishLoop kc d ks (e # entries) =
        (if \<not> good then Inl errKeyringThumbprintMismatch
         else let k = k0\<lparr>sk_kid := ke_KID e\<rparr>
              in if ke_State e = keyStateActive then
                   (if ks_active ks \<noteq> None then Inl errKeyringMultipleActive
                    else publishLoop kc d (ks\<lparr>ks_active := Some k, ks_published := ks_published ks @ [k]\<rparr>) entries)
                 else publishLoop kc d (ks\<lparr>ks_published := ks_published ks @ [k]\<rparr>) entries)"
      by (simp add: Inr good_def)
    show ?thesis
    proof (cases good)
      case True
      then show ?thesis
        unfolding step by (auto simp: Cons.IH e map_filter_simps Let_def cong: list.case_cong)
    next
      case False
      then show ?thesis
        unfolding step using e(1) by simp
    qed
  qed
qed

section \<open>The key set of a managed directory\<close>

text \<open>
  The ring document of a directory that only the program writes: every entry is valid, kids do not repeat, and the file of an
  entry is named after its kid.
\<close>

definition fileFor :: "string \<Rightarrow> string" where
  "fileFor kid = (if kid = legacyKid then keyFileName else keyFileOf kid)"

definition ringOk :: "keyringEntry list \<Rightarrow> bool" where
  "ringOk ring \<longleftrightarrow> (\<forall>e \<in> set ring. entryValid e \<and> ke_File e = fileFor (ke_KID e)) \<and> distinct (map ke_KID ring)"

lemma keyFileOf_inject [simp]: "keyFileOf a = keyFileOf b \<longleftrightarrow> a = b"
  by (simp add: keyFileOf_def)

lemma fileFor_inject: "fileFor a = fileFor b \<longleftrightarrow> a = b"
  by (auto simp: fileFor_def keyFileOf_def)

lemma keyFile_names:
  "fileFor kid \<noteq> keyRingFileName" "fileFor kid \<noteq> keyRingFileName @ ''.tmp''" "fileFor kid \<noteq> keyFileOf kid' @ ''.tmp''"
proof -
  have last: "last (fileFor kid) = CHR ''m''" by (simp add: fileFor_def keyFileOf_def)
  have "last (keyFileOf kid' @ ''.tmp'') = CHR ''p''"
    by simp
  with last show "fileFor kid \<noteq> keyFileOf kid' @ ''.tmp''" by auto
  show "fileFor kid \<noteq> keyRingFileName" "fileFor kid \<noteq> keyRingFileName @ ''.tmp''"
    by (auto simp: fileFor_def keyFileOf_def)
qed

text \<open>Loading depends on the entry's own file only.\<close>

lemma load_cong: "d (ke_File e) = d' (ke_File e) \<Longrightarrow> entryKey kc d e = entryKey kc d' e \<and> entryLoads kc d e = entryLoads kc d' e"
  by (simp add: entryKey_def entryLoads_def loadSigningKey_def)

text \<open>The server started from the ring \<open>ring\<close> in directory \<open>d\<close> at time \<open>now\<close> has the key set \<open>ks\<close>.\<close>

definition ringLoads :: "key_codec \<Rightarrow> time \<Rightarrow> dir \<Rightarrow> keyringEntry list \<Rightarrow> keySet \<Rightarrow> bool" where
  "ringLoads kc now d ring ks \<longleftrightarrow>
     (let live = filter (\<lambda>e. \<not> expired now e) ring
      in (\<forall>e \<in> set live. entryLoads kc d e) \<and> length (actives live) = 1
         \<and> ks_published ks = keysOf kc d live \<and> ks_active ks = Some (hd (keysOf kc d (actives live))))"

lemma actives_loaded:
  assumes "\<forall>e \<in> set entries. entryLoads kc d e" "e \<in> set (actives entries)"
  obtains k where "entryKey kc d e = Some k"
proof -
  have "entryLoads kc d e" "ke_State e \<noteq> keyStateRetiring" using assms by auto
  then show ?thesis
    by (cases "loadSigningKey kc d (ke_File e)") (auto simp: entryLoads_def entryKey_def intro: that)
qed

lemma loadPublishedKeys_active:
  assumes "\<forall>e \<in> set live. entryLoads kc d e" "length (actives live) = 1"
  obtains e k where "actives live = [e]" "entryKey kc d e = Some k" "keysOf kc d (actives live) = [k]"
proof -
  obtain e where e: "actives live = [e]" using assms(2) by (auto simp: length_Suc_conv)
  obtain k where "entryKey kc d e = Some k"
    using actives_loaded [OF assms(1), of e] e by auto
  with e show ?thesis by (intro that) (simp_all add: map_filter_simps)
qed

lemma loadPublishedKeys_Inr:
  "loadPublishedKeys kc d live = Inr ks \<and> ks_active ks \<noteq> None \<longleftrightarrow>
     (\<forall>e \<in> set live. entryLoads kc d e) \<and> length (actives live) = 1
     \<and> ks_published ks = keysOf kc d live \<and> ks_active ks = Some (hd (keysOf kc d (actives live)))" (is "?l \<longleftrightarrow> ?r")
proof
  assume l: ?l
  then have load: "\<forall>e \<in> set live. entryLoads kc d e" "length (actives live) \<le> 1" "ks_published ks = keysOf kc d live"
    "ks_active ks = (case keysOf kc d (actives live) of [] \<Rightarrow> None | k # _ \<Rightarrow> Some k)"
    by (simp_all add: loadPublishedKeys_def publishLoop_Inr cong: list.case_cong)
  with l have "keysOf kc d (actives live) \<noteq> []" by (auto split: list.splits)
  then have "actives live \<noteq> []" by (auto simp: map_filter_simps)
  with load(2) have "length (actives live) = 1" by (cases "actives live") auto
  with load \<open>keysOf kc d (actives live) \<noteq> []\<close> show ?r by (auto split: list.splits)
next
  assume r: ?r
  then obtain k where "keysOf kc d (actives live) = [k]"
    using loadPublishedKeys_active [of live kc d] by blast
  with r show ?l by (simp add: loadPublishedKeys_def publishLoop_Inr)
qed

lemma pruned_files:
  assumes "ringOk ring" "prunes now ring d d'" "e \<in> set (filter (\<lambda>e. \<not> expired now e) ring)"
  shows "d' (ke_File e) = d (ke_File e)"
proof -
  have "ke_File e \<noteq> ke_File e'" if "e' \<in> set (filter (expired now) ring)" for e'
    using that assms(1,3) unfolding ringOk_def
    by (auto simp: fileFor_inject dest: distinct_map [THEN iffD1] inj_onD)
  then show ?thesis using assms(2) by (auto simp: prunes_def)
qed

lemma keySetFromDir_ring:
  assumes "readKeyRing kc d keyRingFileName = Some (Inr ring)" "ringOk ring"
    and "keySetFromDir kc io rmFails gen waits now d = Some (Inr ks, d')"
  shows "ringLoads kc now d ring ks \<and> prunes now ring d d'"
proof -
  from assms(1,3) obtain kept where prune: "pruneRetiredKeys now rmFails ring d = (Inr kept, d')"
    and load: "loadPublishedKeys kc d' kept = Inr ks" "ks_active ks \<noteq> None"
    by (auto simp: keySetFromDir_def split: prod.splits sum.splits if_splits)
  from prune have kept: "kept = filter (\<lambda>e. \<not> expired now e) ring" and d': "prunes now ring d d'"
    using pruneLoop_Inr [of now rmFails "[]" "[]" ring d kept d']
    by (auto simp: pruneRetiredKeys_def split: prod.splits sum.splits if_splits)
  have same: "entryKey kc d' e = entryKey kc d e" "entryLoads kc d' e = entryLoads kc d e" if "e \<in> set kept" for e
    using that load_cong pruned_files [OF assms(2) d'] unfolding kept by blast+
  have keys: "keysOf kc d' es = keysOf kc d es" if "set es \<subseteq> set kept" for es
    using that same(1) by (intro map_filter_cong) auto
  have "keysOf kc d' kept = keysOf kc d kept" "keysOf kc d' (actives kept) = keysOf kc d (actives kept)"
    by (rule keys, auto)+
  then show ?thesis
    using load d' same(2) loadPublishedKeys_Inr [of kc d' kept ks]
    by (simp add: ringLoads_def Let_def kept [symmetric])
qed

lemma keySetFromDir_loads:
  assumes "readKeyRing kc d keyRingFileName = Some (Inr ring)" "ringOk ring" "ringLoads kc now d ring ks"
  shows "\<exists>d'. keySetFromDir kc io (\<lambda>_. False) gen waits now d = Some (Inr ks, d')"
proof -
  let ?live = "filter (\<lambda>e. \<not> expired now e) ring"
  obtain kept' d' where prune: "pruneLoop now (\<lambda>_. False) [] [] ring d = (Inr kept', d')"
    using pruneLoop_succeeds [of ring "[]" now "[]" d] assms(2) by (auto simp: ringOk_def)
  then have kept: "kept' = ?live" and d': "prunes now ring d d'"
    using pruneLoop_Inr [OF prune] by simp_all
  have same: "d' (ke_File e) = d (ke_File e)" if "e \<in> set ?live" for e
    using pruned_files [OF assms(2) d' that] .
  have "keysOf kc d' ?live = keysOf kc d ?live" "keysOf kc d' (actives ?live) = keysOf kc d (actives ?live)"
    using load_cong [of d' _ d, OF same] by (auto intro!: map_filter_cong)
  moreover have "\<forall>e \<in> set ?live. entryLoads kc d' e"
    using assms(3) load_cong [of d' _ d, OF same] by (auto simp: ringLoads_def Let_def)
  ultimately have "loadPublishedKeys kc d' ?live = Inr ks \<and> ks_active ks \<noteq> None"
    using assms(3) unfolding loadPublishedKeys_Inr ringLoads_def Let_def by metis
  moreover have "length (actives ?live) = 1"
    using assms(3) unfolding ringLoads_def Let_def by blast
  then have "?live \<noteq> []" by (metis filter.simps(1) length_0_conv zero_neq_one)
  ultimately show ?thesis
    using prune kept assms(1) by (simp add: keySetFromDir_def pruneRetiredKeys_def)
qed

section \<open>What a rotation does\<close>

definition retire :: "time \<Rightarrow> keyringEntry \<Rightarrow> keyringEntry" where
  "retire retireAt e =
     (if ke_State e = keyStateActive then e\<lparr>ke_State := keyStateRetiring, ke_RetireAt := retireAt\<rparr> else e)"

lemma retire_fields [simp]: "ke_KID (retire r e) = ke_KID e" "ke_File (retire r e) = ke_File e"
  by (simp_all add: retire_def)

lemma retireRingKeys_Inr:
  "retireRingKeys r ring = Inr ring' \<longleftrightarrow>
     (\<forall>e \<in> set ring. ke_State e \<in> {keyStateActive, keyStateRetiring}) \<and> ring' = map (retire r) ring"
proof (induction ring arbitrary: ring')
  case (Cons e ring)
  show ?case
  proof (cases "retireRingKeys r ring")
    case (Inl err)
    then have "\<not> (\<forall>e \<in> set ring. ke_State e \<in> {keyStateActive, keyStateRetiring})"
      using Cons.IH [of "map (retire r) ring"] by auto
    with Inl show ?thesis by auto
  next
    case (Inr rest)
    with Cons.IH [of rest] show ?thesis by (auto simp: retire_def)
  qed
qed auto

text \<open>The law of the PEM conversions: a key that was encoded is decoded back. The zones have offsets of whole minutes.\<close>

definition codecOk :: "key_codec \<Rightarrow> bool" where
  "codecOk kc \<longleftrightarrow>
     (\<forall>k. \<exists>block. pemDecode kc (encodePEM kc k) = Some block \<and> ParsePKCS1PrivateKey kc block = Some k)
     \<and> minuteZones (localZone kc)"

lemma load_encoded:
  assumes "codecOk kc" "d name = Some (Contents (encodePEM kc key))"
  shows "loadSigningKey kc d name = Inr \<lparr>sk_key = key, sk_kid = legacyKid, sk_version = ''1.0''\<rparr>"
proof -
  obtain block where "pemDecode kc (encodePEM kc key) = Some block" "ParsePKCS1PrivateKey kc block = Some key"
    using assms(1) unfolding codecOk_def by blast
  with assms(2) show ?thesis by (simp add: loadSigningKey_def)
qed

definition newEntry :: "time \<Rightarrow> rsaKey \<Rightarrow> keyringEntry" where
  "newEntry now key =
     (let kid = jwkThumbprint (PublicKey key)
      in \<lparr>ke_CreatedAt = now, ke_RetireAt = 0, ke_KID = kid, ke_File = keyFileOf kid, ke_State = keyStateActive\<rparr>)"

lemma jwkThumbprint_utf8: "validUTF8 (jwkThumbprint pub)"
proof -
  have "octet (b64Char n) < 0x80" if "n < 64" for n
    using that by (auto simp: b64Char_def)
  then show ?thesis
    unfolding jwkThumbprint_def Let_def by (intro validUTF8_ascii) (auto dest!: EncodeToString_chars)
qed

lemma newEntry_utf8: "utf8Entry (newEntry now key)"
  by (simp add: utf8Entry_def newEntry_def keyFileOf_def Let_def validUTF8_append validUTF8_Cons validUTF8_ascii jwkThumbprint_utf8)

lemma retire_utf8: "utf8Entry e \<Longrightarrow> utf8Entry (retire r e)"
  by (simp add: utf8Entry_def retire_def validUTF8_ascii)

lemma loaded_ring_utf8: "loadOrCreateRing kc now d = Inr ring \<Longrightarrow> list_all utf8Entry ring"
  by (auto simp: loadOrCreateRing_def readKeyRing_def utf8Entry_def validUTF8_ascii dest!: ring_utf8
      split: option.splits sum.splits node.splits if_splits)

lemma atomicWrite_done: "atomicWrite tmp name data d res \<Longrightarrow> fst res = None \<Longrightarrow> last (snd res) = d(name \<mapsto> Contents data, tmp := None)"
  by (simp add: atomicWrite_def)

lemma RotateKeys_done:
  assumes "codecOk kc" "RotateKeys kc io1 io2 now0 now (Some key) keyDir retention (Some d) = (None, Some d')"
    and "loadOrCreateRing kc now0 d = Inr ring0"
  defines "ring \<equiv> map (retire (now + retention)) ring0 @ [newEntry now key]"
    and "kid \<equiv> jwkThumbprint (PublicKey key)"
  shows "kid \<notin> ke_KID ` set ring0" "readKeyRing kc d' keyRingFileName = Some (Inr ring)"
    and "\<And>f. f \<notin> {keyFileOf kid, keyFileOf kid @ ''.tmp'', keyRingFileName, keyRingFileName @ ''.tmp''} \<Longrightarrow> d' f = d f"
    and "d' (keyFileOf kid) = Some (Contents (encodePEM kc key))"
proof -
  obtain ring1 where ring1: "retireRingKeys (now + retention) ring0 = Inr ring1"
    using assms(2,3) by (auto simp: RotateKeys_def split: if_splits sum.splits)
  then have ring: "ring = ring1 @ [newEntry now key]"
    by (simp add: retireRingKeys_Inr ring_def)
  have rot: "(if kid \<in> set (map ke_KID ring1) then (Some errGeneratedKidExists, Some d)
      else (case persistKeyPEM io1 (keyFileOf kid) (encodePEM kc key) d of
              (Some e, steps) \<Rightarrow> (Some e, Some (last steps))
            | (None, steps) \<Rightarrow>
                (case saveKeyRing io2 keyRingFileName (ringMarshal (localZone kc) ring) (last steps) of
                   (e, steps2) \<Rightarrow> (e, Some (last steps2))))) = (None, Some d')"
    using assms(2) by (simp add: RotateKeys_def assms(3) ring1 ring newEntry_def kid_def [symmetric] Let_def
        split: if_splits prod.splits option.splits)
  have fresh: "kid \<notin> ke_KID ` set ring1"
    using rot by (auto split: if_splits)
  then show "kid \<notin> ke_KID ` set ring0"
    using ring1 by (simp add: retireRingKeys_Inr image_image)
  obtain steps where pem: "persistKeyPEM io1 (keyFileOf kid) (encodePEM kc key) d = (None, steps)"
    using rot by (auto split: if_splits prod.splits option.splits)
  define d1 where "d1 = d(keyFileOf kid \<mapsto> Contents (encodePEM kc key), keyFileOf kid @ ''.tmp'' := None)"
  have last1: "last steps = d1"
    using atomicWrite_done [OF persistKeyPEM_atomic, of io1 "keyFileOf kid" "encodePEM kc key" d] pem by (simp add: d1_def)
  have save: "saveKeyRing io2 keyRingFileName (ringMarshal (localZone kc) ring) d1 = (None, snd (saveKeyRing io2 keyRingFileName (ringMarshal (localZone kc) ring) d1))"
    and d': "d' = last (snd (saveKeyRing io2 keyRingFileName (ringMarshal (localZone kc) ring) d1))"
    using rot fresh pem last1 by (auto split: if_splits prod.splits)
  then obtain s where s: "ringMarshal (localZone kc) ring = Some s"
    by (cases "ringMarshal (localZone kc) ring") (auto simp: saveKeyRing_def)
  have "d' = d1(keyRingFileName \<mapsto> Contents (s @ [CHR 0x0A]), keyRingFileName @ ''.tmp'' := None)"
    unfolding d' s using save unfolding s
    by (intro atomicWrite_done [OF saveKeyRing_atomic, of io2 keyRingFileName s d1]) (metis fst_conv)
  then have d': "d' = d(keyFileOf kid \<mapsto> Contents (encodePEM kc key), keyFileOf kid @ ''.tmp'' := None,
      keyRingFileName \<mapsto> Contents (s @ [CHR 0x0A]), keyRingFileName @ ''.tmp'' := None)"
    by (simp add: d1_def)
  then show "\<And>f. f \<notin> {keyFileOf kid, keyFileOf kid @ ''.tmp'', keyRingFileName, keyRingFileName @ ''.tmp''} \<Longrightarrow> d' f = d f"
    by simp
  have "keyFileOf kid \<noteq> keyRingFileName" "keyFileOf kid \<noteq> keyRingFileName @ ''.tmp''" "keyFileOf kid \<noteq> keyFileOf kid @ ''.tmp''"
    by (simp_all add: keyFileOf_def)
  then show "d' (keyFileOf kid) = Some (Contents (encodePEM kc key))"
    by (simp add: d')
  have "list_all utf8Entry ring"
    using loaded_ring_utf8 [OF assms(3)] by (auto simp: ring_def list_all_iff newEntry_utf8 retire_utf8)
  then have "ringUnmarshal (s @ [CHR 0x0A]) = Some ring"
    using assms(1) by (intro ring_reads_back [OF s]) (simp_all add: codecOk_def jsonSpace_def)
  then show "readKeyRing kc d' keyRingFileName = Some (Inr ring)"
    by (simp add: readKeyRing_def d')
qed

lemma jwkThumbprint_length: "length (jwkThumbprint pub) = 43"
  by (simp add: jwkThumbprint_def Let_def length_EncodeToString)

lemma jwkThumbprint_ne: "jwkThumbprint pub \<noteq> []" "jwkThumbprint pub \<noteq> legacyKid"
  using jwkThumbprint_length [of pub] by auto

lemma newEntry_fields:
  "ke_KID (newEntry now key) = jwkThumbprint (PublicKey key)" "ke_State (newEntry now key) = keyStateActive"
  "ke_File (newEntry now key) = keyFileOf (jwkThumbprint (PublicKey key))" "\<not> expired t (newEntry now key)"
  by (simp_all add: newEntry_def Let_def expired_def)

lemma ringOk_rotated:
  assumes "ringOk ring0" "jwkThumbprint (PublicKey key) \<notin> ke_KID ` set ring0"
  shows "ringOk (map (retire r) ring0 @ [newEntry now key])"
proof -
  have "entryValid (retire r e) \<longleftrightarrow> entryValid e" for e
    by (auto simp: entryValid_def retire_def)
  moreover have "entryValid (newEntry now key)" "ke_File (newEntry now key) = fileFor (ke_KID (newEntry now key))"
    using jwkThumbprint_ne by (simp_all add: entryValid_def newEntry_fields fileFor_def keyFileOf_def)
  ultimately show ?thesis
    using assms by (auto simp: ringOk_def newEntry_fields comp_def)
qed

text \<open>The single-key layout without a competing instance: the key is the one in the file.\<close>

lemma legacy_key:
  assumes "codecOk kc" "persistentSigningKey kc io gen [] d = Some (Inr k, d1)" "d keyRingFileName = None"
  shows "d1 keyFileName \<noteq> None \<and> loadSigningKey kc d1 keyFileName = Inr k \<and> sk_kid k = legacyKid \<and> d1 keyRingFileName = None"
proof (cases "d keyFileName")
  case None
  let ?tmp = "keyFileName @ ''.tmp''"
  from None assms(2) obtain key where gen: "generateAndPersistKey kc io gen ?tmp keyFileName (d(?tmp \<mapsto> Contents [])) = (Inr key, d1)"
    and k: "k = \<lparr>sk_key = key, sk_kid = legacyKid, sk_version = ''1.0''\<rparr>"
    by (auto simp: persistentSigningKey_def persistentLoop.simps Let_def split: if_splits prod.splits sum.splits)
  then obtain steps where w: "writeAndRename io ?tmp keyFileName (encodePEM kc key) (d(?tmp \<mapsto> Contents [])) = (None, steps)" "d1 = last steps"
    by (auto simp: generateAndPersistKey_def split: option.splits prod.splits)
  then have d1: "d1 = (d(?tmp \<mapsto> Contents []))(keyFileName \<mapsto> Contents (encodePEM kc key), ?tmp := None)"
    using writeAndRename_done [OF w(1)] by simp
  then have "d1 keyFileName = Some (Contents (encodePEM kc key))" "d1 keyRingFileName = None"
    using assms(3) by simp_all
  then show ?thesis
    using load_encoded [OF assms(1), of d1 keyFileName key] by (simp add: k)
next
  case (Some f)
  then have "loadSigningKey kc d keyFileName = Inr k" and d1: "d1 = d"
    using assms(2) by (auto simp: persistentSigningKey_def persistentLoop.simps Let_def)
  then show ?thesis
    unfolding d1 using Some assms(3) by (auto simp: loadSigningKey_def split: node.splits option.splits sum.splits)
qed

lemma loadOrCreateRing_started:
  assumes "codecOk kc" "keySetFromDir kc io rmFails gen [] t0 d = Some (Inr ks, d1)"
    and "\<And>ring. readKeyRing kc d keyRingFileName = Some (Inr ring) \<Longrightarrow> ringOk ring"
  obtains ring0 where "loadOrCreateRing kc now0 d1 = Inr ring0" "ringOk ring0" "ringLoads kc t0 d1 ring0 ks"
proof (cases "readKeyRing kc d keyRingFileName")
  case None
  with assms(2) obtain k where k: "persistentSigningKey kc io gen [] d = Some (Inr k, d1)" "ks = keySetOf k"
    by (auto simp: keySetFromDir_def split: option.splits sum.splits)
  have d: "d keyRingFileName = None"
    using None by (auto simp: readKeyRing_def split: option.splits node.splits)
  have "d1 keyFileName \<noteq> None \<and> loadSigningKey kc d1 keyFileName = Inr k \<and> sk_kid k = legacyKid \<and> d1 keyRingFileName = None"
    using k(1) d legacy_key [OF assms(1), of io gen d k d1] by simp
  moreover define e where "e = \<lparr>ke_CreatedAt = now0, ke_RetireAt = 0, ke_KID = legacyKid, ke_File = keyFileName, ke_State = keyStateActive\<rparr>"
  ultimately have "loadOrCreateRing kc now0 d1 = Inr [e]" "entryKey kc d1 e = Some k" "entryLoads kc d1 e"
    by (simp_all add: loadOrCreateRing_def readKeyRing_def entryKey_def entryLoads_def)
  moreover have "ringOk [e]" "\<not> expired t0 e" "ke_State e = keyStateActive"
    by (simp_all add: ringOk_def entryValid_def e_def fileFor_def expired_def)
  ultimately show ?thesis
    by (intro that [of "[e]"]) (simp_all add: ringLoads_def k(2) keySetOf_def)
next
  case (Some res)
  with assms(2) obtain ring where ring: "readKeyRing kc d keyRingFileName = Some (Inr ring)"
    by (cases res) (auto simp: keySetFromDir_def)
  note ok = assms(3) [OF ring]
  have loads: "ringLoads kc t0 d ring ks" and pruned: "prunes t0 ring d d1"
    using keySetFromDir_ring [OF ring ok assms(2)] by simp_all
  have "keyRingFileName \<notin> ke_File ` set (filter (expired t0) ring)"
  proof
    assume "keyRingFileName \<in> ke_File ` set (filter (expired t0) ring)"
    then obtain e where "e \<in> set ring" "ke_File e = keyRingFileName" by auto
    with ok keyFile_names(1) [of "ke_KID e"] show False by (simp add: ringOk_def)
  qed
  then have "d1 keyRingFileName = d keyRingFileName"
    using pruned by (simp add: prunes_def)
  then have "loadOrCreateRing kc now0 d1 = Inr ring"
    using ring by (simp add: loadOrCreateRing_def readKeyRing_def)
  moreover have "ringLoads kc t0 d1 ring ks"
  proof -
    let ?live = "filter (\<lambda>e. \<not> expired t0 e) ring"
    note same = load_cong [of d1 _ d, OF pruned_files [OF ok pruned]]
    have "keysOf kc d1 ?live = keysOf kc d ?live" "keysOf kc d1 (actives ?live) = keysOf kc d (actives ?live)"
      using same by (auto intro!: map_filter_cong)
    moreover have "(\<forall>e \<in> set ?live. entryLoads kc d1 e) \<longleftrightarrow> (\<forall>e \<in> set ?live. entryLoads kc d e)"
      using same by auto
    ultimately show ?thesis using loads unfolding ringLoads_def Let_def by metis
  qed
  ultimately show ?thesis using ok by (intro that)
qed

section \<open>Verification keys\<close>

definition verifies :: "keySet \<Rightarrow> signingKey \<Rightarrow> bool" where
  "verifies ks k \<longleftrightarrow> (\<forall>header. claimString header ''kid'' = sk_kid k \<longrightarrow> verifyKey ks header = Inr (PublicKey (sk_key k)))"

lemma verifies_published:
  assumes "distinct (map sk_kid (ks_published ks))" "k \<in> set (ks_published ks)"
  shows "verifies ks k"
proof -
  have "find (\<lambda>k'. sk_kid k' = sk_kid k) (ks_published ks) = Some k"
    using assms by (rule find_distinct)
  then show ?thesis by (simp add: verifies_def verifyKey_def)
qed

lemma entryKey_kid: "entryKey kc d e = Some k \<Longrightarrow> sk_kid k = ke_KID e"
  by (auto simp: entryKey_def split: sum.splits)

lemma keysOf_kids_distinct: "distinct (map ke_KID es) \<Longrightarrow> distinct (map sk_kid (keysOf kc d es))"
proof (induction es)
  case (Cons e es)
  then show ?case
    by (auto simp: set_map_filter split: option.splits dest!: entryKey_kid) (metis entryKey_kid image_eqI)
qed simp

lemma ringLoads_kids_distinct:
  assumes "ringLoads kc now d ring ks" "ringOk ring"
  shows "distinct (map sk_kid (ks_published ks))"
  using assms keysOf_kids_distinct [of "filter (\<lambda>e. \<not> expired now e) ring" kc d]
  by (simp add: ringLoads_def Let_def ringOk_def distinct_map_filter)

text \<open>
  A loaded key set is coherent: for a directory whose keyring document the program wrote, the active key is one of the
  published keys, published kids do not repeat, every published key verifies the tokens that carry its kid,
  a kid that is not published is refused, and a published kid other than the legacy label is the RFC 7638 thumbprint of
  its key.
\<close>

theorem loaded_keys_coherent:
  assumes "readKeyRing kc d keyRingFileName = Some (Inr ring)" "ringOk ring"
    and "keySetFromDir kc io rmFails gen waits now d = Some (Inr ks, d')"
  shows "(\<exists>k \<in> set (ks_published ks). ks_active ks = Some k) \<and> distinct (map sk_kid (ks_published ks))
    \<and> (\<forall>k \<in> set (ks_published ks). verifies ks k
          \<and> (sk_kid k = legacyKid \<or> sk_kid k = jwkThumbprint (PublicKey (sk_key k))))
    \<and> (\<forall>header. claimString header ''kid'' \<notin> sk_kid ` set (ks_published ks) \<longrightarrow> verifyKey ks header = Inl errUnknownKid)"
proof -
  let ?live = "filter (\<lambda>e. \<not> expired now e) ring"
  have loads: "ringLoads kc now d ring ks"
    using keySetFromDir_ring [OF assms] by simp
  then have keys: "\<forall>e \<in> set ?live. entryLoads kc d e" "ks_published ks = keysOf kc d ?live" "length (actives ?live) = 1"
    "ks_active ks = Some (hd (keysOf kc d (actives ?live)))"
    unfolding ringLoads_def Let_def by blast+
  obtain e k where e: "actives ?live = [e]" "entryKey kc d e = Some k" "keysOf kc d (actives ?live) = [k]"
    using loadPublishedKeys_active [OF keys(1,3)] by blast
  have "e \<in> set (actives ?live)" by (simp only: e(1) list.set_intros)
  then have "k \<in> set (ks_published ks)"
    unfolding keys(2) set_map_filter using e(2) by auto
  then have "\<exists>k \<in> set (ks_published ks). ks_active ks = Some k"
    using keys(4) e(3) by auto
  moreover have distinct: "distinct (map sk_kid (ks_published ks))"
    using ringLoads_kids_distinct [OF loads assms(2)] .
  moreover have "sk_kid k = legacyKid \<or> sk_kid k = jwkThumbprint (PublicKey (sk_key k))" if "k \<in> set (ks_published ks)" for k
  proof -
    from that obtain e where e: "e \<in> set ?live" "entryKey kc d e = Some k"
      unfolding keys(2) set_map_filter by blast
    then have "entryLoads kc d e" using keys(1) by blast
    with e(2) show ?thesis by (auto simp: entryLoads_def entryKey_def split: sum.splits)
  qed
  moreover have "verifyKey ks header = Inl errUnknownKid" if "claimString header ''kid'' \<notin> sk_kid ` set (ks_published ks)" for header
  proof -
    have "find (\<lambda>k. sk_kid k = claimString header ''kid'') (ks_published ks) = None"
      using that by (force simp: find_None_iff)
    then show ?thesis by (simp add: verifyKey_def)
  qed
  ultimately show ?thesis
    using verifies_published [OF distinct] by blast
qed

text \<open>Entries of a rotated ring load from the rotated directory as before.\<close>

lemma rotated_entry:
  assumes "ringOk ring0" "e \<in> set ring0" "kid \<notin> ke_KID ` set ring0" "kid \<noteq> legacyKid"
    and "\<And>f. f \<notin> {keyFileOf kid, keyFileOf kid @ ''.tmp'', keyRingFileName, keyRingFileName @ ''.tmp''} \<Longrightarrow> d2 f = d1 f"
  shows "entryKey kc d2 (retire r e) = entryKey kc d1 e" "entryLoads kc d1 e \<Longrightarrow> entryLoads kc d2 (retire r e)"
proof -
  have f: "ke_File e = fileFor (ke_KID e)" using assms(1,2) by (simp add: ringOk_def)
  have "fileFor (ke_KID e) \<noteq> keyFileOf kid"
    using assms(2-4) fileFor_inject [of "ke_KID e" kid] by (auto simp: fileFor_def)
  then have "d2 (ke_File e) = d1 (ke_File e)"
    using keyFile_names by (intro assms(5)) (auto simp: f)
  then show "entryKey kc d2 (retire r e) = entryKey kc d1 e" "entryLoads kc d1 e \<Longrightarrow> entryLoads kc d2 (retire r e)"
    by (auto simp: entryKey_def entryLoads_def loadSigningKey_def retire_def split: option.splits node.splits sum.splits)
qed

lemma expired_retire: "t0 \<le> t \<Longrightarrow> \<not> expired t (retire r e) \<Longrightarrow> \<not> expired t0 e"
  by (auto simp: expired_def retire_def split: if_splits)

lemma rotated_ring_loads:
  fixes now r :: time
  assumes "ringOk ring0" "ringLoads kc t0 d1 ring0 ks" "t0 \<le> t" "codecOk kc"
    and new: "jwkThumbprint (PublicKey key) \<notin> ke_KID ` set ring0"
    and d2: "\<And>f. f \<notin> {keyFileOf (jwkThumbprint (PublicKey key)), keyFileOf (jwkThumbprint (PublicKey key)) @ ''.tmp'',
        keyRingFileName, keyRingFileName @ ''.tmp''} \<Longrightarrow> d2 f = d1 f"
    and pem: "d2 (keyFileOf (jwkThumbprint (PublicKey key))) = Some (Contents (encodePEM kc key))"
  defines "ring \<equiv> map (retire r) ring0 @ [newEntry now key]"
    and "k' \<equiv> \<lparr>sk_key = key, sk_kid = jwkThumbprint (PublicKey key), sk_version = ''1.0''\<rparr>"
  shows "ringLoads kc t d2 ring \<lparr>ks_active = Some k', ks_published = keysOf kc d2 (filter (\<lambda>e. \<not> expired t e) ring)\<rparr>"
proof -
  let ?live = "filter (\<lambda>e. \<not> expired t e) ring"
  have load: "loadSigningKey kc d2 (ke_File (newEntry now key)) = Inr (k'\<lparr>sk_kid := legacyKid\<rparr>)"
    using load_encoded [of kc d2 "keyFileOf (jwkThumbprint (PublicKey key))" key, OF assms(4) pem] by (simp add: newEntry_fields k'_def)
  have "entryLoads kc d2 (newEntry now key)" and key: "entryKey kc d2 (newEntry now key) = Some k'"
    using load by (simp_all add: entryLoads_def entryKey_def newEntry_fields k'_def)
  moreover have "entryLoads kc d2 (retire r e)" if "e \<in> set ring0" "\<not> expired t (retire r e)" for e
  proof -
    have "entryLoads kc d1 e"
      using assms(2) that expired_retire [OF assms(3) that(2)] by (auto simp: ringLoads_def Let_def)
    then show ?thesis
      by (rule rotated_entry(2) [OF assms(1) that(1) new jwkThumbprint_ne(2), rotated]) (rule d2)
  qed
  ultimately have "\<forall>e \<in> set ?live. entryLoads kc d2 e"
    by (auto simp: ring_def)
  moreover have "actives ?live = [newEntry now key]"
  proof -
    have "ke_State (retire r e) \<noteq> keyStateActive" for e by (simp add: retire_def)
    then have "filter (\<lambda>e. \<not> expired t e \<and> ke_State e = keyStateActive) (map (retire r) ring0) = []"
      by (auto simp: filter_empty_conv)
    then show ?thesis by (simp add: ring_def newEntry_fields)
  qed
  ultimately show ?thesis
    using key by (simp add: ringLoads_def Let_def)
qed

lemma rotation_verifies:
  assumes ring0: "ringOk ring0" "ringLoads kc t0 d1 ring0 ks"
    and new: "jwkThumbprint (PublicKey key) \<notin> ke_KID ` set ring0"
    and d2: "\<And>f. f \<notin> {keyFileOf (jwkThumbprint (PublicKey key)), keyFileOf (jwkThumbprint (PublicKey key)) @ ''.tmp'',
        keyRingFileName, keyRingFileName @ ''.tmp''} \<Longrightarrow> d2 f = d1 f"
    and ks': "ks_published ks' = keysOf kc d2 (filter (\<lambda>e. \<not> expired t e) (map (retire r) ring0 @ [newEntry now key]))"
      "distinct (map sk_kid (ks_published ks'))"
    and k: "k \<in> set (ks_published ks)" "\<And>e. e \<in> set ring0 \<Longrightarrow> ke_KID e = sk_kid k \<Longrightarrow> \<not> expired t (retire r e)"
  shows "verifies ks' k"
proof -
  obtain e where e: "e \<in> set ring0" "entryKey kc d1 e = Some k"
    using k(1) ring0(2) by (auto simp: ringLoads_def Let_def set_map_filter)
  then have "\<not> expired t (retire r e)"
    using k(2) entryKey_kid by metis
  moreover have "entryKey kc d2 (retire r e) = entryKey kc d1 e"
    by (rule rotated_entry(1) [OF ring0(1) e(1) new jwkThumbprint_ne(2)]) (rule d2)
  then have "entryKey kc d2 (retire r e) = Some k" using e(2) by simp
  ultimately have "k \<in> set (ks_published ks')"
    unfolding ks'(1) set_map_filter using e(1) by auto
  with ks'(2) show ?thesis by (rule verifies_published)
qed

lemma rotated_active:
  assumes "ringOk ring0" "ringLoads kc t0 d1 ring0 ks" "jwkThumbprint (PublicKey key) \<notin> ke_KID ` set ring0"
    and "ks_active ks = Some k" "e \<in> set (map (retire r) ring0 @ [newEntry now key])" "ke_KID e = sk_kid k"
  shows "ke_State e = keyStateRetiring \<and> ke_RetireAt e = r"
proof -
  let ?live = "filter (\<lambda>e. \<not> expired t0 e) ring0"
  have "\<forall>e \<in> set ?live. entryLoads kc d1 e" "length (actives ?live) = 1" "ks_active ks = Some (hd (keysOf kc d1 (actives ?live)))"
    using assms(2) unfolding ringLoads_def Let_def by blast+
  then obtain a where a: "actives ?live = [a]" "entryKey kc d1 a = Some k"
    using loadPublishedKeys_active [of ?live kc d1] assms(4) by (metis list.sel(1) option.inject)
  then have "a \<in> set (actives ?live)" by simp
  then have a': "a \<in> set ring0" "ke_State a = keyStateActive" "ke_KID a = sk_kid k"
    using a(2) by (auto simp: entryKey_kid)
  have "e = retire r a"
  proof -
    have "e \<noteq> newEntry now key"
      using a'(1,3) assms(3,6) newEntry_fields(1) [of now key] by (metis image_eqI)
    then obtain e0 where "e0 \<in> set ring0" "e = retire r e0" using assms(5) by auto
    moreover from this have "ke_KID e0 = ke_KID a" using a'(3) assms(6) by simp
    then have "e0 = a"
      using \<open>e0 \<in> set ring0\<close> a'(1) assms(1) by (auto simp: ringOk_def distinct_map dest: inj_onD)
    ultimately show ?thesis by simp
  qed
  then show ?thesis using a'(2) by (simp add: retire_def)
qed

lemma rotated_restart:
  assumes "codecOk kc" "RotateKeys kc io1 io2 now0 now (Some key) keyDir retention (Some d1) = (None, Some d2)"
    and "loadOrCreateRing kc now0 d1 = Inr ring0" "ringOk ring0" "ringLoads kc t0 d1 ring0 ks" "t0 \<le> t"
  defines "ring \<equiv> map (retire (now + retention)) ring0 @ [newEntry now key]"
  obtains ks' d3 where "readKeyRing kc d2 keyRingFileName = Some (Inr ring)" "ringOk ring" "ringLoads kc t d2 ring ks'"
    and "keySetFromDir kc io' (\<lambda>_. False) gen' waits t d2 = Some (Inr ks', d3)"
    and "ks_active ks' = Some \<lparr>sk_key = key, sk_kid = jwkThumbprint (PublicKey key), sk_version = ''1.0''\<rparr>"
    and "ks_published ks' = keysOf kc d2 (filter (\<lambda>e. \<not> expired t e) ring)"
proof -
  note rotated = RotateKeys_done [OF assms(1,2,3), folded ring_def]
  let ?k' = "\<lparr>sk_key = key, sk_kid = jwkThumbprint (PublicKey key), sk_version = ''1.0''\<rparr>"
  let ?ks' = "\<lparr>ks_active = Some ?k', ks_published = keysOf kc d2 (filter (\<lambda>e. \<not> expired t e) ring)\<rparr>"
  have ok: "ringOk ring"
    unfolding ring_def using ringOk_rotated [OF assms(4) rotated(1)] .
  have loads: "ringLoads kc t d2 ring ?ks'"
    unfolding ring_def using rotated_ring_loads [OF assms(4,5,6,1) rotated(1,3,4)] .
  obtain d3 where "keySetFromDir kc io' (\<lambda>_. False) gen' waits t d2 = Some (Inr ?ks', d3)"
    using keySetFromDir_loads [OF rotated(2) ok loads] by blast
  then show ?thesis
    by (rule that [OF rotated(2) ok loads]) simp_all
qed

text \<open>
  C21. A rotation keeps issued tokens verifiable and changes the signer: suppose a server was started from a key directory
  that the program manages (single-key layout or keyring), keys were then rotated successfully, and the server is restarted at
  a later time \<open>t\<close>. Then the restart succeeds; it signs with the new key, under its thumbprint; and every key that was
  published before the rotation still verifies the tokens that carry its kid, unless its entry in the new ring document
  is past its horizon at \<open>t\<close>, which for the key that was active before the rotation is the rotation time plus the retention.
  The new ring document is again one the program manages.
\<close>

theorem rotation_keeps_keys:
  assumes "codecOk kc"
    and "keySetFromDir kc io rmFails gen [] t0 d = Some (Inr ks, d1)"
    and "\<forall>ring. readKeyRing kc d keyRingFileName = Some (Inr ring) \<longrightarrow> ringOk ring"
    and "RotateKeys kc io1 io2 now0 now (Some key) keyDir retention (Some d1) = (None, Some d2)"
    and "t0 \<le> t"
  shows "\<exists>ring ks' d3. readKeyRing kc d2 keyRingFileName = Some (Inr ring) \<and> ringOk ring
    \<and> keySetFromDir kc io' (\<lambda>_. False) gen' waits t d2 = Some (Inr ks', d3)
    \<and> ks_active ks' = Some \<lparr>sk_key = key, sk_kid = jwkThumbprint (PublicKey key), sk_version = ''1.0''\<rparr>
    \<and> (\<forall>k \<in> set (ks_published ks). (\<forall>e \<in> set ring. ke_KID e = sk_kid k \<longrightarrow> \<not> expired t e) \<longrightarrow> verifies ks' k)
    \<and> (\<forall>k. ks_active ks = Some k \<longrightarrow>
          (\<forall>e \<in> set ring. ke_KID e = sk_kid k \<longrightarrow> ke_State e = keyStateRetiring \<and> ke_RetireAt e = now + retention))"
proof -
  obtain ring0 where ring0: "loadOrCreateRing kc now0 d1 = Inr ring0" "ringOk ring0" "ringLoads kc t0 d1 ring0 ks"
    using loadOrCreateRing_started [OF assms(1,2)] assms(3) by blast
  define ring where "ring = map (retire (now + retention)) ring0 @ [newEntry now key]"
  note rotated = RotateKeys_done [OF assms(1,4) ring0(1), folded ring_def]
  obtain ks' d3 where ks': "ringOk ring" "ringLoads kc t d2 ring ks'"
    "keySetFromDir kc io' (\<lambda>_. False) gen' waits t d2 = Some (Inr ks', d3)"
    "ks_active ks' = Some \<lparr>sk_key = key, sk_kid = jwkThumbprint (PublicKey key), sk_version = ''1.0''\<rparr>"
    "ks_published ks' = keysOf kc d2 (filter (\<lambda>e. \<not> expired t e) ring)"
    using rotated_restart [OF assms(1,4) ring0 assms(5), folded ring_def] by blast
  have "verifies ks' k"
    if "k \<in> set (ks_published ks)" "\<forall>e \<in> set ring. ke_KID e = sk_kid k \<longrightarrow> \<not> expired t e" for k
    using that ringLoads_kids_distinct [OF ks'(2,1)] ks'(5)
    by (intro rotation_verifies [OF ring0(2,3) rotated(1,3)]) (auto simp: ring_def)
  moreover have "ke_State e = keyStateRetiring \<and> ke_RetireAt e = now + retention"
    if "ks_active ks = Some k" "e \<in> set ring" "ke_KID e = sk_kid k" for k e
    using rotated_active [OF ring0(2,3) rotated(1) that(1)] that(2,3) by (simp add: ring_def)
  ultimately show ?thesis
    using rotated(2) ks' by blast
qed

section \<open>A sample key directory\<close>

definition oldKey :: rsaKey where
  "oldKey = \<lparr>rk_N = 3233, rk_E = 17, rk_D = 413\<rparr>"

definition freshKey :: rsaKey where
  "freshKey = \<lparr>rk_N = 2773, rk_E = 17, rk_D = 157\<rparr>"

definition legacyEntry :: keyringEntry where
  "legacyEntry = \<lparr>ke_CreatedAt = 5, ke_RetireAt = 0, ke_KID = legacyKid, ke_File = keyFileName, ke_State = keyStateActive\<rparr>"

definition sampleRing :: "keyringEntry list" where
  "sampleRing = [retire 110 legacyEntry, newEntry 10 freshKey]"

text \<open>Keys are written as three decimal numbers, instants in UTC.\<close>

definition sampleParse :: "string \<Rightarrow> rsaKey option" where
  "sampleParse s =
     (case Cut s (CHR '','') of
        None \<Rightarrow> None
      | Some (n, rest) \<Rightarrow>
          (case Cut rest (CHR '','') of
             None \<Rightarrow> None
           | Some (e, d) \<Rightarrow>
               (case (digitsVal 0 n, digitsVal 0 e, digitsVal 0 d) of
                  (Some n', Some e', Some d') \<Rightarrow> Some \<lparr>rk_N = n', rk_E = e', rk_D = d'\<rparr>
                | _ \<Rightarrow> None)))"

definition sampleCodec :: key_codec where
  "sampleCodec = \<lparr>pemDecode = Some, ParsePKCS1PrivateKey = sampleParse, ParsePKCS8PrivateKey = (\<lambda>_. None),
     encodePEM = (\<lambda>k. decimal (rk_N k) @ '','' @ decimal (rk_E k) @ '','' @ decimal (rk_D k)),
     localZone = (\<lambda>_. (0, 0))\<rparr>"

definition sampleDir :: dir where
  "sampleDir = Map.empty(keyFileName \<mapsto> Contents (encodePEM sampleCodec oldKey))"

lemma sampleCodec_ok: "codecOk sampleCodec"
proof -
  have "CHR '','' \<notin> set (decimal n)" for n
    using digitVal_set_decimal [of "CHR '',''" n] by (auto simp: less_eq_char_def)
  then have "sampleParse (decimal (rk_N k) @ '','' @ decimal (rk_E k) @ '','' @ decimal (rk_D k)) = Some k" for k
    by (simp add: sampleParse_def Cut_append digitsVal_decimal)
  then show ?thesis by (simp add: codecOk_def sampleCodec_def minuteZones_def)
qed

lemma sample_marshalled: "\<exists>s. ringMarshal (\<lambda>_. (0, 0)) sampleRing = Some s"
proof -
  have "yearAndDay 0 = (1, 0)" by (simp add: yearAndDay_def)
  then have "formatTime 0 t \<noteq> None" if "t \<in> {0, 5, 10, 110}" for t
    using that by (auto simp: formatTime_def civil_def Let_def split: prod.splits)
  from this [of 0] this [of 5] this [of 10] this [of 110] obtain a b c d where "formatTime 0 0 = Some a" "formatTime 0 5 = Some b" "formatTime 0 10 = Some c" "formatTime 0 110 = Some d"
    by auto
  then show ?thesis
    by (simp add: ringMarshal_def MarshalIndent_def sampleRing_def ringT_def entryT_def entryVal_def retire_def legacyEntry_def newEntry_def Let_def)
qed

lemma sample_started:
  "keySetFromDir sampleCodec noFaults (\<lambda>_. False) None [] 0 sampleDir =
     Some (Inr (keySetOf \<lparr>sk_key = oldKey, sk_kid = legacyKid, sk_version = ''1.0''\<rparr>), sampleDir)"
proof -
  have "loadSigningKey sampleCodec sampleDir keyFileName = Inr \<lparr>sk_key = oldKey, sk_kid = legacyKid, sk_version = ''1.0''\<rparr>"
    by (rule load_encoded [OF sampleCodec_ok]) (simp add: sampleDir_def)
  moreover have "sampleDir keyRingFileName = None" "sampleDir keyFileName \<noteq> None"
    by (simp_all add: sampleDir_def)
  ultimately show ?thesis
    by (simp add: keySetFromDir_def readKeyRing_def persistentSigningKey_def persistentLoop.simps Let_def)
qed

lemma sample_rotated:
  "\<exists>d2. RotateKeys sampleCodec noFaults noFaults 5 10 (Some freshKey) ''/keys'' 100 (Some sampleDir) = (None, Some d2)"
proof -
  let ?kid = "jwkThumbprint (PublicKey freshKey)"
  have "loadOrCreateRing sampleCodec 5 sampleDir = Inr [legacyEntry]"
    by (simp add: loadOrCreateRing_def readKeyRing_def sampleDir_def legacyEntry_def)
  moreover have "retireRingKeys 110 [legacyEntry] = Inr [retire 110 legacyEntry]"
    by (simp add: retireRingKeys_Inr legacyEntry_def retire_def)
  moreover have "?kid \<noteq> legacyKid" by (rule jwkThumbprint_ne)
  moreover have "sampleDir (keyFileOf ?kid @ ''.tmp'') = None"
    by (simp add: sampleDir_def keyFileOf_def)
  moreover have "fst (writeAndRename noFaults tmp name data d) = None" for tmp name data d
    by (simp add: writeAndRename_def noFaults_def Let_def)
  moreover obtain s where "ringMarshal (localZone sampleCodec) sampleRing = Some s"
    using sample_marshalled by (auto simp: sampleCodec_def)
  moreover have "TrimSpace ''/keys'' = ''/keys''" by code_simp
  moreover have "\<not> openFails noFaults" by (simp add: noFaults_def)
  moreover have "ke_KID legacyEntry = legacyKid" by (simp add: legacyEntry_def)
  moreover have "[retire 110 legacyEntry, \<lparr>ke_CreatedAt = 10, ke_RetireAt = 0, ke_KID = ?kid, ke_File = keyFileOf ?kid, ke_State = keyStateActive\<rparr>] = sampleRing"
    by (simp add: sampleRing_def newEntry_def Let_def)
  ultimately show ?thesis
    by (simp add: RotateKeys_def persistKeyPEM_def saveKeyRing_def Let_def case_prod_beta)
qed

theorem rotation_keeps_keys_witness:
  "\<exists>d2 ks' d3. RotateKeys sampleCodec noFaults noFaults 5 10 (Some freshKey) ''/keys'' 100 (Some sampleDir) = (None, Some d2)
     \<and> keySetFromDir sampleCodec noFaults (\<lambda>_. False) None [] 50 d2 = Some (Inr ks', d3)
     \<and> ks_active ks' = Some \<lparr>sk_key = freshKey, sk_kid = jwkThumbprint (PublicKey freshKey), sk_version = ''1.0''\<rparr>
     \<and> verifies ks' \<lparr>sk_key = oldKey, sk_kid = legacyKid, sk_version = ''1.0''\<rparr>"
proof -
  obtain d2 where d2: "RotateKeys sampleCodec noFaults noFaults 5 10 (Some freshKey) ''/keys'' 100 (Some sampleDir) = (None, Some d2)"
    using sample_rotated by blast
  have managed: "\<forall>ring. readKeyRing sampleCodec sampleDir keyRingFileName = Some (Inr ring) \<longrightarrow> ringOk ring"
    by (simp add: readKeyRing_def sampleDir_def)
  obtain ring ks' d3 where r: "keySetFromDir sampleCodec noFaults (\<lambda>_. False) None [] 50 d2 = Some (Inr ks', d3)"
    "ks_active ks' = Some \<lparr>sk_key = freshKey, sk_kid = jwkThumbprint (PublicKey freshKey), sk_version = ''1.0''\<rparr>"
    "\<And>k. k = \<lparr>sk_key = oldKey, sk_kid = legacyKid, sk_version = ''1.0''\<rparr> \<Longrightarrow>
       (\<forall>e \<in> set ring. ke_KID e = sk_kid k \<longrightarrow> \<not> expired 50 e) \<Longrightarrow> verifies ks' k"
    "\<And>k e. k = \<lparr>sk_key = oldKey, sk_kid = legacyKid, sk_version = ''1.0''\<rparr> \<Longrightarrow>
       e \<in> set ring \<Longrightarrow> ke_KID e = sk_kid k \<Longrightarrow> ke_RetireAt e = 10 + 100"
    using rotation_keeps_keys [OF sampleCodec_ok sample_started managed d2, of 50 noFaults None "[]"]
    by (fastforce simp: keySetOf_def)
  then show ?thesis using d2 by (auto simp: expired_def)
qed

theorem loaded_keys_coherent_witness:
  "\<exists>d ks d'. keySetFromDir sampleCodec noFaults (\<lambda>_. False) None [] 50 d = Some (Inr ks, d') \<and> distinct (map sk_kid (ks_published ks))"
proof -
  obtain d2 where d2: "RotateKeys sampleCodec noFaults noFaults 5 10 (Some freshKey) ''/keys'' 100 (Some sampleDir) = (None, Some d2)"
    using sample_rotated by blast
  have ring0: "loadOrCreateRing sampleCodec 5 sampleDir = Inr [legacyEntry]"
    by (simp add: loadOrCreateRing_def readKeyRing_def sampleDir_def legacyEntry_def)
  have ok: "ringOk [legacyEntry]" by (simp add: ringOk_def entryValid_def legacyEntry_def fileFor_def)
  have loads: "ringLoads sampleCodec 0 sampleDir [legacyEntry] (keySetOf \<lparr>sk_key = oldKey, sk_kid = legacyKid, sk_version = ''1.0''\<rparr>)"
  proof -
    obtain r where "loadOrCreateRing sampleCodec 5 sampleDir = Inr r"
      "ringLoads sampleCodec 0 sampleDir r (keySetOf \<lparr>sk_key = oldKey, sk_kid = legacyKid, sk_version = ''1.0''\<rparr>)"
      using loadOrCreateRing_started [OF sampleCodec_ok sample_started] by (auto simp: readKeyRing_def sampleDir_def)
    with ring0 show ?thesis by simp
  qed
  obtain ks d3 where ks: "keySetFromDir sampleCodec noFaults (\<lambda>_. False) None [] 50 d2 = Some (Inr ks, d3)"
    "readKeyRing sampleCodec d2 keyRingFileName = Some (Inr (map (retire (10 + 100)) [legacyEntry] @ [newEntry 10 freshKey]))"
    "ringOk (map (retire (10 + 100)) [legacyEntry] @ [newEntry 10 freshKey])"
    by (rule rotated_restart [where t = 50 and io' = noFaults and gen' = None and waits = "[]", OF sampleCodec_ok d2 ring0 ok loads]) simp_all
  from loaded_keys_coherent [OF ks(2,3,1)] ks(1) show ?thesis by blast
qed

end
