(* ===== verification/NetIP.thy ===== *)
theory NetIP
  imports GoStrings
begin

text \<open>
  The addresses of Go's package \<^verbatim>\<open>net\<close> as the program uses them: \<^verbatim>\<open>ParseIP\<close>, \<^verbatim>\<open>ParseCIDR\<close>, \<^verbatim>\<open>IPNet.Contains\<close> and \<^verbatim>\<open>SplitHostPort\<close>. An address
  is the list of its bytes: an IPv4 address has four, and sixteen in its IPv6 form. Membership in a network is the agreement of
  the leading bits.
\<close>

section \<open>Parsing addresses\<close>

text \<open>\<^verbatim>\<open>netip.parseIPv4\<close>: four numbers below 256 without leading zeros.\<close>

definition octetVal :: "string \<Rightarrow> nat option" where
  "octetVal ds =
     (if ds = [] \<or> (1 < length ds \<and> hd ds = CHR ''0'') then None
      else case digitsVal 0 ds of None \<Rightarrow> None | Some n \<Rightarrow> if n \<le> 255 then Some n else None)"

fun octets :: "string list \<Rightarrow> nat list option" where
  "octets [] = Some []"
| "octets (p # ps) = (case (octetVal p, octets ps) of (Some b, Some bs) \<Rightarrow> Some (b # bs) | _ \<Rightarrow> None)"

definition parseIPv4 :: "string \<Rightarrow> nat list option" where
  "parseIPv4 s = (let ps = Split s (CHR ''.'') in if length ps = 4 then octets ps else None)"

text \<open>
  The loop of \<^verbatim>\<open>netip.parseIPv6\<close>: groups of hexadecimal digits, of which one gap may be left out and the last two may be an IPv4 address.
  The bytes so far, the position of the gap, the rest of the text; at most eight groups are read.
\<close>

definition hexNum :: "string \<Rightarrow> nat" where
  "hexNum ds = foldl (\<lambda>acc c. acc * 16 + (case unhexDigit c of Some d \<Rightarrow> d | None \<Rightarrow> 0)) 0 ds"

fun ip6Loop :: "nat \<Rightarrow> nat list \<Rightarrow> nat option \<Rightarrow> string \<Rightarrow> (nat list \<times> nat option \<times> string) option" where
  "ip6Loop 0 bs gap s = Some (bs, gap, s)"
| "ip6Loop (Suc k) bs gap s =
     (let ds = takeWhile (\<lambda>c. unhexDigit c \<noteq> None) s; r = dropWhile (\<lambda>c. unhexDigit c \<noteq> None) s;
          bs' = bs @ [hexNum ds div 256, hexNum ds mod 256]
      in if ds = [] \<or> 4 < length ds then None
         else if r \<noteq> [] \<and> hd r = CHR ''.'' then
           (if (gap = None \<and> length bs \<noteq> 12) \<or> 16 < length bs + 4 then None
            else (case parseIPv4 s of None \<Rightarrow> None | Some q \<Rightarrow> Some (bs @ q, gap, [])))
         else if r = [] then Some (bs', gap, [])
         else if hd r \<noteq> CHR '':'' \<or> tl r = [] then None
         else if hd (tl r) = CHR '':'' then
           (if gap \<noteq> None then None
            else if tl (tl r) = [] then Some (bs', Some (length bs'), [])
            else ip6Loop k bs' (Some (length bs')) (tl (tl r)))
         else ip6Loop k bs' gap (tl r))"

definition parseIPv6 :: "string \<Rightarrow> nat list option" where
  "parseIPv6 s =
     (let start = (if take 2 s = ''::'' then (Some 0, drop 2 s) else (None, s))
      in if start = (Some 0, []) then Some (replicate 16 0)
         else (case ip6Loop 8 [] (fst start) (snd start) of
                 None \<Rightarrow> None
               | Some (bs, gap, rest) \<Rightarrow>
                   if rest \<noteq> [] then None
                   else if length bs < 16 then
                     (case gap of None \<Rightarrow> None | Some g \<Rightarrow> Some (take g bs @ replicate (16 - length bs) 0 @ drop g bs))
                   else if gap \<noteq> None then None else Some bs))"

text \<open>\<^verbatim>\<open>netip.ParseAddr\<close> with zones refused, as both callers refuse them; the flag says whether the text is an IPv4 address.\<close>

definition ParseAddr :: "string \<Rightarrow> (bool \<times> nat list) option" where
  "ParseAddr s =
     (if CHR ''%'' \<in> set s then None
      else (case dropWhile (\<lambda>c. c \<noteq> CHR ''.'' \<and> c \<noteq> CHR '':'') s of
              [] \<Rightarrow> None
            | c # _ \<Rightarrow> if c = CHR ''.'' then map_option (Pair True) (parseIPv4 s) else map_option (Pair False) (parseIPv6 s)))"

definition v4InV6Prefix :: "nat list" where
  "v4InV6Prefix = replicate 10 0 @ [255, 255]"

definition As16 :: "bool \<times> nat list \<Rightarrow> nat list" where
  "As16 a = (if fst a then v4InV6Prefix @ snd a else snd a)"

definition ParseIP :: "string \<Rightarrow> nat list option" where
  "ParseIP s = map_option As16 (ParseAddr s)"

definition To4 :: "nat list \<Rightarrow> nat list option" where
  "To4 ip = (if length ip = 4 then Some ip else if length ip = 16 \<and> take 12 ip = v4InV6Prefix then Some (drop 12 ip) else None)"

section \<open>Networks\<close>

text \<open>The bitwise conjunction of an address with the mask of \<^verbatim>\<open>CIDRMask\<close> that has \<open>n\<close> leading ones.\<close>

fun masked :: "nat \<Rightarrow> nat list \<Rightarrow> nat list" where
  "masked n [] = []"
| "masked n (b # bs) = (if 8 \<le> n then b # masked (n - 8) bs else b div 2 ^ (8 - n) * 2 ^ (8 - n) # masked 0 bs)"

text \<open>An \<^verbatim>\<open>IPNet\<close>: the network number and the leading ones of its mask, which is as long as the number.\<close>

type_synonym ipNet = "nat list \<times> nat"

text \<open>\<^verbatim>\<open>dtoi\<close>, which gives up at \<open>0xFFFFFF\<close>; no mask is that long.\<close>

definition maskLength :: "string \<Rightarrow> nat option" where
  "maskLength m = (if m = [] then None else digitsVal 0 m)"

definition ParseCIDR :: "string \<Rightarrow> ipNet option" where
  "ParseCIDR s =
     (case Cut s (CHR ''/'') of
        None \<Rightarrow> None
      | Some (addr, m) \<Rightarrow>
          (case (ParseAddr addr, maskLength m) of
             (Some (v4, bs), Some n) \<Rightarrow> if (if v4 then 32 else 128) < n then None else Some (masked n bs, n)
           | _ \<Rightarrow> None))"

definition networkNumberAndMask :: "ipNet \<Rightarrow> ipNet" where
  "networkNumberAndMask net =
     (case To4 (fst net) of
        Some q \<Rightarrow> (q, if length (fst net) = 16 then snd net - 96 else snd net)
      | None \<Rightarrow> net)"

definition Contains :: "ipNet \<Rightarrow> nat list \<Rightarrow> bool" where
  "Contains net ip =
     (let (nn, n) = networkNumberAndMask net; x = (case To4 ip of Some q \<Rightarrow> q | None \<Rightarrow> ip)
      in length x = length nn \<and> masked n nn = masked n x)"

section \<open>Host and port\<close>

text \<open>The host of \<^verbatim>\<open>net.SplitHostPort\<close>, or \<^term>\<open>None\<close> for the error.\<close>

definition SplitHostPort :: "string \<Rightarrow> string option" where
  "SplitHostPort hp =
     (if CHR '':'' \<notin> set hp then None
      else
        let i = length hp - Suc (length (takeWhile (\<lambda>c. c \<noteq> CHR '':'') (rev hp)))
        in if hd hp = CHR ''['' then
             (case Cut hp (CHR '']'') of
                None \<Rightarrow> None
              | Some (a, b) \<Rightarrow>
                  if Suc (length a) \<noteq> i \<or> CHR ''['' \<in> set (tl hp) \<or> CHR '']'' \<in> set b then None else Some (tl a))
           else if CHR '':'' \<in> set (take i hp) \<or> CHR ''['' \<in> set hp \<or> CHR '']'' \<in> set hp then None
           else Some (take i hp))"

section \<open>Facts: addresses\<close>

definition bytes :: "nat list \<Rightarrow> bool" where
  "bytes bs \<longleftrightarrow> list_all (\<lambda>b. b < 256) bs"

lemma bytes_simps [simp]:
  "bytes []" "bytes (b # bs) \<longleftrightarrow> b < 256 \<and> bytes bs" "bytes (xs @ ys) \<longleftrightarrow> bytes xs \<and> bytes ys" "bytes (replicate n 0)"
  by (auto simp: bytes_def list_all_iff)

lemma bytes_part: "bytes bs \<Longrightarrow> bytes (take n bs)" "bytes bs \<Longrightarrow> bytes (drop n bs)"
  by (auto simp: bytes_def list_all_iff dest: in_set_takeD in_set_dropD)

lemma octets_bytes: "octets ps = Some bs \<Longrightarrow> length bs = length ps \<and> bytes bs"
  by (induction ps arbitrary: bs) (auto simp: octetVal_def split: option.splits if_splits)

lemma parseIPv4_bytes: "parseIPv4 s = Some bs \<Longrightarrow> length bs = 4 \<and> bytes bs"
  using octets_bytes by (fastforce simp: parseIPv4_def Let_def split: if_splits)

lemma hexNum_append: "hexNum (ds @ [c]) = hexNum ds * 16 + (case unhexDigit c of Some d \<Rightarrow> d | None \<Rightarrow> 0)"
  by (simp add: hexNum_def)

lemma unhexDigit_less: "unhexDigit c = Some d \<Longrightarrow> d < 16"
  by (auto simp: unhexDigit_def less_eq_char_def split: if_splits)

lemma hexNum_less: "hexNum ds < 16 ^ length ds"
proof (induction ds rule: rev_induct)
  case (snoc c ds)
  have "(case unhexDigit c of Some d \<Rightarrow> d | None \<Rightarrow> 0) < 16" using unhexDigit_less by (auto split: option.splits)
  with snoc show ?case unfolding hexNum_append by simp
qed (simp add: hexNum_def)

lemma hexNum_bytes: "length ds \<le> 4 \<Longrightarrow> hexNum ds div 256 < 256"
proof -
  assume "length ds \<le> 4"
  then have "(16 :: nat) ^ length ds \<le> 16 ^ 4" by (intro power_increasing) simp_all
  with hexNum_less [of ds] have "hexNum ds < 65536" by simp
  then show ?thesis by (simp add: less_mult_imp_div_less)
qed

lemma ip6Loop_bytes:
  "ip6Loop k bs gap s = Some (bs', gap', r) \<Longrightarrow> bytes bs \<Longrightarrow> length bs + 2 * k \<le> 16 \<Longrightarrow> bytes bs' \<and> length bs' \<le> 16"
proof (induction k bs gap s rule: ip6Loop.induct)
  case (2 k bs gap s)
  let ?ds = "takeWhile (\<lambda>c. unhexDigit c \<noteq> None) s"
  let ?r = "dropWhile (\<lambda>c. unhexDigit c \<noteq> None) s"
  have len: "\<not> (?ds = [] \<or> 4 < length ?ds)" using "2.prems"(1) by (auto simp: Let_def split: if_splits)
  then have n: "hexNum ?ds div 256 < 256" by (intro hexNum_bytes) simp
  show ?case
  proof (cases "?r \<noteq> [] \<and> hd ?r = CHR ''.''")
    case True
    with "2.prems"(1) len obtain q where "parseIPv4 s = Some q" "bs' = bs @ q" "length bs + 4 \<le> 16"
      by (auto simp: Let_def split: if_splits option.splits)
    with parseIPv4_bytes [of s q] "2.prems"(2) show ?thesis by simp
  next
    case False
    note eq = "2.prems"(1) [unfolded ip6Loop.simps Let_def if_not_P [OF len] if_not_P [OF False]]
    let ?bs = "bs @ [hexNum ?ds div 256, hexNum ?ds mod 256]"
    have ok: "bytes ?bs" "length ?bs + 2 * k \<le> 16" using "2.prems"(2,3) n by simp_all
    note IH = "2.IH" [OF refl refl refl len False]
    consider "bs' = ?bs"
      | "?r \<noteq> []" "\<not> (hd ?r \<noteq> CHR '':'' \<or> tl ?r = [])" "hd (tl ?r) = CHR '':''" "\<not> gap \<noteq> None" "tl (tl ?r) \<noteq> []"
          "ip6Loop k ?bs (Some (length ?bs)) (tl (tl ?r)) = Some (bs', gap', r)"
      | "?r \<noteq> []" "\<not> (hd ?r \<noteq> CHR '':'' \<or> tl ?r = [])" "hd (tl ?r) \<noteq> CHR '':''" "ip6Loop k ?bs gap (tl ?r) = Some (bs', gap', r)"
      using eq by (metis option.inject option.distinct(1) prod.inject)
    then show ?thesis
    proof cases
      case 1
      with ok show ?thesis by simp
    next
      case 2
      from IH(1) [OF 2(1-5) 2(6) ok] show ?thesis .
    next
      case 3
      from IH(2) [OF 3(1-3) 3(4) ok] show ?thesis .
    qed
  qed
qed auto

lemma parseIPv6_bytes: "parseIPv6 s = Some bs \<Longrightarrow> length bs = 16 \<and> bytes bs"
proof -
  assume s: "parseIPv6 s = Some bs"
  define st where "st = (if take 2 s = ''::'' then (Some (0 :: nat), drop 2 s) else (None, s))"
  note s = s [unfolded parseIPv6_def Let_def, folded st_def]
  show ?thesis
  proof (cases "st = (Some 0, [])")
    case True
    with s show ?thesis by auto
  next
    case False
    with s obtain bs' gap where loop: "ip6Loop 8 [] (fst st) (snd st) = Some (bs', gap, [])"
      and bs: "bs = bs' \<and> \<not> length bs' < 16 \<or> (\<exists>g. length bs' < 16 \<and> bs = take g bs' @ replicate (16 - length bs') 0 @ drop g bs')"
      by (auto split: option.splits if_splits prod.splits)
    from ip6Loop_bytes [OF loop] have "bytes bs'" "length bs' \<le> 16" by simp_all
    with bs show ?thesis by (auto simp: bytes_part min_def)
  qed
qed

text \<open>An address that parses is sixteen bytes.\<close>

lemma ParseIP_bytes:
  assumes "ParseIP s = Some ip"
  shows "length ip = 16 \<and> bytes ip"
proof -
  obtain v4 bs where a: "ParseAddr s = Some (v4, bs)" "ip = As16 (v4, bs)"
    using assms by (auto simp: ParseIP_def)
  then have "if v4 then length bs = 4 \<and> bytes bs else length bs = 16 \<and> bytes bs"
    using parseIPv4_bytes parseIPv6_bytes by (auto simp: ParseAddr_def split: if_splits list.splits)
  with a(2) show ?thesis by (cases v4) (simp_all add: As16_def v4InV6Prefix_def)
qed

text \<open>The dotted form of four bytes parses to them.\<close>

definition dotted :: "nat list \<Rightarrow> string" where
  "dotted bs = Join (map decimal bs) ''.''"

lemma decimal_small: "n < 10 \<Longrightarrow> decimal n = [char_of (48 + n)]"
  by (subst decimal.simps) simp

lemma decimal_head: "1 < length (decimal n) \<Longrightarrow> hd (decimal n) \<noteq> CHR ''0''"
proof (induction n rule: decimal.induct)
  case (1 n)
  have n: "\<not> n < 10" using "1.prems" decimal_small [of n] by auto
  then have d: "decimal n = decimal (n div 10) @ [char_of (48 + n mod 10)]" by (subst decimal.simps) simp
  show ?case
  proof (cases "n div 10 < 10")
    case True
    have "char_of (48 + n div 10) \<noteq> CHR ''0''" using True n digitVal_char_of [of "n div 10"] by (auto simp: digitVal_def)
    with True show ?thesis by (simp add: d decimal_small)
  next
    case False
    then have "decimal (n div 10) = decimal (n div 10 div 10) @ [char_of (48 + n div 10 mod 10)]" by (subst decimal.simps) simp
    then have "1 < length (decimal (n div 10))" using decimal_ne [of "n div 10 div 10"] by (cases "decimal (n div 10 div 10)") auto
    then have "hd (decimal (n div 10)) \<noteq> CHR ''0''" using "1.IH" n by simp
    then show ?thesis using decimal_ne [of "n div 10"] by (simp add: d)
  qed
qed

lemma octetVal_decimal: "n < 256 \<Longrightarrow> octetVal (decimal n) = Some n"
  using decimal_head [of n] by (auto simp: octetVal_def decimal_ne digitsVal_decimal)

lemma octets_decimal: "bytes bs \<Longrightarrow> octets (map decimal bs) = Some bs"
  by (induction bs) (simp_all add: octetVal_decimal)

lemma decimal_no: "c \<in> set (decimal n) \<Longrightarrow> c \<noteq> CHR ''.'' \<and> c \<noteq> CHR '':'' \<and> c \<noteq> CHR ''%'' \<and> c \<noteq> CHR ''/''"
  using digitVal_set_decimal [of c n] by (auto simp: less_eq_char_def)

lemma Split_dotted: "bs \<noteq> [] \<Longrightarrow> Split (dotted bs) (CHR ''.'') = map decimal bs"
  unfolding dotted_def using decimal_no by (intro Split_Join) auto

lemma parseIPv4_dotted: "length bs = 4 \<Longrightarrow> bytes bs \<Longrightarrow> parseIPv4 (dotted bs) = Some bs"
  using Split_dotted [of bs] by (cases bs) (simp_all add: parseIPv4_def octets_decimal octetVal_decimal)

lemma dotted_chars: "c \<in> set (dotted bs) \<Longrightarrow> c \<noteq> CHR '':'' \<and> c \<noteq> CHR ''%'' \<and> c \<noteq> CHR ''/''"
proof (induction bs)
  case (Cons b bs)
  then show ?case using decimal_no [of c b] by (cases bs) (auto simp: dotted_def)
qed (simp add: dotted_def)

lemma ParseAddr_dotted:
  assumes "length bs = 4" "bytes bs"
  shows "ParseAddr (dotted bs) = Some (True, bs)"
proof -
  obtain b c cs where bs: "bs = b # c # cs" using assms(1) by (cases bs; cases "tl bs") auto
  have "CHR ''.'' \<notin> set (decimal b)" "CHR '':'' \<notin> set (decimal b)" using decimal_no by blast+
  then have "dropWhile (\<lambda>c. c \<noteq> CHR ''.'' \<and> c \<noteq> CHR '':'') (decimal b @ CHR ''.'' # r) = CHR ''.'' # r" for r
    by (subst dropWhile_append2) auto
  moreover obtain r where "dotted bs = decimal b @ CHR ''.'' # r" by (simp add: bs dotted_def)
  moreover have "CHR ''%'' \<notin> set (dotted bs)" using dotted_chars by blast
  ultimately show ?thesis using parseIPv4_dotted [OF assms] by (simp add: ParseAddr_def)
qed

section \<open>Facts: networks\<close>

text \<open>The number an address stands for.\<close>

fun addrNum :: "nat list \<Rightarrow> nat" where
  "addrNum [] = 0"
| "addrNum (b # bs) = b * 256 ^ length bs + addrNum bs"

lemma addrNum_less: "bytes bs \<Longrightarrow> addrNum bs < 256 ^ length bs"
proof (induction bs)
  case (Cons b bs)
  then have "b * 256 ^ length bs + addrNum bs < (b + 1) * 256 ^ length bs" by simp
  also have "\<dots> \<le> 256 * 256 ^ length bs" using Cons.prems by (intro mult_right_mono) auto
  finally show ?case by simp
qed simp

lemma masked_zero: "bytes bs \<Longrightarrow> masked 0 bs = replicate (length bs) 0"
  by (induction bs) auto

lemma masked_length [simp]: "length (masked n bs) = length bs"
  by (induction n bs rule: masked.induct) auto

lemma power_256: "(256 :: nat) ^ l = 2 ^ (8 * l)"
  by (simp add: power_mult)

lemma masked_agree:
  assumes "length xs = length ys" "bytes xs" "bytes ys" "n \<le> 8 * length xs"
  shows "masked n xs = masked n ys \<longleftrightarrow> addrNum xs div 2 ^ (8 * length xs - n) = addrNum ys div 2 ^ (8 * length xs - n)"
  using assms
proof (induction xs ys arbitrary: n rule: list_induct2)
  case (Cons b bs c cs)
  let ?l = "length bs"
  show ?case
  proof (cases "8 \<le> n")
    case True
    define w where "w = 8 * ?l - (n - 8)"
    have w: "8 * length (b # bs) - n = w" "8 * ?l = w + (n - 8)" using True Cons.prems by (simp_all add: w_def)
    have split: "(256 :: nat) ^ ?l = 2 ^ (n - 8) * 2 ^ w" by (subst power_256, subst w(2)) (simp add: power_add mult.commute)
    have top: "(d * 256 ^ ?l + addrNum ds) div 2 ^ w = d * 2 ^ (n - 8) + addrNum ds div 2 ^ w" for d ds
    proof -
      show ?thesis using div_mult_self1 [of "2 ^ w" "addrNum ds" "d * 2 ^ (n - 8)"] by (simp only: split mult.assoc add.commute) simp
    qed
    have low: "addrNum ds div 2 ^ w < 2 ^ (n - 8)" if "bytes ds" "length ds = ?l" for ds
    proof -
      have "addrNum ds < 2 ^ (n - 8) * 2 ^ w" using addrNum_less [OF that(1)] that(2) split by simp
      then show ?thesis by (simp add: less_mult_imp_div_less)
    qed
    have pair: "b * k + p = c * k + q \<longleftrightarrow> b = c \<and> p = q" if "p < k" "q < k" for k p q :: nat
    proof
      assume e: "b * k + p = c * k + q"
      have "(b * k + p) div k = b" "(c * k + q) div k = c" using that by simp_all
      with e have "b = c" by simp
      with e show "b = c \<and> p = q" by simp
    qed simp
    have "masked n (b # bs) = masked n (c # cs) \<longleftrightarrow> b = c \<and> masked (n - 8) bs = masked (n - 8) cs" using True by simp
    also have "\<dots> \<longleftrightarrow> b = c \<and> addrNum bs div 2 ^ w = addrNum cs div 2 ^ w"
      using Cons.IH [of "n - 8"] Cons.prems True by (simp add: w_def)
    also have "\<dots> \<longleftrightarrow> b * 2 ^ (n - 8) + addrNum bs div 2 ^ w = c * 2 ^ (n - 8) + addrNum cs div 2 ^ w"
      by (rule pair [OF low low, symmetric]) (use Cons.prems Cons.hyps in simp_all)
    finally show ?thesis
      unfolding w(1) addrNum.simps Cons.hyps [symmetric] top .
  next
    case False
    have top: "(d * 256 ^ ?l + addrNum ds) div 2 ^ (8 * length (b # bs) - n) = d div 2 ^ (8 - n)" if "bytes ds" "length ds = ?l" for d ds
    proof -
      have "8 * length (b # bs) - n = 8 * ?l + (8 - n)" using False by simp
      then have "x div 2 ^ (8 * length (b # bs) - n) = x div 256 ^ ?l div 2 ^ (8 - n)" for x :: nat
        by (simp add: power_256 power_add div_mult2_eq)
      moreover have "addrNum ds < 256 ^ ?l" using addrNum_less [OF that(1)] that(2) by simp
      ultimately show ?thesis by simp
    qed
    have "masked 0 bs = masked 0 cs" using Cons.prems Cons.hyps by (simp add: masked_zero)
    then have "masked n (b # bs) = masked n (c # cs) \<longleftrightarrow> b div 2 ^ (8 - n) = c div 2 ^ (8 - n)" using False by simp
    then show ?thesis using top [of bs b] top [of cs c] Cons.prems Cons.hyps by simp
  qed
qed simp

lemma maskLength_decimal: "maskLength (decimal n) = Some n"
  by (simp add: maskLength_def decimal_ne digitsVal_decimal)

definition cidr :: "nat list \<Rightarrow> nat \<Rightarrow> string" where
  "cidr bs n = dotted bs @ CHR ''/'' # decimal n"

lemma ParseCIDR_cidr:
  assumes "length bs = 4" "bytes bs" "n \<le> 32"
  shows "ParseCIDR (cidr bs n) = Some (masked n bs, n)"
proof -
  have "CHR ''/'' \<notin> set (dotted bs)" using dotted_chars by blast
  then have "Cut (cidr bs n) (CHR ''/'') = Some (dotted bs, decimal n)" by (simp add: cidr_def Cut_append)
  with assms show ?thesis by (simp add: ParseCIDR_def ParseAddr_dotted maskLength_decimal)
qed

lemma masked_idem: "masked n (masked n bs) = masked n bs"
  by (induction n bs rule: masked.induct) auto

text \<open>A range of IPv4 addresses holds those with the same leading bits, and no address of another kind.\<close>

lemma Contains_cidr:
  assumes "length bs = 4" "bytes bs" "n \<le> 32" "length ip = 16" "bytes ip"
  shows "Contains (masked n bs, n) ip \<longleftrightarrow>
    take 12 ip = v4InV6Prefix \<and> addrNum (drop 12 ip) div 2 ^ (32 - n) = addrNum bs div 2 ^ (32 - n)"
proof -
  have net: "networkNumberAndMask (masked n bs, n) = (masked n bs, n)"
    using assms(1) by (simp add: networkNumberAndMask_def To4_def)
  show ?thesis
  proof (cases "take 12 ip = v4InV6Prefix")
    case True
    have "masked n bs = masked n (drop 12 ip) \<longleftrightarrow> addrNum bs div 2 ^ (32 - n) = addrNum (drop 12 ip) div 2 ^ (32 - n)"
      using masked_agree [of bs "drop 12 ip" n] assms by (simp add: bytes_part)
    with True show ?thesis using assms by (auto simp: Contains_def net To4_def masked_idem)
  next
    case False
    with assms show ?thesis by (simp add: Contains_def net To4_def)
  qed
qed

section \<open>Facts: host and port\<close>

lemma SplitHostPort_plain:
  assumes "CHR '':'' \<notin> set host" "CHR '':'' \<notin> set port" "CHR ''['' \<notin> set (host @ port)" "CHR '']'' \<notin> set (host @ port)"
  shows "SplitHostPort (host @ CHR '':'' # port) = Some host"
proof -
  have "takeWhile (\<lambda>c. c \<noteq> CHR '':'') (rev port @ CHR '':'' # rev host) = rev port"
    using assms(2) by (subst takeWhile_append2) auto
  moreover have "hd (host @ CHR '':'' # port) \<noteq> CHR ''[''" using assms(3) by (cases host) auto
  ultimately show ?thesis using assms by (simp add: SplitHostPort_def)
qed

lemma SplitHostPort_bracketed:
  assumes "CHR ''['' \<notin> set host" "CHR '']'' \<notin> set host" "CHR '':'' \<notin> set port" "CHR ''['' \<notin> set port" "CHR '']'' \<notin> set port"
  shows "SplitHostPort (CHR ''['' # host @ CHR '']'' # CHR '':'' # port) = Some host"
proof -
  have "takeWhile (\<lambda>c. c \<noteq> CHR '':'') (rev port @ CHR '':'' # r) = rev port" for r
    using assms(3) by (subst takeWhile_append2) auto
  moreover have "Cut (CHR ''['' # host @ CHR '']'' # CHR '':'' # port) (CHR '']'') = Some (CHR ''['' # host, CHR '':'' # port)"
    using Cut_append [of "CHR '']''" "CHR ''['' # host" "CHR '':'' # port"] assms(2) by simp
  ultimately show ?thesis using assms by (simp add: SplitHostPort_def)
qed

end
