(* ===== verification/Config.thy ===== *)
theory Config
  imports GoStrings Errors NetIP
begin

text \<open>
  Configuration from environment variables (\<^verbatim>\<open>internal/idp/config.go\<close>). The environment is a function from names to
  values (\<^verbatim>\<open>os.Getenv\<close> gives the empty string for an unset variable).
  Go's \<^verbatim>\<open>int\<close> and \<^verbatim>\<open>time.Duration\<close> are 64-bit, and the multiplication of seconds into nanoseconds wraps.
\<close>

section \<open>Model\<close>

record Config =
  cfg_Host :: string
  cfg_Port :: string
  cfg_Issuer :: string
  cfg_ClientsFile :: string
  cfg_Title :: string
  cfg_Subtitle :: string
  cfg_RSAPeM :: string
  cfg_KeyDir :: string
  cfg_TrustedProxies :: "string list"
  cfg_AccessTokenTTL :: duration
  cfg_RefreshTokenTTL :: duration
  cfg_LoginRateLimit :: int

type_synonym environ = "string \<Rightarrow> string"

definition wrap64 :: "int \<Rightarrow> int" where
  "wrap64 n = (n + 2 ^ 63) mod 2 ^ 64 - 2 ^ 63"

definition removedVariables :: "string list" where
  "removedVariables =
     [''IDP_USERNAME'', ''IDP_PASSWORD'', ''IDP_PASSWORD_BCRYPT'', ''IDP_PASSWORD_FILE'',
      ''IDP_CLIENT_ID'', ''IDP_AUDIENCE'', ''IDP_CLIENT_SECRET'', ''ALLOWED_REDIRECTS'',
      ''IDP_ALLOWED_ORIGINS'', ''IDP_USERS_FILE'', ''MINIDP_MODE'']"

definition rejectRemovedVariables :: "environ \<Rightarrow> idp_error option" where
  "rejectRemovedVariables getenv =
     firstErr (\<lambda>removed. if getenv removed \<noteq> [] then Some errRemovedVariable else None) removedVariables"

definition envOr :: "environ \<Rightarrow> string \<Rightarrow> string \<Rightarrow> string" where
  "envOr getenv key def = (let v = getenv key in if v \<noteq> [] then v else def)"

definition envInt :: "environ \<Rightarrow> string \<Rightarrow> int \<Rightarrow> idp_error + int" where
  "envInt getenv key def =
     (let v = getenv key
      in if v = [] then Inr def
         else case ParseInt v of
                None \<Rightarrow> Inl errIntNotWholeNumber
              | Some n \<Rightarrow> if n \<le> 0 then Inl errIntNotPositive else Inr n)"

definition envDurationSeconds :: "environ \<Rightarrow> string \<Rightarrow> int \<Rightarrow> idp_error + duration" where
  "envDurationSeconds getenv key def =
     (case envInt getenv key def of Inl e \<Rightarrow> Inl e | Inr n \<Rightarrow> Inr (wrap64 (n * second)))"

fun proxyLoop :: "string list \<Rightarrow> string list \<Rightarrow> idp_error + string list" where
  "proxyLoop out [] = Inr out"
| "proxyLoop out (part # parts) =
     (let c = TrimSpace part
      in if c = [] then proxyLoop out parts
         else if ParseCIDR c = None then Inl (errUpstream ''net'')
         else proxyLoop (out @ [c]) parts)"

definition parseTrustedProxies :: "string \<Rightarrow> idp_error + string list" where
  "parseTrustedProxies raw =
     (if TrimSpace raw = [] then Inr [] else proxyLoop [] (Split raw (CHR '','')))"

definition LoadConfig :: "environ \<Rightarrow> idp_error + Config" where
  "LoadConfig getenv =
     (case rejectRemovedVariables getenv of
        Some e \<Rightarrow> Inl e
      | None \<Rightarrow>
     (case envDurationSeconds getenv ''IDP_ACCESS_TOKEN_TTL'' 3600 of
        Inl e \<Rightarrow> Inl e
      | Inr accessTokenTTL \<Rightarrow>
     (case envDurationSeconds getenv ''IDP_REFRESH_TOKEN_TTL'' 7200 of
        Inl e \<Rightarrow> Inl e
      | Inr refreshTokenTTL \<Rightarrow>
     (case envInt getenv ''IDP_LOGIN_RATE_LIMIT'' 20 of
        Inl e \<Rightarrow> Inl e
      | Inr loginRateLimit \<Rightarrow>
          let cfg = \<lparr>cfg_Host = envOr getenv ''IDP_HOST'' ''0.0.0.0'', cfg_Port = envOr getenv ''IDP_PORT'' ''8080'',
                     cfg_Issuer = envOr getenv ''IDP_ISSUER'' ''http://localhost:8080'',
                     cfg_ClientsFile = getenv ''IDP_CLIENTS_FILE'', cfg_Title = envOr getenv ''IDP_TITLE'' ''minidp'',
                     cfg_Subtitle = envOr getenv ''IDP_SUBTITLE'' ''Sign in to continue'',
                     cfg_RSAPeM = getenv ''IDP_RSA_PEM'', cfg_KeyDir = getenv ''IDP_KEY_DIR'', cfg_TrustedProxies = [],
                     cfg_AccessTokenTTL = accessTokenTTL, cfg_RefreshTokenTTL = refreshTokenTTL,
                     cfg_LoginRateLimit = loginRateLimit\<rparr>
          in if cfg_ClientsFile cfg = [] then Inl errClientsFileUnset
             else case parseTrustedProxies (getenv ''TRUSTED_PROXIES'') of
                    Inl e \<Rightarrow> Inl e
                  | Inr proxies \<Rightarrow> Inr (cfg\<lparr>cfg_TrustedProxies := proxies\<rparr>)))))"

definition LoadKeyRetention :: "environ \<Rightarrow> idp_error + duration" where
  "LoadKeyRetention getenv =
     (if getenv ''IDP_KEY_RETENTION'' \<noteq> [] then
        (case envInt getenv ''IDP_KEY_RETENTION'' 0 of Inl e \<Rightarrow> Inl e | Inr n \<Rightarrow> Inr (wrap64 (n * second)))
      else
        (case envDurationSeconds getenv ''IDP_ACCESS_TOKEN_TTL'' 3600 of
           Inl e \<Rightarrow> Inl e
         | Inr access \<Rightarrow>
             (case envDurationSeconds getenv ''IDP_REFRESH_TOKEN_TTL'' 7200 of
                Inl e \<Rightarrow> Inl e
              | Inr refresh \<Rightarrow> Inr (wrap64 (access + refresh + 5 * minute)))))"

section \<open>Properties\<close>

lemma wrap64_id: "inInt64 n \<Longrightarrow> wrap64 n = n"
  by (simp add: wrap64_def inInt64_def)

lemma envInt_positive: "envInt getenv key def = Inr n \<Longrightarrow> 0 < def \<Longrightarrow> 0 < n"
  by (auto simp: envInt_def Let_def split: if_splits option.splits)

lemma envDurationSeconds_exact:
  assumes "envDurationSeconds getenv key def = Inr t" "envInt getenv key def = Inr n" "n \<le> 9223372036" "0 < def"
  shows "t = n * second \<and> 0 < t"
proof -
  have "0 < n" using envInt_positive [OF assms(2,4)] .
  then have "inInt64 (n * second)" using assms(3) by (simp add: inInt64_def)
  with assms \<open>0 < n\<close> show ?thesis by (simp add: envDurationSeconds_def wrap64_id)
qed

lemma proxyLoop_Inr: "proxyLoop out parts = Inr res \<Longrightarrow> \<forall>c \<in> set out. ParseCIDR c \<noteq> None \<Longrightarrow> \<forall>c \<in> set res. ParseCIDR c \<noteq> None"
  by (induction out parts rule: proxyLoop.induct) (auto simp: Let_def split: if_splits)

lemma parseTrustedProxies_valid: "parseTrustedProxies raw = Inr res \<Longrightarrow> \<forall>c \<in> set res. ParseCIDR c \<noteq> None"
  using proxyLoop_Inr [of "[]"] by (auto simp: parseTrustedProxies_def split: if_splits)

text \<open>
  Configuration fails fast: when a configuration loads, none of the removed variables is set, the clients file is
  named, every trusted proxy is a valid CIDR range, the login rate limit is positive, and both token lifetimes
  are positive as long as the configured numbers of seconds fit into a 64-bit nanosecond duration.
\<close>

theorem config_fails_fast:
  assumes "LoadConfig getenv = Inr cfg"
  shows "(\<forall>v \<in> set removedVariables. getenv v = []) \<and> cfg_ClientsFile cfg \<noteq> [] \<and> (\<forall>c \<in> set (cfg_TrustedProxies cfg). ParseCIDR c \<noteq> None)
    \<and> 0 < cfg_LoginRateLimit cfg
    \<and> (\<forall>n. envInt getenv ''IDP_ACCESS_TOKEN_TTL'' 3600 = Inr n \<and> n \<le> 9223372036 \<longrightarrow> cfg_AccessTokenTTL cfg = n * second \<and> 0 < cfg_AccessTokenTTL cfg)
    \<and> (\<forall>n. envInt getenv ''IDP_REFRESH_TOKEN_TTL'' 7200 = Inr n \<and> n \<le> 9223372036 \<longrightarrow> cfg_RefreshTokenTTL cfg = n * second \<and> 0 < cfg_RefreshTokenTTL cfg)"
proof -
  from assms obtain a r l p where c: "rejectRemovedVariables getenv = None"
    "envDurationSeconds getenv ''IDP_ACCESS_TOKEN_TTL'' 3600 = Inr a"
    "envDurationSeconds getenv ''IDP_REFRESH_TOKEN_TTL'' 7200 = Inr r"
    "envInt getenv ''IDP_LOGIN_RATE_LIMIT'' 20 = Inr l" "parseTrustedProxies (getenv ''TRUSTED_PROXIES'') = Inr p"
    "cfg_ClientsFile cfg \<noteq> []" "cfg_TrustedProxies cfg = p" "cfg_AccessTokenTTL cfg = a" "cfg_RefreshTokenTTL cfg = r" "cfg_LoginRateLimit cfg = l"
    by (auto simp: LoadConfig_def Let_def split: option.splits sum.splits if_splits)
  have "\<forall>v \<in> set removedVariables. getenv v = []"
    using c(1) unfolding rejectRemovedVariables_def firstErr_None by (simp split: if_splits)
  moreover have "\<forall>x \<in> set p. ParseCIDR x \<noteq> None" using parseTrustedProxies_valid [OF c(5)] .
  moreover have "0 < l" using envInt_positive [OF c(4)] by simp
  moreover have "a = n * second \<and> 0 < a" if "envInt getenv ''IDP_ACCESS_TOKEN_TTL'' 3600 = Inr n" "n \<le> 9223372036" for n
    using envDurationSeconds_exact [OF c(2) that] by simp
  moreover have "r = n * second \<and> 0 < r" if "envInt getenv ''IDP_REFRESH_TOKEN_TTL'' 7200 = Inr n" "n \<le> 9223372036" for n
    using envDurationSeconds_exact [OF c(3) that] by simp
  ultimately show ?thesis
    unfolding c(7-10) using c(6) by blast
qed

definition sampleEnv :: environ where
  "sampleEnv name = (if name = ''IDP_CLIENTS_FILE'' then ''/etc/clients.json'' else [])"

lemma sampleEnv_loads: "\<exists>cfg. LoadConfig sampleEnv = Inr cfg"
  by (simp add: LoadConfig_def rejectRemovedVariables_def removedVariables_def envDurationSeconds_def envInt_def
      parseTrustedProxies_def sampleEnv_def TrimSpace_def TrimLeftSpace.simps [of "[]"] TrimRightSpace.simps [of "[]"])

theorem config_fails_fast_witness:
  "\<exists>cfg. LoadConfig sampleEnv = Inr cfg \<and> cfg_AccessTokenTTL cfg = 3600 * second \<and> 0 < cfg_LoginRateLimit cfg"
proof -
  obtain cfg where cfg: "LoadConfig sampleEnv = Inr cfg" using sampleEnv_loads by blast
  have "envInt sampleEnv ''IDP_ACCESS_TOKEN_TTL'' 3600 = Inr 3600" by (simp add: envInt_def sampleEnv_def)
  with config_fails_fast [OF cfg] cfg show ?thesis by auto
qed

text \<open>
  Beyond that bound the contract breaks: a lifetime of 9223372037 seconds is accepted as a positive number
  but becomes a negative duration.
\<close>

theorem lifetime_wraps:
  "envDurationSeconds (\<lambda>_. ''9223372037'') key def = Inr (- 9223372036709551616)"
proof -
  have "ParseInt ''9223372037'' = Some 9223372037"
    by (simp add: ParseInt_def digitVal_def less_eq_char_def inInt64_def)
  then show ?thesis by (simp add: envDurationSeconds_def envInt_def wrap64_def)
qed

end
