(* ===== verification/Web.thy ===== *)
theory Web
  imports Files
begin

text \<open>
  The login page's data and assets (\<^verbatim>\<open>internal/idp/web.go\<close>). The files embedded in the binary and the operator's
  directory are both directories of the kind of theory \<open>Files\<close>. In a response a rendered page is the data the template is
  executed with; its bytes are in theory \<open>LoginPage\<close>.
\<close>

section \<open>Model\<close>

record loginTemplate =
  lt_title :: string
  lt_subtitle :: string
  lt_css :: string
  lt_logo :: string

record loginField =
  lf_Name :: string
  lf_Value :: string

record loginData =
  ld_Title :: string
  ld_Subtitle :: string
  ld_Action :: string
  ld_Error :: string
  ld_Username :: string
  ld_CSRFToken :: string
  ld_Message :: string
  ld_Hidden :: "loginField list"

definition emptyLoginData :: loginData where
  "emptyLoginData = \<lparr>ld_Title = [], ld_Subtitle = [], ld_Action = [], ld_Error = [], ld_Username = [], ld_CSRFToken = [],
     ld_Message = [], ld_Hidden = []\<rparr>"

text \<open>What \<^verbatim>\<open>os.OpenRoot\<close> on the asset directory gives: it does not exist, cannot be opened, or is a directory.\<close>

datatype assetRoot = NoAssetDir | BadAssetDir | AssetDir dir

abbreviation (input) assetOverrideLimit :: nat where "assetOverrideLimit \<equiv> 2097152"

definition readAssetOverride :: "assetRoot \<Rightarrow> string \<Rightarrow> idp_error + string option" where
  "readAssetOverride root name =
     (case root of
        NoAssetDir \<Rightarrow> Inr None
      | BadAssetDir \<Rightarrow> Inl (errUpstream ''open'')
      | AssetDir d \<Rightarrow>
          (case d name of
             None \<Rightarrow> Inr None
           | Some Unreadable \<Rightarrow> Inl (errUpstream ''read'')
           | Some (Contents data) \<Rightarrow>
               if length data > assetOverrideLimit then Inl errAssetOverrideTooLarge else Inr (Some data)))"

definition loadAsset :: "dir \<Rightarrow> assetRoot \<Rightarrow> string \<Rightarrow> string \<Rightarrow> idp_error + string" where
  "loadAsset webFS root name embedded =
     (case readAssetOverride root name of
        Inl e \<Rightarrow> Inl e
      | Inr (Some data) \<Rightarrow> Inr data
      | Inr None \<Rightarrow>
          (case webFS embedded of
             Some (Contents data) \<Rightarrow> Inr data
           | _ \<Rightarrow> Inl (errUpstream ''embed'')))"

text \<open>\<open>parses\<close> says whether \<^verbatim>\<open>html/template\<close> accepts the embedded page.\<close>

definition newLoginTemplate :: "bool \<Rightarrow> dir \<Rightarrow> assetRoot \<Rightarrow> string \<Rightarrow> string \<Rightarrow> idp_error + loginTemplate" where
  "newLoginTemplate parses webFS root title subtitle =
     (if \<not> parses then Inl (errUpstream ''html/template'')
      else case loadAsset webFS root ''login.css'' ''web/login.css'' of
             Inl e \<Rightarrow> Inl e
           | Inr css \<Rightarrow>
               (case loadAsset webFS root ''logo.svg'' ''web/logo.svg'' of
                  Inl e \<Rightarrow> Inl e
                | Inr logo \<Rightarrow> Inr \<lparr>lt_title = title, lt_subtitle = subtitle, lt_css = css, lt_logo = logo\<rparr>))"

text \<open>The data \<^verbatim>\<open>render\<close> hands to the template.\<close>

definition render :: "loginTemplate \<Rightarrow> loginData \<Rightarrow> loginData" where
  "render lt data =
     data\<lparr>ld_Title := (if ld_Title data = [] then lt_title lt else ld_Title data),
          ld_Subtitle := (if ld_Subtitle data = [] then lt_subtitle lt else ld_Subtitle data)\<rparr>"

section \<open>Asset overrides\<close>

text \<open>An override that exists decides the asset alone: it is used, or it stops the start; the embedded file is only used without one.\<close>

lemma loadAsset_cases:
  "loadAsset webFS root name embedded = Inr data \<longleftrightarrow>
     (case root of
        NoAssetDir \<Rightarrow> webFS embedded = Some (Contents data)
      | BadAssetDir \<Rightarrow> False
      | AssetDir d \<Rightarrow>
          (case d name of
             None \<Rightarrow> webFS embedded = Some (Contents data)
           | Some n \<Rightarrow> n = Contents data \<and> length data \<le> assetOverrideLimit))"
  by (auto simp: loadAsset_def readAssetOverride_def split: assetRoot.splits option.splits node.splits)

end
