(* ===== verification/Tokens.thy ===== *)
theory Tokens
  imports Clients Keys CSRF RateLimit Config Web
begin

text \<open>
  Tokens (\<^verbatim>\<open>internal/idp/tokens.go\<close>) and the server state they are issued from (\<^verbatim>\<open>internal/idp/server.go\<close>).

  The JWT library is the record \<open>jwt_lib\<close>: the JSON object of the registered claims, signing, parsing, and the two claim
  readers the code calls. A call's clock readings and random bytes come from an \<open>env\<close>, numbered in the order in
  which the code asks for them.
\<close>

section \<open>The server\<close>

record Server =
  sv_keys :: keySet
  sv_store :: store
  sv_template :: loginTemplate
  sv_csrf :: csrfManager
  sv_limiter :: "loginLimiter option"
  sv_clients :: clientRegistry
  sv_allowedOrigins :: "string \<Rightarrow> bool"
  sv_cfg :: Config

record env =
  e_now :: "nat \<Rightarrow> time"
  e_rand :: "nat \<Rightarrow> string option"

text \<open>The readings that are left after the first \<open>k\<close> ones.\<close>

definition later :: "nat \<Rightarrow> env \<Rightarrow> env" where
  "later k e = \<lparr>e_now = (\<lambda>i. e_now e (k + i)), e_rand = (\<lambda>i. e_rand e (k + i))\<rparr>"

lemma later_readings [simp]: "e_now (later k e) i = e_now e (k + i)" "e_rand (later k e) i = e_rand e (k + i)"
  by (simp_all add: later_def)

record authContext =
  cx_Sub :: string
  cx_ClientID :: string
  cx_Nonce :: string
  cx_Family :: string
  cx_Scopes :: "string list"

section \<open>The JWT library\<close>

record registeredClaims =
  rg_Issuer :: string
  rg_Subject :: string
  rg_Audience :: "string list"
  rg_ExpiresAt :: time
  rg_NotBefore :: time
  rg_IssuedAt :: time
  rg_ID :: string

record parseOpts =
  po_ValidMethods :: "string list"
  po_Issuer :: "string option"
  po_ExpirationRequired :: bool
  po_WithoutClaimsValidation :: bool

record parsedToken =
  pt_Valid :: bool
  pt_Header :: jsonMap
  pt_MapClaims :: "jsonMap option"

record jwt_lib =
  jwtRegistered :: "registeredClaims \<Rightarrow> jsonMap"
  jwtSign :: jwt_signer
  jwtParse :: "parseOpts \<Rightarrow> (jsonMap \<Rightarrow> idp_error + publicKey) \<Rightarrow> time \<Rightarrow> string \<Rightarrow> parsedToken option"
  jwtAudience :: "jsonMap \<Rightarrow> string list option"
  jwtExpiry :: "jsonMap \<Rightarrow> time option option"

section \<open>Claims\<close>

record tokenResponse =
  tr_AccessToken :: string
  tr_IDToken :: string
  tr_RefreshToken :: string
  tr_TokenType :: string
  tr_Scope :: string
  tr_ExpiresIn :: int

record accessClaims =
  acl_Registered :: registeredClaims
  acl_ClientID :: string
  acl_Azp :: string
  acl_Idtyp :: string
  acl_Scp :: string
  acl_Scope :: string
  acl_Username :: string
  acl_Email :: string
  acl_Roles :: "string list"

record idClaims =
  icl_Registered :: registeredClaims
  icl_Azp :: string
  icl_Nonce :: string
  icl_Email :: string
  icl_Name :: string
  icl_PreferredUsername :: string
  icl_SessionID :: string
  icl_Roles :: "string list"

text \<open>The JSON fields by the struct tags; \<^verbatim>\<open>omitempty\<close> drops empty strings and lists.\<close>

definition omitEmpty :: "string \<Rightarrow> string \<Rightarrow> jsonMap" where
  "omitEmpty name v = (if v = [] then [] else [(name, JStr v)])"

definition omitEmptyList :: "string \<Rightarrow> string list \<Rightarrow> jsonMap" where
  "omitEmptyList name vs = (if vs = [] then [] else [(name, JArr (map JStr vs))])"

definition accessJSON :: "jwt_lib \<Rightarrow> accessClaims \<Rightarrow> jsonMap" where
  "accessJSON jl c =
     jwtRegistered jl (acl_Registered c) @ [(''client_id'', JStr (acl_ClientID c))] @ omitEmpty ''azp'' (acl_Azp c)
       @ omitEmpty ''idtyp'' (acl_Idtyp c) @ omitEmpty ''scp'' (acl_Scp c) @ omitEmpty ''scope'' (acl_Scope c)
       @ omitEmpty ''preferred_username'' (acl_Username c) @ omitEmpty ''email'' (acl_Email c)
       @ omitEmptyList ''roles'' (acl_Roles c)"

definition idJSON :: "jwt_lib \<Rightarrow> idClaims \<Rightarrow> jsonMap" where
  "idJSON jl c =
     jwtRegistered jl (icl_Registered c) @ omitEmpty ''azp'' (icl_Azp c) @ omitEmpty ''nonce'' (icl_Nonce c)
       @ omitEmpty ''email'' (icl_Email c) @ omitEmpty ''name'' (icl_Name c)
       @ omitEmpty ''preferred_username'' (icl_PreferredUsername c) @ omitEmpty ''sid'' (icl_SessionID c)
       @ omitEmptyList ''roles'' (icl_Roles c)"

definition tokenResponseJSON :: "tokenResponse \<Rightarrow> jsonMap" where
  "tokenResponseJSON r =
     [(''access_token'', JStr (tr_AccessToken r))] @ omitEmpty ''id_token'' (tr_IDToken r)
       @ omitEmpty ''refresh_token'' (tr_RefreshToken r) @ [(''token_type'', JStr (tr_TokenType r))]
       @ omitEmpty ''scope'' (tr_Scope r) @ [(''expires_in'', JNum (tr_ExpiresIn r))]"

section \<open>Scopes and profiles\<close>

definition hasScope :: "string list \<Rightarrow> string \<Rightarrow> bool" where
  "hasScope scopes want \<longleftrightarrow> want \<in> set scopes"

fun orderScopes :: "string list \<Rightarrow> string list \<Rightarrow> string list" where
  "orderScopes ordered [] = ordered"
| "orderScopes ordered (sc # scs) =
     orderScopes (if sc = [] \<or> sc \<in> set ordered then ordered else ordered @ [sc]) scs"

definition joinScopes :: "string list \<Rightarrow> string" where
  "joinScopes scopes = Join (orderScopes [] scopes) '' ''"

definition shortScopeNames :: "string list \<Rightarrow> string list" where
  "shortScopeNames scopes =
     List.map_filter (\<lambda>sc. case Cut (TrimPrefix sc ''api://'') (CHR ''/'') of
                             Some (_, name) \<Rightarrow> if name \<noteq> [] then Some name else None
                           | None \<Rightarrow> None) scopes"

definition parseScopes :: "string \<Rightarrow> string list" where
  "parseScopes raw =
     (if raw = [] then [''openid'']
      else (let out = filter (\<lambda>p. p \<noteq> []) (Fields raw)
            in if length out = 0 then [''openid''] else out))"

record profileData =
  pf_email :: string
  pf_name :: string
  pf_roles :: "string list"

definition profileFor :: "staticUserStore \<Rightarrow> string \<Rightarrow> bool \<Rightarrow> bool \<Rightarrow> profileData" where
  "profileFor users sub wantProfile wantEmail =
     (case Lookup users sub of
        None \<Rightarrow> \<lparr>pf_email = [], pf_name = [], pf_roles = []\<rparr>
      | Some u \<Rightarrow> \<lparr>pf_email = (if wantEmail then u_Email u else []), pf_name = (if wantProfile then u_Name u else []),
                   pf_roles = u_Roles u\<rparr>)"

definition registeredClaims :: "Server \<Rightarrow> string \<Rightarrow> string \<Rightarrow> string \<Rightarrow> time \<Rightarrow> time \<Rightarrow> registeredClaims" where
  "registeredClaims sv aud sub jti now expires =
     \<lparr>rg_Issuer = cfg_Issuer (sv_cfg sv), rg_Subject = sub, rg_Audience = [aud], rg_ExpiresAt = expires,
      rg_NotBefore = now, rg_IssuedAt = now, rg_ID = jti\<rparr>"

definition newAccessClaims :: "registeredClaims \<Rightarrow> string \<Rightarrow> string list \<Rightarrow> bool \<Rightarrow> profileData \<Rightarrow> accessClaims" where
  "newAccessClaims rc clientID scopes wantProfile p =
     \<lparr>acl_Registered = rc, acl_ClientID = clientID, acl_Azp = clientID, acl_Idtyp = ''user'',
      acl_Scp = Join (shortScopeNames scopes) '' '', acl_Scope = joinScopes scopes,
      acl_Username = (if wantProfile then rg_Subject rc else []), acl_Email = pf_email p, acl_Roles = pf_roles p\<rparr>"

definition newIDClaims :: "registeredClaims \<Rightarrow> string \<Rightarrow> string \<Rightarrow> string \<Rightarrow> bool \<Rightarrow> profileData \<Rightarrow> idClaims" where
  "newIDClaims rc azp nonce family wantProfile p =
     \<lparr>icl_Registered = rc, icl_Azp = azp, icl_Nonce = nonce, icl_Email = pf_email p,
      icl_Name = (if wantProfile then pf_name p else []),
      icl_PreferredUsername = (if wantProfile then rg_Subject rc else []), icl_SessionID = family, icl_Roles = pf_roles p\<rparr>"

text \<open>\<^verbatim>\<open>int(d.Seconds())\<close>: the conversion truncates.\<close>

definition wholeSeconds :: "duration \<Rightarrow> int" where
  "wholeSeconds d = (let s = Seconds d in if 0 \<le> s then \<lfloor>s\<rfloor> else \<lceil>s\<rceil>)"

section \<open>Issuing\<close>

definition randomJTI :: "string option \<Rightarrow> idp_error + string" where
  "randomJTI b = (case b of None \<Rightarrow> Inl (errUpstream ''crypto/rand'') | Some bs \<Rightarrow> Inr (EncodeToString bs))"

definition issueIDToken :: "jwt_lib \<Rightarrow> string option \<Rightarrow> Server \<Rightarrow> authContext \<Rightarrow> string \<Rightarrow> time \<Rightarrow> time \<Rightarrow> bool \<Rightarrow> profileData \<Rightarrow>
    idp_error + string" where
  "issueIDToken jl rnd sv ctx aud now expires wantProfile profile =
     (case randomJTI rnd of
        Inl e \<Rightarrow> Inl e
      | Inr idJTI \<Rightarrow>
          (let rc = registeredClaims sv aud (cx_Sub ctx) idJTI now expires;
               ic = newIDClaims rc (cx_ClientID ctx) (cx_Nonce ctx) (cx_Family ctx) wantProfile profile
           in sign (jwtSign jl) (sv_keys sv) (idJSON jl ic)))"

text \<open>
  Readings: \<open>e_now 0\<close> is \<^verbatim>\<open>now\<close>, \<open>e_now 1\<close> and \<open>e_now 2\<close> are the two of \<open>addRefresh\<close>; \<open>e_rand 0\<close> and \<open>e_rand 1\<close> are the two
  jti values, \<open>e_rand 2\<close> the refresh token.
\<close>

definition issueTokens :: "jwt_lib \<Rightarrow> env \<Rightarrow> authContext \<Rightarrow> Server \<Rightarrow> (idp_error + tokenResponse) \<times> Server" where
  "issueTokens jl e ctx sv =
     (case lookup (sv_clients sv) (cx_ClientID ctx) of
        None \<Rightarrow> (Inl errTokensUnregCli, sv)
      | Some client \<Rightarrow>
          (let now = e_now e 0;
               accessExpires = now + cfg_AccessTokenTTL (sv_cfg sv)
           in case randomJTI (e_rand e 0) of
                Inl err \<Rightarrow> (Inl err, sv)
              | Inr jti \<Rightarrow>
                  (let wantProfile = hasScope (cx_Scopes ctx) ''profile'';
                       wantEmail = hasScope (cx_Scopes ctx) ''email'';
                       profile = profileFor (rc_users client) (cx_Sub ctx) wantProfile wantEmail;
                       rc = registeredClaims sv (rc_Audience client) (cx_Sub ctx) jti now accessExpires;
                       access = newAccessClaims rc (rc_ID client) (cx_Scopes ctx) wantProfile profile
                   in case signAccess (jwtSign jl) (sv_keys sv) (accessJSON jl access) of
                        Inl err \<Rightarrow> (Inl err, sv)
                      | Inr accessTokenString \<Rightarrow>
                          (let sv1 = sv\<lparr>sv_store := registerJTI (rg_ID rc) (cx_Sub ctx) (cx_Family ctx) accessExpires (sv_store sv)\<rparr>
                           in case (if hasScope (cx_Scopes ctx) ''openid''
                                    then issueIDToken jl (e_rand e 1) sv1 ctx (rc_ID client) now accessExpires wantProfile profile
                                    else Inr []) of
                                Inl err \<Rightarrow> (Inl err, sv1)
                              | Inr idToken \<Rightarrow>
                                  (case addRefresh (e_now e 1) (e_rand e 2) (e_now e 2)
                                          \<lparr>re_ExpiresAt = 0, re_Sub = cx_Sub ctx, re_ClientID = cx_ClientID ctx, re_Nonce = cx_Nonce ctx,
                                           re_Family = cx_Family ctx, re_Scopes = cx_Scopes ctx\<rparr>
                                          (cfg_RefreshTokenTTL (sv_cfg sv)) (sv_store sv1) of
                                     (Inl err, st) \<Rightarrow> (Inl err, sv1\<lparr>sv_store := st\<rparr>)
                                   | (Inr rtok, st) \<Rightarrow>
                                       (Inr \<lparr>tr_AccessToken = accessTokenString, tr_IDToken = idToken, tr_RefreshToken = rtok,
                                             tr_TokenType = ''Bearer'', tr_Scope = joinScopes (cx_Scopes ctx),
                                             tr_ExpiresIn = wholeSeconds (cfg_AccessTokenTTL (sv_cfg sv))\<rparr>,
                                        sv1\<lparr>sv_store := st\<rparr>))))))"

definition issueClientCredentialsTokens :: "jwt_lib \<Rightarrow> env \<Rightarrow> registeredClient \<Rightarrow> string list \<Rightarrow> Server \<Rightarrow>
    (idp_error + tokenResponse) \<times> Server" where
  "issueClientCredentialsTokens jl e client scopes sv =
     (let now = e_now e 0;
          expires = now + cfg_AccessTokenTTL (sv_cfg sv)
      in case randomJTI (e_rand e 0) of
           Inl err \<Rightarrow> (Inl err, sv)
         | Inr jti \<Rightarrow>
             (let access = \<lparr>acl_Registered = registeredClaims sv (rc_Audience client) (rc_ID client) jti now expires,
                            acl_ClientID = rc_ID client, acl_Azp = rc_ID client, acl_Idtyp = ''app'', acl_Scp = [],
                            acl_Scope = joinScopes scopes, acl_Username = [], acl_Email = [],
                            acl_Roles = clientCredentialsRoles client\<rparr>
              in case signAccess (jwtSign jl) (sv_keys sv) (accessJSON jl access) of
                   Inl err \<Rightarrow> (Inl err, sv)
                 | Inr accessTokenString \<Rightarrow>
                     (Inr \<lparr>tr_AccessToken = accessTokenString, tr_IDToken = [], tr_RefreshToken = [],
                           tr_TokenType = ''Bearer'', tr_Scope = joinScopes scopes,
                           tr_ExpiresIn = wholeSeconds (cfg_AccessTokenTTL (sv_cfg sv))\<rparr>,
                      sv\<lparr>sv_store := registerJTI jti (rc_ID client) [] expires (sv_store sv)\<rparr>)))"

section \<open>The scope claim\<close>

lemma orderScopes_facts:
  "distinct ordered \<Longrightarrow> distinct (orderScopes ordered scs)"
  "[] \<notin> set scs \<Longrightarrow> set (orderScopes ordered scs) = set ordered \<union> set scs"
  by (induction ordered scs rule: orderScopes.induct) auto

lemma orderScopes_distinct: "distinct (ordered @ scs) \<Longrightarrow> [] \<notin> set scs \<Longrightarrow> orderScopes ordered scs = ordered @ scs"
  by (induction ordered scs rule: orderScopes.induct) auto

lemma orderScopes_ne: "scs \<noteq> [] \<Longrightarrow> [] \<notin> set scs \<Longrightarrow> orderScopes [] scs \<noteq> []"
  using orderScopes_facts(2) [of scs "[]"] by auto

lemma parseScopes_words: "w \<in> set (parseScopes raw) \<Longrightarrow> w \<noteq> [] \<and> spaceFree w"
proof -
  have "spaceFree ''openid''" by code_simp
  then show "w \<in> set (parseScopes raw) \<Longrightarrow> w \<noteq> [] \<and> spaceFree w"
    using Fields_words [of w raw] by (auto simp: parseScopes_def Let_def split: if_splits)
qed

lemma parseScopes_ne: "parseScopes raw \<noteq> []"
  by (simp add: parseScopes_def Let_def)

lemma parseScopes_Join:
  assumes "ws \<noteq> []" "\<forall>w \<in> set ws. w \<noteq> [] \<and> spaceFree w"
  shows "parseScopes (Join ws '' '') = ws"
proof -
  have "Join ws '' '' \<noteq> []" using assms by (cases ws; cases "tl ws") auto
  with assms Fields_Join [OF assms(2)] show ?thesis
    by (simp add: parseScopes_def Let_def filter_True)
qed

lemma parseScopes_joinScopes:
  assumes "scs \<noteq> []" "\<forall>w \<in> set scs. w \<noteq> [] \<and> spaceFree w"
  shows "parseScopes (joinScopes scs) = orderScopes [] scs"
proof -
  have ne: "[] \<notin> set scs" using assms(2) by auto
  show ?thesis
    unfolding joinScopes_def
    using assms orderScopes_ne [OF assms(1) ne] orderScopes_facts(2) [OF ne, of "[]"] by (intro parseScopes_Join) auto
qed

text \<open>
  The scope claim survives its round trip: whatever scope string an authorization request carried, the scopes that the
  resource endpoints read back from the \<^verbatim>\<open>scope\<close> claim of the token are the granted ones, each once,
  in the granted order; in particular a scope is found in the token exactly when it was granted, and joining again
  gives the same claim.
\<close>

theorem scope_claim_roundtrip:
  "parseScopes (joinScopes (parseScopes raw)) = orderScopes [] (parseScopes raw)
   \<and> distinct (parseScopes (joinScopes (parseScopes raw)))
   \<and> (hasScope (parseScopes (joinScopes (parseScopes raw))) sc \<longleftrightarrow> hasScope (parseScopes raw) sc)
   \<and> joinScopes (parseScopes (joinScopes (parseScopes raw))) = joinScopes (parseScopes raw)"
proof -
  let ?p = "parseScopes raw"
  have words: "\<forall>w \<in> set ?p. w \<noteq> [] \<and> spaceFree w" using parseScopes_words by blast
  then have ne: "[] \<notin> set ?p" by auto
  have eq: "parseScopes (joinScopes ?p) = orderScopes [] ?p"
    by (rule parseScopes_joinScopes [OF parseScopes_ne words])
  have d: "distinct (orderScopes [] ?p)" and s: "set (orderScopes [] ?p) = set ?p"
    using orderScopes_facts(1) [of "[]" ?p] orderScopes_facts(2) [OF ne, of "[]"] by simp_all
  have "orderScopes [] (orderScopes [] ?p) = orderScopes [] ?p"
    using orderScopes_distinct [of "[]" "orderScopes [] ?p"] d s ne by simp
  then show ?thesis
    using eq d s by (simp add: hasScope_def joinScopes_def)
qed

section \<open>What issuing does\<close>

lemma signAccess_Inr:
  "signAccess signer ks claims = Inr tok \<longleftrightarrow>
     (\<exists>k. ks_active ks = Some k \<and> signTyped signer k claims typAccessToken = Inr tok)"
  by (auto simp: signAccess_def split: option.splits)

lemma sign_Inr:
  "sign signer ks claims = Inr tok \<longleftrightarrow> (\<exists>k. ks_active ks = Some k \<and> signTyped signer k claims typIDToken = Inr tok)"
  by (auto simp: sign_def split: option.splits)

text \<open>The claims a token set is minted with.\<close>

definition mintedAccess :: "env \<Rightarrow> authContext \<Rightarrow> registeredClient \<Rightarrow> string \<Rightarrow> Server \<Rightarrow> accessClaims" where
  "mintedAccess e ctx client jti sv =
     newAccessClaims (registeredClaims sv (rc_Audience client) (cx_Sub ctx) jti (e_now e 0) (e_now e 0 + cfg_AccessTokenTTL (sv_cfg sv)))
       (rc_ID client) (cx_Scopes ctx) (hasScope (cx_Scopes ctx) ''profile'')
       (profileFor (rc_users client) (cx_Sub ctx) (hasScope (cx_Scopes ctx) ''profile'') (hasScope (cx_Scopes ctx) ''email''))"

definition mintedID :: "env \<Rightarrow> authContext \<Rightarrow> registeredClient \<Rightarrow> string \<Rightarrow> Server \<Rightarrow> idClaims" where
  "mintedID e ctx client jti sv =
     newIDClaims (registeredClaims sv (rc_ID client) (cx_Sub ctx) jti (e_now e 0) (e_now e 0 + cfg_AccessTokenTTL (sv_cfg sv)))
       (cx_ClientID ctx) (cx_Nonce ctx) (cx_Family ctx) (hasScope (cx_Scopes ctx) ''profile'')
       (profileFor (rc_users client) (cx_Sub ctx) (hasScope (cx_Scopes ctx) ''profile'') (hasScope (cx_Scopes ctx) ''email''))"

definition refreshFor :: "authContext \<Rightarrow> time \<Rightarrow> refreshEntry" where
  "refreshFor ctx t = \<lparr>re_ExpiresAt = t, re_Sub = cx_Sub ctx, re_ClientID = cx_ClientID ctx, re_Nonce = cx_Nonce ctx,
     re_Family = cx_Family ctx, re_Scopes = cx_Scopes ctx\<rparr>"

lemma mintedID_fields:
  "rg_Subject (icl_Registered (mintedID e ctx client j sv)) = cx_Sub ctx"
  "rg_Audience (icl_Registered (mintedID e ctx client j sv)) = [rc_ID client]"
  "icl_Nonce (mintedID e ctx client j sv) = cx_Nonce ctx" "icl_SessionID (mintedID e ctx client j sv) = cx_Family ctx"
  by (simp_all add: mintedID_def newIDClaims_def registeredClaims_def)

lemma mintedAccess_fields:
  "rg_Subject (acl_Registered (mintedAccess e ctx client j sv)) = cx_Sub ctx"
  "rg_Audience (acl_Registered (mintedAccess e ctx client j sv)) = [rc_Audience client]"
  "rg_ID (acl_Registered (mintedAccess e ctx client j sv)) = j"
  "rg_Issuer (acl_Registered (mintedAccess e ctx client j sv)) = cfg_Issuer (sv_cfg sv)"
  "rg_ExpiresAt (acl_Registered (mintedAccess e ctx client j sv)) = e_now e 0 + cfg_AccessTokenTTL (sv_cfg sv)"
  "acl_Scope (mintedAccess e ctx client j sv) = joinScopes (cx_Scopes ctx)" "acl_ClientID (mintedAccess e ctx client j sv) = rc_ID client"
  by (simp_all add: mintedAccess_def newAccessClaims_def registeredClaims_def)

lemma issueIDToken_minted:
  "issueIDToken jl rnd (sv\<lparr>sv_store := st\<rparr>) ctx (rc_ID client) (e_now e 0) (e_now e 0 + cfg_AccessTokenTTL (sv_cfg sv))
     (hasScope (cx_Scopes ctx) ''profile'')
     (profileFor (rc_users client) (cx_Sub ctx) (hasScope (cx_Scopes ctx) ''profile'') (hasScope (cx_Scopes ctx) ''email'')) =
   (case randomJTI rnd of Inl err \<Rightarrow> Inl err
    | Inr idJTI \<Rightarrow> sign (jwtSign jl) (sv_keys sv) (idJSON jl (mintedID e ctx client idJTI sv)))"
  by (simp add: issueIDToken_def mintedID_def registeredClaims_def Let_def split: sum.splits)

lemma issueTokens_cases:
  obtains (unregistered) "lookup (sv_clients sv) (cx_ClientID ctx) = None" "issueTokens jl e ctx sv = (Inl errTokensUnregCli, sv)"
  | (early) err where "issueTokens jl e ctx sv = (Inl err, sv)"
  | (registered) client jti tok where "lookup (sv_clients sv) (cx_ClientID ctx) = Some client" "randomJTI (e_rand e 0) = Inr jti"
      "signAccess (jwtSign jl) (sv_keys sv) (accessJSON jl (mintedAccess e ctx client jti sv)) = Inr tok"
      "issueTokens jl e ctx sv =
         (let sv1 = sv\<lparr>sv_store := registerJTI jti (cx_Sub ctx) (cx_Family ctx) (e_now e 0 + cfg_AccessTokenTTL (sv_cfg sv)) (sv_store sv)\<rparr>
          in case (if hasScope (cx_Scopes ctx) ''openid''
                   then (case randomJTI (e_rand e 1) of Inl err \<Rightarrow> Inl err
                         | Inr idJTI \<Rightarrow> sign (jwtSign jl) (sv_keys sv) (idJSON jl (mintedID e ctx client idJTI sv)))
                   else Inr []) of
               Inl err \<Rightarrow> (Inl err, sv1)
             | Inr idToken \<Rightarrow>
                 (case addRefresh (e_now e 1) (e_rand e 2) (e_now e 2) (refreshFor ctx 0) (cfg_RefreshTokenTTL (sv_cfg sv)) (sv_store sv1) of
                    (Inl err, st) \<Rightarrow> (Inl err, sv1\<lparr>sv_store := st\<rparr>)
                  | (Inr rtok, st) \<Rightarrow>
                      (Inr \<lparr>tr_AccessToken = tok, tr_IDToken = idToken, tr_RefreshToken = rtok, tr_TokenType = ''Bearer'',
                            tr_Scope = joinScopes (cx_Scopes ctx), tr_ExpiresIn = wholeSeconds (cfg_AccessTokenTTL (sv_cfg sv))\<rparr>,
                       sv1\<lparr>sv_store := st\<rparr>)))"
proof (cases "lookup (sv_clients sv) (cx_ClientID ctx)")
  case None
  then show ?thesis using unregistered by (simp add: issueTokens_def)
next
  case (Some client)
  show ?thesis
  proof (cases "randomJTI (e_rand e 0)")
    case (Inl err)
    then show ?thesis using early Some by (simp add: issueTokens_def Let_def)
  next
    case (Inr jti)
    show ?thesis
    proof (cases "signAccess (jwtSign jl) (sv_keys sv) (accessJSON jl (mintedAccess e ctx client jti sv))")
      case (Inl err)
      then show ?thesis using early Some Inr by (simp add: issueTokens_def Let_def mintedAccess_def)
    next
      case tok: (Inr tok)
      have jti: "rg_ID (registeredClaims sv aud sub jti now ex) = jti" for aud sub now ex
        by (simp add: registeredClaims_def)
      show ?thesis
        by (rule registered [OF Some Inr tok], use Some Inr tok in \<open>simp add: issueTokens_def Let_def mintedAccess_def refreshFor_def jti
          issueIDToken_minted del: One_nat_def cong: if_cong sum.case_cong prod.case_cong\<close>)
    qed
  qed
qed

lemma addRefresh_Inr:
  "addRefresh n1 rnd n2 f ttl s = (Inr tok, s') \<longleftrightarrow>
     randomToken rnd = Inr tok \<and> s' = (dropExpired n1 s)\<lparr>refresh := (refresh (dropExpired n1 s))(tok \<mapsto> f\<lparr>re_ExpiresAt := n2 + ttl\<rparr>)\<rparr>"
  by (auto simp: addRefresh_def Let_def split: sum.splits)

text \<open>The store after a token set was issued.\<close>

definition storeAfterIssue :: "env \<Rightarrow> authContext \<Rightarrow> string \<Rightarrow> string \<Rightarrow> Server \<Rightarrow> store" where
  "storeAfterIssue e ctx jti rtok sv =
     (let s = dropExpired (e_now e 1)
                (registerJTI jti (cx_Sub ctx) (cx_Family ctx) (e_now e 0 + cfg_AccessTokenTTL (sv_cfg sv)) (sv_store sv))
      in s\<lparr>refresh := (refresh s)(rtok \<mapsto> refreshFor ctx (e_now e 2 + cfg_RefreshTokenTTL (sv_cfg sv)))\<rparr>)"

lemma issueTokens_done:
  assumes "issueTokens jl e ctx sv = (Inr resp, sv')"
  obtains client jti k where "lookup (sv_clients sv) (cx_ClientID ctx) = Some client" "randomJTI (e_rand e 0) = Inr jti"
    "ks_active (sv_keys sv) = Some k"
    "signTyped (jwtSign jl) k (accessJSON jl (mintedAccess e ctx client jti sv)) typAccessToken = Inr (tr_AccessToken resp)"
    "if hasScope (cx_Scopes ctx) ''openid''
     then \<exists>idJTI. signTyped (jwtSign jl) k (idJSON jl (mintedID e ctx client idJTI sv)) typIDToken = Inr (tr_IDToken resp)
     else tr_IDToken resp = []"
    "randomToken (e_rand e 2) = Inr (tr_RefreshToken resp)" "tr_Scope resp = joinScopes (cx_Scopes ctx)"
    "sv' = sv\<lparr>sv_store := storeAfterIssue e ctx jti (tr_RefreshToken resp) sv\<rparr>"
proof (cases rule: issueTokens_cases [where jl = jl and e = e and ctx = ctx and sv = sv])
  case (registered client jti tok)
  from registered(3) obtain k where k: "ks_active (sv_keys sv) = Some k"
    "signTyped (jwtSign jl) k (accessJSON jl (mintedAccess e ctx client jti sv)) typAccessToken = Inr tok"
    by (auto simp: signAccess_Inr)
  have "tr_AccessToken resp = tok"
    "if hasScope (cx_Scopes ctx) ''openid''
     then \<exists>idJTI. signTyped (jwtSign jl) k (idJSON jl (mintedID e ctx client idJTI sv)) typIDToken = Inr (tr_IDToken resp)
     else tr_IDToken resp = []"
    "randomToken (e_rand e 2) = Inr (tr_RefreshToken resp)" "tr_Scope resp = joinScopes (cx_Scopes ctx)"
    "sv' = sv\<lparr>sv_store := storeAfterIssue e ctx jti (tr_RefreshToken resp) sv\<rparr>"
    using assms registered(4) k(1)
    by (auto simp: Let_def storeAfterIssue_def refreshFor_def addRefresh_Inr sign_Inr split: sum.splits prod.splits if_splits)
  with that registered(1,2) k show ?thesis by metis
qed (use assms in simp_all)

lemma storeAfterIssue_maps:
  "refresh (storeAfterIssue e ctx jti rtok sv) rtok = Some (refreshFor ctx (e_now e 2 + cfg_RefreshTokenTTL (sv_cfg sv)))"
  "k \<noteq> rtok \<Longrightarrow> refresh (storeAfterIssue e ctx jti rtok sv) k = keepWhere (\<lambda>f. e_now e 1 \<le> re_ExpiresAt f) (refresh (sv_store sv)) k"
  "codes (storeAfterIssue e ctx jti rtok sv) = keepWhere (\<lambda>c. e_now e 1 \<le> ac_ExpiresAt c) (codes (sv_store sv))"
  "usedRefresh (storeAfterIssue e ctx jti rtok sv) = keepWhere (\<lambda>f. e_now e 1 \<le> re_ExpiresAt f) (usedRefresh (sv_store sv))"
  "deniedJTI (storeAfterIssue e ctx jti rtok sv) = keepWhere (\<lambda>u. e_now e 1 \<le> u) (deniedJTI (sv_store sv))"
  "accessJTI (storeAfterIssue e ctx jti rtok sv) j =
     (if j = jti then (if e_now e 1 \<le> e_now e 0 + cfg_AccessTokenTTL (sv_cfg sv)
                       then Some \<lparr>jr_exp = e_now e 0 + cfg_AccessTokenTTL (sv_cfg sv), jr_sub = cx_Sub ctx, jr_family = cx_Family ctx\<rparr>
                       else None)
      else keepWhere (\<lambda>r. e_now e 1 \<le> jr_exp r) (accessJTI (sv_store sv)) j)"
  by (simp_all add: storeAfterIssue_def Let_def store_maps registerJTI_def keepWhere_upd keepWhere_def)

text \<open>
  Issued tokens are on record: when a token set is issued for an authorization, the client of the authorization is
  registered; the access token is signed with the active key as an access token, for the client's audience and the
  authorization's subject, and expires after the configured lifetime; an ID token is issued exactly with the \<^verbatim>\<open>openid\<close> scope,
  signed as an ID token for the client, with the nonce of the request and the family as session; the access token's jti is
  registered with the family, so that revoking the family denies it; the refresh token is stored with the subject, client,
  nonce, family and scopes of the authorization; no other refresh token, code or denial appears and nothing else of the server changes.
\<close>

theorem issued_tokens_recorded:
  assumes "issueTokens jl e ctx sv = (Inr resp, sv')"
    and "e_now e 1 \<le> e_now e 0 + cfg_AccessTokenTTL (sv_cfg sv)"
  shows "\<exists>client jti k acl.
      lookup (sv_clients sv) (cx_ClientID ctx) = Some client \<and> ks_active (sv_keys sv) = Some k
      \<and> signTyped (jwtSign jl) k (accessJSON jl acl) typAccessToken = Inr (tr_AccessToken resp)
      \<and> rg_Subject (acl_Registered acl) = cx_Sub ctx \<and> rg_Audience (acl_Registered acl) = [rc_Audience client]
      \<and> rg_ID (acl_Registered acl) = jti \<and> rg_Issuer (acl_Registered acl) = cfg_Issuer (sv_cfg sv)
      \<and> rg_ExpiresAt (acl_Registered acl) = e_now e 0 + cfg_AccessTokenTTL (sv_cfg sv)
      \<and> acl_Scope acl = joinScopes (cx_Scopes ctx) \<and> acl_ClientID acl = rc_ID client
      \<and> (if hasScope (cx_Scopes ctx) ''openid''
         then \<exists>icl. signTyped (jwtSign jl) k (idJSON jl icl) typIDToken = Inr (tr_IDToken resp)
                \<and> rg_Subject (icl_Registered icl) = cx_Sub ctx \<and> rg_Audience (icl_Registered icl) = [rc_ID client]
                \<and> icl_Nonce icl = cx_Nonce ctx \<and> icl_SessionID icl = cx_Family ctx
         else tr_IDToken resp = [])
      \<and> accessJTI (sv_store sv') jti =
          Some \<lparr>jr_exp = rg_ExpiresAt (acl_Registered acl), jr_sub = cx_Sub ctx, jr_family = cx_Family ctx\<rparr>
      \<and> refresh (sv_store sv') (tr_RefreshToken resp) = Some (refreshFor ctx (e_now e 2 + cfg_RefreshTokenTTL (sv_cfg sv)))
      \<and> (\<forall>t f. refresh (sv_store sv') t = Some f \<and> t \<noteq> tr_RefreshToken resp \<longrightarrow> refresh (sv_store sv) t = Some f)
      \<and> codes (sv_store sv') \<subseteq>\<^sub>m codes (sv_store sv) \<and> deniedJTI (sv_store sv') \<subseteq>\<^sub>m deniedJTI (sv_store sv)
      \<and> sv' = sv\<lparr>sv_store := sv_store sv'\<rparr>"
proof -
  obtain client jti k where c: "lookup (sv_clients sv) (cx_ClientID ctx) = Some client" "ks_active (sv_keys sv) = Some k"
    "signTyped (jwtSign jl) k (accessJSON jl (mintedAccess e ctx client jti sv)) typAccessToken = Inr (tr_AccessToken resp)"
    "if hasScope (cx_Scopes ctx) ''openid''
     then \<exists>idJTI. signTyped (jwtSign jl) k (idJSON jl (mintedID e ctx client idJTI sv)) typIDToken = Inr (tr_IDToken resp)
     else tr_IDToken resp = []"
    "sv' = sv\<lparr>sv_store := storeAfterIssue e ctx jti (tr_RefreshToken resp) sv\<rparr>"
    using assms(1) by (rule issueTokens_done)
  have st: "sv_store sv' = storeAfterIssue e ctx jti (tr_RefreshToken resp) sv" by (simp add: c(5))
  have idt: "if hasScope (cx_Scopes ctx) ''openid''
         then \<exists>icl. signTyped (jwtSign jl) k (idJSON jl icl) typIDToken = Inr (tr_IDToken resp)
                \<and> rg_Subject (icl_Registered icl) = cx_Sub ctx \<and> rg_Audience (icl_Registered icl) = [rc_ID client]
                \<and> icl_Nonce icl = cx_Nonce ctx \<and> icl_SessionID icl = cx_Family ctx
         else tr_IDToken resp = []"
  proof (cases "hasScope (cx_Scopes ctx) ''openid''")
    case True
    with c(4) obtain j where "signTyped (jwtSign jl) k (idJSON jl (mintedID e ctx client j sv)) typIDToken = Inr (tr_IDToken resp)" by auto
    then show ?thesis using True mintedID_fields [of e ctx client j sv] by auto
  qed (use c(4) in simp)
  have maps: "refresh (sv_store sv') (tr_RefreshToken resp) = Some (refreshFor ctx (e_now e 2 + cfg_RefreshTokenTTL (sv_cfg sv)))"
    "codes (sv_store sv') \<subseteq>\<^sub>m codes (sv_store sv)" "deniedJTI (sv_store sv') \<subseteq>\<^sub>m deniedJTI (sv_store sv)"
    "accessJTI (sv_store sv') jti =
       Some \<lparr>jr_exp = e_now e 0 + cfg_AccessTokenTTL (sv_cfg sv), jr_sub = cx_Sub ctx, jr_family = cx_Family ctx\<rparr>"
    using assms(2) by (simp_all add: st storeAfterIssue_maps keepWhere_le)
  have others: "\<forall>t f. refresh (sv_store sv') t = Some f \<and> t \<noteq> tr_RefreshToken resp \<longrightarrow> refresh (sv_store sv) t = Some f"
    by (auto simp: st storeAfterIssue_maps)
  have frame: "sv' = sv\<lparr>sv_store := sv_store sv'\<rparr>" by (simp add: c(5))
  show ?thesis
    by (intro exI [of _ client] exI [of _ jti] exI [of _ k] exI [of _ "mintedAccess e ctx client jti sv"])
      (use c(1-3) idt maps others frame in \<open>simp add: mintedAccess_fields\<close>)
qed

section \<open>Profile claims\<close>

text \<open>What a profile holds: nothing without the scope, and the user's own record with it.\<close>

definition releasedBy :: "staticUserStore \<Rightarrow> string \<Rightarrow> string list \<Rightarrow> string \<Rightarrow> (User \<Rightarrow> string) \<Rightarrow> string \<Rightarrow> bool" where
  "releasedBy users sub scopes sc field v \<longleftrightarrow>
     v = (if hasScope scopes sc then (case Lookup users sub of Some u \<Rightarrow> field u | None \<Rightarrow> []) else [])"

lemma minted_released:
  "releasedBy (rc_users client) (cx_Sub ctx) (cx_Scopes ctx) ''email'' u_Email (acl_Email (mintedAccess e ctx client j sv))"
  "releasedBy (rc_users client) (cx_Sub ctx) (cx_Scopes ctx) ''email'' u_Email (icl_Email (mintedID e ctx client j sv))"
  "releasedBy (rc_users client) (cx_Sub ctx) (cx_Scopes ctx) ''profile'' u_Name (icl_Name (mintedID e ctx client j sv))"
  "acl_Username (mintedAccess e ctx client j sv) = (if hasScope (cx_Scopes ctx) ''profile'' then cx_Sub ctx else [])"
  "icl_PreferredUsername (mintedID e ctx client j sv) = (if hasScope (cx_Scopes ctx) ''profile'' then cx_Sub ctx else [])"
  "acl_Roles (mintedAccess e ctx client j sv) = (case Lookup (rc_users client) (cx_Sub ctx) of Some u \<Rightarrow> u_Roles u | None \<Rightarrow> [])"
  "icl_Roles (mintedID e ctx client j sv) = (case Lookup (rc_users client) (cx_Sub ctx) of Some u \<Rightarrow> u_Roles u | None \<Rightarrow> [])"
  by (auto simp: releasedBy_def mintedAccess_def mintedID_def newAccessClaims_def newIDClaims_def profileFor_def registeredClaims_def
      split: option.splits)

text \<open>
  Profile claims follow the granted scopes: whenever a token set is issued, the \<^verbatim>\<open>email\<close> claim of both tokens is the address on
  record with the \<^verbatim>\<open>email\<close> scope and absent without it, and so is the \<^verbatim>\<open>name\<close> claim of the ID token with the \<^verbatim>\<open>profile\<close>
  scope, which also decides about \<^verbatim>\<open>preferred_username\<close>; the record is the one of the subject among the users of the
  client the tokens are for, and the roles are its roles.
\<close>

theorem issued_claims_by_scope:
  assumes "issueTokens jl e ctx sv = (Inr resp, sv')"
  shows "\<exists>client k acl. lookup (sv_clients sv) (cx_ClientID ctx) = Some client
      \<and> signTyped (jwtSign jl) k (accessJSON jl acl) typAccessToken = Inr (tr_AccessToken resp)
      \<and> releasedBy (rc_users client) (cx_Sub ctx) (cx_Scopes ctx) ''email'' u_Email (acl_Email acl)
      \<and> acl_Username acl = (if hasScope (cx_Scopes ctx) ''profile'' then cx_Sub ctx else [])
      \<and> acl_Roles acl = (case Lookup (rc_users client) (cx_Sub ctx) of Some u \<Rightarrow> u_Roles u | None \<Rightarrow> [])
      \<and> (tr_IDToken resp \<noteq> [] \<longrightarrow>
           (\<exists>icl. signTyped (jwtSign jl) k (idJSON jl icl) typIDToken = Inr (tr_IDToken resp)
              \<and> releasedBy (rc_users client) (cx_Sub ctx) (cx_Scopes ctx) ''email'' u_Email (icl_Email icl)
              \<and> releasedBy (rc_users client) (cx_Sub ctx) (cx_Scopes ctx) ''profile'' u_Name (icl_Name icl)
              \<and> icl_PreferredUsername icl = (if hasScope (cx_Scopes ctx) ''profile'' then cx_Sub ctx else [])
              \<and> icl_Roles icl = acl_Roles acl))"
proof -
  obtain client jti k where c: "lookup (sv_clients sv) (cx_ClientID ctx) = Some client"
    "signTyped (jwtSign jl) k (accessJSON jl (mintedAccess e ctx client jti sv)) typAccessToken = Inr (tr_AccessToken resp)"
    "if hasScope (cx_Scopes ctx) ''openid''
     then \<exists>idJTI. signTyped (jwtSign jl) k (idJSON jl (mintedID e ctx client idJTI sv)) typIDToken = Inr (tr_IDToken resp)
     else tr_IDToken resp = []"
    using assms by (rule issueTokens_done)
  have "\<exists>j. signTyped (jwtSign jl) k (idJSON jl (mintedID e ctx client j sv)) typIDToken = Inr (tr_IDToken resp)"
    if "tr_IDToken resp \<noteq> []" using c(3) that by (auto split: if_splits)
  with c(1,2) minted_released show ?thesis by metis
qed

section \<open>A sample server\<close>

text \<open>
  A JWT library whose tokens are the \<^verbatim>\<open>typ\<close> header and the \<^verbatim>\<open>jti\<close> claim, separated by a dot; everything else a parsed token
  holds is fixed, except that a token with the jti \<^verbatim>\<open>bare\<close> has no scopes.
\<close>

definition sampleClaims :: "string \<Rightarrow> jsonMap" where
  "sampleClaims jti = [(''jti'', JStr jti), (''sub'', JStr ''ada''), (''client_id'', JStr ''app''), (''iss'', JStr ''https://idp.example''),
     (''sid'', JStr ''fam'')] @ (if jti = ''bare'' then [] else [(''scope'', JStr ''openid email'')])"

definition sampleJWT :: jwt_lib where
  "sampleJWT = \<lparr>
     jwtRegistered = (\<lambda>rc. [(''jti'', JStr (rg_ID rc)), (''sub'', JStr (rg_Subject rc))]),
     jwtSign = (\<lambda>k header claims. Some (claimString header ''typ'' @ CHR ''.'' # claimString claims ''jti'')),
     jwtParse = (\<lambda>opts key now tok. case Cut tok (CHR ''.'') of
        None \<Rightarrow> None
      | Some (typ, jti) \<Rightarrow>
          Some \<lparr>pt_Valid = True, pt_Header = [(''typ'', JStr typ)], pt_MapClaims = Some (sampleClaims jti)\<rparr>),
     jwtAudience = (\<lambda>_. Some [''app'']),
     jwtExpiry = (\<lambda>_. Some (Some (3600 * second)))\<rparr>"

definition sampleConfig :: Config where
  "sampleConfig = \<lparr>cfg_Host = ''0.0.0.0'', cfg_Port = ''8080'', cfg_Issuer = ''https://idp.example'', cfg_ClientsFile = ''clients.json'',
     cfg_Title = ''T'', cfg_Subtitle = ''S'', cfg_RSAPeM = [], cfg_KeyDir = [], cfg_TrustedProxies = [''10.0.0.0/8''],
     cfg_AccessTokenTTL = 3600 * second, cfg_RefreshTokenTTL = 7200 * second, cfg_LoginRateLimit = 20\<rparr>"

definition sampleServer :: Server where
  "sampleServer = \<lparr>sv_keys = keySetOf \<lparr>sk_key = oldKey, sk_kid = legacyKid, sk_version = ''1.0''\<rparr>, sv_store = newStore,
     sv_template = \<lparr>lt_title = ''T'', lt_subtitle = ''S'', lt_css = [], lt_logo = []\<rparr>,
     sv_csrf = newCSRFManager ''key'' (15 * minute), sv_limiter = None, sv_clients = sampleRegistry,
     sv_allowedOrigins = origins sampleRegistry, sv_cfg = sampleConfig\<rparr>"

text \<open>A clock that stands still and a different random byte at each reading.\<close>

definition sampleEnv0 :: env where
  "sampleEnv0 = \<lparr>e_now = (\<lambda>_. 0), e_rand = (\<lambda>i. Some [char_of (65 + i)])\<rparr>"

definition sampleContext :: authContext where
  "sampleContext = \<lparr>cx_Sub = ''ada'', cx_ClientID = ''app'', cx_Nonce = ''n'', cx_Family = ''fam'', cx_Scopes = [''openid'', ''email'']\<rparr>"

lemma sampleRegistry_lookup:
  "lookup sampleRegistry ''app'' = Some \<lparr>rc_users = the (newStaticUserStore sampleGen [sampleUser]), rc_explicitOrigins = (\<lambda>_. False), rc_client = sampleClient\<rparr>"
  "lookup sampleRegistry ''job'' = Some \<lparr>rc_users = the (newStaticUserStore sampleGen []), rc_explicitOrigins = (\<lambda>_. False), rc_client = sampleService\<rparr>"
  by (simp_all add: sampleRegistry_def Clients.lookup_def registerOne_def emptyRegistry_def sampleClient_fields sampleService_fields
      newStaticUserStore_def newDummyHash_def sampleGen_def Let_def)

lemma sampleServer_fields [simp]:
  "sv_clients sampleServer = sampleRegistry" "sv_store sampleServer = newStore" "sv_cfg sampleServer = sampleConfig"
  "ks_active (sv_keys sampleServer) = Some \<lparr>sk_key = oldKey, sk_kid = legacyKid, sk_version = ''1.0''\<rparr>"
  "sv_csrf sampleServer = newCSRFManager ''key'' (15 * minute)" "sv_limiter sampleServer = None"
  by (simp_all add: sampleServer_def keySetOf_def)

lemma sample_tokens: "EncodeToString ''A'' = ''QQ''" "EncodeToString ''B'' = ''Qg''" "EncodeToString ''C'' = ''Qw''"
  by code_simp+

lemma sample_issues: "\<exists>resp sv'. issueTokens sampleJWT sampleEnv0 sampleContext sampleServer = (Inr resp, sv')"
proof -
  have "randomJTI (e_rand sampleEnv0 i) \<noteq> Inl err" "randomToken (e_rand sampleEnv0 i) \<noteq> Inl err" for i err
    by (simp_all add: randomJTI_def randomToken_def sampleEnv0_def)
  then show ?thesis
    by (auto simp: issueTokens_def sampleContext_def sampleRegistry_lookup Let_def signAccess_def sign_def signTyped_def sampleJWT_def
        issueIDToken_def addRefresh_def split: sum.splits)
qed

theorem issued_tokens_recorded_witness:
  "\<exists>resp sv'. issueTokens sampleJWT sampleEnv0 sampleContext sampleServer = (Inr resp, sv')
     \<and> refresh (sv_store sv') (tr_RefreshToken resp) = Some (refreshFor sampleContext (7200 * second))"
proof -
  obtain resp sv' where i: "issueTokens sampleJWT sampleEnv0 sampleContext sampleServer = (Inr resp, sv')"
    using sample_issues by blast
  have "e_now sampleEnv0 1 \<le> e_now sampleEnv0 0 + cfg_AccessTokenTTL (sv_cfg sampleServer)"
    "e_now sampleEnv0 2 + cfg_RefreshTokenTTL (sv_cfg sampleServer) = 7200 * second"
    by (simp_all add: sampleEnv0_def sampleConfig_def)
  with issued_tokens_recorded [OF i] i show ?thesis by metis
qed

theorem issued_claims_by_scope_witness:
  "\<exists>resp sv' acl. issueTokens sampleJWT sampleEnv0 sampleContext sampleServer = (Inr resp, sv') \<and> acl_Email acl = ''ada@example''
     \<and> (\<exists>k. signTyped (jwtSign sampleJWT) k (accessJSON sampleJWT acl) typAccessToken = Inr (tr_AccessToken resp))"
proof -
  obtain resp sv' where i: "issueTokens sampleJWT sampleEnv0 sampleContext sampleServer = (Inr resp, sv')"
    using sample_issues by blast
  have "releasedBy (the (newStaticUserStore sampleGen [sampleUser])) ''ada'' [''openid'', ''email''] ''email'' u_Email v
      \<longleftrightarrow> v = ''ada@example''" for v
    by (simp add: releasedBy_def hasScope_def Lookup_def newStaticUserStore_def newDummyHash_def sampleGen_def sampleUser_def Let_def)
  then have "\<And>v. releasedBy (the (newStaticUserStore sampleGen [sampleUser])) (cx_Sub sampleContext) (cx_Scopes sampleContext) ''email'' u_Email v
      \<Longrightarrow> v = ''ada@example''"
    by (simp add: sampleContext_def)
  moreover have "lookup (sv_clients sampleServer) (cx_ClientID sampleContext) = Some client \<Longrightarrow> rc_users client = the (newStaticUserStore sampleGen [sampleUser])" for client
    by (simp add: sampleContext_def sampleRegistry_lookup) (metis registeredClient.select_convs(1))
  ultimately show ?thesis using issued_claims_by_scope [OF i] i by metis
qed

end
