(* ===== verification/Jwks.thy ===== *)
theory Jwks
  imports Keys
begin

text \<open>
  The published key set (\<^verbatim>\<open>keySet.JWKS\<close> in \<^verbatim>\<open>internal/idp/key.go\<close>): the bytes of the JWKS document, and what a relying party reads from
  them. The document is always produced, and a reader of it gets exactly the published public keys under their ids.
\<close>

section \<open>The document\<close>

definition jwkT :: gotype where
  "jwkT = KStruct [(''kty'', False, KString), (''use'', True, KString), (''kid'', True, KString), (''alg'', True, KString),
     (''n'', False, KString), (''e'', False, KString)]"

definition jwkOf :: "signingKey \<Rightarrow> gval" where
  "jwkOf k =
     VStruct [VString ''RSA'', VString ''sig'', VString (sk_kid k), VString ''RS256'',
       VString (EncodeToString (bigBytes (rk_N (sk_key k)))), VString (EncodeToString (bigBytes (rk_E (sk_key k))))]"

definition jwksT :: gotype where
  "jwksT = KStruct [(''keys'', False, KSlice jwkT)]"

definition JWKS :: "keySet \<Rightarrow> idp_error + string" where
  "JWKS ks =
     (case MarshalIndent jwksT (VStruct [VSlice (map jwkOf (ks_published ks)) []]) of
        None \<Rightarrow> Inl (errUpstream ''encoding/json'')
      | Some out \<Rightarrow> Inr out)"

section \<open>A relying party\<close>

definition bigNum :: "string \<Rightarrow> nat" where
  "bigNum bs = foldl (\<lambda>n c. n * 256 + of_char c) 0 bs"

definition partyKey :: "gval \<Rightarrow> (string \<times> publicKey) option" where
  "partyKey v =
     (let f = \<lambda>i. textOf (partsOf v ! i)
      in case (DecodeString (f 4), DecodeString (f 5)) of
           (Some n, Some e) \<Rightarrow> Some (f 2, \<lparr>pk_N = bigNum n, pk_E = bigNum e\<rparr>)
         | _ \<Rightarrow> None)"

definition partyKeys :: "string \<Rightarrow> (string \<times> publicKey) list option" where
  "partyKeys doc =
     (case Unmarshal jwksT doc of
        None \<Rightarrow> None
      | Some v \<Rightarrow> those (map partyKey (partsOf (partsOf v ! 0))))"

section \<open>The keys are recovered\<close>

lemma bigNum_bigBytes: "bigNum (bigBytes n) = n"
proof (induction n rule: bigBytes.induct)
  case (1 n)
  show ?case
  proof (cases "n = 0")
    case True
    then show ?thesis by (simp add: bigBytes.simps bigNum_def)
  next
    case False
    then have "bigNum (bigBytes n) = bigNum (bigBytes (n div 256)) * 256 + n mod 256"
      by (simp add: bigBytes.simps [of n] bigNum_def)
    with 1 False show ?thesis by simp
  qed
qed

lemma encoded_utf8: "validUTF8 (EncodeToString bs)"
proof -
  have "octet (b64Char n) < 0x80" if "n < 64" for n
    using that by (auto simp: b64Char_def)
  then show ?thesis by (intro validUTF8_ascii) (auto dest!: EncodeToString_chars)
qed

lemma typed_jwk: "hasType (\<lambda>_. True) jwkT (jwkOf k)"
  by (simp add: jwkT_def jwkOf_def)

lemma typed_jwks: "hasType (\<lambda>_. True) jwksT (VStruct [VSlice (map jwkOf ks) []])"
  using typed_jwk by (simp add: jwksT_def list_all_iff)

lemma JWKS_total: "\<exists>doc. JWKS ks = Inr doc"
proof -
  have "timeless jwksT" by (simp add: jwksT_def jwkT_def)
  then obtain j where "encode jwksT (VStruct [VSlice (map jwkOf (ks_published ks)) []]) = Some j"
    using encode_total [OF _ typed_jwks] by blast
  then show ?thesis by (simp add: JWKS_def MarshalIndent_def)
qed

lemma partyKey_jwk: "partyKey (normalVal jwkT (jwkOf k)) = Some (coerceUTF8 (sk_kid k), PublicKey (sk_key k))"
proof -
  have "coerceUTF8 (EncodeToString bs) = EncodeToString bs" for bs using encoded_utf8 by (simp add: coerce_valid)
  moreover have "coerceUTF8 [] = []" by (simp add: coerce_valid)
  ultimately show ?thesis
    by (auto simp: jwkT_def jwkOf_def partyKey_def DecodeString_EncodeToString bigNum_bigBytes PublicKey_def)
qed

lemma those_Some: "those (map (\<lambda>x. Some (f x)) xs) = Some (map f xs)"
  by (induction xs) auto

lemma party_reads:
  assumes "JWKS ks = Inr doc"
  shows "partyKeys doc = Some (map (\<lambda>k. (coerceUTF8 (sk_kid k), PublicKey (sk_key k))) (ks_published ks))"
proof -
  let ?v = "VStruct [VSlice (map jwkOf (ks_published ks)) []]"
  have "plainType jwksT" "typeFits jwksT maxNestingDepth"
    by (simp_all add: jwksT_def jwkT_def validUTF8_ascii maxNestingDepth_def)
  moreover have "MarshalIndent jwksT ?v = Some doc" using assms by (auto simp: JWKS_def split: option.splits)
  ultimately have "Unmarshal jwksT (doc @ []) = Some (normalVal jwksT ?v)"
    using typed_jwks by (intro MarshalIndent_Unmarshal) simp_all
  then show ?thesis by (simp add: partyKeys_def jwksT_def comp_def partyKey_jwk those_Some)
qed

lemma party_lookup:
  "\<forall>k \<in> set xs. validUTF8 (sk_kid k) \<Longrightarrow>
   map_of (map (\<lambda>k. (coerceUTF8 (sk_kid k), PublicKey (sk_key k))) xs) kid = map_option (\<lambda>k. PublicKey (sk_key k)) (find (\<lambda>k. sk_kid k = kid) xs)"
  by (induction xs) (auto simp: coerce_valid [THEN iffD2])

text \<open>
  C20. The JWKS document is always produced, and a relying party that reads it gets exactly the published keys: modulus and exponent of each, in
  order, under its id. If the ids are valid UTF-8, the party looks up the same key for every id as the server itself.
\<close>

theorem jwks_recovers_keys:
  "\<exists>doc. JWKS ks = Inr doc
     \<and> partyKeys doc = Some (map (\<lambda>k. (coerceUTF8 (sk_kid k), PublicKey (sk_key k))) (ks_published ks))
     \<and> ((\<forall>k \<in> set (ks_published ks). validUTF8 (sk_kid k)) \<longrightarrow>
          (\<forall>header. verifyKey ks header =
             (case map_of (the (partyKeys doc)) (claimString header ''kid'') of None \<Rightarrow> Inl errUnknownKid | Some pub \<Rightarrow> Inr pub)))"
proof -
  obtain doc where doc: "JWKS ks = Inr doc" using JWKS_total by blast
  note reads = party_reads [OF doc]
  have "verifyKey ks header =
      (case map_of (the (partyKeys doc)) (claimString header ''kid'') of None \<Rightarrow> Inl errUnknownKid | Some pub \<Rightarrow> Inr pub)"
    if "\<forall>k \<in> set (ks_published ks). validUTF8 (sk_kid k)" for header
    unfolding reads option.sel party_lookup [OF that] by (simp add: verifyKey_def split: option.split)
  with doc reads show ?thesis by blast
qed

theorem jwks_recovers_keys_witness:
  "verifyKey (keySetOf \<lparr>sk_key = oldKey, sk_kid = legacyKid, sk_version = ''1.0''\<rparr>) [(''kid'', JStr legacyKid)] = Inr (PublicKey oldKey)"
proof -
  let ?ks = "keySetOf \<lparr>sk_key = oldKey, sk_kid = legacyKid, sk_version = ''1.0''\<rparr>"
  have v: "validUTF8 legacyKid" by (simp add: validUTF8_ascii)
  obtain doc where "partyKeys doc = Some (map (\<lambda>k. (coerceUTF8 (sk_kid k), PublicKey (sk_key k))) (ks_published ?ks))"
    "(\<forall>k \<in> set (ks_published ?ks). validUTF8 (sk_kid k)) \<longrightarrow>
       (\<forall>header. verifyKey ?ks header =
          (case map_of (the (partyKeys doc)) (claimString header ''kid'') of None \<Rightarrow> Inl errUnknownKid | Some pub \<Rightarrow> Inr pub))"
    using jwks_recovers_keys [of ?ks] by blast
  with v show ?thesis by (simp add: keySetOf_def claimString_def coerce_valid [THEN iffD2])
qed

end
