(* ===== verification/Http.thy ===== *)
theory Http
  imports Tokens Jwks
begin

text \<open>
  Requests and responses as the handlers see them, the response writers, the client address, authentication of users and the
  CORS wrapper (\<^verbatim>\<open>internal/idp/server.go\<close>, \<^verbatim>\<open>internal/idp/discovery.go\<close>).

  A request holds what \<^verbatim>\<open>net/http\<close> offers of it: the parsed query, the parsed body (with a flag for a parse
  error), header access, basic credentials and the login cookie. A response is a status, headers and a body that keeps
  the value before it is rendered. URL parsing and printing, bcrypt and the JWT library are the
  record \<open>libs\<close>. Log output is left out.
\<close>

section \<open>Requests, responses, libraries\<close>

record libs =
  lb_jwt :: jwt_lib
  lb_url :: url_parser
  lb_urlString :: "url \<Rightarrow> string"
  lb_bcrypt :: "string \<Rightarrow> string \<Rightarrow> bool"

record request =
  rq_Method :: string
  rq_RemoteAddr :: string
  rq_Header :: "string \<Rightarrow> string"
  rq_URLQuery :: Values
  rq_PostForm :: Values
  rq_ParseFormErr :: bool
  rq_BasicAuth :: "(string \<times> string) option"
  rq_Cookie :: "string option"

datatype body = NoBody | JSONBody jsonMap | PageBody loginData | TextBody string

record response =
  rs_Status :: nat
  rs_Header :: "(string \<times> string) list"
  rs_Body :: body

text \<open>\<^verbatim>\<open>r.Form\<close> after \<^verbatim>\<open>ParseForm\<close>: the body's values before the query's.\<close>

definition rq_Form :: "request \<Rightarrow> Values" where
  "rq_Form r = fold (\<lambda>(k, vs) form. fold (AddValue k) vs form) (rq_URLQuery r) (rq_PostForm r)"

section \<open>Writers\<close>

definition writeJSON :: "(string \<times> string) list \<Rightarrow> nat \<Rightarrow> jsonMap \<Rightarrow> response" where
  "writeJSON hdr status v = \<lparr>rs_Status = status, rs_Header = hdr @ [(''Content-Type'', ''application/json'')], rs_Body = JSONBody v\<rparr>"

definition writeError :: "(string \<times> string) list \<Rightarrow> nat \<Rightarrow> string \<Rightarrow> string \<Rightarrow> response" where
  "writeError hdr status errCode desc =
     writeJSON hdr status [(''error'', JStr errCode), (''error_description'', JStr desc)]"

definition writeAuthError :: "(string \<times> string) list \<Rightarrow> string \<Rightarrow> string \<Rightarrow> response" where
  "writeAuthError hdr errCode desc = writeError hdr 400 errCode desc"

definition httpError :: "(string \<times> string) list \<Rightarrow> string \<Rightarrow> nat \<Rightarrow> response" where
  "httpError hdr msg status = \<lparr>rs_Status = status, rs_Header = hdr @ [(''Content-Type'', ''text/plain; charset=utf-8''), (''X-Content-Type-Options'', ''nosniff'')],
     rs_Body = TextBody (msg @ [CHR 0x0A])\<rparr>"

text \<open>\<^verbatim>\<open>http.Redirect\<close> to an absolute URL: bytes outside ASCII are percent-escaped. The short HTML note it adds for \<^verbatim>\<open>GET\<close> is left out.\<close>

definition hexEscapeNonASCII :: "string \<Rightarrow> string" where
  "hexEscapeNonASCII s = concat (map (\<lambda>c. if c < CHR 0x80 then [c] else CHR ''%'' # hexString [c]) s)"

definition httpRedirect :: "string \<Rightarrow> response" where
  "httpRedirect url = \<lparr>rs_Status = 302, rs_Header = [(''Location'', hexEscapeNonASCII url)], rs_Body = NoBody\<rparr>"

section \<open>The client address\<close>

definition ipTrusted :: "Server \<Rightarrow> nat list \<Rightarrow> bool" where
  "ipTrusted sv ip =
     list_ex (\<lambda>cidr. case ParseCIDR cidr of Some network \<Rightarrow> Contains network ip | None \<Rightarrow> False) (cfg_TrustedProxies (sv_cfg sv))"

fun forwardedLoop :: "Server \<Rightarrow> string \<Rightarrow> string list \<Rightarrow> string" where
  "forwardedLoop sv host [] = host"
| "forwardedLoop sv host (part # parts) =
     (let candidate = TrimSpace part
      in case ParseIP candidate of
           None \<Rightarrow> forwardedLoop sv host parts
         | Some cIP \<Rightarrow> if \<not> ipTrusted sv cIP then candidate else forwardedLoop sv host parts)"

definition forwardedClientIP :: "Server \<Rightarrow> string \<Rightarrow> string \<Rightarrow> string" where
  "forwardedClientIP sv xff host = forwardedLoop sv host (rev (Split xff (CHR '','')))"

definition clientIP :: "Server \<Rightarrow> request \<Rightarrow> string" where
  "clientIP sv r =
     (let host = (case SplitHostPort (rq_RemoteAddr r) of Some h \<Rightarrow> h | None \<Rightarrow> rq_RemoteAddr r)
      in case ParseIP host of
           None \<Rightarrow> host
         | Some ip \<Rightarrow>
             if \<not> ipTrusted sv ip then host
             else (let xff = rq_Header r ''X-Forwarded-For''
                   in if xff \<noteq> [] then forwardedClientIP sv xff host
                      else (let realIP = TrimSpace (rq_Header r ''X-Real-IP'')
                            in if realIP \<noteq> [] then
                                 (case ParseIP realIP of
                                    Some parsed \<Rightarrow> if \<not> ipTrusted sv parsed then realIP else host
                                  | None \<Rightarrow> host)
                               else host)))"

section \<open>User authentication\<close>

record subject =
  sj_Sub :: string
  sj_Email :: string
  sj_Name :: string

text \<open>\<^term>\<open>None\<close> when the credentials are refused; the comparison with the dummy hash for an unknown user has no result.\<close>

definition authenticate :: "libs \<Rightarrow> registeredClient \<Rightarrow> string \<Rightarrow> string \<Rightarrow> subject option" where
  "authenticate lb client username password =
     (case Lookup (rc_users client) username of
        None \<Rightarrow> None
      | Some u \<Rightarrow>
          if \<not> verifyHash (lb_bcrypt lb) (u_PasswordHash u) password then None
          else Some \<lparr>sj_Sub = u_Username u, sj_Email = u_Email u, sj_Name = u_Name u\<rparr>)"

section \<open>CORS\<close>

definition contentSecurityPolicy :: string where
  "contentSecurityPolicy = ''default-src 'self'; style-src 'self'; img-src 'self'; frame-ancestors 'none'; base-uri 'self'' @ [CHR 0x27]"

definition corsHeaders :: "Server \<Rightarrow> request \<Rightarrow> (string \<times> string) list" where
  "corsHeaders sv r =
     (let origin = rq_Header r ''Origin''
      in [(''Content-Security-Policy'', contentSecurityPolicy), (''X-Frame-Options'', ''DENY''), (''X-Content-Type-Options'', ''nosniff''),
          (''Referrer-Policy'', ''strict-origin-when-cross-origin'')]
         @ (if origin \<noteq> [] \<and> sv_allowedOrigins sv (TrimSuffix origin ''/'')
            then [(''Access-Control-Allow-Origin'', origin), (''Access-Control-Allow-Credentials'', ''true''), (''Vary'', ''Origin'')]
            else [])
         @ [(''Access-Control-Allow-Methods'', ''GET, POST, OPTIONS''),
            (''Access-Control-Allow-Headers'', ''Content-Type, Authorization'')])"

definition withCORS :: "(request \<Rightarrow> Server \<Rightarrow> response \<times> Server) \<Rightarrow> request \<Rightarrow> Server \<Rightarrow> response \<times> Server" where
  "withCORS handler r sv =
     (if rq_Method r = ''OPTIONS''
      then (\<lparr>rs_Status = 204, rs_Header = corsHeaders sv r, rs_Body = NoBody\<rparr>, sv)
      else (case handler r sv of (resp, sv') \<Rightarrow> (resp\<lparr>rs_Header := corsHeaders sv r @ rs_Header resp\<rparr>, sv')))"

section \<open>Static files and the liveness probe\<close>

definition handleStaticCSS :: "request \<Rightarrow> Server \<Rightarrow> response \<times> Server" where
  "handleStaticCSS r sv =
     (\<lparr>rs_Status = 200, rs_Header = [(''Content-Type'', ''text/css; charset=utf-8'')], rs_Body = TextBody (lt_css (sv_template sv))\<rparr>, sv)"

definition handleStaticLogo :: "request \<Rightarrow> Server \<Rightarrow> response \<times> Server" where
  "handleStaticLogo r sv =
     (\<lparr>rs_Status = 200, rs_Header = [(''Content-Type'', ''image/svg+xml'')], rs_Body = TextBody (lt_logo (sv_template sv))\<rparr>, sv)"

definition handleHealthz :: "request \<Rightarrow> Server \<Rightarrow> response \<times> Server" where
  "handleHealthz r sv = (\<lparr>rs_Status = 200, rs_Header = [], rs_Body = TextBody ''ok''\<rparr>, sv)"

section \<open>Discovery, keys and readiness\<close>

definition grantTypesSupported :: "Server \<Rightarrow> string list" where
  "grantTypesSupported sv =
     [GrantAuthorizationCode, GrantRefreshToken] @ (if anyClientCredentials (sv_clients sv) then [GrantClientCredentials] else [])"

definition scopesSupported :: "Server \<Rightarrow> string list" where
  "scopesSupported sv = [''openid'', ''profile'', ''email''] @ delegatedScopes (sv_clients sv)"

abbreviation strs :: "string list \<Rightarrow> json" where
  "strs xs \<equiv> JArr (map JStr xs)"

definition discoveryDocument :: "Server \<Rightarrow> jsonMap" where
  "discoveryDocument sv =
     (let iss = cfg_Issuer (sv_cfg sv);
          clientAuthMethods = [''none''] @ (if anyConfidential (sv_clients sv) then [''client_secret_basic'', ''client_secret_post''] else [])
      in [(''issuer'', JStr iss),
          (''authorization_endpoint'', JStr (iss @ ''/authorize'')),
          (''token_endpoint'', JStr (iss @ ''/token'')),
          (''jwks_uri'', JStr (iss @ ''/jwks'')),
          (''userinfo_endpoint'', JStr (iss @ ''/userinfo'')),
          (''revocation_endpoint'', JStr (iss @ ''/revoke'')),
          (''introspection_endpoint'', JStr (iss @ ''/introspect'')),
          (''end_session_endpoint'', JStr (iss @ ''/end_session'')),
          (''response_types_supported'', strs [''code'']),
          (''grant_types_supported'', strs (grantTypesSupported sv)),
          (''subject_types_supported'', strs [''public'']),
          (''id_token_signing_alg_values_supported'', strs [''RS256'']),
          (''token_endpoint_auth_methods_supported'', strs clientAuthMethods),
          (''revocation_endpoint_auth_methods_supported'', strs clientAuthMethods),
          (''introspection_endpoint_auth_methods_supported'', strs clientAuthMethods),
          (''code_challenge_methods_supported'', strs [''S256'']),
          (''scopes_supported'', strs (scopesSupported sv)),
          (''claims_supported'',
             strs [''iss'', ''sub'', ''aud'', ''exp'', ''iat'', ''nbf'', ''client_id'', ''azp'', ''scp'', ''roles'', ''idtyp'',
                   ''nonce'', ''preferred_username'', ''email'', ''name''])])"

definition handleDiscovery :: "request \<Rightarrow> Server \<Rightarrow> response \<times> Server" where
  "handleDiscovery r sv = (writeJSON [] 200 (discoveryDocument sv), sv)"

definition handleJWKS :: "request \<Rightarrow> Server \<Rightarrow> response \<times> Server" where
  "handleJWKS r sv = 
     (case JWKS (sv_keys sv) of
        Inl err \<Rightarrow> (httpError [] ''internal error'' 500, sv)
      | Inr jwks \<Rightarrow> (\<lparr>rs_Status = 200, rs_Header = [(''Content-Type'', ''application/json'')], rs_Body = TextBody jwks\<rparr>, sv))"

text \<open>The discovery document always renders, so the second failure branch of the readiness probe is not reachable.\<close>

definition handleReadyz :: "request \<Rightarrow> Server \<Rightarrow> response \<times> Server" where
  "handleReadyz r sv =
     (if length (ks_published (sv_keys sv)) = 0
      then (writeJSON [] 503 [(''status'', JStr ''not ready''), (''reason'', JStr ''no signing key published in the JWKS'')], sv)
      else (writeJSON [] 200 [(''status'', JStr ''ready''), (''published_keys'', JNum (int (length (ks_published (sv_keys sv)))))], sv))"

section \<open>The client address cannot be forged\<close>

text \<open>The socket peer, and whether it is a trusted proxy.\<close>

definition peerHost :: "request \<Rightarrow> string" where
  "peerHost r = (case SplitHostPort (rq_RemoteAddr r) of Some h \<Rightarrow> h | None \<Rightarrow> rq_RemoteAddr r)"

definition foreign :: "Server \<Rightarrow> string \<Rightarrow> bool" where
  "foreign sv a \<longleftrightarrow> (case ParseIP a of Some ip \<Rightarrow> \<not> ipTrusted sv ip | None \<Rightarrow> False)"

definition proxyPeer :: "Server \<Rightarrow> request \<Rightarrow> bool" where
  "proxyPeer sv r \<longleftrightarrow> (case ParseIP (peerHost r) of Some ip \<Rightarrow> ipTrusted sv ip | None \<Rightarrow> False)"

lemma forwardedLoop_find:
  "forwardedLoop sv host parts = (case find (\<lambda>p. foreign sv (TrimSpace p)) parts of Some p \<Rightarrow> TrimSpace p | None \<Rightarrow> host)"
  by (induction parts) (auto simp: foreign_def Let_def split: option.splits)

lemma clientIP_alt:
  "clientIP sv r =
     (if \<not> proxyPeer sv r then peerHost r
      else if rq_Header r ''X-Forwarded-For'' \<noteq> []
      then (case find (\<lambda>p. foreign sv (TrimSpace p)) (rev (Split (rq_Header r ''X-Forwarded-For'') (CHR '','')))
            of Some p \<Rightarrow> TrimSpace p | None \<Rightarrow> peerHost r)
      else if foreign sv (TrimSpace (rq_Header r ''X-Real-IP'')) \<and> TrimSpace (rq_Header r ''X-Real-IP'') \<noteq> []
      then TrimSpace (rq_Header r ''X-Real-IP'') else peerHost r)"
  by (auto simp: clientIP_def proxyPeer_def peerHost_def forwardedClientIP_def forwardedLoop_find foreign_def Let_def
      split: option.splits)

lemma find_append: "find P (xs @ ys) = (case find P xs of Some x \<Rightarrow> Some x | None \<Rightarrow> find P ys)"
  by (induction xs) auto

lemma clientIP_prepended:
  assumes "proxyPeer sv r" "rq_Header r ''X-Forwarded-For'' = forged @ CHR '','' # chain" "chain \<noteq> []"
    and "\<exists>p \<in> set (Split chain (CHR '','')). foreign sv (TrimSpace p)"
  shows "clientIP sv r = clientIP sv (r\<lparr>rq_Header := (rq_Header r)(''X-Forwarded-For'' := chain)\<rparr>)"
proof -
  let ?r = "r\<lparr>rq_Header := (rq_Header r)(''X-Forwarded-For'' := chain)\<rparr>"
  have same: "peerHost ?r = peerHost r" "proxyPeer sv ?r = proxyPeer sv r"
    by (simp_all add: proxyPeer_def peerHost_def split: option.splits)
  have "find (\<lambda>p. foreign sv (TrimSpace p)) (rev (Split chain (CHR '',''))) \<noteq> None"
    using assms(4) by (auto simp: find_None_iff)
  then obtain p where "find (\<lambda>p. foreign sv (TrimSpace p)) (rev (Split chain (CHR '',''))) = Some p" by blast
  with assms show ?thesis by (simp add: clientIP_alt same Split_append find_append)
qed

text \<open>
  C29. The address that the rate limiter works with cannot be chosen by the client: a request that does not come from a trusted
  proxy counts under its socket address whatever headers it carries; behind a trusted proxy, entries that the client puts in
  front of a forwarded-for chain with a foreign address in it change nothing; and the address is always either the socket peer
  or a well-formed address outside the trusted ranges.
\<close>

theorem client_address_unforgeable:
  "(\<not> proxyPeer sv r \<longrightarrow> clientIP sv r = peerHost r)
   \<and> (proxyPeer sv r \<and> rq_Header r ''X-Forwarded-For'' = forged @ CHR '','' # chain \<and> chain \<noteq> []
        \<and> (\<exists>p \<in> set (Split chain (CHR '','')). foreign sv (TrimSpace p)) \<longrightarrow>
        clientIP sv r = clientIP sv (r\<lparr>rq_Header := (rq_Header r)(''X-Forwarded-For'' := chain)\<rparr>))
   \<and> (clientIP sv r = peerHost r \<or> foreign sv (clientIP sv r))"
proof (intro conjI impI)
  show "\<not> proxyPeer sv r \<Longrightarrow> clientIP sv r = peerHost r" by (simp add: clientIP_alt)
  show "clientIP sv r = peerHost r \<or> foreign sv (clientIP sv r)"
    by (auto simp: clientIP_alt find_Some_iff split: option.splits)
qed (use clientIP_prepended in blast)

text \<open>
  The configured ranges are honoured bit for bit: among the addresses that parse, IPv4 ranges trust exactly the IPv4 addresses (written as
  such or in their IPv6 form) whose leading bits are those of a range.
\<close>

theorem trusted_by_prefix:
  assumes "cfg_TrustedProxies (sv_cfg sv) = map (\<lambda>(bs, n). cidr bs n) nets"
    and "\<forall>(bs, n) \<in> set nets. length bs = 4 \<and> bytes bs \<and> n \<le> 32" "ParseIP a = Some ip"
  shows "ipTrusted sv ip \<longleftrightarrow>
    take 12 ip = v4InV6Prefix \<and> (\<exists>(bs, n) \<in> set nets. addrNum (drop 12 ip) div 2 ^ (32 - n) = addrNum bs div 2 ^ (32 - n))"
proof -
  have "(case ParseCIDR (case x of (bs, n) \<Rightarrow> cidr bs n) of Some network \<Rightarrow> Contains network ip | None \<Rightarrow> False) \<longleftrightarrow>
      take 12 ip = v4InV6Prefix \<and> (case x of (bs, n) \<Rightarrow> addrNum (drop 12 ip) div 2 ^ (32 - n) = addrNum bs div 2 ^ (32 - n))"
    if "x \<in> set nets" for x
    using assms(2) that ParseIP_bytes [OF assms(3)] by (auto simp: ParseCIDR_cidr Contains_cidr)
  then show ?thesis
    by (auto simp: ipTrusted_def assms(1) list_ex_iff)
qed

section \<open>Sample libraries and requests\<close>

definition sampleLibs :: libs where
  "sampleLibs = \<lparr>lb_jwt = sampleJWT, lb_url = sampleURL,
     lb_urlString = (\<lambda>u. u_Scheme u @ ''://'' @ u_Host u @ u_Rest u @ (if u_RawQuery u = [] then [] else CHR ''?'' # u_RawQuery u)),
     lb_bcrypt = (\<lambda>hash pw. pw = ''pw'')\<rparr>"

definition sampleRequest :: request where
  "sampleRequest = \<lparr>rq_Method = ''POST'', rq_RemoteAddr = ''10.0.0.1:5000'', rq_Header = (\<lambda>_. []), rq_URLQuery = [], rq_PostForm = [],
     rq_ParseFormErr = False, rq_BasicAuth = None, rq_Cookie = None\<rparr>"

lemma sample_addrs:
  "ParseIP ''10.0.0.1'' = Some (v4InV6Prefix @ [10, 0, 0, 1])" "ParseIP ''203.0.113.7'' = Some (v4InV6Prefix @ [203, 0, 113, 7])"
  "SplitHostPort ''10.0.0.1:5000'' = Some ''10.0.0.1''" "[''10.0.0.0/8''] = map (\<lambda>(bs, n). cidr bs n) [([10, 0, 0, 0], 8)]"
  by code_simp+

lemma sample_trusted: "ParseIP a = Some (v4InV6Prefix @ [b, c, d, e]) \<Longrightarrow> ipTrusted sampleServer (v4InV6Prefix @ [b, c, d, e]) \<longleftrightarrow> b = 10"
proof -
  assume a: "ParseIP a = Some (v4InV6Prefix @ [b, c, d, e])"
  have l: "length v4InV6Prefix = 12" by (simp add: v4InV6Prefix_def)
  have "cfg_TrustedProxies (sv_cfg sampleServer) = map (\<lambda>(bs, n). cidr bs n) [([10, 0, 0, 0], 8)]"
    unfolding sample_addrs(4) [symmetric] by (simp add: sampleConfig_def)
  from trusted_by_prefix [OF this _ a] have "ipTrusted sampleServer (v4InV6Prefix @ [b, c, d, e]) \<longleftrightarrow> addrNum [b, c, d, e] div 2 ^ 24 = addrNum [10, 0, 0, 0] div 2 ^ 24"
    by (simp add: l del: addrNum.simps)
  moreover have "addrNum [b, c, d, e] div 2 ^ 24 = b"
    using ParseIP_bytes [OF a] by simp
  ultimately show ?thesis by simp
qed

lemma sample_trim: "TrimSpace ''203.0.113.7'' = ''203.0.113.7''"
  by code_simp

theorem client_address_unforgeable_witness:
  "clientIP sampleServer (sampleRequest\<lparr>rq_Header := (\<lambda>_. [])(''X-Forwarded-For'' := ''1.2.3.4,203.0.113.7'')\<rparr>) = ''203.0.113.7''"
proof -
  let ?r = "sampleRequest\<lparr>rq_Header := (\<lambda>_. [])(''X-Forwarded-For'' := ''1.2.3.4,203.0.113.7'')\<rparr>"
  have peer: "proxyPeer sampleServer ?r"
    by (simp add: proxyPeer_def peerHost_def sampleRequest_def sample_addrs sample_trusted [OF sample_addrs(1)] del: One_nat_def)
  have foreign: "foreign sampleServer ''203.0.113.7''"
    by (simp add: foreign_def sample_addrs sample_trusted [OF sample_addrs(2)] del: One_nat_def)
  have "rq_Header ?r ''X-Forwarded-For'' = ''1.2.3.4'' @ CHR '','' # ''203.0.113.7''" by simp
  then have "clientIP sampleServer ?r =
      clientIP sampleServer (?r\<lparr>rq_Header := (rq_Header ?r)(''X-Forwarded-For'' := ''203.0.113.7'')\<rparr>)"
    using client_address_unforgeable [of sampleServer ?r "''1.2.3.4''" "''203.0.113.7''"] peer foreign
    by (simp add: Split_plain sample_trim)
  also have "\<dots> = ''203.0.113.7''"
    using foreign by (simp add: clientIP_def sampleRequest_def sample_addrs sample_trusted [OF sample_addrs(1)] foreign_def
        forwardedClientIP_def Split_plain sample_trim del: One_nat_def)
  finally show ?thesis .
qed

end
