(* ===== verification/Authorize.thy ===== *)
theory Authorize
  imports Http
begin

text \<open>
  The authorization endpoint (\<^verbatim>\<open>internal/idp/handlers.go\<close>, first part): validation of authorization requests, the login
  form with its CSRF token, the credential check, and the redirect back to the client with an error or a code.
\<close>

section \<open>Parameters\<close>

abbreviation (input) authCodeTTL :: duration where "authCodeTTL \<equiv> 10 * minute"

definition oauthParamKeys :: "string list" where
  "oauthParamKeys =
     [''client_id'', ''redirect_uri'', ''response_type'', ''scope'', ''state'', ''nonce'',
      ''code_challenge'', ''code_challenge_method'', ''login_hint'']"

definition oauthHiddenFields :: "Values \<Rightarrow> loginField list" where
  "oauthHiddenFields q =
     List.map_filter (\<lambda>key. let v = Get q key in if v \<noteq> [] then Some \<lparr>lf_Name = key, lf_Value = v\<rparr> else None) oauthParamKeys"

definition csrfNonce :: "request \<Rightarrow> string" where
  "csrfNonce r =
     (case rq_Cookie r of
        None \<Rightarrow> []
      | Some value \<Rightarrow> if value = [] then [] else (case DecodeString value of None \<Rightarrow> [] | Some nonce \<Rightarrow> nonce))"

definition oauthParamsOf :: "request \<Rightarrow> Values option" where
  "oauthParamsOf r =
     (if rq_ParseFormErr r then None
      else Some (List.map_filter (\<lambda>key. map_option (Pair key) (map_of (rq_Form r) key)) oauthParamKeys))"

definition supportedScopes :: "string list" where
  "supportedScopes = [''openid'', ''profile'', ''email'']"

definition oauthContextOf :: "Values \<Rightarrow> Values" where
  "oauthContextOf form = fold (\<lambda>f q. SetValue (lf_Name f) (lf_Value f) q) (oauthHiddenFields form) []"

section \<open>Validation\<close>

text \<open>The result is the client (if it was found) and the message, which is empty when all is well.\<close>

definition clientForAuthorize :: "Server \<Rightarrow> Values \<Rightarrow> registeredClient option \<times> string" where
  "clientForAuthorize sv q =
     (if Get q ''client_id'' = [] then (None, ''Missing client_id.'')
      else case lookup (sv_clients sv) (Get q ''client_id'') of
             None \<Rightarrow> (None, ''Unknown client_id.'')
           | Some client \<Rightarrow>
               if Get q ''redirect_uri'' = [] then (Some client, ''Missing redirect_uri.'')
               else if \<not> redirectURIAllowed client (Get q ''redirect_uri'')
               then (Some client, ''The redirect_uri is not registered for this client.'')
               else (Some client, []))"

definition pkceVerifierChar :: "char \<Rightarrow> bool" where
  "pkceVerifierChar c \<longleftrightarrow>
     CHR ''A'' \<le> c \<and> c \<le> CHR ''Z'' \<or> CHR ''a'' \<le> c \<and> c \<le> CHR ''z'' \<or> CHR ''0'' \<le> c \<and> c \<le> CHR ''9''
     \<or> c = CHR ''-'' \<or> c = CHR ''.'' \<or> c = CHR ''_'' \<or> c = CHR ''~''"

definition validPKCEVerifier :: "string \<Rightarrow> bool" where
  "validPKCEVerifier v = (if length v < 43 \<or> length v > 128 then False else list_all pkceVerifierChar v)"

definition validPKCEChallenge :: "string \<Rightarrow> bool" where
  "validPKCEChallenge c = (if length c < 43 \<or> length c > 128 then False else DecodeString c \<noteq> None)"

text \<open>The OAuth error code and description; the code is empty when the request is acceptable.\<close>

definition validatePKCEParams :: "registeredClient \<Rightarrow> Values \<Rightarrow> string \<times> string" where
  "validatePKCEParams client q =
     (let challenge = Get q ''code_challenge''
      in if challenge = [] then
           (if \<not> rc_Confidential client
            then (''invalid_request'', ''Missing code_challenge: PKCE is required for public clients.'') else ([], []))
         else if Get q ''code_challenge_method'' \<noteq> ''S256''
         then (''invalid_request'', ''Unsupported code_challenge_method; only S256 is supported.'')
         else if \<not> validPKCEChallenge challenge
         then (''invalid_request'', ''Malformed code_challenge: expected 43-128 base64url characters (S256 digest).'')
         else ([], []))"

definition validatePrompt :: "Values \<Rightarrow> string \<times> string" where
  "validatePrompt q =
     (let p = Get q ''prompt''
      in if p = [] \<or> p = ''login'' then ([], [])
         else if p = ''none'' then (''login_required'', ''Interactive authentication is required.'')
         else (''invalid_request'', ''Unsupported prompt value; only \"login\" and \"none\" are supported.''))"

text \<open>\<^verbatim>\<open>%q\<close>; of the bytes from 128 on only those of printable characters are rendered as it does.\<close>

definition quotedByte :: "char \<Rightarrow> string" where
  "quotedByte c =
     (if c \<in> {CHR 0x22, CHR 0x5C} then [CHR 0x5C, c]
      else case map_of (zip (map char_of [7, 8, 9, 10, 11, 12, 13 :: nat]) ''abtnvfr'') c of
             Some letter \<Rightarrow> [CHR 0x5C, letter]
           | None \<Rightarrow> if of_char c < (32 :: nat) \<or> c = CHR 0x7F then [CHR 0x5C, CHR ''x''] @ hexString [c] else [c])"

definition quoted :: "string \<Rightarrow> string" where
  "quoted s = [CHR 0x22] @ concat (map quotedByte s) @ [CHR 0x22]"

definition validateScopesFor :: "registeredClient \<Rightarrow> string \<Rightarrow> string \<times> string" where
  "validateScopesFor client raw =
     (case find (\<lambda>sc. \<not> (sc \<in> set supportedScopes \<or> allowsScope client sc)) (parseScopes raw) of
        Some sc \<Rightarrow> (''invalid_scope'', ''Unsupported scope '' @ quoted sc @
          '' for this client; supported scopes: openid profile email and the api:// scopes registered for the client.'')
      | None \<Rightarrow> ([], []))"

definition validateAuthorizeRequest :: "registeredClient \<Rightarrow> Values \<Rightarrow> string \<times> string" where
  "validateAuthorizeRequest client q =
     (if Get q ''response_type'' \<noteq> ''code''
      then (''unsupported_response_type'', ''Unsupported response_type; only \"code\" (authorization code flow) is supported.'')
      else (let (code, description) = validatePKCEParams client q
            in if code \<noteq> [] then (code, description)
               else (let (code, description) = validatePrompt q
                     in if code \<noteq> [] then (code, description)
                        else if Get q ''response_mode'' \<noteq> [] \<and> Get q ''response_mode'' \<noteq> ''query''
                        then (''invalid_request'', ''Unsupported response_mode; only the default query mode is supported.'')
                        else (case find (\<lambda>p. Get q p \<noteq> []) [''max_age'', ''acr_values'', ''display'', ''ui_locales''] of
                                Some p \<Rightarrow> (''invalid_request'', ''Unsupported parameter '' @ quoted p @ ''.'')
                              | None \<Rightarrow> validateScopesFor client (Get q ''scope'')))))"

section \<open>Redirects\<close>

definition registeredRedirect :: "Server \<Rightarrow> string \<Rightarrow> string \<Rightarrow> string" where
  "registeredRedirect sv clientID raw =
     (case find (\<lambda>allowed. constantTimeEqual allowed raw) (redirects (sv_clients sv) clientID) of
        Some allowed \<Rightarrow> allowed | None \<Rightarrow> [])"

definition registeredLogoutRedirect :: "Server \<Rightarrow> string \<Rightarrow> string \<Rightarrow> string" where
  "registeredLogoutRedirect sv clientID raw =
     (case find (\<lambda>allowed. constantTimeEqual allowed raw) (logoutRedirects (sv_clients sv) clientID) of
        Some allowed \<Rightarrow> allowed | None \<Rightarrow> [])"

section \<open>The login page\<close>

abbreviation (input) nonceBytes :: nat where "nonceBytes \<equiv> 32"

text \<open>
  Readings: \<open>e_rand 0\<close> for a new nonce, \<open>e_now 0\<close> for the token. The cookie attributes are part of the header value.
\<close>

definition loginCookie :: "Server \<Rightarrow> string \<Rightarrow> string \<times> string" where
  "loginCookie sv nonce =
     (''Set-Cookie'', ''minidp-login='' @ EncodeToString nonce @ ''; Path=/; Max-Age='' @ FormatInt (wholeSeconds (csrf_ttl (sv_csrf sv)))
        @ ''; HttpOnly; Secure; SameSite=Lax'')"

definition renderLoginPage :: "env \<Rightarrow> request \<Rightarrow> nat \<Rightarrow> loginData \<Rightarrow> Server \<Rightarrow> response" where
  "renderLoginPage e r status data sv =
     (let page = (\<lambda>hdr d. \<lparr>rs_Status = status, rs_Header = hdr @ [(''Content-Type'', ''text/html; charset=utf-8'')], rs_Body = PageBody (render (sv_template sv) d)\<rparr>)
      in if ld_Action data = [] then page [] data
         else
           let nonce = csrfNonce r;
               withForm = (\<lambda>hdr n. case oauthParamsOf r of
                             None \<Rightarrow> httpError hdr ''malformed request'' 400
                           | Some params \<Rightarrow> page hdr (data\<lparr>ld_CSRFToken := issue (sv_csrf sv) (e_now e 0) (ld_Action data) params n\<rparr>))
           in if length nonce \<noteq> nonceBytes
              then (case e_rand e 0 of
                      None \<Rightarrow> httpError [] ''internal error'' 500
                    | Some fresh \<Rightarrow> withForm [loginCookie sv fresh] fresh)
              else withForm [] nonce)"

definition messagePage :: "string \<Rightarrow> loginData" where
  "messagePage msg = emptyLoginData\<lparr>ld_Message := msg\<rparr>"

definition redirectToClient :: "libs \<Rightarrow> env \<Rightarrow> request \<Rightarrow> registeredClient \<Rightarrow> Values \<Rightarrow> (string \<times> string) list \<Rightarrow> Server \<Rightarrow> response" where
  "redirectToClient lb e r client q extra sv =
     (let failed = renderLoginPage e r 400 (messagePage ''Invalid redirect_uri.'') sv
      in case lb_url lb (registeredRedirect sv (rc_ID client) (Get q ''redirect_uri'')) of
           None \<Rightarrow> failed
         | Some target \<Rightarrow>
             if lb_urlString lb target = [] then failed
             else
               let params = fold (\<lambda>(k, v) ps. SetValue k v ps) extra (ParseQuery (u_RawQuery target));
                   params' = (if Get q ''state'' \<noteq> [] then SetValue ''state'' (Get q ''state'') params else params)
               in httpRedirect (lb_urlString lb (target\<lparr>u_RawQuery := Encode params'\<rparr>)))"

definition authorizeErrorRedirect :: "libs \<Rightarrow> env \<Rightarrow> request \<Rightarrow> registeredClient \<Rightarrow> Values \<Rightarrow> string \<Rightarrow> string \<Rightarrow> Server \<Rightarrow> response" where
  "authorizeErrorRedirect lb e r client q code description sv =
     redirectToClient lb e r client q [(''error'', code), (''error_description'', description)] sv"

definition renderAuthorizeError :: "env \<Rightarrow> request \<Rightarrow> Values \<Rightarrow> nat \<Rightarrow> string \<Rightarrow> Server \<Rightarrow> response" where
  "renderAuthorizeError e r form status msg sv =
     renderLoginPage e r status (emptyLoginData\<lparr>ld_Action := ''/authorize'', ld_Error := msg, ld_Hidden := oauthHiddenFields form\<rparr>) sv"

section \<open>The handlers\<close>

definition handleAuthorizeGet :: "libs \<Rightarrow> env \<Rightarrow> request \<Rightarrow> Server \<Rightarrow> response \<times> Server" where
  "handleAuthorizeGet lb e r sv =
     (let q = rq_URLQuery r
      in case clientForAuthorize sv q of
           (client, problem) \<Rightarrow>
             if problem \<noteq> [] then (renderLoginPage e r 400 (messagePage problem) sv, sv)
             else (case client of
                     None \<Rightarrow> (httpError [] ''nil dereference'' 500, sv)
                   | Some rc \<Rightarrow>
                       (case validateAuthorizeRequest rc q of
                          (code, description) \<Rightarrow>
                            if code \<noteq> [] then (authorizeErrorRedirect lb e r rc q code description sv, sv)
                            else (renderLoginPage e r 200
                                    (emptyLoginData\<lparr>ld_Action := ''/authorize'', ld_Hidden := oauthHiddenFields q,
                                                    ld_Username := Get q ''login_hint''\<rparr>) sv, sv))))"

text \<open>Either the response of a refused attempt or the authenticated subject with its client and OAuth context.\<close>

definition authorizeContext :: "libs \<Rightarrow> env \<Rightarrow> request \<Rightarrow> Values \<Rightarrow> Server \<Rightarrow> response + (subject \<times> registeredClient \<times> Values)" where
  "authorizeContext lb e r form sv =
     (let q = oauthContextOf form
      in case clientForAuthorize sv q of
           (client, problem) \<Rightarrow>
             if problem \<noteq> [] then Inl (renderLoginPage e r 400 (messagePage problem) sv)
             else (case client of
                     None \<Rightarrow> Inl (httpError [] ''nil dereference'' 500)
                   | Some rc \<Rightarrow>
                       (case validateAuthorizeRequest rc q of
                          (code, description) \<Rightarrow>
                            if code \<noteq> [] then Inl (authorizeErrorRedirect lb e r rc q code description sv)
                            else (case authenticate lb rc (Get form ''username'') (Get form ''password'') of
                                    None \<Rightarrow> Inl (renderLoginPage e r 401
                                                (emptyLoginData\<lparr>ld_Action := ''/authorize'', ld_Error := ''Invalid username or password.'',
                                                                ld_Username := Get form ''username'', ld_Hidden := oauthHiddenFields form\<rparr>) sv)
                                  | Some who \<Rightarrow> Inr (who, rc, q)))))"

text \<open>Readings: \<open>e_now 0\<close>, \<open>e_rand 0\<close> and \<open>e_now 1\<close> for \<open>addCode\<close>, later ones for the pages.\<close>

definition completeAuthorize :: "libs \<Rightarrow> env \<Rightarrow> request \<Rightarrow> registeredClient \<Rightarrow> Values \<Rightarrow> Values \<Rightarrow> string \<Rightarrow> Server \<Rightarrow> response \<times> Server" where
  "completeAuthorize lb e r client form q sub sv =
     (case addCode (e_now e 0) (e_rand e 0) (e_now e 1)
             \<lparr>ac_ExpiresAt = 0, ac_Sub = sub, ac_ClientID = Get q ''client_id'', ac_RedirectURI = Get q ''redirect_uri'',
              ac_CodeChallenge = Get q ''code_challenge'', ac_CodeChallengeMethod = Get q ''code_challenge_method'',
              ac_Nonce = Get q ''nonce'', ac_Scopes = parseScopes (Get q ''scope'')\<rparr> authCodeTTL (sv_store sv) of
        (Inl err, st) \<Rightarrow>
          (renderAuthorizeError (later 2 e) r form 500 ''Internal error. Please start again.'' sv, sv\<lparr>sv_store := st\<rparr>)
      | (Inr code, st) \<Rightarrow>
          (redirectToClient lb (later 2 e) r client q [(''code'', code)] (sv\<lparr>sv_store := st\<rparr>), sv\<lparr>sv_store := st\<rparr>))"

text \<open>Readings: \<open>e_now 0\<close> for the CSRF check, \<open>e_now 1\<close> for the limiter, later ones for what follows.\<close>

definition handleAuthorizePost :: "libs \<Rightarrow> env \<Rightarrow> request \<Rightarrow> Server \<Rightarrow> response \<times> Server" where
  "handleAuthorizePost lb e r sv =
     (let ip = clientIP sv r
      in if rq_ParseFormErr r then (renderLoginPage (later 2 e) r 400 (messagePage ''Malformed form submission.'') sv, sv)
         else
           let form = rq_PostForm r
           in if (case oauthParamsOf r of
                    None \<Rightarrow> True
                  | Some params \<Rightarrow> \<not> verify (sv_csrf sv) (e_now e 0) ''/authorize'' params (csrfNonce r) (Get form ''csrf_token''))
              then (renderAuthorizeError (later 2 e) r form 400
                      ''Your sign-in session expired or the request was tampered with. Please start again.'' sv, sv)
              else
                (case allow (e_now e 1) ip (sv_limiter sv) of
                   (ok, lm) \<Rightarrow>
                     let sv1 = sv\<lparr>sv_limiter := lm\<rparr>
                     in if \<not> ok
                        then (renderAuthorizeError (later 2 e) r form 429
                                ''Too many sign-in attempts. Please wait a minute and try again.'' sv1, sv1)
                        else (case authorizeContext lb (later 2 e) r form sv1 of
                                Inl resp \<Rightarrow> (resp, sv1)
                              | Inr (who, client, q) \<Rightarrow> completeAuthorize lb (later 2 e) r client form q (sj_Sub who) sv1)))"

definition handleLanding :: "env \<Rightarrow> request \<Rightarrow> Server \<Rightarrow> response \<times> Server" where
  "handleLanding e r sv =
     (renderLoginPage e r 200 (messagePage (''This is the identity provider of a registered OAuth2/OIDC client. '' @
        ''Sign in happens through your application's authorization request to /authorize.'')) sv, sv)"

section \<open>Request validation accepts exactly the well-formed requests\<close>

lemma clientForAuthorize_ok:
  "clientForAuthorize sv q = (client, []) \<longleftrightarrow>
     Get q ''client_id'' \<noteq> [] \<and> Get q ''redirect_uri'' \<noteq> []
     \<and> (\<exists>rc. client = Some rc \<and> lookup (sv_clients sv) (Get q ''client_id'') = Some rc \<and> redirectURIAllowed rc (Get q ''redirect_uri''))"
  by (auto simp: clientForAuthorize_def split: option.splits if_splits)

text \<open>
  The text that passes for a challenge: 43 to 128 characters, which are base64url characters of a possible length once the line breaks,
  which the decoder skips, are left out.
\<close>

definition base64url :: "char \<Rightarrow> bool" where
  "base64url c \<longleftrightarrow> alnum c \<or> c = CHR ''-'' \<or> c = CHR ''_''"

definition challengeText :: "string \<Rightarrow> bool" where
  "challengeText c \<longleftrightarrow> 43 \<le> length c \<and> length c \<le> 128 \<and>
     (let d = filter (\<lambda>x. x \<noteq> CHR 0x0A \<and> x \<noteq> CHR 0x0D) c in list_all base64url d \<and> length d mod 4 \<noteq> 1)"

lemma b64Val_base64url: "b64Val c \<noteq> None \<longleftrightarrow> base64url c"
  by (auto simp: b64Val_def base64url_def alnum_def)

lemma b64Octets_length: "b64Octets vs \<noteq> None \<longleftrightarrow> length vs mod 4 \<noteq> 1"
  by (induction vs rule: b64Octets.induct) auto

lemma validPKCEChallenge_text: "validPKCEChallenge c \<longleftrightarrow> challengeText c"
proof -
  have "DecodeString c \<noteq> None \<longleftrightarrow>
      (let d = filter (\<lambda>x. x \<noteq> CHR 0x0A \<and> x \<noteq> CHR 0x0D) c in list_all base64url d \<and> length d mod 4 \<noteq> 1)"
    unfolding DecodeString_def Let_def b64Val_base64url
    using b64Octets_length [of "map (\<lambda>c. the (b64Val c)) (filter (\<lambda>x. x \<noteq> CHR 0x0A \<and> x \<noteq> CHR 0x0D) c)"] by simp
  then show ?thesis by (auto simp: validPKCEChallenge_def challengeText_def)
qed

text \<open>The PKCE rule: a challenge may be missing for confidential clients only, and is an S256 digest when present.\<close>

definition pkceOk :: "registeredClient \<Rightarrow> string \<Rightarrow> string \<Rightarrow> bool" where
  "pkceOk rc challenge method \<longleftrightarrow>
     (if challenge = [] then rc_Confidential rc else method = ''S256'' \<and> challengeText challenge)"

definition scopeGranted :: "registeredClient \<Rightarrow> string \<Rightarrow> bool" where
  "scopeGranted rc sc \<longleftrightarrow> sc \<in> set supportedScopes \<or> allowsScope rc sc"

lemma validatePKCEParams_ok:
  "fst (validatePKCEParams rc q) = [] \<longleftrightarrow> pkceOk rc (Get q ''code_challenge'') (Get q ''code_challenge_method'')"
  by (auto simp: validatePKCEParams_def pkceOk_def validPKCEChallenge_text Let_def)

lemma validatePrompt_ok: "fst (validatePrompt q) = [] \<longleftrightarrow> Get q ''prompt'' \<in> {[], ''login''}"
  by (auto simp: validatePrompt_def Let_def)

lemma validateScopesFor_ok: "fst (validateScopesFor rc raw) = [] \<longleftrightarrow> (\<forall>sc \<in> set (parseScopes raw). scopeGranted rc sc)"
  by (auto simp: validateScopesFor_def scopeGranted_def find_None_iff find_Some_iff split: option.splits)

lemma validateAuthorizeRequest_ok:
  "fst (validateAuthorizeRequest rc q) = [] \<longleftrightarrow>
     Get q ''response_type'' = ''code''
     \<and> pkceOk rc (Get q ''code_challenge'') (Get q ''code_challenge_method'')
     \<and> Get q ''prompt'' \<in> {[], ''login''} \<and> Get q ''response_mode'' \<in> {[], ''query''}
     \<and> (\<forall>p \<in> {''max_age'', ''acr_values'', ''display'', ''ui_locales''}. Get q p = [])
     \<and> (\<forall>sc \<in> set (parseScopes (Get q ''scope'')). scopeGranted rc sc)"
proof -
  have "find (\<lambda>p. Get q p \<noteq> []) [''max_age'', ''acr_values'', ''display'', ''ui_locales''] = None \<longleftrightarrow>
      (\<forall>p \<in> {''max_age'', ''acr_values'', ''display'', ''ui_locales''}. Get q p = [])"
    by (simp add: find_None_iff)
  then show ?thesis
    using validatePKCEParams_ok [of rc q] validatePrompt_ok [of q] validateScopesFor_ok [of rc "Get q ''scope''"]
    by (simp only: validateAuthorizeRequest_def case_prod_beta Let_def) (auto split: option.splits simp del: find.simps)
qed

text \<open>
  C15. An authorization request is accepted exactly when it is well formed: it names a registered client and one of its
  redirect URIs, asks for the code flow, follows the PKCE rule (the method S256 and a challenge of 43 to 128 base64url characters,
  which only confidential clients may leave out), uses no unsupported prompt, response mode or parameter, and asks for no scope outside
  the built-in ones and the client's own. The challenge has no line breaks, which the decoder skips, and not the length 1 modulo 4, which
  no base64 text has.
\<close>

theorem authorize_validation_exact:
  assumes "CHR 0x0A \<notin> set (Get q ''code_challenge'')" "CHR 0x0D \<notin> set (Get q ''code_challenge'')"
    and "length (Get q ''code_challenge'') mod 4 \<noteq> 1"
  shows "(\<exists>rc. clientForAuthorize sv q = (Some rc, []) \<and> fst (validateAuthorizeRequest rc q) = []) \<longleftrightarrow>
   (\<exists>rc. Get q ''client_id'' \<noteq> [] \<and> lookup (sv_clients sv) (Get q ''client_id'') = Some rc
      \<and> Get q ''redirect_uri'' \<noteq> [] \<and> redirectURIAllowed rc (Get q ''redirect_uri'')
      \<and> Get q ''response_type'' = ''code''
      \<and> (if Get q ''code_challenge'' = [] then rc_Confidential rc
         else Get q ''code_challenge_method'' = ''S256'' \<and> length (Get q ''code_challenge'') \<in> {43..128}
           \<and> (\<forall>c \<in> set (Get q ''code_challenge''). base64url c))
      \<and> Get q ''prompt'' \<in> {[], ''login''} \<and> Get q ''response_mode'' \<in> {[], ''query''}
      \<and> Get q ''max_age'' = [] \<and> Get q ''acr_values'' = [] \<and> Get q ''display'' = [] \<and> Get q ''ui_locales'' = []
      \<and> set (parseScopes (Get q ''scope'')) \<subseteq> {''openid'', ''profile'', ''email''} \<union> {sc. allowsScope rc sc})"
proof -
  have scopes: "(\<forall>sc \<in> set scs. scopeGranted rc sc) \<longleftrightarrow> set scs \<subseteq> {''openid'', ''profile'', ''email''} \<union> {sc. allowsScope rc sc}" for scs rc
    by (auto simp: scopeGranted_def supportedScopes_def)
  have "filter (\<lambda>x. x \<noteq> CHR 0x0A \<and> x \<noteq> CHR 0x0D) (Get q ''code_challenge'') = Get q ''code_challenge''"
    using assms(1,2) by (auto intro!: filter_True)
  then have "challengeText (Get q ''code_challenge'') \<longleftrightarrow>
      length (Get q ''code_challenge'') \<in> {43..128} \<and> (\<forall>c \<in> set (Get q ''code_challenge''). base64url c)"
    using assms(3) by (auto simp: challengeText_def list_all_iff)
  then have pkce: "pkceOk rc (Get q ''code_challenge'') m \<longleftrightarrow>
      (if Get q ''code_challenge'' = [] then rc_Confidential rc
       else m = ''S256'' \<and> length (Get q ''code_challenge'') \<in> {43..128} \<and> (\<forall>c \<in> set (Get q ''code_challenge''). base64url c))" for rc m
    by (simp add: pkceOk_def)
  show ?thesis
    by (simp add: clientForAuthorize_ok validateAuthorizeRequest_ok scopes pkce conj_ac cong: conj_cong)
qed

section \<open>The login form carries the request\<close>

lemma Get_hidden:
  "Get (fold (\<lambda>f q. SetValue (lf_Name f) (lf_Value f) q)
      (List.map_filter (\<lambda>key. let v = Get form key in if v \<noteq> [] then Some \<lparr>lf_Name = key, lf_Value = v\<rparr> else None) keys) q0) k =
   (if k \<in> set keys \<and> Get form k \<noteq> [] then Get form k else Get q0 k)"
  by (induction keys arbitrary: q0) (auto simp: List.map_filter_simps Let_def)

lemma Get_oauthContextOf: "Get (oauthContextOf form) k = (if k \<in> set oauthParamKeys then Get form k else [])"
  unfolding oauthContextOf_def oauthHiddenFields_def Get_hidden by simp

lemma find_hidden:
  "find (\<lambda>f. lf_Name f = k)
     (List.map_filter (\<lambda>key. let v = Get q key in if v \<noteq> [] then Some \<lparr>lf_Name = key, lf_Value = v\<rparr> else None) keys) =
   (if k \<in> set keys \<and> Get q k \<noteq> [] then Some \<lparr>lf_Name = k, lf_Value = Get q k\<rparr> else None)"
  by (induction keys) (auto simp: List.map_filter_simps Let_def)

text \<open>A form page of the authorization endpoint: its hidden fields and its token.\<close>

lemma renderLoginPage_form:
  assumes "rs_Body (renderLoginPage e r status data sv) = PageBody d" "ld_Action d \<noteq> []"
  obtains nonce params where "nonce = (if length (csrfNonce r) = nonceBytes then csrfNonce r else the (e_rand e 0))"
    "length (csrfNonce r) \<noteq> nonceBytes \<longrightarrow> e_rand e 0 \<noteq> None"
    "oauthParamsOf r = Some params" "ld_CSRFToken d = issue (sv_csrf sv) (e_now e 0) (ld_Action data) params nonce"
    "ld_Hidden d = ld_Hidden data" "ld_Action d = ld_Action data" "ld_Message d = ld_Message data"
  using assms that
  by (auto simp: renderLoginPage_def render_def httpError_def Let_def split: if_splits option.splits)

lemma handleAuthorizeGet_form:
  assumes "handleAuthorizeGet lb e r sv = (resp, sv')" "rs_Body resp = PageBody d" "ld_Action d \<noteq> []"
  obtains data where "resp = renderLoginPage e r 200 data sv" "ld_Action data = ''/authorize''"
    "ld_Hidden data = oauthHiddenFields (rq_URLQuery r)" "ld_Message data = []"
proof -
  have msg: "rs_Body (renderLoginPage e r st (messagePage m) sv) = PageBody d \<Longrightarrow> ld_Action d = []" for st m
    by (auto simp: renderLoginPage_def messagePage_def emptyLoginData_def render_def Let_def)
  have redir: "rs_Body (authorizeErrorRedirect lb e r rc q c ds sv) = PageBody d \<Longrightarrow> ld_Action d = []" for rc q c ds
    using msg by (auto simp: authorizeErrorRedirect_def redirectToClient_def httpRedirect_def Let_def split: option.splits if_splits)
  show ?thesis
    using assms that msg redir
    by (auto simp: handleAuthorizeGet_def Let_def httpError_def emptyLoginData_def split: prod.splits if_splits option.splits) blast
qed

text \<open>
  The login form round trip: when the authorization endpoint renders a login form for a request that carries each of its
  parameters once, and the browser submits that form (its hidden fields and its token, with the cookie it holds after the
  response), then the submission passes the CSRF check as long as the token has not expired.
\<close>

theorem login_form_accepted:
  assumes page: "handleAuthorizeGet lb e r sv = (resp, sv')" "rs_Body resp = PageBody d" "ld_Action d \<noteq> []"
    and once: "\<forall>k \<in> set oauthParamKeys. map_of (rq_Form r) k = (if Get (rq_URLQuery r) k = [] then None else Some [Get (rq_URLQuery r) k])"
    and fields: "\<forall>k \<in> set oauthParamKeys. map_of (rq_Form r2) k = map_option (\<lambda>f. [lf_Value f]) (find (\<lambda>f. lf_Name f = k) (ld_Hidden d))"
    and token: "Get (rq_PostForm r2) ''csrf_token'' = ld_CSRFToken d" "\<not> rq_ParseFormErr r2"
    and cookie: "rq_Cookie r2 = (if length (csrfNonce r) = nonceBytes then rq_Cookie r else map_option EncodeToString (e_rand e 0))"
    and rand: "\<forall>n. e_rand e 0 = Some n \<longrightarrow> length n = nonceBytes"
    and time: "inInt64 (Unix (e_now e 0 + csrf_ttl (sv_csrf sv)))" "Unix now \<le> Unix (e_now e 0 + csrf_ttl (sv_csrf sv))"
  shows "\<exists>params. oauthParamsOf r2 = Some params
    \<and> verify (sv_csrf sv) now ''/authorize'' params (csrfNonce r2) (Get (rq_PostForm r2) ''csrf_token'')"
proof -
  obtain data where data: "resp = renderLoginPage e r 200 data sv" "ld_Action data = ''/authorize''"
    "ld_Hidden data = oauthHiddenFields (rq_URLQuery r)"
    using page by (rule handleAuthorizeGet_form)
  obtain nonce params where n: "nonce = (if length (csrfNonce r) = nonceBytes then csrfNonce r else the (e_rand e 0))"
    "length (csrfNonce r) \<noteq> nonceBytes \<longrightarrow> e_rand e 0 \<noteq> None"
    "oauthParamsOf r = Some params" "ld_CSRFToken d = issue (sv_csrf sv) (e_now e 0) (ld_Action data) params nonce"
    "ld_Hidden d = ld_Hidden data"
    using page(2,3) unfolding data(1) by (rule renderLoginPage_form)
  have enc: "EncodeToString m \<noteq> []" if "length m = nonceBytes" for m
    using length_EncodeToString [of m] that by auto
  have nonce: "length nonce = nonceBytes" "csrfNonce r2 = nonce"
    using n(1,2) rand cookie enc by (auto simp: csrfNonce_def DecodeString_EncodeToString split: if_splits option.splits)
  have "map_of (rq_Form r2) k = map_of (rq_Form r) k" if "k \<in> set oauthParamKeys" for k
    using fields once that by (simp add: n(5) data(3) oauthHiddenFields_def find_hidden)
  then have "oauthParamsOf r2 = Some params"
    using n(3) token(2) by (auto simp: oauthParamsOf_def intro!: map_filter_cong split: if_splits)
  moreover have "plainAction ''/authorize''" by (simp add: plainAction_def)
  then have "verify (sv_csrf sv) now ''/authorize'' params nonce (issue (sv_csrf sv) (e_now e 0) ''/authorize'' params nonce)"
    using verify_issue [OF _ time(1)] time(2) nonce(1) by fastforce
  ultimately show ?thesis
    by (simp add: token(1) n(4) data(2) nonce(2))
qed

section \<open>Header names\<close>

definition headerNames :: "response \<Rightarrow> string set" where
  "headerNames resp = fst ` set (rs_Header resp)"

abbreviation (input) pageNames :: "string set" where
  "pageNames \<equiv> {''Set-Cookie'', ''Content-Type'', ''X-Content-Type-Options''}"

named_theorems header_names \<open>the header names of the writers\<close>

lemma writer_names [header_names]:
  "headerNames (writeJSON hdr st v) = fst ` set hdr \<union> {''Content-Type''}"
  "headerNames (writeError hdr st c ds) = fst ` set hdr \<union> {''Content-Type''}"
  "headerNames (writeAuthError hdr c ds) = fst ` set hdr \<union> {''Content-Type''}"
  "headerNames (httpError hdr m st) = fst ` set hdr \<union> {''Content-Type'', ''X-Content-Type-Options''}"
  "headerNames (httpRedirect u) = {''Location''}"
  by (auto simp: headerNames_def writeJSON_def writeError_def writeAuthError_def httpError_def httpRedirect_def)

lemma headerNames_record [simp]: "headerNames \<lparr>rs_Status = s, rs_Header = h, rs_Body = b\<rparr> = fst ` set h"
  by (simp add: headerNames_def)

lemma renderLoginPage_names [header_names]: "headerNames (renderLoginPage e r st data sv) \<subseteq> pageNames"
  by (auto simp: renderLoginPage_def Let_def header_names loginCookie_def split: option.splits)

lemma redirectToClient_names [header_names]: "headerNames (redirectToClient lb e r client q extra sv) \<subseteq> pageNames \<union> {''Location''}"
  by (auto simp: redirectToClient_def Let_def header_names dest!: subsetD [OF renderLoginPage_names] split: option.splits)

lemma renderAuthorizeError_names [header_names]: "headerNames (renderAuthorizeError e r form st m sv) \<subseteq> pageNames"
  using renderLoginPage_names by (simp add: renderAuthorizeError_def)

lemma location_names: "(''Location'', v) \<in> set (rs_Header resp) \<Longrightarrow> headerNames resp \<subseteq> N \<Longrightarrow> ''Location'' \<in> N"
  by (force simp: headerNames_def)

section \<open>Redirect targets\<close>

text \<open>
  Where the browser may be sent for a request with parameters \<open>q\<close>: to the redirect URI of the request, which is one that
  the request's client registered, with another query.
\<close>

definition redirectsTo :: "libs \<Rightarrow> Server \<Rightarrow> Values \<Rightarrow> string \<Rightarrow> bool" where
  "redirectsTo lb sv q v \<longleftrightarrow>
     (\<exists>rc target query. lookup (sv_clients sv) (Get q ''client_id'') = Some rc \<and> redirectURIAllowed rc (Get q ''redirect_uri'')
        \<and> lb_url lb (Get q ''redirect_uri'') = Some target
        \<and> v = hexEscapeNonASCII (lb_urlString lb (target\<lparr>u_RawQuery := query\<rparr>)))"

lemma find_equal: "find (\<lambda>a. constantTimeEqual a raw) xs = (if raw \<in> set xs then Some raw else None)"
  by (induction xs) auto

lemma registeredRedirect_eq:
  "registeredRedirect sv i raw = (if raw \<in> set (redirects (sv_clients sv) i) then raw else [])"
  "registeredLogoutRedirect sv i raw = (if raw \<in> set (logoutRedirects (sv_clients sv) i) then raw else [])"
  by (simp_all add: registeredRedirect_def registeredLogoutRedirect_def find_equal del: constantTimeEqual_eq)

lemma registeredRedirect_allowed:
  assumes "registryOk up (sv_clients sv)" "lookup (sv_clients sv) i = Some rc" "redirectURIAllowed rc uri"
  shows "registeredRedirect sv (rc_ID rc) uri = uri"
  using assms by (auto simp: registryOk_def Clients.lookup_def entryIndexed_def registeredRedirect_eq redirectURIAllowed_def)

lemma redirectToClient_location:
  assumes "registryOk up (sv_clients sv)" "clientForAuthorize sv q = (Some rc, [])"
    and "(''Location'', v) \<in> set (rs_Header (redirectToClient lb e r rc q extra sv))"
  shows "redirectsTo lb sv q v"
proof -
  have "(''Location'', v) \<notin> set (rs_Header (renderLoginPage e r st data sv))" for st data
    using location_names [OF _ renderLoginPage_names] by blast
  moreover have rc: "lookup (sv_clients sv) (Get q ''client_id'') = Some rc" "redirectURIAllowed rc (Get q ''redirect_uri'')"
    using assms(2) by (auto simp: clientForAuthorize_ok)
  ultimately show ?thesis
    using assms(3) registeredRedirect_allowed [OF assms(1) rc]
    by (auto simp: redirectToClient_def redirectsTo_def httpRedirect_def Let_def split: option.splits if_splits)
qed

lemma handleAuthorizeGet_location:
  assumes "registryOk up (sv_clients sv)" "(''Location'', v) \<in> set (rs_Header (fst (handleAuthorizeGet lb e r sv)))"
  shows "redirectsTo lb sv (rq_URLQuery r) v"
proof -
  have page: "(''Location'', v) \<notin> set (rs_Header (renderLoginPage e r st data sv))" for st data
    using location_names [OF _ renderLoginPage_names] by blast
  have err: "(''Location'', v) \<notin> set (rs_Header (httpError [] m st))" for m st
    by (simp add: httpError_def)
  show ?thesis
  proof (cases "clientForAuthorize sv (rq_URLQuery r)")
    case (Pair client problem)
    with assms(2) page err obtain rc where "problem = []" "client = Some rc"
      by (auto simp: handleAuthorizeGet_def Let_def split: if_splits option.splits)
    with Pair assms page show ?thesis
      by (auto simp: handleAuthorizeGet_def authorizeErrorRedirect_def Let_def split: prod.splits if_splits
          intro: redirectToClient_location)
  qed
qed

section \<open>Issuing a code\<close>

text \<open>What every stored code stands for: a user of the code's own client, a registered redirect URI, permitted scopes and PKCE.\<close>

definition codeGrantOk :: "clientRegistry \<Rightarrow> authCode \<Rightarrow> bool" where
  "codeGrantOk reg ac \<longleftrightarrow>
     (\<exists>rc. lookup reg (ac_ClientID ac) = Some rc \<and> redirectURIAllowed rc (ac_RedirectURI ac)
        \<and> Lookup (rc_users rc) (ac_Sub ac) \<noteq> None \<and> (\<forall>sc \<in> set (ac_Scopes ac). scopeGranted rc sc)
        \<and> pkceOk rc (ac_CodeChallenge ac) (ac_CodeChallengeMethod ac))"

lemma codeGrantOk_expiry [simp]: "codeGrantOk reg (ac\<lparr>ac_ExpiresAt := t\<rparr>) = codeGrantOk reg ac"
  by (simp add: codeGrantOk_def)

definition codeFor :: "Values \<Rightarrow> string \<Rightarrow> time \<Rightarrow> authCode" where
  "codeFor form sub t =
     \<lparr>ac_ExpiresAt = t, ac_Sub = sub, ac_ClientID = Get form ''client_id'', ac_RedirectURI = Get form ''redirect_uri'',
      ac_CodeChallenge = Get form ''code_challenge'', ac_CodeChallengeMethod = Get form ''code_challenge_method'',
      ac_Nonce = Get form ''nonce'', ac_Scopes = parseScopes (Get form ''scope'')\<rparr>"

text \<open>The checks a login has passed before a code is issued.\<close>

definition loginAccepted :: "libs \<Rightarrow> env \<Rightarrow> request \<Rightarrow> Server \<Rightarrow> registeredClient \<Rightarrow> User \<Rightarrow> bool" where
  "loginAccepted lb e r sv rc u \<longleftrightarrow>
     (\<exists>params. oauthParamsOf r = Some params
        \<and> verify (sv_csrf sv) (e_now e 0) ''/authorize'' params (csrfNonce r) (Get (rq_PostForm r) ''csrf_token''))
     \<and> fst (allow (e_now e 1) (clientIP sv r) (sv_limiter sv))
     \<and> clientForAuthorize sv (oauthContextOf (rq_PostForm r)) = (Some rc, [])
     \<and> fst (validateAuthorizeRequest rc (oauthContextOf (rq_PostForm r))) = []
     \<and> Lookup (rc_users rc) (Get (rq_PostForm r) ''username'') = Some u
     \<and> verifyHash (lb_bcrypt lb) (u_PasswordHash u) (Get (rq_PostForm r) ''password'')"

lemma authorizeContext_Inr:
  "authorizeContext lb e r form sv = Inr (who, rc, q) \<longleftrightarrow>
     q = oauthContextOf form \<and> clientForAuthorize sv q = (Some rc, []) \<and> fst (validateAuthorizeRequest rc q) = []
     \<and> (\<exists>u. Lookup (rc_users rc) (Get form ''username'') = Some u \<and> verifyHash (lb_bcrypt lb) (u_PasswordHash u) (Get form ''password'')
          \<and> who = \<lparr>sj_Sub = u_Username u, sj_Email = u_Email u, sj_Name = u_Name u\<rparr>)"
  by (auto simp: authorizeContext_def authenticate_def Let_def split: prod.splits option.splits if_splits)

lemma sv_limiter_irrelevant [simp]:
  "clientForAuthorize (sv\<lparr>sv_limiter := lm\<rparr>) q = clientForAuthorize sv q"
  "clientForAuthorize (sv\<lparr>sv_store := st\<rparr>) q = clientForAuthorize sv q"
  by (simp_all add: clientForAuthorize_def)

lemma clientForAuthorize_reg: "sv_clients sv' = sv_clients sv \<Longrightarrow> clientForAuthorize sv' q = clientForAuthorize sv q"
  by (simp add: clientForAuthorize_def)

lemma handleAuthorizePost_cases:
  obtains (refused) lm resp where "handleAuthorizePost lb e r sv = (resp, sv\<lparr>sv_limiter := lm\<rparr>)"
      "headerNames resp \<subseteq> pageNames \<or> authorizeContext lb (later 2 e) r (rq_PostForm r) (sv\<lparr>sv_limiter := lm\<rparr>) = Inl resp"
  | (accepted) rc u lm where "loginAccepted lb e r sv rc u"
      "handleAuthorizePost lb e r sv =
         completeAuthorize lb (later 2 e) r rc (rq_PostForm r) (oauthContextOf (rq_PostForm r)) (u_Username u) (sv\<lparr>sv_limiter := lm\<rparr>)"
proof (cases "rq_ParseFormErr r \<or> (case oauthParamsOf r of None \<Rightarrow> True
    | Some params \<Rightarrow> \<not> verify (sv_csrf sv) (e_now e 0) ''/authorize'' params (csrfNonce r) (Get (rq_PostForm r) ''csrf_token''))")
  case True
  then have "snd (handleAuthorizePost lb e r sv) = sv" "headerNames (fst (handleAuthorizePost lb e r sv)) \<subseteq> pageNames"
    using renderLoginPage_names renderAuthorizeError_names
    by (cases "rq_ParseFormErr r"; simp add: handleAuthorizePost_def Let_def)+
  then show ?thesis
    by (intro refused [of "fst (handleAuthorizePost lb e r sv)" "sv_limiter sv"]) (simp_all add: prod_eq_iff)
next
  case csrf: False
  obtain ok lm where al: "allow (e_now e 1) (clientIP sv r) (sv_limiter sv) = (ok, lm)" by fastforce
  let ?sv = "sv\<lparr>sv_limiter := lm\<rparr>"
  have h: "handleAuthorizePost lb e r sv =
      (if \<not> ok then (renderAuthorizeError (later 2 e) r (rq_PostForm r) 429
                        ''Too many sign-in attempts. Please wait a minute and try again.'' ?sv, ?sv)
       else case authorizeContext lb (later 2 e) r (rq_PostForm r) ?sv of
              Inl resp \<Rightarrow> (resp, ?sv)
            | Inr (who, client, q) \<Rightarrow> completeAuthorize lb (later 2 e) r client (rq_PostForm r) q (sj_Sub who) ?sv)"
    using csrf al by (simp add: handleAuthorizePost_def Let_def)
  show ?thesis
  proof (cases "ok \<and> (\<exists>x. authorizeContext lb (later 2 e) r (rq_PostForm r) ?sv = Inr x)")
    case True
    then obtain who rc q where ctx: "authorizeContext lb (later 2 e) r (rq_PostForm r) ?sv = Inr (who, rc, q)" by auto
    then obtain u where u: "q = oauthContextOf (rq_PostForm r)" "sj_Sub who = u_Username u" "loginAccepted lb e r sv rc u"
      using csrf al True by (auto simp: authorizeContext_Inr loginAccepted_def split: option.splits)
    with True ctx h show ?thesis by (intro accepted [of rc u lm]) auto
  next
    case False
    then obtain resp where "handleAuthorizePost lb e r sv = (resp, ?sv)"
      "headerNames resp \<subseteq> pageNames \<or> authorizeContext lb (later 2 e) r (rq_PostForm r) ?sv = Inl resp"
      using h renderAuthorizeError_names by (cases "authorizeContext lb (later 2 e) r (rq_PostForm r) ?sv") (auto split: if_splits)
    then show ?thesis by (rule refused)
  qed
qed

lemma handleAuthorizePost_accept:
  assumes "loginAccepted lb e r sv rc u" "\<not> rq_ParseFormErr r"
  shows "handleAuthorizePost lb e r sv =
    completeAuthorize lb (later 2 e) r rc (rq_PostForm r) (oauthContextOf (rq_PostForm r)) (u_Username u)
      (sv\<lparr>sv_limiter := snd (allow (e_now e 1) (clientIP sv r) (sv_limiter sv))\<rparr>)"
proof -
  obtain lm where al: "allow (e_now e 1) (clientIP sv r) (sv_limiter sv) = (True, lm)"
    using assms(1) by (cases "allow (e_now e 1) (clientIP sv r) (sv_limiter sv)") (auto simp: loginAccepted_def)
  obtain params where csrf: "oauthParamsOf r = Some params"
    "verify (sv_csrf sv) (e_now e 0) ''/authorize'' params (csrfNonce r) (Get (rq_PostForm r) ''csrf_token'')"
    using assms(1) by (auto simp: loginAccepted_def)
  let ?who = "\<lparr>sj_Sub = u_Username u, sj_Email = u_Email u, sj_Name = u_Name u\<rparr>"
  have "authorizeContext lb (later 2 e) r (rq_PostForm r) (sv\<lparr>sv_limiter := lm\<rparr>) = Inr (?who, rc, oauthContextOf (rq_PostForm r))"
    using assms(1) unfolding authorizeContext_Inr by (auto simp: loginAccepted_def)
  with assms(2) al csrf show ?thesis by (simp add: handleAuthorizePost_def Let_def)
qed

lemma codeFor_context:
  "\<lparr>ac_ExpiresAt = t, ac_Sub = sub, ac_ClientID = Get (oauthContextOf form) ''client_id'',
     ac_RedirectURI = Get (oauthContextOf form) ''redirect_uri'', ac_CodeChallenge = Get (oauthContextOf form) ''code_challenge'',
     ac_CodeChallengeMethod = Get (oauthContextOf form) ''code_challenge_method'', ac_Nonce = Get (oauthContextOf form) ''nonce'',
     ac_Scopes = parseScopes (Get (oauthContextOf form) ''scope'')\<rparr> = codeFor form sub t"
  by (simp add: codeFor_def Get_oauthContextOf oauthParamKeys_def)

lemma completeAuthorize_state:
  "snd (completeAuthorize lb e r rc form (oauthContextOf form) sub sv) =
     sv\<lparr>sv_store := snd (addCode (e_now e 0) (e_rand e 0) (e_now e 1) (codeFor form sub 0) authCodeTTL (sv_store sv))\<rparr>"
  by (simp add: completeAuthorize_def codeFor_context case_prod_beta split: sum.splits prod.splits)

lemma addCode_codes:
  "codes (snd (addCode n1 rnd n2 c ttl s)) k = Some ac \<Longrightarrow>
     codes s k = Some ac \<or> (randomToken rnd = Inr k \<and> ac = c\<lparr>ac_ExpiresAt := n2 + ttl\<rparr>)"
  by (auto simp: addCode_def Let_def store_maps split: sum.splits if_splits)

lemma loginAccepted_grant:
  assumes "registryOk up (sv_clients sv)" "loginAccepted lb e r sv rc u"
  shows "codeGrantOk (sv_clients sv) (codeFor (rq_PostForm r) (u_Username u) t)"
    and "u_Username u = Get (rq_PostForm r) ''username''"
proof -
  let ?q = "oauthContextOf (rq_PostForm r)"
  have c: "clientForAuthorize sv ?q = (Some rc, [])" "fst (validateAuthorizeRequest rc ?q) = []"
    "Lookup (rc_users rc) (Get (rq_PostForm r) ''username'') = Some u"
    using assms(2) by (simp_all add: loginAccepted_def)
  have rc: "lookup (sv_clients sv) (Get (rq_PostForm r) ''client_id'') = Some rc"
    "redirectURIAllowed rc (Get (rq_PostForm r) ''redirect_uri'')"
    using c(1) by (auto simp: clientForAuthorize_ok Get_oauthContextOf oauthParamKeys_def)
  then have "usersMatch (rc_users rc) (c_Users (rc_client rc))"
    using assms(1) by (auto simp: registryOk_def Clients.lookup_def entryIndexed_def)
  with c(3) show name: "u_Username u = Get (rq_PostForm r) ''username''"
    by (simp add: usersMatch_def)
  have "pkceOk rc (Get (rq_PostForm r) ''code_challenge'') (Get (rq_PostForm r) ''code_challenge_method'')"
    "\<forall>sc \<in> set (parseScopes (Get (rq_PostForm r) ''scope'')). scopeGranted rc sc"
    using c(2) unfolding validateAuthorizeRequest_ok by (simp_all add: Get_oauthContextOf oauthParamKeys_def)
  with rc c(3) name show "codeGrantOk (sv_clients sv) (codeFor (rq_PostForm r) (u_Username u) t)"
    by (auto simp: codeGrantOk_def codeFor_def)
qed

text \<open>
  C3. A code is issued only after a login: when a submission of the login form makes a new authorization code appear in the store,
  the submission carried a valid CSRF token bound to the browser's cookie and was within the rate limit; it named a registered
  client with one of its redirect URIs, and a user of that very client whose password it knew; the code is bound to that client,
  user and redirect URI, to the scopes (all permitted to the client) and to the PKCE challenge (mandatory for public clients),
  and expires ten minutes after it was stored. Nothing else of the store is new.
\<close>

theorem code_issued_after_login:
  assumes "registryOk up (sv_clients sv)" "handleAuthorizePost lb e r sv = (resp, sv')"
    and "codes (sv_store sv') k = Some ac" "codes (sv_store sv) k \<noteq> Some ac"
  shows "\<exists>rc u. loginAccepted lb e r sv rc u
      \<and> lookup (sv_clients sv) (Get (rq_PostForm r) ''client_id'') = Some rc
      \<and> Lookup (rc_users rc) (Get (rq_PostForm r) ''username'') = Some u
      \<and> verifyHash (lb_bcrypt lb) (u_PasswordHash u) (Get (rq_PostForm r) ''password'')
      \<and> ac = codeFor (rq_PostForm r) (Get (rq_PostForm r) ''username'') (e_now e 3 + authCodeTTL)
      \<and> codeGrantOk (sv_clients sv) ac
      \<and> randomToken (e_rand e 2) = Inr k
      \<and> refresh (sv_store sv') \<subseteq>\<^sub>m refresh (sv_store sv) \<and> accessJTI (sv_store sv') \<subseteq>\<^sub>m accessJTI (sv_store sv)"
proof (cases rule: handleAuthorizePost_cases [where lb = lb and e = e and r = r and sv = sv])
  case (refused lm resp')
  then have "sv_store sv' = sv_store sv" using assms(2) by simp
  with assms(3,4) show ?thesis by simp
next
  case (accepted rc u lm)
  let ?c = "codeFor (rq_PostForm r) (u_Username u) 0"
  have st: "sv_store sv' = snd (addCode (e_now e 2) (e_rand e 2) (e_now e 3) ?c authCodeTTL (sv_store sv))"
  proof -
    have "sv' = snd (handleAuthorizePost lb e r sv)" using assms(2) by simp
    then show ?thesis unfolding accepted(2) completeAuthorize_state by simp
  qed
  have new: "randomToken (e_rand e 2) = Inr k" "ac = ?c\<lparr>ac_ExpiresAt := e_now e 3 + authCodeTTL\<rparr>"
    using addCode_codes [OF assms(3) [unfolded st]] assms(4) by auto
  have sub: "refresh (sv_store sv') \<subseteq>\<^sub>m refresh (sv_store sv)" "accessJTI (sv_store sv') \<subseteq>\<^sub>m accessJTI (sv_store sv)"
    by (simp_all add: st addCode_def Let_def store_maps keepWhere_le split: sum.splits)
  note grant = loginAccepted_grant [OF assms(1) accepted(1)]
  have ac: "ac = codeFor (rq_PostForm r) (u_Username u) (e_now e 3 + authCodeTTL)"
    using new(2) by (simp add: codeFor_def)
  have login: "Lookup (rc_users rc) (Get (rq_PostForm r) ''username'') = Some u"
    "verifyHash (lb_bcrypt lb) (u_PasswordHash u) (Get (rq_PostForm r) ''password'')"
    "lookup (sv_clients sv) (Get (rq_PostForm r) ''client_id'') = Some rc"
    using accepted(1) by (auto simp: loginAccepted_def clientForAuthorize_ok Get_oauthContextOf oauthParamKeys_def)
  show ?thesis
    using accepted(1) login ac grant new(1) sub by metis
qed

lemma handleAuthorizePost_location:
  assumes "registryOk up (sv_clients sv)" "(''Location'', v) \<in> set (rs_Header (fst (handleAuthorizePost lb e r sv)))"
  shows "redirectsTo lb sv (oauthContextOf (rq_PostForm r)) v"
proof -
  let ?q = "oauthContextOf (rq_PostForm r)"
  have page: "(''Location'', v) \<notin> set (rs_Header (renderLoginPage e' r st data sv'))"
    "(''Location'', v) \<notin> set (rs_Header (renderAuthorizeError e' r form st m sv'))" for e' st data sv' form m
    using location_names [OF _ renderLoginPage_names] location_names [OF _ renderAuthorizeError_names] by blast+
  have redir: "redirectsTo lb sv ?q v"
    if "(''Location'', v) \<in> set (rs_Header (redirectToClient lb e' r rc ?q extra sv'))" "clientForAuthorize sv' ?q = (Some rc, [])"
      "sv_clients sv' = sv_clients sv" for e' rc extra sv'
    using redirectToClient_location [OF _ that(2,1)] assms(1) that(3) by (simp add: redirectsTo_def)
  have ctx: "redirectsTo lb sv ?q v"
    if "authorizeContext lb e' r (rq_PostForm r) sv' = Inl resp" "(''Location'', v) \<in> set (rs_Header resp)" "sv_clients sv' = sv_clients sv" for e' resp sv'
    using that page redir [OF _ _ that(3)]
    by (auto simp: authorizeContext_def authorizeErrorRedirect_def Let_def httpError_def split: prod.splits option.splits if_splits)
  have complete: "redirectsTo lb sv ?q v"
    if "(''Location'', v) \<in> set (rs_Header (fst (completeAuthorize lb e' r rc (rq_PostForm r) ?q sub sv')))"
      "clientForAuthorize sv' ?q = (Some rc, [])" "sv_clients sv' = sv_clients sv" for e' rc sub sv'
  proof -
    have "(''Location'', v) \<in> set (rs_Header (redirectToClient lb (later 2 e') r rc ?q extra (sv'\<lparr>sv_store := st\<rparr>)))
        \<Longrightarrow> redirectsTo lb sv ?q v" for extra st
      by (erule redir) (use that(2,3) in simp_all)
    with that(1) page(2) show ?thesis
      unfolding completeAuthorize_def by (simp split: prod.splits sum.splits)
  qed
  show ?thesis
  proof (cases rule: handleAuthorizePost_cases [where lb = lb and e = e and r = r and sv = sv])
    case (refused lm resp)
    then have "(''Location'', v) \<in> set (rs_Header resp)" using assms(2) by simp
    moreover from this have "\<not> headerNames resp \<subseteq> pageNames" using location_names by blast
    ultimately show ?thesis using refused(2) ctx by simp
  next
    case (accepted rc u lm)
    then have "clientForAuthorize (sv\<lparr>sv_limiter := lm\<rparr>) ?q = (Some rc, [])" by (simp add: loginAccepted_def)
    then show ?thesis
      using complete [OF assms(2) [unfolded accepted(2)]] by simp
  qed
qed

section \<open>Witnesses\<close>

definition sampleQuery :: Values where
  "sampleQuery = [(''client_id'', [''app'']), (''redirect_uri'', [''https://app.example/cb'']), (''response_type'', [''code'']),
     (''scope'', [''openid email'']), (''code_challenge'', [replicate 43 (CHR ''A'')]), (''code_challenge_method'', [''S256''])]"

definition sampleNonce :: string where
  "sampleNonce = replicate 32 (CHR ''n'')"

definition sampleGet :: request where
  "sampleGet = sampleRequest\<lparr>rq_Method := ''GET'', rq_URLQuery := sampleQuery\<rparr>"

definition samplePost :: "string \<Rightarrow> request" where
  "samplePost token = sampleRequest\<lparr>rq_PostForm := sampleQuery @ [(''csrf_token'', [token]), (''username'', [''ada'']), (''password'', [''pw''])],
     rq_Cookie := Some (EncodeToString sampleNonce)\<rparr>"

definition sampleEnv1 :: env where
  "sampleEnv1 = \<lparr>e_now = (\<lambda>_. 0), e_rand = (\<lambda>_. Some sampleNonce)\<rparr>"

lemma sample_scopes: "parseScopes ''openid email'' = [''openid'', ''email'']"
  by code_simp

lemma sample_challenge: "challengeText (replicate 43 (CHR ''A''))"
  by code_simp

lemma sample_forms: "rq_Form sampleGet = sampleQuery" "rq_Form (samplePost token) = rq_PostForm (samplePost token)"
  by (simp_all add: rq_Form_def sampleGet_def samplePost_def sampleRequest_def sampleQuery_def AddValue_def)

lemma sample_query: "Get sampleQuery k =
    (if k = ''client_id'' then ''app'' else if k = ''redirect_uri'' then ''https://app.example/cb''
     else if k = ''response_type'' then ''code'' else if k = ''scope'' then ''openid email''
     else if k = ''code_challenge'' then replicate 43 (CHR ''A'') else if k = ''code_challenge_method'' then ''S256'' else [])"
  by (simp add: sampleQuery_def Get_def del: replicate.simps)

lemma sample_form: "Get (rq_PostForm (samplePost token)) k =
    (if Get sampleQuery k \<noteq> [] then Get sampleQuery k else if k = ''csrf_token'' then token
     else if k = ''username'' then ''ada'' else if k = ''password'' then ''pw'' else [])"
  by (simp add: samplePost_def sampleQuery_def Get_def)

lemma sample_valid:
  assumes "\<And>k. k \<in> set oauthParamKeys \<Longrightarrow> Get q k = Get sampleQuery k"
    and "Get q ''prompt'' = []" "Get q ''response_mode'' = []" "\<forall>p \<in> {''max_age'', ''acr_values'', ''display'', ''ui_locales''}. Get q p = []"
  shows "\<exists>rc. clientForAuthorize sampleServer q = (Some rc, []) \<and> fst (validateAuthorizeRequest rc q) = [] \<and> rc_client rc = sampleClient
    \<and> rc_users rc = the (newStaticUserStore sampleGen [sampleUser])"
proof -
  let ?rc = "\<lparr>rc_users = the (newStaticUserStore sampleGen [sampleUser]), rc_explicitOrigins = (\<lambda>_. False), rc_client = sampleClient\<rparr>"
  have g: "Get q ''client_id'' = ''app''" "Get q ''redirect_uri'' = ''https://app.example/cb''" "Get q ''response_type'' = ''code''"
    "Get q ''scope'' = ''openid email''" "Get q ''code_challenge'' = replicate 43 (CHR ''A'')" "Get q ''code_challenge_method'' = ''S256''"
    by (simp_all add: assms(1) oauthParamKeys_def sample_query del: replicate.simps)
  have "clientForAuthorize sampleServer q = (Some ?rc, [])"
    unfolding clientForAuthorize_ok g by (simp add: sampleRegistry_lookup redirectURIAllowed_def sampleClient_fields)
  moreover have "fst (validateAuthorizeRequest ?rc q) = []"
    unfolding validateAuthorizeRequest_ok using assms(2-4)
    by (simp only: g sample_scopes) (simp add: pkceOk_def sample_challenge scopeGranted_def supportedScopes_def del: replicate.simps)
  ultimately show ?thesis by auto
qed

theorem authorize_validation_exact_witness:
  "(\<exists>rc. clientForAuthorize sampleServer sampleQuery = (Some rc, []) \<and> fst (validateAuthorizeRequest rc sampleQuery) = [])
   \<and> (\<exists>rc. lookup (sv_clients sampleServer) ''app'' = Some rc \<and> redirectURIAllowed rc ''https://app.example/cb'')"
proof -
  have "CHR 0x0A \<notin> set (Get sampleQuery ''code_challenge'')" "CHR 0x0D \<notin> set (Get sampleQuery ''code_challenge'')"
    "length (Get sampleQuery ''code_challenge'') mod 4 \<noteq> 1"
    by (simp_all add: sample_query)
  note exact = authorize_validation_exact [OF this, of sampleServer]
  have "\<exists>rc. clientForAuthorize sampleServer sampleQuery = (Some rc, []) \<and> fst (validateAuthorizeRequest rc sampleQuery) = []"
    using sample_valid [of sampleQuery] by (auto simp: sample_query)
  with exact [THEN iffD1, OF this] show ?thesis by (auto simp: sample_query)
qed

lemma sample_form_rendered:
  "\<exists>resp d. handleAuthorizeGet sampleLibs sampleEnv1 sampleGet sampleServer = (resp, sampleServer) \<and> rs_Body resp = PageBody d
     \<and> ld_Action d = ''/authorize'' \<and> ld_Hidden d = oauthHiddenFields sampleQuery"
proof -
  have "\<exists>rc. clientForAuthorize sampleServer sampleQuery = (Some rc, []) \<and> fst (validateAuthorizeRequest rc sampleQuery) = []
      \<and> rc_client rc = sampleClient \<and> rc_users rc = the (newStaticUserStore sampleGen [sampleUser])"
    by (rule sample_valid) (simp_all add: sample_query)
  then obtain rc where "clientForAuthorize sampleServer sampleQuery = (Some rc, [])" "fst (validateAuthorizeRequest rc sampleQuery) = []"
    by blast
  moreover have "rq_URLQuery sampleGet = sampleQuery" "\<not> rq_ParseFormErr sampleGet" "csrfNonce sampleGet = []"
    by (simp_all add: sampleGet_def sampleRequest_def csrfNonce_def)
  ultimately show ?thesis
    by (simp add: handleAuthorizeGet_def Let_def case_prod_beta renderLoginPage_def oauthParamsOf_def render_def emptyLoginData_def sampleEnv1_def)
qed

theorem login_form_accepted_witness:
  "\<exists>resp d params. handleAuthorizeGet sampleLibs sampleEnv1 sampleGet sampleServer = (resp, sampleServer) \<and> rs_Body resp = PageBody d
     \<and> oauthParamsOf (samplePost (ld_CSRFToken d)) = Some params
     \<and> verify (sv_csrf sampleServer) (14 * minute) ''/authorize'' params (csrfNonce (samplePost (ld_CSRFToken d))) (ld_CSRFToken d)"
proof -
  obtain resp d where page: "handleAuthorizeGet sampleLibs sampleEnv1 sampleGet sampleServer = (resp, sampleServer)" "rs_Body resp = PageBody d"
    "ld_Action d = ''/authorize''" "ld_Hidden d = oauthHiddenFields sampleQuery"
    using sample_form_rendered by blast
  let ?post = "samplePost (ld_CSRFToken d)"
  have once: "map_of sampleQuery k = (if Get sampleQuery k = [] then None else Some [Get sampleQuery k])" for k
    by (simp add: Get_def sampleQuery_def)
  have csrf: "map_of (rq_PostForm ?post) k = map_of sampleQuery k" if "k \<in> set oauthParamKeys" for k
    using that by (auto simp: samplePost_def oauthParamKeys_def sampleQuery_def)
  have "\<exists>params. oauthParamsOf ?post = Some params
     \<and> verify (sv_csrf sampleServer) (14 * minute) ''/authorize'' params (csrfNonce ?post) (Get (rq_PostForm ?post) ''csrf_token'')"
  proof (rule login_form_accepted [OF page(1,2)])
    show "\<forall>k \<in> set oauthParamKeys. map_of (rq_Form sampleGet) k =
        (if Get (rq_URLQuery sampleGet) k = [] then None else Some [Get (rq_URLQuery sampleGet) k])"
      using once by (simp add: sample_forms) (simp add: sampleGet_def)
    show "\<forall>k \<in> set oauthParamKeys. map_of (rq_Form ?post) k = map_option (\<lambda>f. [lf_Value f]) (find (\<lambda>f. lf_Name f = k) (ld_Hidden d))"
      using once csrf by (simp add: sample_forms page(4) oauthHiddenFields_def find_hidden)
  qed (simp_all add: page(3) sample_form sample_query, simp_all add: samplePost_def sampleGet_def sampleRequest_def csrfNonce_def sampleEnv1_def
        sampleNonce_def newCSRFManager_def inInt64_def Unix_def)
  then show ?thesis
    using page by (simp add: sample_form sample_query)
qed

definition sampleToken :: string where
  "sampleToken = issue (newCSRFManager ''key'' (15 * minute)) 0 ''/authorize''
     (List.map_filter (\<lambda>key. map_option (Pair key) (map_of sampleQuery key)) oauthParamKeys) sampleNonce"

lemma sample_login:
  "\<exists>rc. loginAccepted sampleLibs sampleEnv1 (samplePost sampleToken) sampleServer rc sampleUser \<and> rc_client rc = sampleClient"
proof -
  let ?form = "rq_PostForm (samplePost sampleToken)"
  have "\<exists>rc. clientForAuthorize sampleServer (oauthContextOf ?form) = (Some rc, [])
      \<and> fst (validateAuthorizeRequest rc (oauthContextOf ?form)) = [] \<and> rc_client rc = sampleClient
      \<and> rc_users rc = the (newStaticUserStore sampleGen [sampleUser])"
    by (rule sample_valid) (auto simp: Get_oauthContextOf sample_form sample_query oauthParamKeys_def)
  then obtain rc where rc: "clientForAuthorize sampleServer (oauthContextOf ?form) = (Some rc, [])"
    "fst (validateAuthorizeRequest rc (oauthContextOf ?form)) = []" "rc_client rc = sampleClient"
    "rc_users rc = the (newStaticUserStore sampleGen [sampleUser])" by blast
  have user: "Lookup (rc_users rc) ''ada'' = Some sampleUser"
    by (simp add: rc(4) Lookup_def newStaticUserStore_def newDummyHash_def sampleGen_def Let_def) (simp add: sampleUser_def)
  let ?params = "List.map_filter (\<lambda>key. map_option (Pair key) (map_of sampleQuery key)) oauthParamKeys"
  have "map_of ?form k = map_of sampleQuery k" if "k \<in> set oauthParamKeys" for k
    using that by (auto simp: samplePost_def oauthParamKeys_def sampleQuery_def)
  moreover have "\<not> rq_ParseFormErr (samplePost sampleToken)"
    by (simp add: samplePost_def sampleRequest_def)
  ultimately have params: "oauthParamsOf (samplePost sampleToken) = Some ?params"
    by (auto simp: oauthParamsOf_def sample_forms intro!: map_filter_cong)
  have nonce: "csrfNonce (samplePost sampleToken) = sampleNonce"
    using length_EncodeToString [of sampleNonce]
    by (auto simp: csrfNonce_def samplePost_def DecodeString_EncodeToString sampleNonce_def)
  have "plainAction ''/authorize''" "inInt64 (Unix (0 + csrf_ttl (newCSRFManager ''key'' (15 * minute))))"
    by (simp_all add: plainAction_def inInt64_def Unix_def newCSRFManager_def)
  then have "verify (newCSRFManager ''key'' (15 * minute)) 0 ''/authorize'' ?params sampleNonce sampleToken"
    unfolding sampleToken_def by (subst verify_issue) (simp_all add: newCSRFManager_def Unix_def sampleNonce_def)
  with rc user params nonce show ?thesis
    by (intro exI [of _ rc])
      (simp add: loginAccepted_def sample_form sample_query sampleEnv1_def allow_def verifyHash_def sampleLibs_def)
qed

theorem code_issued_after_login_witness:
  "\<exists>resp sv' k. handleAuthorizePost sampleLibs sampleEnv1 (samplePost sampleToken) sampleServer = (resp, sv')
     \<and> codes (sv_store sv') k = Some (codeFor (rq_PostForm (samplePost sampleToken)) ''ada'' (10 * minute))
     \<and> codeGrantOk sampleRegistry (codeFor (rq_PostForm (samplePost sampleToken)) ''ada'' (10 * minute))"
proof -
  let ?r = "samplePost sampleToken"
  obtain rc where rc: "loginAccepted sampleLibs sampleEnv1 ?r sampleServer rc sampleUser" using sample_login by blast
  obtain resp sv' where h: "handleAuthorizePost sampleLibs sampleEnv1 ?r sampleServer = (resp, sv')" by fastforce
  have "sv' = snd (handleAuthorizePost sampleLibs sampleEnv1 ?r sampleServer)" using h by simp
  also have "\<dots> = (let sv1 = sampleServer\<lparr>sv_limiter := snd (allow 0 (clientIP sampleServer ?r) None)\<rparr> in
      sv1\<lparr>sv_store := snd (addCode 0 (Some sampleNonce) 0 (codeFor (rq_PostForm ?r) ''ada'' 0) authCodeTTL newStore)\<rparr>)"
    by (subst handleAuthorizePost_accept [OF rc])
      (simp_all add: samplePost_def sampleRequest_def completeAuthorize_state sampleEnv1_def Let_def sampleUser_def)
  finally have st: "sv_store sv' = snd (addCode 0 (Some sampleNonce) 0 (codeFor (rq_PostForm ?r) ''ada'' 0) authCodeTTL newStore)"
    by (simp add: Let_def)
  then have code: "codes (sv_store sv') (EncodeToString sampleNonce) = Some (codeFor (rq_PostForm ?r) ''ada'' (10 * minute))"
    by (simp add: addCode_def randomToken_def Let_def codeFor_def)
  have "registryOk sampleURL (sv_clients sampleServer)"
    using LoadClients_ok [OF sample_loads] by simp
  from code_issued_after_login [OF this h code] code h show ?thesis by auto
qed

end
