(* ===== verification/LoginPage.thy ===== *)
theory LoginPage
  imports Authorize
begin

text \<open>
  The rendered login page: the template \<^verbatim>\<open>internal/idp/web/login.html\<close> executed by \<^verbatim>\<open>loginTemplate.render\<close> (\<^verbatim>\<open>internal/idp/web.go\<close>), with
  the contextual escaping of \<^verbatim>\<open>html/template\<close>, and what a browser reads from the bytes.

  The template is the text of the file, cut at its actions. The escapers are the ones \<^verbatim>\<open>html/template\<close> puts at these places: for text, for
  the text of \<^verbatim>\<open><title>\<close>, for attribute values in double quotes, and for an attribute that holds a URL. The reading side is the part of
  the HTML tokenizer for tags with double-quoted attributes; any other markup leads to a state \<open>Unknown\<close>, so that a page that parses has
  none.
\<close>

section \<open>The escapers of html/template\<close>

definition htmlReplacement :: "char \<Rightarrow> string" where
  "htmlReplacement c =
     (if c = CHR 0x00 then [CHR 0xEF, CHR 0xBF, CHR 0xBD]
      else if c = CHR 0x22 then ''&#34;''
      else if c = CHR ''&'' then ''&amp;''
      else if c = CHR 0x27 then ''&#39;''
      else if c = CHR ''+'' then ''&#43;''
      else if c = CHR ''<'' then ''&lt;''
      else if c = CHR ''>'' then ''&gt;''
      else [c])"

definition htmlEscape :: "string \<Rightarrow> string" where
  "htmlEscape s = concat (map htmlReplacement s)"

text \<open>\<^verbatim>\<open>isSafeURL\<close> and the URL filter: a scheme other than these is replaced by a harmless fragment.\<close>

definition isSafeURL :: "string \<Rightarrow> bool" where
  "isSafeURL s =
     (case Cut s (CHR '':'') of
        None \<Rightarrow> True
      | Some (protocol, rest) \<Rightarrow> CHR ''/'' \<in> set protocol \<or> EqualFold protocol ''http'' \<or> EqualFold protocol ''https'' \<or> EqualFold protocol ''mailto'')"

definition urlFilter :: "string \<Rightarrow> string" where
  "urlFilter s = (if isSafeURL s then s else ''#ZgotmplZ'')"

definition isHexChar :: "char \<Rightarrow> bool" where
  "isHexChar c \<longleftrightarrow> CHR ''0'' \<le> c \<and> c \<le> CHR ''9'' \<or> CHR ''a'' \<le> c \<and> c \<le> CHR ''f'' \<or> CHR ''A'' \<le> c \<and> c \<le> CHR ''F''"

definition urlPlain :: "char \<Rightarrow> bool" where
  "urlPlain c =
     (let n = of_char c :: nat
      in c \<in> set ''!#$&*+,/:;=?@[]-._~'' \<or> 97 \<le> n \<and> n \<le> 122 \<or> 65 \<le> n \<and> n \<le> 90 \<or> 48 \<le> n \<and> n \<le> 57)"

fun urlNormalize :: "string \<Rightarrow> string" where
  "urlNormalize [] = []"
| "urlNormalize (c # cs) =
     (if urlPlain c \<or> c = CHR ''%'' \<and> length cs \<ge> 2 \<and> isHexChar (cs ! 0) \<and> isHexChar (cs ! 1)
      then c # urlNormalize cs
      else CHR ''%'' # lowerHexDigit (of_char c div 16) # lowerHexDigit (of_char c mod 16) # urlNormalize cs)"

datatype place = InText | InTitle | InAttr | InURL

fun escapeAt :: "place \<Rightarrow> string \<Rightarrow> string" where
  "escapeAt InText s = htmlEscape s"
| "escapeAt InTitle s = htmlEscape s"
| "escapeAt InAttr s = htmlEscape s"
| "escapeAt InURL s = htmlEscape (urlNormalize (urlFilter s))"

section \<open>The template\<close>

text \<open>The actions that occur in the template; a condition is a field that is not empty.\<close>

datatype tnode = TText string | TField place string | TIf string "tnode list" "tnode list" | TRange "tnode list"

text \<open>The fields of the data by name, and inside \<^verbatim>\<open>range\<close> those of the hidden field.\<close>

definition dataField :: "loginData \<Rightarrow> string \<Rightarrow> string" where
  "dataField d name =
     (if name = ''Title'' then ld_Title d else if name = ''Subtitle'' then ld_Subtitle d else if name = ''Action'' then ld_Action d
      else if name = ''Error'' then ld_Error d else if name = ''Username'' then ld_Username d
      else if name = ''CSRFToken'' then ld_CSRFToken d else if name = ''Message'' then ld_Message d else [])"

definition hiddenField :: "loginField \<Rightarrow> string \<Rightarrow> string" where
  "hiddenField f name = (if name = ''Name'' then lf_Name f else if name = ''Value'' then lf_Value f else [])"

fun execTemplate :: "(string \<Rightarrow> string) \<Rightarrow> loginField list \<Rightarrow> tnode list \<Rightarrow> string" where
  "execTemplate dot hidden [] = []"
| "execTemplate dot hidden (TText s # ns) = s @ execTemplate dot hidden ns"
| "execTemplate dot hidden (TField p name # ns) = escapeAt p (dot name) @ execTemplate dot hidden ns"
| "execTemplate dot hidden (TIf name yes no # ns) =
     (if dot name \<noteq> [] then execTemplate dot hidden yes else execTemplate dot hidden no) @ execTemplate dot hidden ns"
| "execTemplate dot hidden (TRange body # ns) =
     concat (map (\<lambda>f. execTemplate (hiddenField f) [] body) hidden) @ execTemplate dot hidden ns"

definition textLines :: "string list \<Rightarrow> string" where
  "textLines ls = Join ls [CHR 0x0A]"

definition tplHead :: string where
  \<open>tplHead = textLines
    [''<!DOCTYPE html>'',
     ''<html lang="en">'',
     ''<head>'',
     ''    <meta charset="UTF-8">'',
     ''    <meta name="viewport" content="width=device-width, initial-scale=1.0">'',
     ''    <title>'']\<close>

definition tplTitle :: string where
  \<open>tplTitle = textLines
    ['' &ndash; Sign in</title>'',
     ''    <link rel="icon" type="image/svg+xml" href="/logo.svg">'',
     ''    <link rel="stylesheet" href="/login.css">'',
     ''</head>'',
     ''<body>'',
     ''    <section class="start-screen" aria-label="Sign in">'',
     ''        <div class="start-content surface-bg">'',
     ''            <img src="/logo.svg" alt="'']\<close>

definition tplLogo :: string where
  \<open>tplLogo = textLines
    ['' logo" class="landing-logo">'',
     ''            <h1 class="main-title">'']\<close>

definition tplHeading :: string where
  \<open>tplHeading = textLines
    [''</h1>'',
     ''            <p class="subtitle">'']\<close>

definition tplSubtitle :: string where
  \<open>tplSubtitle = textLines
    [''</p>'',
     [],
     ''            '']\<close>

definition tplMessage :: string where
  \<open>tplMessage = textLines
    [[],
     ''            <div id="login-container" class="login-message" role="status">'',
     ''                <p>'']\<close>

definition tplMessageEnd :: string where
  \<open>tplMessageEnd = textLines
    [''</p>'',
     ''            </div>'',
     ''            '']\<close>

definition tplLogin :: string where
  \<open>tplLogin = textLines
    [[],
     ''            <div id="login-container">'',
     ''                '']\<close>

definition tplError :: string where
  \<open>tplError = ''<p class="login-error" role="alert">''\<close>

definition tplErrorEnd :: string where
  \<open>tplErrorEnd = ''</p>''\<close>

definition tplForm :: string where
  \<open>tplForm = textLines
    [[],
     ''                <form method="POST" action="'']\<close>

definition tplToken :: string where
  \<open>tplToken = textLines
    [''" class="login-form">'',
     ''                    <input type="hidden" name="csrf_token" value="'']\<close>

definition tplTokenEnd :: string where
  \<open>tplTokenEnd = textLines
    [''">'',
     ''                    '']\<close>

definition tplHidden :: string where
  \<open>tplHidden = ''<input type="hidden" name="''\<close>

definition tplHiddenValue :: string where
  \<open>tplHiddenValue = ''" value="''\<close>

definition tplHiddenEnd :: string where
  \<open>tplHiddenEnd = ''">''\<close>

definition tplUsername :: string where
  \<open>tplUsername = textLines
    [[],
     ''                    <div class="form-row">'',
     ''                        <label for="username">Username</label>'',
     ''                        <input id="username" name="username" type="text" autocomplete="username"'',
     ''                               value="'']\<close>

definition tplPassword :: string where
  \<open>tplPassword = textLines
    [''" required autofocus>'',
     ''                    </div>'',
     ''                    <div class="form-row">'',
     ''                        <label for="password">Password</label>'',
     ''                        <input id="password" name="password" type="password"'',
     ''                               autocomplete="current-password" required>'',
     ''                    </div>'',
     ''                    <button type="submit" class="action-btn login-btn"'',
     ''                            aria-label="Sign in">Sign in</button>'',
     ''                </form>'',
     ''            </div>'',
     ''            '']\<close>

definition tplEnd :: string where
  \<open>tplEnd = textLines
    [[],
     ''        </div>'',
     ''    </section>'',
     ''</body>'',
     ''</html>'',
     []]\<close>

definition loginHtml :: "tnode list" where
  "loginHtml =
     [TText tplHead, TField InTitle ''Title'', TText tplTitle, TField InAttr ''Title'', TText tplLogo, TField InText ''Title'',
      TText tplHeading, TField InText ''Subtitle'', TText tplSubtitle,
      TIf ''Message''
        [TText tplMessage, TField InText ''Message'', TText tplMessageEnd]
        [TText tplLogin,
         TIf ''Error'' [TText tplError, TField InText ''Error'', TText tplErrorEnd] [],
         TText tplForm, TField InURL ''Action'', TText tplToken, TField InAttr ''CSRFToken'', TText tplTokenEnd,
         TRange [TText tplHidden, TField InAttr ''Name'', TText tplHiddenValue, TField InAttr ''Value'', TText tplHiddenEnd],
         TText tplUsername, TField InAttr ''Username'', TText tplPassword],
      TText tplEnd]"

text \<open>The bytes of the response body; \<open>d\<close> is the data after the defaults of \<open>render\<close>.\<close>

definition pageBytes :: "loginData \<Rightarrow> string" where
  "pageBytes d = execTemplate (dataField d) (ld_Hidden d) loginHtml"

section \<open>Reading the page\<close>

text \<open>Character references.\<close>

definition references :: "(string \<times> string) list" where
  "references = [(''amp;'', ''&''), (''lt;'', ''<''), (''gt;'', ''>''), (''#34;'', [CHR 0x22]), (''#39;'', [CHR 0x27]), (''#43;'', ''+''),
     (''ndash;'', [CHR 0xE2, CHR 0x80, CHR 0x93])]"

fun decodeRefs :: "string \<Rightarrow> string" where
  "decodeRefs [] = []"
| "decodeRefs (c # cs) =
     (if c = CHR ''&''
      then (case find (\<lambda>(name, u). take (length name) cs = name) references of
              Some (name, u) \<Rightarrow> u @ decodeRefs (drop (length name) cs)
            | None \<Rightarrow> c # decodeRefs cs)
      else c # decodeRefs cs)"

datatype token = Chars string | Tag string "(string \<times> string) list"

datatype lexState =
    Data string
  | TagOpen
  | TagName string
  | InTag string "(string \<times> string) list"
  | AttrName string "(string \<times> string) list" string
  | AfterEq string "(string \<times> string) list" string
  | Quoted string "(string \<times> string) list" string string
  | Unknown

definition htmlSpace :: "char \<Rightarrow> bool" where
  "htmlSpace c \<longleftrightarrow> c = CHR '' '' \<or> c = CHR 0x0A \<or> c = CHR 0x09 \<or> c = CHR 0x0C \<or> c = CHR 0x0D"

text \<open>Text between tags; only blanks are no token.\<close>

definition chars :: "string \<Rightarrow> token list" where
  "chars s = (if list_all htmlSpace s then [] else [Chars s])"

fun lexStep :: "lexState \<Rightarrow> char \<Rightarrow> lexState \<times> token list" where
  "lexStep (Data b) c = (if c = CHR ''<'' then (TagOpen, chars (decodeRefs b)) else (Data (b @ [c]), []))"
| "lexStep TagOpen c = (TagName [c], [])"
| "lexStep (TagName n) c =
     (if c = CHR ''>'' then (Data [], [Tag n []]) else if htmlSpace c then (InTag n [], []) else (TagName (n @ [c]), []))"
| "lexStep (InTag n as) c =
     (if c = CHR ''>'' then (Data [], [Tag n as]) else if htmlSpace c then (InTag n as, []) else (AttrName n as [c], []))"
| "lexStep (AttrName n as a) c =
     (if c = CHR ''='' then (AfterEq n as a, []) else if c = CHR ''>'' then (Data [], [Tag n (as @ [(a, [])])])
      else if htmlSpace c then (InTag n (as @ [(a, [])]), []) else (AttrName n as (a @ [c]), []))"
| "lexStep (AfterEq n as a) c = (if c = CHR 0x22 then (Quoted n as a [], []) else (Unknown, []))"
| "lexStep (Quoted n as a v) c = (if c = CHR 0x22 then (InTag n (as @ [(a, decodeRefs v)]), []) else (Quoted n as a (v @ [c]), []))"
| "lexStep Unknown c = (Unknown, [])"

fun tokenize :: "lexState \<Rightarrow> string \<Rightarrow> token list \<times> lexState" where
  "tokenize m [] = ([], m)"
| "tokenize m (c # cs) = (case lexStep m c of (m', ts) \<Rightarrow> (case tokenize m' cs of (ts', m'') \<Rightarrow> (ts @ ts', m'')))"

lemma tokenize_append:
  "tokenize m (s @ t) = (case tokenize m s of (ts, m') \<Rightarrow> (case tokenize m' t of (ts', m'') \<Rightarrow> (ts @ ts', m'')))"
  by (induction s arbitrary: m) (simp_all split: prod.split)

section \<open>Escaped text reads back\<close>

text \<open>What is left of a string on the page: a NUL byte becomes U+FFFD.\<close>

definition shown :: "string \<Rightarrow> string" where
  "shown s = concat (map (\<lambda>c. if c = CHR 0x00 then [CHR 0xEF, CHR 0xBF, CHR 0xBD] else [c]) s)"


lemma htmlEscape_simps [simp]: "htmlEscape [] = []" "htmlEscape (c # cs) = htmlReplacement c @ htmlEscape cs"
  by (simp_all add: htmlEscape_def)

lemma decode_replacement: "decodeRefs (htmlReplacement c @ t) = (if c = CHR 0x00 then [CHR 0xEF, CHR 0xBF, CHR 0xBD] else [c]) @ decodeRefs t"
  by (simp add: htmlReplacement_def references_def)

lemma decode_escape: "decodeRefs (htmlEscape s @ t) = shown s @ decodeRefs t"
  by (induction s) (simp_all add: decode_replacement shown_def)

lemma decode_escape_end: "decodeRefs (htmlEscape s) = shown s"
  using decode_escape [of s "[]"] by simp

lemma escape_safe: "c \<in> set (htmlEscape s) \<Longrightarrow> c \<noteq> CHR ''<'' \<and> c \<noteq> CHR ''>'' \<and> c \<noteq> CHR 0x22 \<and> c \<noteq> CHR 0x27"
  by (induction s) (auto simp: htmlReplacement_def split: if_splits)

lemma tokenize_text: "CHR ''<'' \<notin> set s \<Longrightarrow> tokenize (Data b) s = ([], Data (b @ s))"
  by (induction s arbitrary: b) auto

lemma tokenize_value: "CHR 0x22 \<notin> set s \<Longrightarrow> tokenize (Quoted n as a v) s = ([], Quoted n as a (v @ s))"
  by (induction s arbitrary: v) auto

lemma tokenize_escaped:
  "tokenize (Data b) (htmlEscape s) = ([], Data (b @ htmlEscape s))" "tokenize (Quoted n as a v) (htmlEscape s) = ([], Quoted n as a (v @ htmlEscape s))"
  using escape_safe [of _ s] by (auto intro!: tokenize_text tokenize_value)

lemma chars_blank [simp]: "list_all htmlSpace b \<Longrightarrow> chars (decodeRefs b) = []"
proof -
  assume "list_all htmlSpace b"
  then have "decodeRefs b = b" by (induction b) (auto simp: htmlSpace_def)
  with \<open>list_all htmlSpace b\<close> show ?thesis by (simp add: chars_def)
qed

lemma chars_blank' [simp]: "list_all htmlSpace b \<Longrightarrow> chars b = []"
  by (simp add: chars_def)

section \<open>The parts of the template\<close>

text \<open>After the text or the value that a part continues, the rest of it is read from a fixed state.\<close>

lemma tokenize_data:
  assumes "seg = s @ CHR ''<'' # t" "CHR ''<'' \<notin> set s" "tokenize TagOpen t = (ts, m)"
  shows "tokenize (Data b) seg = (chars (decodeRefs (b @ s)) @ ts, m)"
  unfolding assms(1) tokenize_append tokenize_text [OF assms(2)] using assms(3) by simp

lemma tokenize_data_end:
  assumes "seg = CHR ''<'' # t" "tokenize TagOpen t = (ts, m)"
  shows "tokenize (Data b) seg = (chars (decodeRefs b) @ ts, m)"
  unfolding assms(1) by (simp add: assms(2))

lemma tokenize_blank:
  assumes "list_all htmlSpace b" "seg = s @ CHR ''<'' # t" "list_all htmlSpace s" "tokenize TagOpen t = (ts, m)"
  shows "tokenize (Data b) seg = (ts, m)"
proof -
  have "\<not> htmlSpace (CHR ''<'')" by (simp add: htmlSpace_def)
  then have "CHR ''<'' \<notin> set s" using assms(3) by (auto simp: list_all_iff)
  from tokenize_data [OF assms(2) this assms(4), of b] assms(1,3) show ?thesis by simp
qed

lemma tokenize_tag:
  assumes "seg = s @ t" "tokenize m0 s = (ts, Data [])" "tokenize (Data []) t = (ts', m)"
  shows "tokenize m0 seg = (ts @ ts', m)"
  unfolding assms(1) tokenize_append using assms(2,3) by simp

definition blanks :: "nat \<Rightarrow> nat \<Rightarrow> string" where
  "blanks n k = replicate n (CHR 0x0A) @ replicate k (CHR '' '')"

lemma tplHead_tokens: "tokenize (Data []) tplHead =
    ([Tag ''!DOCTYPE'' [(''html'', [])],
      Tag ''html'' [(''lang'', ''en'')],
      Tag ''head'' [],
      Tag ''meta'' [(''charset'', ''UTF-8'')],
      Tag ''meta'' [(''name'', ''viewport''), (''content'', ''width=device-width, initial-scale=1.0'')],
      Tag ''title'' []], Data [])"
  by code_simp

lemma tplTitle_tokens: "tokenize (Data b) tplTitle =
    (chars (decodeRefs (b @ '' &ndash; Sign in'')) @
     [Tag ''/title'' [],
      Tag ''link'' [(''rel'', ''icon''), (''type'', ''image/svg+xml''), (''href'', ''/logo.svg'')],
      Tag ''link'' [(''rel'', ''stylesheet''), (''href'', ''/login.css'')],
      Tag ''/head'' [],
      Tag ''body'' [],
      Tag ''section'' [(''class'', ''start-screen''), (''aria-label'', ''Sign in'')],
      Tag ''div'' [(''class'', ''start-content surface-bg'')]], Quoted ''img'' [(''src'', ''/logo.svg'')] ''alt'' [])"
  by (rule tokenize_data [where t = "drop 17 tplTitle"]; code_simp)

lemma tplLogo_tokens: "tokenize (Quoted ''img'' as ''alt'' v) tplLogo =
    ([Tag ''img'' (as @ [(''alt'', decodeRefs (v @ '' logo'')), (''class'', ''landing-logo'')]),
      Tag ''h1'' [(''class'', ''main-title'')]], Data [])"
  by (simp add: tplLogo_def textLines_def htmlSpace_def)

lemma tplHeading_tokens: "tokenize (Data b) tplHeading =
    (chars (decodeRefs b) @ [Tag ''/h1'' [], Tag ''p'' [(''class'', ''subtitle'')]], Data [])"
  by (rule tokenize_data_end [where t = "drop 1 tplHeading"]; code_simp)

lemma tplSubtitle_tokens: "tokenize (Data b) tplSubtitle =
    (chars (decodeRefs b) @ [Tag ''/p'' []], Data (blanks 2 12))"
  by (rule tokenize_data_end [where t = "drop 1 tplSubtitle"]; code_simp)

lemma tplMessage_tokens: "tokenize (Data (blanks 2 12)) tplMessage =
    ([Tag ''div'' [(''id'', ''login-container''), (''class'', ''login-message''), (''role'', ''status'')], Tag ''p'' []], Data [])"
  by code_simp

lemma tplMessageEnd_tokens: "tokenize (Data b) tplMessageEnd =
    (chars (decodeRefs b) @ [Tag ''/p'' [], Tag ''/div'' []], Data (blanks 1 12))"
  by (rule tokenize_data_end [where t = "drop 1 tplMessageEnd"]; code_simp)

lemma tplLogin_tokens: "tokenize (Data (blanks 2 12)) tplLogin =
    ([Tag ''div'' [(''id'', ''login-container'')]], Data (blanks 1 16))"
  by code_simp

lemma tplError_tokens: "tokenize (Data (blanks 1 16)) tplError =
    ([Tag ''p'' [(''class'', ''login-error''), (''role'', ''alert'')]], Data [])"
  by code_simp

lemma tplErrorEnd_tokens: "tokenize (Data b) tplErrorEnd =
    (chars (decodeRefs b) @ [Tag ''/p'' []], Data [])"
  by (rule tokenize_data_end [where t = "drop 1 tplErrorEnd"]; code_simp)

lemma tplForm_tokens: "list_all htmlSpace b \<Longrightarrow> tokenize (Data b) tplForm =
    ([], Quoted ''form'' [(''method'', ''POST'')] ''action'' [])"
  by (erule tokenize_blank [where s = "blanks 1 16" and t = "drop 18 tplForm"]; code_simp)

lemma tplToken_tokens: "tokenize (Quoted ''form'' as ''action'' v) tplToken =
    ([Tag ''form'' (as @ [(''action'', decodeRefs v), (''class'', ''login-form'')])], Quoted ''input'' [(''type'', ''hidden''), (''name'', ''csrf_token'')] ''value'' [])"
  by (simp add: tplToken_def textLines_def blanks_def numeral_eq_Suc htmlSpace_def)

lemma tplTokenEnd_tokens: "tokenize (Quoted ''input'' as ''value'' v) tplTokenEnd =
    ([Tag ''input'' (as @ [(''value'', decodeRefs v)])], Data (blanks 1 20))"
  by (simp add: tplTokenEnd_def textLines_def blanks_def numeral_eq_Suc htmlSpace_def)

lemma tplHidden_tokens: "list_all htmlSpace b \<Longrightarrow> tokenize (Data b) tplHidden =
    ([], Quoted ''input'' [(''type'', ''hidden'')] ''name'' [])"
  by (erule tokenize_blank [where s = "blanks 0 0" and t = "drop 1 tplHidden"]; code_simp)

lemma tplHiddenValue_tokens: "tokenize (Quoted n as ''name'' v) tplHiddenValue =
    ([], Quoted n (as @ [(''name'', decodeRefs v)]) ''value'' [])"
  by (simp add: tplHiddenValue_def textLines_def blanks_def numeral_eq_Suc htmlSpace_def)

lemma tplHiddenEnd_tokens: "tokenize (Quoted n as ''value'' v) tplHiddenEnd =
    ([Tag n (as @ [(''value'', decodeRefs v)])], Data [])"
  by (simp add: tplHiddenEnd_def textLines_def blanks_def numeral_eq_Suc htmlSpace_def)

lemma tplUsername_tokens: "list_all htmlSpace b \<Longrightarrow> tokenize (Data b) tplUsername =
    ([Tag ''div'' [(''class'', ''form-row'')],
      Tag ''label'' [(''for'', ''username'')],
      Chars ''Username'',
      Tag ''/label'' []], Quoted ''input'' [(''id'', ''username''), (''name'', ''username''), (''type'', ''text''), (''autocomplete'', ''username'')] ''value'' [])"
  by (erule tokenize_blank [where s = "blanks 1 20" and t = "drop 22 tplUsername"]; code_simp)

lemma tplPassword_head: \<open>take 21 tplPassword = ''" required autofocus>''\<close>
  by code_simp

lemma tplPassword_tokens: "tokenize (Quoted ''input'' as ''value'' v) tplPassword =
    ([Tag ''input'' (as @ [(''value'', decodeRefs v), (''required'', []), (''autofocus'', [])]),
      Tag ''/div'' [],
      Tag ''div'' [(''class'', ''form-row'')],
      Tag ''label'' [(''for'', ''password'')],
      Chars ''Password'',
      Tag ''/label'' [],
      Tag ''input'' [(''id'', ''password''), (''name'', ''password''), (''type'', ''password''), (''autocomplete'', ''current-password''), (''required'', [])],
      Tag ''/div'' [],
      Tag ''button'' [(''type'', ''submit''), (''class'', ''action-btn login-btn''), (''aria-label'', ''Sign in'')],
      Chars ''Sign in'',
      Tag ''/button'' [],
      Tag ''/form'' [],
      Tag ''/div'' []], Data (blanks 1 12))"
proof -
  have "tokenize (Quoted ''input'' as ''value'' v) (take 21 tplPassword) =
      ([Tag ''input'' (as @ [(''value'', decodeRefs v), (''required'', []), (''autofocus'', [])])], Data [])"
    by (simp add: tplPassword_head htmlSpace_def)
  moreover have "tokenize (Data []) (drop 21 tplPassword) =
      ([Tag ''/div'' [],
        Tag ''div'' [(''class'', ''form-row'')],
        Tag ''label'' [(''for'', ''password'')],
        Chars ''Password'',
        Tag ''/label'' [],
        Tag ''input'' [(''id'', ''password''), (''name'', ''password''), (''type'', ''password''), (''autocomplete'', ''current-password''), (''required'', [])],
        Tag ''/div'' [],
        Tag ''button'' [(''type'', ''submit''), (''class'', ''action-btn login-btn''), (''aria-label'', ''Sign in'')],
        Chars ''Sign in'',
        Tag ''/button'' [],
        Tag ''/form'' [],
        Tag ''/div'' []], Data (blanks 1 12))"
    by code_simp
  ultimately show ?thesis using tokenize_tag [where seg = tplPassword and s = "take 21 tplPassword" and t = "drop 21 tplPassword"] by simp
qed

lemma tplEnd_tokens: "tokenize (Data (blanks 1 12)) tplEnd =
    ([Tag ''/div'' [], Tag ''/section'' [], Tag ''/body'' [], Tag ''/html'' []], Data (blanks 1 0))"
  by code_simp

section \<open>The page as a browser reads it\<close>

text \<open>The tags and texts of the page; the data of the page occurs in texts and attribute values only.\<close>

definition hiddenInput :: "loginField \<Rightarrow> token" where
  "hiddenInput f = Tag ''input'' [(''type'', ''hidden''), (''name'', shown (lf_Name f)), (''value'', shown (lf_Value f))]"

definition messageTokens :: "loginData \<Rightarrow> token list" where
  "messageTokens d =
     [Tag ''div'' [(''id'', ''login-container''), (''class'', ''login-message''), (''role'', ''status'')], Tag ''p'' []]
     @ chars (shown (ld_Message d)) @ [Tag ''/p'' [], Tag ''/div'' []]"

definition formTokens :: "loginData \<Rightarrow> token list" where
  "formTokens d =
     [Tag ''div'' [(''id'', ''login-container'')]]
     @ (if ld_Error d \<noteq> [] then [Tag ''p'' [(''class'', ''login-error''), (''role'', ''alert'')]] @ chars (shown (ld_Error d)) @ [Tag ''/p'' []] else [])
     @ [Tag ''form'' [(''method'', ''POST''), (''action'', shown (urlNormalize (urlFilter (ld_Action d)))), (''class'', ''login-form'')],
        Tag ''input'' [(''type'', ''hidden''), (''name'', ''csrf_token''), (''value'', shown (ld_CSRFToken d))]]
     @ map hiddenInput (ld_Hidden d)
     @ [Tag ''div'' [(''class'', ''form-row'')],
        Tag ''label'' [(''for'', ''username'')],
        Chars ''Username'',
        Tag ''/label'' [],
        Tag ''input'' [(''id'', ''username''), (''name'', ''username''), (''type'', ''text''), (''autocomplete'', ''username''),
          (''value'', shown (ld_Username d)), (''required'', []), (''autofocus'', [])],
        Tag ''/div'' [],
        Tag ''div'' [(''class'', ''form-row'')],
        Tag ''label'' [(''for'', ''password'')],
        Chars ''Password'',
        Tag ''/label'' [],
        Tag ''input'' [(''id'', ''password''), (''name'', ''password''), (''type'', ''password''), (''autocomplete'', ''current-password''), (''required'', [])],
        Tag ''/div'' [],
        Tag ''button'' [(''type'', ''submit''), (''class'', ''action-btn login-btn''), (''aria-label'', ''Sign in'')],
        Chars ''Sign in'',
        Tag ''/button'' [],
        Tag ''/form'' [],
        Tag ''/div'' []]"

definition pageTokens :: "loginData \<Rightarrow> token list" where
  "pageTokens d =
     [Tag ''!DOCTYPE'' [(''html'', [])],
      Tag ''html'' [(''lang'', ''en'')],
      Tag ''head'' [],
      Tag ''meta'' [(''charset'', ''UTF-8'')],
      Tag ''meta'' [(''name'', ''viewport''), (''content'', ''width=device-width, initial-scale=1.0'')],
      Tag ''title'' [],
      Chars (shown (ld_Title d) @ [CHR '' '', CHR 0xE2, CHR 0x80, CHR 0x93] @ '' Sign in''),
      Tag ''/title'' [],
      Tag ''link'' [(''rel'', ''icon''), (''type'', ''image/svg+xml''), (''href'', ''/logo.svg'')],
      Tag ''link'' [(''rel'', ''stylesheet''), (''href'', ''/login.css'')],
      Tag ''/head'' [],
      Tag ''body'' [],
      Tag ''section'' [(''class'', ''start-screen''), (''aria-label'', ''Sign in'')],
      Tag ''div'' [(''class'', ''start-content surface-bg'')],
      Tag ''img'' [(''src'', ''/logo.svg''), (''alt'', shown (ld_Title d) @ '' logo''), (''class'', ''landing-logo'')],
      Tag ''h1'' [(''class'', ''main-title'')]]
     @ chars (shown (ld_Title d)) @ [Tag ''/h1'' [], Tag ''p'' [(''class'', ''subtitle'')]]
     @ chars (shown (ld_Subtitle d)) @ [Tag ''/p'' []]
     @ (if ld_Message d \<noteq> [] then messageTokens d else formTokens d)
     @ [Tag ''/div'' [], Tag ''/section'' [], Tag ''/body'' [], Tag ''/html'' []]"

lemma htmlSpace_blanks: "list_all htmlSpace (blanks n k)"
  by (simp add: blanks_def list_all_iff ball_Un set_replicate_conv_if htmlSpace_def)

lemma hidden_tokens:
  "list_all htmlSpace b \<Longrightarrow>
   \<exists>b'. list_all htmlSpace b' \<and> tokenize (Data b) (concat (map (\<lambda>f. execTemplate (hiddenField f) []
      [TText tplHidden, TField InAttr ''Name'', TText tplHiddenValue, TField InAttr ''Value'', TText tplHiddenEnd]) fs)) = (map hiddenInput fs, Data b')"
proof (induction fs arbitrary: b)
  case (Cons f fs)
  have "list_all htmlSpace []" by simp
  from Cons.IH [OF this] Cons.prems show ?case
    by (auto simp: tokenize_append tplHidden_tokens tokenize_escaped tplHiddenValue_tokens tplHiddenEnd_tokens decode_escape_end hiddenField_def hiddenInput_def)
qed simp

lemma dataField_simps [simp]:
  "dataField d ''Title'' = ld_Title d" "dataField d ''Subtitle'' = ld_Subtitle d" "dataField d ''Action'' = ld_Action d"
  "dataField d ''Error'' = ld_Error d" "dataField d ''Username'' = ld_Username d" "dataField d ''CSRFToken'' = ld_CSRFToken d"
  "dataField d ''Message'' = ld_Message d"
  by (simp_all add: dataField_def)

lemma form_tokens:
  "tokenize (Data (blanks 2 12)) (execTemplate (dataField d) (ld_Hidden d)
     [TText tplLogin,
      TIf ''Error'' [TText tplError, TField InText ''Error'', TText tplErrorEnd] [],
      TText tplForm, TField InURL ''Action'', TText tplToken, TField InAttr ''CSRFToken'', TText tplTokenEnd,
      TRange [TText tplHidden, TField InAttr ''Name'', TText tplHiddenValue, TField InAttr ''Value'', TText tplHiddenEnd],
      TText tplUsername, TField InAttr ''Username'', TText tplPassword]) = (formTokens d, Data (blanks 1 12))"
proof -
  obtain b where b: "list_all htmlSpace b" "tokenize (Data (blanks 1 20)) (concat (map (\<lambda>f. execTemplate (hiddenField f) []
      [TText tplHidden, TField InAttr ''Name'', TText tplHiddenValue, TField InAttr ''Value'', TText tplHiddenEnd]) (ld_Hidden d)))
      = (map hiddenInput (ld_Hidden d), Data b)"
    using hidden_tokens [OF htmlSpace_blanks, of 1 20 "ld_Hidden d"] by blast
  then show ?thesis
    by (simp add: tokenize_append tplLogin_tokens tplError_tokens tokenize_escaped tplErrorEnd_tokens tplForm_tokens htmlSpace_blanks tplToken_tokens
        tplTokenEnd_tokens tplUsername_tokens tplPassword_tokens decode_escape_end formTokens_def del: One_nat_def)
qed

lemma page_tokens: "tokenize (Data []) (pageBytes d) = (pageTokens d, Data (blanks 1 0))"
proof -
  have title: "chars (decodeRefs (htmlEscape t @ '' &ndash; Sign in'')) = [Chars (shown t @ [CHR '' '', CHR 0xE2, CHR 0x80, CHR 0x93] @ '' Sign in'')]" for t
    by (simp add: decode_escape references_def chars_def htmlSpace_def)
  have logo: "decodeRefs (htmlEscape t @ '' logo'') = shown t @ '' logo''" for t by (simp add: decode_escape)
  show ?thesis
    using form_tokens [of d]
    by (simp add: pageBytes_def loginHtml_def tokenize_append tplHead_tokens tokenize_escaped tplTitle_tokens title tplLogo_tokens logo tplHeading_tokens
        tplSubtitle_tokens decode_escape_end tplMessage_tokens tplMessageEnd_tokens tplEnd_tokens pageTokens_def messageTokens_def del: One_nat_def)
qed

text \<open>The tags of a page with the names of their attributes.\<close>

definition markup :: "token list \<Rightarrow> (string \<times> string list) list" where
  "markup ts = List.map_filter (\<lambda>t. case t of Chars s \<Rightarrow> None | Tag n as \<Rightarrow> Some (n, map fst as)) ts"

text \<open>A page without any data but with the same sections.\<close>

definition bareData :: "bool \<Rightarrow> bool \<Rightarrow> nat \<Rightarrow> loginData" where
  "bareData message err n = emptyLoginData\<lparr>ld_Message := (if message then ''m'' else []), ld_Error := (if err then ''e'' else []),
     ld_Hidden := replicate n \<lparr>lf_Name = [], lf_Value = []\<rparr>\<rparr>"

lemma markup_simps [simp]:
  "markup [] = []" "markup (Chars s # ts) = markup ts" "markup (Tag n as # ts) = (n, map fst as) # markup ts" "markup (chars s) = []"
  "markup (ts @ ts') = markup ts @ markup ts'"
  by (simp_all add: markup_def List.map_filter_simps chars_def map_filter_append)

lemma markup_hidden: "markup (map hiddenInput fs) = replicate (length fs) (''input'', [''type'', ''name'', ''value''])"
  by (induction fs) (simp_all add: hiddenInput_def)

lemma markup_bare: "markup (replicate n (hiddenInput f)) = replicate n (''input'', [''type'', ''name'', ''value''])"
  using markup_hidden [of "replicate n f"] by simp

text \<open>
  C24. The page is what its template says, whatever the data: the browser reads the rendered bytes as the fixed tags of the template, in
  which the title, the error, the user name, the token and the OAuth parameters of the request are texts and attribute values and read back
  as they were (a NUL byte as U+FFFD). The tags and attributes are those of a page without data: no value can add a tag or an
  attribute or leave its quotes.
\<close>

theorem page_parses:
  "tokenize (Data []) (pageBytes d) = (pageTokens d, Data (blanks 1 0))
   \<and> markup (pageTokens d) = markup (pageTokens (bareData (ld_Message d \<noteq> []) (ld_Error d \<noteq> []) (length (ld_Hidden d))))"
  by (simp add: page_tokens) (simp add: pageTokens_def messageTokens_def formTokens_def bareData_def emptyLoginData_def markup_hidden markup_bare)

section \<open>Submitting the form\<close>

text \<open>
  What a browser sends when the user fills in the form of the page and submits it: the named inputs in their order, for values without
  line breaks (a browser would normalise these).
\<close>

definition submitted :: "string \<Rightarrow> string \<Rightarrow> token list \<Rightarrow> (string \<times> string) list" where
  "submitted user pw ts =
     List.map_filter
       (\<lambda>t. case t of
              Chars s \<Rightarrow> None
            | Tag n as \<Rightarrow>
                if n = ''input''
                then map_option (\<lambda>k. (k, if k = ''username'' then user else if k = ''password'' then pw
                                         else (case map_of as ''value'' of Some v \<Rightarrow> v | None \<Rightarrow> []))) (map_of as ''name'')
                else None) ts"


lemma submitted_append [simp]: "submitted user pw (ts @ ts') = submitted user pw ts @ submitted user pw ts'"
  by (simp add: submitted_def map_filter_append)

lemma submitted_simps [simp]:
  "submitted user pw [] = []" "submitted user pw (Chars s # ts) = submitted user pw ts" "submitted user pw (chars s) = []"
  "n \<noteq> ''input'' \<Longrightarrow> submitted user pw (Tag n as # ts) = submitted user pw ts"
  "map_of as ''name'' = Some k \<Longrightarrow> submitted user pw (Tag ''input'' as # ts) =
     (k, if k = ''username'' then user else if k = ''password'' then pw else (case map_of as ''value'' of Some v \<Rightarrow> v | None \<Rightarrow> []))
     # submitted user pw ts"
  by (simp_all add: submitted_def List.map_filter_simps chars_def)











section \<open>Witnesses\<close>



end
