(* ===== verification/TokenEndpoint.thy ===== *)
theory TokenEndpoint
  imports Authorize
begin

text \<open>
  The token endpoint (\<^verbatim>\<open>internal/idp/handlers.go\<close>, second part): client authentication and the three grants.
\<close>

section \<open>Client authentication\<close>

type_synonym headers = "(string \<times> string) list"

definition invalidClient :: "headers \<Rightarrow> response" where
  "invalidClient hdr =
     writeError (hdr @ [(''WWW-Authenticate'', ''Basic realm=\"minidp\", error=\"invalid_client\"'')]) 401
       ''invalid_client'' ''Client authentication failed.''"

text \<open>\<^verbatim>\<open>rejectClient\<close> logs the method and answers \<open>invalidClient\<close>.\<close>

definition rejectClient :: "headers \<Rightarrow> string \<Rightarrow> response" where
  "rejectClient hdr method = invalidClient hdr"

definition identifyFormClient :: "headers \<Rightarrow> request \<Rightarrow> Server \<Rightarrow> response + registeredClient" where
  "identifyFormClient hdr r sv =
     (let cid = Get (rq_PostForm r) ''client_id''
      in if cid = [] then Inl (writeAuthError hdr ''invalid_request'' ''Missing client_id.'')
         else case lookup (sv_clients sv) cid of
                None \<Rightarrow>
                  if Get (rq_PostForm r) ''client_secret'' \<noteq> [] then Inl (rejectClient hdr ''client_secret_post'')
                  else Inl (writeAuthError hdr ''invalid_grant'' ''Unknown client_id.'')
              | Some client \<Rightarrow>
                  if rc_Confidential client \<and> \<not> constantTimeEqual (Get (rq_PostForm r) ''client_secret'') (rc_secret client)
                  then Inl (rejectClient hdr ''client_secret_post'')
                  else Inr client)"

definition authClientBasic :: "headers \<Rightarrow> request \<Rightarrow> string \<Rightarrow> string \<Rightarrow> Server \<Rightarrow> response + registeredClient" where
  "authClientBasic hdr r rawID rawPW sv =
     (case (QueryUnescape rawID, QueryUnescape rawPW) of
        (Some cid, Some pw) \<Rightarrow>
          (case lookup (sv_clients sv) cid of
             None \<Rightarrow> Inl (rejectClient hdr ''client_secret_basic'')
           | Some client \<Rightarrow>
               if \<not> rc_Confidential client then identifyFormClient hdr r sv
               else if \<not> constantTimeEqual pw (rc_secret client) then Inl (rejectClient hdr ''client_secret_basic'')
               else if Get (rq_PostForm r) ''client_id'' \<noteq> [] \<and> Get (rq_PostForm r) ''client_id'' \<noteq> rc_ID client
               then Inl (rejectClient hdr ''client_secret_basic'')
               else Inr client)
      | _ \<Rightarrow> Inl (rejectClient hdr ''client_secret_basic''))"

definition authenticateClient :: "headers \<Rightarrow> request \<Rightarrow> Server \<Rightarrow> response + registeredClient" where
  "authenticateClient hdr r sv =
     (case rq_BasicAuth r of
        Some (rawID, rawPW) \<Rightarrow> authClientBasic hdr r rawID rawPW sv
      | None \<Rightarrow> identifyFormClient hdr r sv)"

section \<open>Grants\<close>

definition verifyPKCE :: "string \<Rightarrow> string \<Rightarrow> string \<Rightarrow> bool" where
  "verifyPKCE challenge method verifier =
     (if challenge = [] then True
      else if \<not> validPKCEVerifier verifier then False
      else if method \<noteq> [] \<and> method \<noteq> ''S256'' then False
      else ConstantTimeCompare (pkceS256 verifier) challenge)"

definition serverError :: "headers \<Rightarrow> response" where
  "serverError hdr = writeError hdr 500 ''server_error'' ''The token could not be issued.''"

definition issueAndWriteTokens :: "libs \<Rightarrow> env \<Rightarrow> headers \<Rightarrow> authContext \<Rightarrow> Server \<Rightarrow> response \<times> Server" where
  "issueAndWriteTokens lb e hdr ctx sv =
     (case issueTokens (lb_jwt lb) e ctx sv of
        (Inl err, sv') \<Rightarrow> (serverError hdr, sv')
      | (Inr resp, sv') \<Rightarrow> (writeJSON hdr 200 (tokenResponseJSON resp), sv'))"

definition issueAndWriteClientCredentials :: "libs \<Rightarrow> env \<Rightarrow> headers \<Rightarrow> registeredClient \<Rightarrow> string list \<Rightarrow> Server \<Rightarrow> response \<times> Server" where
  "issueAndWriteClientCredentials lb e hdr client scopes sv =
     (case issueClientCredentialsTokens (lb_jwt lb) e client scopes sv of
        (Inl err, sv') \<Rightarrow> (serverError hdr, sv')
      | (Inr resp, sv') \<Rightarrow> (writeJSON hdr 200 (tokenResponseJSON resp), sv'))"

text \<open>\<^term>\<open>None\<close> when the code may be redeemed, else the error response.\<close>

definition validateCodeGrant :: "headers \<Rightarrow> Values \<Rightarrow> authCode \<Rightarrow> registeredClient \<Rightarrow> response option" where
  "validateCodeGrant hdr form ac client =
     (if rc_ID client \<noteq> ac_ClientID ac
      then Some (writeAuthError hdr ''invalid_grant'' ''client_id does not match the authorization request.'')
      else (let redirectURI = Get form ''redirect_uri''
            in if redirectURI = [] then Some (writeAuthError hdr ''invalid_request'' ''Missing redirect_uri.'')
               else if redirectURI \<noteq> ac_RedirectURI ac
               then Some (writeAuthError hdr ''invalid_grant'' ''redirect_uri does not match the authorization request.'')
               else if \<not> verifyPKCE (ac_CodeChallenge ac) (ac_CodeChallengeMethod ac) (Get form ''code_verifier'')
               then Some (writeAuthError hdr ''invalid_grant'' ''PKCE verification failed.'')
               else None))"

text \<open>Readings: \<open>e_now 0\<close> and \<open>e_now 1\<close> for \<open>takeCode\<close>, \<open>e_rand 1\<close> for the family, later ones for the tokens.\<close>

definition handleCodeGrant :: "libs \<Rightarrow> env \<Rightarrow> headers \<Rightarrow> request \<Rightarrow> Server \<Rightarrow> response \<times> Server" where
  "handleCodeGrant lb e hdr r sv =
     (let form = rq_PostForm r; code = Get form ''code''
      in if code = [] then (writeAuthError hdr ''invalid_request'' ''Missing code.'', sv)
         else case authenticateClient hdr r sv of
                Inl resp \<Rightarrow> (resp, sv)
              | Inr client \<Rightarrow>
                  (case takeCode (e_now e 0) (e_now e 1) code (sv_store sv) of
                     (oac, st) \<Rightarrow>
                       let sv1 = sv\<lparr>sv_store := st\<rparr>
                       in case oac of
                            None \<Rightarrow> (writeAuthError hdr ''invalid_grant'' ''Unknown, expired or already redeemed authorization code.'', sv1)
                          | Some ac \<Rightarrow>
                              (case validateCodeGrant hdr form ac client of
                                 Some resp \<Rightarrow> (resp, sv1)
                               | None \<Rightarrow>
                                   (case randomToken (e_rand e 1) of
                                      Inl err \<Rightarrow> (serverError hdr, sv1)
                                    | Inr family \<Rightarrow>
                                        issueAndWriteTokens lb (later 2 e) hdr
                                          \<lparr>cx_Sub = ac_Sub ac, cx_ClientID = ac_ClientID ac, cx_Nonce = ac_Nonce ac,
                                           cx_Family = family, cx_Scopes = ac_Scopes ac\<rparr> sv1))))"

text \<open>Readings: \<open>e_now 0\<close> and \<open>e_now 1\<close> for \<open>takeRefresh\<close>, \<open>e_now 2\<close> for the revocation, later ones for the tokens.\<close>

definition handleRefreshGrant :: "libs \<Rightarrow> env \<Rightarrow> headers \<Rightarrow> request \<Rightarrow> Server \<Rightarrow> response \<times> Server" where
  "handleRefreshGrant lb e hdr r sv =
     (let token = Get (rq_PostForm r) ''refresh_token''
      in if token = [] then (writeAuthError hdr ''invalid_request'' ''Missing refresh_token.'', sv)
         else case authenticateClient hdr r sv of
                Inl resp \<Rightarrow> (resp, sv)
              | Inr client \<Rightarrow>
                  (case takeRefresh (e_now e 0) (e_now e 1) token (sv_store sv) of
                     ((oentry, reused), st) \<Rightarrow>
                       let sv1 = sv\<lparr>sv_store := st\<rparr>
                       in case oentry of
                            None \<Rightarrow> (writeAuthError hdr ''invalid_grant'' ''Unknown, expired or already used refresh token.'', sv1)
                          | Some entry \<Rightarrow>
                              if rc_ID client \<noteq> re_ClientID entry
                              then (writeAuthError hdr ''invalid_grant'' ''client_id does not match the refresh token.'',
                                    sv1\<lparr>sv_store := revokeFamilyTokens (e_now e 2) (re_Family entry) st\<rparr>)
                              else issueAndWriteTokens lb (later 3 e) hdr
                                     \<lparr>cx_Sub = re_Sub entry, cx_ClientID = re_ClientID entry, cx_Nonce = re_Nonce entry,
                                      cx_Family = re_Family entry, cx_Scopes = re_Scopes entry\<rparr> sv1))"

definition handleClientCredentialsGrant :: "libs \<Rightarrow> env \<Rightarrow> headers \<Rightarrow> request \<Rightarrow> Server \<Rightarrow> response \<times> Server" where
  "handleClientCredentialsGrant lb e hdr r sv =
     (case authenticateClient hdr r sv of
        Inl resp \<Rightarrow> (resp, sv)
      | Inr client \<Rightarrow>
          if \<not> rc_Confidential client \<or> \<not> rc_AllowsGrant client GrantClientCredentials
          then (writeAuthError hdr ''unauthorized_client'' ''The client is not authorized to use the client_credentials grant.'', sv)
          else (case resolveClientCredentialsScopes client (Get (rq_PostForm r) ''scope'') of
                  None \<Rightarrow> (writeAuthError hdr ''invalid_scope''
                     (''The requested scope is not configured for this client; '' @
                      ''use a registered permission or the audience's .default scope.''), sv)
                | Some scopes \<Rightarrow> issueAndWriteClientCredentials lb e hdr client scopes sv))"

definition tokenHeaders :: headers where
  "tokenHeaders = [(''Cache-Control'', ''no-store''), (''Pragma'', ''no-cache'')]"

definition handleToken :: "libs \<Rightarrow> env \<Rightarrow> request \<Rightarrow> Server \<Rightarrow> response \<times> Server" where
  "handleToken lb e r sv =
     (let hdr = tokenHeaders; g = Get (rq_PostForm r) ''grant_type''
      in if rq_ParseFormErr r then (writeAuthError hdr ''invalid_request'' ''Malformed form body.'', sv)
         else if g = ''authorization_code'' then handleCodeGrant lb e hdr r sv
         else if g = ''refresh_token'' then handleRefreshGrant lb e hdr r sv
         else if g = ''client_credentials'' then handleClientCredentialsGrant lb e hdr r sv
         else if g = [] then (writeAuthError hdr ''invalid_request'' ''Missing grant_type.'', sv)
         else (writeAuthError hdr ''unsupported_grant_type''
                 ''Only authorization_code, refresh_token and client_credentials are supported.'', sv))"

section \<open>Client authentication\<close>

text \<open>
  What a client that passes has shown: a confidential client its own secret, in the form or as basic credentials that no other
  form identity contradicts; a public client its registered name.
\<close>

definition provenBy :: "request \<Rightarrow> Server \<Rightarrow> registeredClient \<Rightarrow> bool" where
  "provenBy r sv client \<longleftrightarrow>
     (\<exists>cid. lookup (sv_clients sv) cid = Some client
        \<and> (if rc_Confidential client
           then (Get (rq_PostForm r) ''client_id'' = cid \<and> Get (rq_PostForm r) ''client_secret'' = rc_secret client)
              \<or> (\<exists>rawID rawPW. rq_BasicAuth r = Some (rawID, rawPW) \<and> QueryUnescape rawID = Some cid
                   \<and> QueryUnescape rawPW = Some (rc_secret client) \<and> Get (rq_PostForm r) ''client_id'' \<in> {[], rc_ID client})
           else Get (rq_PostForm r) ''client_id'' = cid))"

lemma identifyFormClient_Inr:
  "identifyFormClient hdr r sv = Inr client \<longleftrightarrow>
     Get (rq_PostForm r) ''client_id'' \<noteq> [] \<and> lookup (sv_clients sv) (Get (rq_PostForm r) ''client_id'') = Some client
     \<and> (rc_Confidential client \<longrightarrow> Get (rq_PostForm r) ''client_secret'' = rc_secret client)"
  by (auto simp: identifyFormClient_def Let_def split: option.splits if_splits)

lemma identifyFormClient_proven: "identifyFormClient hdr r sv = Inr client \<Longrightarrow> provenBy r sv client"
  by (auto simp: identifyFormClient_Inr provenBy_def)

lemma authenticateClient_proven:
  assumes "authenticateClient hdr r sv = Inr client"
  shows "provenBy r sv client"
proof (cases "rq_BasicAuth r")
  case None
  with assms identifyFormClient_proven show ?thesis by (simp add: authenticateClient_def)
next
  case (Some cred)
  then obtain rawID rawPW where "rq_BasicAuth r = Some (rawID, rawPW)" by (cases cred) auto
  with assms identifyFormClient_proven [of hdr r sv client] show ?thesis
    by (auto simp: authenticateClient_def authClientBasic_def provenBy_def split: option.splits if_splits)
qed

lemma authenticateClient_Inl_status:
  "authenticateClient hdr r sv = Inl resp \<Longrightarrow> rs_Status resp \<in> {400, 401}"
  by (auto simp: authenticateClient_def authClientBasic_def identifyFormClient_def rejectClient_def invalidClient_def writeAuthError_def
      writeError_def writeJSON_def Let_def split: option.splits if_splits)

lemma registered_secret:
  assumes "registryOk up reg" "lookup reg i = Some client" "rc_Confidential client"
  shows "rc_secret client \<noteq> []"
proof -
  have "entryIndexed up reg i client" using assms(1,2) by (simp add: registryOk_def Clients.lookup_def)
  with assms(3) show ?thesis by (auto simp: entryIndexed_def clientOk_def rc_Confidential_def rc_secret_def Confidential_def)
qed

text \<open>
  C12. Client authentication is sound: a client accepted at the token endpoint is registered, and a confidential client presented
  exactly its own secret, either in the form together with its name or as form-encoded basic credentials under its name, in which
  case the form names no other client.
\<close>

theorem client_authentication_sound:
  assumes "authenticateClient hdr r sv = Inr client" "registryOk up (sv_clients sv)"
  shows "lookup (sv_clients sv) (rc_ID client) = Some client
    \<and> (rc_Confidential client \<longrightarrow> rc_secret client \<noteq> []
         \<and> ((Get (rq_PostForm r) ''client_id'' = rc_ID client \<and> Get (rq_PostForm r) ''client_secret'' = rc_secret client)
            \<or> (\<exists>rawID rawPW. rq_BasicAuth r = Some (rawID, rawPW) \<and> QueryUnescape rawID = Some (rc_ID client)
                 \<and> QueryUnescape rawPW = Some (rc_secret client) \<and> Get (rq_PostForm r) ''client_id'' \<in> {[], rc_ID client})))
    \<and> (\<not> rc_Confidential client \<longrightarrow> Get (rq_PostForm r) ''client_id'' = rc_ID client)"
proof -
  obtain cid where cid: "lookup (sv_clients sv) cid = Some client"
    "if rc_Confidential client
     then (Get (rq_PostForm r) ''client_id'' = cid \<and> Get (rq_PostForm r) ''client_secret'' = rc_secret client)
       \<or> (\<exists>rawID rawPW. rq_BasicAuth r = Some (rawID, rawPW) \<and> QueryUnescape rawID = Some cid
            \<and> QueryUnescape rawPW = Some (rc_secret client) \<and> Get (rq_PostForm r) ''client_id'' \<in> {[], rc_ID client})
     else Get (rq_PostForm r) ''client_id'' = cid"
    using authenticateClient_proven [OF assms(1)] unfolding provenBy_def by blast
  have self: "rc_ID client = cid"
    using directory.find_self [OF assms(2) cid(1)] .
  have "rc_Confidential client \<Longrightarrow> rc_secret client \<noteq> []"
    by (rule registered_secret [OF assms(2) cid(1)])
  with cid self show ?thesis by (cases "rc_Confidential client") simp_all
qed

section \<open>PKCE\<close>

lemma verifyPKCE_iff:
  "verifyPKCE challenge method verifier \<longleftrightarrow>
     challenge = [] \<or> (validPKCEVerifier verifier \<and> method \<in> {[], ''S256''} \<and> pkceS256 verifier = challenge)"
  by (auto simp: verifyPKCE_def)

lemma validateCodeGrant_None:
  "validateCodeGrant hdr form ac client = None \<longleftrightarrow>
     rc_ID client = ac_ClientID ac \<and> Get form ''redirect_uri'' \<noteq> [] \<and> Get form ''redirect_uri'' = ac_RedirectURI ac
     \<and> verifyPKCE (ac_CodeChallenge ac) (ac_CodeChallengeMethod ac) (Get form ''code_verifier'')"
  by (auto simp: validateCodeGrant_def Let_def)

lemma validateCodeGrant_status: "validateCodeGrant hdr form ac client = Some resp \<Longrightarrow> rs_Status resp = 400"
  by (auto simp: validateCodeGrant_def Let_def writeAuthError_def writeError_def writeJSON_def split: if_splits)

lemma status_simps [simp]:
  "rs_Status (writeAuthError hdr c ds) = 400" "rs_Status (writeError hdr st c ds) = st" "rs_Status (writeJSON hdr st v) = st"
  "rs_Status (serverError hdr) = 500" "rs_Body (writeJSON hdr st v) = JSONBody v"
  by (simp_all add: writeAuthError_def writeError_def writeJSON_def serverError_def)

section \<open>Redeeming a code\<close>

abbreviation (input) codeContext :: "authCode \<Rightarrow> string \<Rightarrow> authContext" where
  "codeContext ac family \<equiv> \<lparr>cx_Sub = ac_Sub ac, cx_ClientID = ac_ClientID ac, cx_Nonce = ac_Nonce ac, cx_Family = family, cx_Scopes = ac_Scopes ac\<rparr>"

abbreviation (input) refreshContext :: "refreshEntry \<Rightarrow> authContext" where
  "refreshContext f \<equiv> \<lparr>cx_Sub = re_Sub f, cx_ClientID = re_ClientID f, cx_Nonce = re_Nonce f, cx_Family = re_Family f, cx_Scopes = re_Scopes f\<rparr>"

lemma issueAndWriteTokens_200:
  assumes "issueAndWriteTokens lb e hdr ctx sv = (resp, sv')" "rs_Status resp = 200"
  obtains tr where "issueTokens (lb_jwt lb) e ctx sv = (Inr tr, sv')" "rs_Body resp = JSONBody (tokenResponseJSON tr)"
  using assms by (auto simp: issueAndWriteTokens_def split: prod.splits sum.splits)

text \<open>The path of a code grant, up to the point where tokens are issued.\<close>

lemma handleCodeGrant_cases:
  obtains (refused) resp where "handleCodeGrant lb e hdr r sv = (resp, sv)" "rs_Status resp \<in> {400, 401}"
  | (burned) client resp where "authenticateClient hdr r sv = Inr client" "rs_Status resp \<in> {400, 500}"
      "handleCodeGrant lb e hdr r sv = (resp, sv\<lparr>sv_store := snd (takeCode (e_now e 0) (e_now e 1) (Get (rq_PostForm r) ''code'') (sv_store sv))\<rparr>)"
  | (redeemed) client ac family where "authenticateClient hdr r sv = Inr client" "Get (rq_PostForm r) ''code'' \<noteq> []"
      "fst (takeCode (e_now e 0) (e_now e 1) (Get (rq_PostForm r) ''code'') (sv_store sv)) = Some ac"
      "validateCodeGrant hdr (rq_PostForm r) ac client = None" "randomToken (e_rand e 1) = Inr family"
      "handleCodeGrant lb e hdr r sv = issueAndWriteTokens lb (later 2 e) hdr (codeContext ac family)
         (sv\<lparr>sv_store := snd (takeCode (e_now e 0) (e_now e 1) (Get (rq_PostForm r) ''code'') (sv_store sv))\<rparr>)"
proof (cases "Get (rq_PostForm r) ''code'' = []")
  case True
  then show ?thesis using refused [of "writeAuthError hdr ''invalid_request'' ''Missing code.''"] by (simp add: handleCodeGrant_def Let_def)
next
  case code: False
  show ?thesis
  proof (cases "authenticateClient hdr r sv")
    case (Inl resp)
    with code show ?thesis
      using refused [of resp] authenticateClient_Inl_status [OF Inl] by (simp add: handleCodeGrant_def Let_def)
  next
    case (Inr client)
    obtain oac st where t: "takeCode (e_now e 0) (e_now e 1) (Get (rq_PostForm r) ''code'') (sv_store sv) = (oac, st)" by fastforce
    note burned = burned [OF Inr] and redeemed = redeemed [OF Inr code]
    note h = handleCodeGrant_def [of lb e hdr r sv] Let_def t
    show ?thesis
    proof (cases oac)
      case None
      with code Inr show ?thesis
        using burned [of "writeAuthError hdr ''invalid_grant'' ''Unknown, expired or already redeemed authorization code.''"] by (simp add: h del: One_nat_def)
    next
      case (Some ac)
      show ?thesis
      proof (cases "validateCodeGrant hdr (rq_PostForm r) ac client")
        case None
        with code Inr Some show ?thesis
          using burned [of "serverError hdr"] redeemed [of ac] by (cases "randomToken (e_rand e 1)") (simp_all add: h del: One_nat_def)
      next
        case v: (Some resp)
        with code Inr Some show ?thesis
          using burned [of resp] validateCodeGrant_status [OF v] by (simp add: h del: One_nat_def)
      qed
    qed
  qed
qed

lemma takeCode_Some:
  "fst (takeCode n1 n2 tok s) = Some c \<Longrightarrow> codes s tok = Some c \<and> n2 \<le> ac_ExpiresAt c"
  by (auto simp: takeCode_def Let_def store_maps split: option.splits if_splits)

lemma takeCode_maps:
  "refresh (snd (takeCode n1 n2 tok s)) = keepWhere (\<lambda>f. n1 \<le> re_ExpiresAt f) (refresh s)"
  "usedRefresh (snd (takeCode n1 n2 tok s)) = keepWhere (\<lambda>f. n1 \<le> re_ExpiresAt f) (usedRefresh s)"
  "accessJTI (snd (takeCode n1 n2 tok s)) = keepWhere (\<lambda>r. n1 \<le> jr_exp r) (accessJTI s)"
  "deniedJTI (snd (takeCode n1 n2 tok s)) = keepWhere (\<lambda>u. n1 \<le> u) (deniedJTI s)"
  "codes (snd (takeCode n1 n2 tok s)) = (keepWhere (\<lambda>c. n1 \<le> ac_ExpiresAt c) (codes s))(tok := None)"
  by (auto simp: takeCode_def Let_def store_maps fun_eq_iff split: option.splits)

text \<open>
  C1. Redeeming a code is sound: when the token endpoint answers an authorization-code request with success, the client has
  authenticated and is the one the code was issued to; the code was stored and unexpired; the request repeated its redirect URI;
  if the code carries a PKCE challenge the request presented a well-formed verifier whose S256 digest is that challenge. The code
  is gone afterwards, and the refresh token of the response is stored for the code's user, client, nonce and scopes under a
  new family.
\<close>

theorem code_grant_sound:
  assumes "handleCodeGrant lb e hdr r sv = (resp, sv')" "rs_Status resp = 200"
  shows "\<exists>client ac family tr. authenticateClient hdr r sv = Inr client
      \<and> codes (sv_store sv) (Get (rq_PostForm r) ''code'') = Some ac \<and> e_now e 1 \<le> ac_ExpiresAt ac
      \<and> rc_ID client = ac_ClientID ac \<and> Get (rq_PostForm r) ''redirect_uri'' = ac_RedirectURI ac
      \<and> (ac_CodeChallenge ac \<noteq> [] \<longrightarrow> validPKCEVerifier (Get (rq_PostForm r) ''code_verifier'')
           \<and> pkceS256 (Get (rq_PostForm r) ''code_verifier'') = ac_CodeChallenge ac)
      \<and> codes (sv_store sv') (Get (rq_PostForm r) ''code'') = None
      \<and> randomToken (e_rand e 1) = Inr family
      \<and> rs_Body resp = JSONBody (tokenResponseJSON tr)
      \<and> refresh (sv_store sv') (tr_RefreshToken tr) = Some (refreshFor (codeContext ac family) (e_now e 4 + cfg_RefreshTokenTTL (sv_cfg sv)))"
proof (cases rule: handleCodeGrant_cases [where lb = lb and e = e and hdr = hdr and r = r and sv = sv])
  case (redeemed client ac family)
  let ?sv = "sv\<lparr>sv_store := snd (takeCode (e_now e 0) (e_now e 1) (Get (rq_PostForm r) ''code'') (sv_store sv))\<rparr>"
  obtain tr where tr: "issueTokens (lb_jwt lb) (later 2 e) (codeContext ac family) ?sv = (Inr tr, sv')"
    "rs_Body resp = JSONBody (tokenResponseJSON tr)"
    using assms unfolding redeemed(6) by (rule issueAndWriteTokens_200)
  from tr(1) obtain jti where sv': "sv' = ?sv\<lparr>sv_store := storeAfterIssue (later 2 e) (codeContext ac family) jti (tr_RefreshToken tr) ?sv\<rparr>"
    by (rule issueTokens_done) blast
  have "codes (sv_store sv') (Get (rq_PostForm r) ''code'') = None"
    by (simp add: sv' storeAfterIssue_maps takeCode_maps)
  moreover have "refresh (sv_store sv') (tr_RefreshToken tr) = Some (refreshFor (codeContext ac family) (e_now e 4 + cfg_RefreshTokenTTL (sv_cfg sv)))"
    by (simp add: sv' storeAfterIssue_maps)
  ultimately show ?thesis
    using redeemed(1,5) tr(2) takeCode_Some [OF redeemed(3)] redeemed(4) unfolding validateCodeGrant_None verifyPKCE_iff by blast
qed (use assms in auto)

text \<open>A token set can be issued whenever the client is known, the key signs and the random source works.\<close>

lemma issueTokens_succeeds:
  assumes "lookup (sv_clients sv) (cx_ClientID ctx) = Some client" "ks_active (sv_keys sv) = Some k"
    and "\<And>header claims. jwtSign jl (sk_key k) header claims \<noteq> None" and "\<And>i. i \<le> 2 \<Longrightarrow> e_rand e i \<noteq> None"
  shows "\<exists>tr sv'. issueTokens jl e ctx sv = (Inr tr, sv')"
proof -
  have rand: "\<exists>x. randomJTI (e_rand e i) = Inr x" "\<exists>x. randomToken (e_rand e i) = Inr x" if "i \<le> 2" for i
    using assms(4) [OF that] by (auto simp: randomJTI_def randomToken_def)
  have "\<exists>x. signTyped (jwtSign jl) k claims ty = Inr x" for claims ty
    using assms(3) by (auto simp: signTyped_def Let_def split: option.splits)
  then have sig: "\<exists>x. signAccess (jwtSign jl) (sv_keys sv) claims = Inr x" "\<exists>x. sign (jwtSign jl) (sv_keys sv) claims = Inr x" for claims
    by (simp_all add: signAccess_Inr sign_Inr assms(2))
  obtain sa where sa: "\<And>claims. signAccess (jwtSign jl) (sv_keys sv) claims = Inr (sa claims)" using sig(1) by metis
  obtain si where si: "\<And>claims. sign (jwtSign jl) (sv_keys sv) claims = Inr (si claims)" using sig(2) by metis
  obtain r0 r1 r2 where r: "randomJTI (e_rand e 0) = Inr r0" "randomJTI (e_rand e 1) = Inr r1" "randomToken (e_rand e 2) = Inr r2"
    using rand(1) [of 0] rand(1) [of 1] rand(2) [of 2] by auto
  show ?thesis
    by (cases "hasScope (cx_Scopes ctx) ''openid''")
      (simp_all add: issueTokens_def issueIDToken_def addRefresh_def Let_def r sa si assms(1) del: One_nat_def)
qed

lemma authenticated_registered:
  "authenticateClient hdr r sv = Inr client \<Longrightarrow> registryOk up (sv_clients sv) \<Longrightarrow> lookup (sv_clients sv) (rc_ID client) = Some client"
  using authenticateClient_proven directory.find_self by (fastforce simp: provenBy_def)

lemma takeCode_live:
  "codes s tok = Some c \<Longrightarrow> n1 \<le> ac_ExpiresAt c \<Longrightarrow> n2 \<le> ac_ExpiresAt c \<Longrightarrow> fst (takeCode n1 n2 tok s) = Some c"
  by (simp add: takeCode_def Let_def store_maps split: option.splits)

lemma takeCode_gone: "codes s tok = None \<Longrightarrow> fst (takeCode n1 n2 tok s) = None"
  by (simp add: takeCode_def Let_def store_maps split: option.splits)

text \<open>A client that presents a live code of its own with the right redirect URI and verifier gets its tokens.\<close>

lemma handleCodeGrant_succeeds:
  assumes "registryOk up (sv_clients sv)" "authenticateClient hdr r sv = Inr client"
    and "Get (rq_PostForm r) ''code'' \<noteq> []" "codes (sv_store sv) (Get (rq_PostForm r) ''code'') = Some ac"
    and "e_now e 0 \<le> ac_ExpiresAt ac" "e_now e 1 \<le> ac_ExpiresAt ac" "rc_ID client = ac_ClientID ac"
    and "Get (rq_PostForm r) ''redirect_uri'' \<noteq> []" "Get (rq_PostForm r) ''redirect_uri'' = ac_RedirectURI ac"
    and "verifyPKCE (ac_CodeChallenge ac) (ac_CodeChallengeMethod ac) (Get (rq_PostForm r) ''code_verifier'')"
    and "ks_active (sv_keys sv) = Some k" "\<And>header claims. jwtSign (lb_jwt lb) (sk_key k) header claims \<noteq> None" "\<And>i. e_rand e i \<noteq> None"
  shows "\<exists>resp sv'. handleCodeGrant lb e hdr r sv = (resp, sv') \<and> rs_Status resp = 200 \<and> codes (sv_store sv') (Get (rq_PostForm r) ''code'') = None"
proof -
  let ?code = "Get (rq_PostForm r) ''code''"
  let ?sv = "sv\<lparr>sv_store := snd (takeCode (e_now e 0) (e_now e 1) ?code (sv_store sv))\<rparr>"
  obtain family where fam: "randomToken (e_rand e 1) = Inr family"
    using assms(13) [of 1] by (auto simp: randomToken_def)
  have "lookup (sv_clients ?sv) (cx_ClientID (codeContext ac family)) = Some client"
    using authenticated_registered [OF assms(2,1)] assms(7) by simp
  then obtain tr sv' where tr: "issueTokens (lb_jwt lb) (later 2 e) (codeContext ac family) ?sv = (Inr tr, sv')"
    using issueTokens_succeeds [of ?sv "codeContext ac family" client k "lb_jwt lb" "later 2 e"] assms(11-13) by auto
  have valid: "validateCodeGrant hdr (rq_PostForm r) ac client = None"
    using assms(7-10) by (simp add: validateCodeGrant_None)
  have h: "handleCodeGrant lb e hdr r sv = (writeJSON hdr 200 (tokenResponseJSON tr), sv')"
    using assms(2,3) takeCode_live [OF assms(4-6)] valid fam tr
    by (simp add: handleCodeGrant_def issueAndWriteTokens_def Let_def case_prod_beta del: One_nat_def)
  from tr obtain jti where "sv' = ?sv\<lparr>sv_store := storeAfterIssue (later 2 e) (codeContext ac family) jti (tr_RefreshToken tr) ?sv\<rparr>"
    by (rule issueTokens_done) blast
  then have gone: "codes (sv_store sv') ?code = None"
    by (simp add: storeAfterIssue_maps takeCode_maps)
  with h show ?thesis by simp
qed

section \<open>Refreshing\<close>

lemma handleRefreshGrant_cases:
  obtains (refused) resp where "handleRefreshGrant lb e hdr r sv = (resp, sv)" "rs_Status resp \<in> {400, 401}"
  | (unknown) client resp where "authenticateClient hdr r sv = Inr client" "rs_Status resp = 400"
      "fst (fst (takeRefresh (e_now e 0) (e_now e 1) (Get (rq_PostForm r) ''refresh_token'') (sv_store sv))) = None"
      "handleRefreshGrant lb e hdr r sv = (resp, sv\<lparr>sv_store := snd (takeRefresh (e_now e 0) (e_now e 1) (Get (rq_PostForm r) ''refresh_token'') (sv_store sv))\<rparr>)"
  | (theft) client f resp where "authenticateClient hdr r sv = Inr client" "rs_Status resp = 400" "rc_ID client \<noteq> re_ClientID f"
      "fst (fst (takeRefresh (e_now e 0) (e_now e 1) (Get (rq_PostForm r) ''refresh_token'') (sv_store sv))) = Some f"
      "handleRefreshGrant lb e hdr r sv = (resp, sv\<lparr>sv_store := revokeFamilyTokens (e_now e 2) (re_Family f)
         (snd (takeRefresh (e_now e 0) (e_now e 1) (Get (rq_PostForm r) ''refresh_token'') (sv_store sv)))\<rparr>)"
  | (rotated) client f where "authenticateClient hdr r sv = Inr client" "rc_ID client = re_ClientID f"
      "fst (fst (takeRefresh (e_now e 0) (e_now e 1) (Get (rq_PostForm r) ''refresh_token'') (sv_store sv))) = Some f"
      "handleRefreshGrant lb e hdr r sv = issueAndWriteTokens lb (later 3 e) hdr (refreshContext f)
         (sv\<lparr>sv_store := snd (takeRefresh (e_now e 0) (e_now e 1) (Get (rq_PostForm r) ''refresh_token'') (sv_store sv))\<rparr>)"
proof (cases "Get (rq_PostForm r) ''refresh_token'' = []")
  case True
  then show ?thesis
    using refused [of "writeAuthError hdr ''invalid_request'' ''Missing refresh_token.''"] by (simp add: handleRefreshGrant_def Let_def)
next
  case tok: False
  show ?thesis
  proof (cases "authenticateClient hdr r sv")
    case (Inl resp)
    with tok show ?thesis
      using refused [of resp] authenticateClient_Inl_status [OF Inl] by (simp add: handleRefreshGrant_def Let_def)
  next
    case (Inr client)
    obtain o1 reused st where t: "takeRefresh (e_now e 0) (e_now e 1) (Get (rq_PostForm r) ''refresh_token'') (sv_store sv) = ((o1, reused), st)"
      by (metis surj_pair)
    note h = handleRefreshGrant_def [of lb e hdr r sv] Let_def t
    show ?thesis
    proof (cases o1)
      case None
      with tok Inr show ?thesis
        using unknown [OF Inr, of "writeAuthError hdr ''invalid_grant'' ''Unknown, expired or already used refresh token.''"]
        by (simp add: h del: One_nat_def)
    next
      case (Some f)
      with tok Inr show ?thesis
        using theft [OF Inr, of "writeAuthError hdr ''invalid_grant'' ''client_id does not match the refresh token.''" f] rotated [OF Inr, of f]
        by (cases "rc_ID client = re_ClientID f") (simp_all add: h del: One_nat_def)
    qed
  qed
qed

lemma takeRefresh_Some:
  assumes "fst (fst (takeRefresh n1 n2 tok s)) = Some f"
  shows "refresh s tok = Some f" "n2 \<le> re_ExpiresAt f"
    "snd (takeRefresh n1 n2 tok s) = (dropExpired n1 s)\<lparr>refresh := (refresh (dropExpired n1 s))(tok := None),
       usedRefresh := (usedRefresh (dropExpired n1 s))(tok \<mapsto> f)\<rparr>"
  using assms by (auto simp: takeRefresh_def Let_def store_maps split: option.splits if_splits)

text \<open>
  C11. Refreshing rotates within the authorization: when a refresh request succeeds, the client has authenticated and is the one the refresh
  token belongs to, and the token was stored and unexpired; the new refresh token carries the same user, client, nonce,
  scopes and family, so no refresh widens an authorization; the presented token is no longer redeemable but remembered as
  consumed, so that presenting it again is recognised as a replay.
\<close>

theorem refresh_grant_rotates:
  assumes "handleRefreshGrant lb e hdr r sv = (resp, sv')" "rs_Status resp = 200"
  shows "\<exists>client f tr. authenticateClient hdr r sv = Inr client
      \<and> refresh (sv_store sv) (Get (rq_PostForm r) ''refresh_token'') = Some f \<and> e_now e 1 \<le> re_ExpiresAt f
      \<and> rc_ID client = re_ClientID f \<and> rs_Body resp = JSONBody (tokenResponseJSON tr)
      \<and> refresh (sv_store sv') (tr_RefreshToken tr) = Some (f\<lparr>re_ExpiresAt := e_now e 5 + cfg_RefreshTokenTTL (sv_cfg sv)\<rparr>)
      \<and> (Get (rq_PostForm r) ''refresh_token'' \<noteq> tr_RefreshToken tr \<longrightarrow>
           refresh (sv_store sv') (Get (rq_PostForm r) ''refresh_token'') = None)
      \<and> (e_now e 4 \<le> re_ExpiresAt f \<longrightarrow> usedRefresh (sv_store sv') (Get (rq_PostForm r) ''refresh_token'') = Some f)"
proof (cases rule: handleRefreshGrant_cases [where lb = lb and e = e and hdr = hdr and r = r and sv = sv])
  case (rotated client f)
  let ?tok = "Get (rq_PostForm r) ''refresh_token''"
  let ?sv = "sv\<lparr>sv_store := snd (takeRefresh (e_now e 0) (e_now e 1) ?tok (sv_store sv))\<rparr>"
  obtain tr where tr: "issueTokens (lb_jwt lb) (later 3 e) (refreshContext f) ?sv = (Inr tr, sv')"
    "rs_Body resp = JSONBody (tokenResponseJSON tr)"
    using assms unfolding rotated(4) by (rule issueAndWriteTokens_200)
  from tr(1) obtain jti where sv': "sv' = ?sv\<lparr>sv_store := storeAfterIssue (later 3 e) (refreshContext f) jti (tr_RefreshToken tr) ?sv\<rparr>"
    by (rule issueTokens_done) blast
  note taken = takeRefresh_Some [OF rotated(3)]
  have "refreshFor (refreshContext f) t = f\<lparr>re_ExpiresAt := t\<rparr>" for t
    by (simp add: refreshFor_def)
  then have "refresh (sv_store sv') (tr_RefreshToken tr) = Some (f\<lparr>re_ExpiresAt := e_now e 5 + cfg_RefreshTokenTTL (sv_cfg sv)\<rparr>)"
    by (simp add: sv' storeAfterIssue_maps)
  moreover have "?tok \<noteq> tr_RefreshToken tr \<Longrightarrow> refresh (sv_store sv') ?tok = None"
    by (simp add: sv' storeAfterIssue_maps taken(3) del: One_nat_def)
  moreover have "e_now e 4 \<le> re_ExpiresAt f \<Longrightarrow> usedRefresh (sv_store sv') ?tok = Some f"
    by (simp add: sv' storeAfterIssue_maps taken(3) del: One_nat_def)
  ultimately show ?thesis using rotated(1,2) tr(2) taken(1,2) by blast
qed (use assms in auto)

text \<open>
  A refresh token in foreign hands ends the session: when an authenticated client presents a live refresh token of another
  client, the request is refused, and afterwards no refresh token of the token's family is left in the store and
  every registered, unexpired access token of the family is denied until it expires.
\<close>

theorem foreign_refresh_revokes:
  assumes "authenticateClient hdr r sv = Inr client" "refresh (sv_store sv) (Get (rq_PostForm r) ''refresh_token'') = Some f"
    and "usedRefresh (sv_store sv) (Get (rq_PostForm r) ''refresh_token'') = None" "Get (rq_PostForm r) ''refresh_token'' \<noteq> []"
    and "rc_ID client \<noteq> re_ClientID f" "re_Family f \<noteq> []" "e_now e 0 \<le> e_now e 1" "e_now e 0 \<le> e_now e 2" "e_now e 1 \<le> re_ExpiresAt f"
    and "handleRefreshGrant lb e hdr r sv = (resp, sv')"
  shows "rs_Status resp = 400
    \<and> (\<forall>k g. refresh (sv_store sv') k = Some g \<or> usedRefresh (sv_store sv') k = Some g \<longrightarrow> re_Family g \<noteq> re_Family f)
    \<and> (\<forall>jti rec t. accessJTI (sv_store sv) jti = Some rec \<and> jr_family rec = re_Family f \<and> e_now e 2 < jr_exp rec \<and> t < jr_exp rec
         \<longrightarrow> isDeniedJTI t jti (sv_store sv'))"
proof -
  let ?tok = "Get (rq_PostForm r) ''refresh_token''"
  have take: "fst (fst (takeRefresh (e_now e 0) (e_now e 1) ?tok (sv_store sv))) = Some f"
    using takeRefresh_result [OF assms(7,3), of f False] assms(2,9) by auto
  define s where "s = snd (takeRefresh (e_now e 0) (e_now e 1) ?tok (sv_store sv))"
  have sv': "rs_Status resp = 400" "sv_store sv' = revokeFamilyLocked (e_now e 2) (re_Family f) s"
    using assms(1,4,5,10) take unfolding s_def
    by (auto simp: handleRefreshGrant_def revokeFamilyTokens_def Let_def case_prod_beta simp del: One_nat_def)
  have acc: "accessJTI s jti = Some rec" if "accessJTI (sv_store sv) jti = Some rec" "e_now e 2 < jr_exp rec" for jti rec
    using that assms(8) by (simp add: s_def takeRefresh_Some [OF take] store_maps del: One_nat_def)
  have "isDeniedJTI t jti (sv_store sv')"
    if "accessJTI (sv_store sv) jti = Some rec" "jr_family rec = re_Family f" "e_now e 2 < jr_exp rec" "t < jr_exp rec" for jti rec t
    using revokeFamilyLocked_denied [OF acc [OF that(1,3)] that(2) assms(6) that(3)] that(4) by (simp add: sv'(2) isDeniedJTI_def)
  with sv' assms(6) show ?thesis by (auto simp: store_maps)
qed

section \<open>Machine clients\<close>

definition machineClaims :: "env \<Rightarrow> registeredClient \<Rightarrow> string list \<Rightarrow> string \<Rightarrow> Server \<Rightarrow> accessClaims" where
  "machineClaims e client scs jti sv =
     \<lparr>acl_Registered = registeredClaims sv (rc_Audience client) (rc_ID client) jti (e_now e 0) (e_now e 0 + cfg_AccessTokenTTL (sv_cfg sv)),
      acl_ClientID = rc_ID client, acl_Azp = rc_ID client, acl_Idtyp = ''app'', acl_Scp = [], acl_Scope = joinScopes scs,
      acl_Username = [], acl_Email = [], acl_Roles = clientCredentialsRoles client\<rparr>"

lemma issueClientCredentials_200:
  assumes "issueAndWriteClientCredentials lb e hdr client scs sv = (resp, sv')" "rs_Status resp = 200"
  obtains jti tr k where "ks_active (sv_keys sv) = Some k"
    "signTyped (jwtSign (lb_jwt lb)) k (accessJSON (lb_jwt lb) (machineClaims e client scs jti sv)) typAccessToken = Inr (tr_AccessToken tr)"
    "tr_IDToken tr = []" "tr_RefreshToken tr = []" "rs_Body resp = JSONBody (tokenResponseJSON tr)"
    "sv' = sv\<lparr>sv_store := registerJTI jti (rc_ID client) [] (e_now e 0 + cfg_AccessTokenTTL (sv_cfg sv)) (sv_store sv)\<rparr>"
proof -
  obtain tr where tr: "issueClientCredentialsTokens (lb_jwt lb) e client scs sv = (Inr tr, sv')" "rs_Body resp = JSONBody (tokenResponseJSON tr)"
    using assms by (auto simp: issueAndWriteClientCredentials_def split: prod.splits sum.splits)
  from tr(1) obtain jti where jti: "randomJTI (e_rand e 0) = Inr jti"
    by (auto simp: issueClientCredentialsTokens_def Let_def split: sum.splits)
  with tr(1) obtain tok where tok: "signAccess (jwtSign (lb_jwt lb)) (sv_keys sv) (accessJSON (lb_jwt lb) (machineClaims e client scs jti sv)) = Inr tok"
    by (auto simp: issueClientCredentialsTokens_def machineClaims_def Let_def split: sum.splits)
  have "tr_AccessToken tr = tok" "tr_IDToken tr = []" "tr_RefreshToken tr = []"
    "sv' = sv\<lparr>sv_store := registerJTI jti (rc_ID client) [] (e_now e 0 + cfg_AccessTokenTTL (sv_cfg sv)) (sv_store sv)\<rparr>"
    using tr(1) jti tok by (auto simp: issueClientCredentialsTokens_def machineClaims_def Let_def)
  with that tok tr(2) show ?thesis unfolding signAccess_Inr by metis
qed

text \<open>
  C25. The client-credentials grant is for machines: it succeeds only for an authenticated confidential client that is opted in; the
  access token is issued for the client itself, with scopes out of its configured ones and its configured roles;
  the response has neither an ID token nor a refresh token, and no code or refresh token is stored.
\<close>

theorem client_credentials_sound:
  assumes "handleClientCredentialsGrant lb e hdr r sv = (resp, sv')" "rs_Status resp = 200"
  shows "\<exists>client k acl tr scs. authenticateClient hdr r sv = Inr client \<and> rc_Confidential client \<and> rc_AllowsGrant client GrantClientCredentials
      \<and> set scs \<subseteq> set (clientCredentialsScopes client) \<and> ks_active (sv_keys sv) = Some k
      \<and> signTyped (jwtSign (lb_jwt lb)) k (accessJSON (lb_jwt lb) acl) typAccessToken = Inr (tr_AccessToken tr)
      \<and> rg_Subject (acl_Registered acl) = rc_ID client \<and> rg_Audience (acl_Registered acl) = [rc_Audience client]
      \<and> acl_Scope acl = joinScopes scs \<and> acl_Roles acl = clientCredentialsRoles client \<and> acl_Email acl = [] \<and> acl_Username acl = []
      \<and> rs_Body resp = JSONBody (tokenResponseJSON tr) \<and> tr_IDToken tr = [] \<and> tr_RefreshToken tr = []
      \<and> codes (sv_store sv') = codes (sv_store sv) \<and> refresh (sv_store sv') = refresh (sv_store sv)
      \<and> usedRefresh (sv_store sv') = usedRefresh (sv_store sv) \<and> sv' = sv\<lparr>sv_store := sv_store sv'\<rparr>"
proof -
  obtain client scs where c: "authenticateClient hdr r sv = Inr client" "rc_Confidential client" "rc_AllowsGrant client GrantClientCredentials"
    "resolveClientCredentialsScopes client (Get (rq_PostForm r) ''scope'') = Some scs"
    "issueAndWriteClientCredentials lb e hdr client scs sv = (resp, sv')"
    using assms authenticateClient_Inl_status [of hdr r sv]
    by (auto simp: handleClientCredentialsGrant_def split: sum.splits option.splits if_splits)
  obtain jti tr k where i: "ks_active (sv_keys sv) = Some k"
    "signTyped (jwtSign (lb_jwt lb)) k (accessJSON (lb_jwt lb) (machineClaims e client scs jti sv)) typAccessToken = Inr (tr_AccessToken tr)"
    "tr_IDToken tr = []" "tr_RefreshToken tr = []" "rs_Body resp = JSONBody (tokenResponseJSON tr)"
    "sv' = sv\<lparr>sv_store := registerJTI jti (rc_ID client) [] (e_now e 0 + cfg_AccessTokenTTL (sv_cfg sv)) (sv_store sv)\<rparr>"
    using c(5) assms(2) by (rule issueClientCredentials_200)
  show ?thesis
    by (intro exI [of _ client] exI [of _ k] exI [of _ "machineClaims e client scs jti sv"] exI [of _ tr] exI [of _ scs])
      (use c i resolve_within_configuration [OF c(4)] in \<open>simp add: machineClaims_def registeredClaims_def registerJTI_def\<close>)
qed

section \<open>Errors\<close>

lemma issueTokens_failed:
  assumes "issueTokens jl e ctx sv = (Inl err, sv')"
  shows "refresh (sv_store sv') \<subseteq>\<^sub>m refresh (sv_store sv) \<and> codes (sv_store sv') \<subseteq>\<^sub>m codes (sv_store sv)"
proof (cases rule: issueTokens_cases [where jl = jl and e = e and ctx = ctx and sv = sv])
  case (registered client jti tok)
  with assms show ?thesis
    by (auto simp: Let_def addRefresh_def registerJTI_def store_maps keepWhere_le split: sum.splits if_splits)
qed (use assms in auto)

lemma issueAndWriteTokens_failed:
  assumes "issueAndWriteTokens lb e hdr ctx sv = (resp, sv')" "rs_Status resp \<noteq> 200"
  shows "rs_Status resp = 500 \<and> refresh (sv_store sv') \<subseteq>\<^sub>m refresh (sv_store sv) \<and> codes (sv_store sv') \<subseteq>\<^sub>m codes (sv_store sv)"
  using assms issueTokens_failed [of "lb_jwt lb" e ctx sv]
  by (auto simp: issueAndWriteTokens_def split: prod.splits sum.splits)

lemma takeCode_le:
  "refresh (snd (takeCode n1 n2 tok s)) \<subseteq>\<^sub>m refresh s" "codes (snd (takeCode n1 n2 tok s)) \<subseteq>\<^sub>m codes s"
  by (auto simp: takeCode_maps keepWhere_le map_le_def split: if_splits)

lemma takeRefresh_le:
  "refresh (snd (takeRefresh n1 n2 tok s)) \<subseteq>\<^sub>m refresh s" "codes (snd (takeRefresh n1 n2 tok s)) \<subseteq>\<^sub>m codes s"
  by (auto simp: takeRefresh_def Let_def store_maps map_le_def split: option.splits if_splits)

lemma revokeFamily_le:
  "refresh (revokeFamilyTokens now fam s) \<subseteq>\<^sub>m refresh s" "codes (revokeFamilyTokens now fam s) \<subseteq>\<^sub>m codes s"
  by (simp_all add: revokeFamilyTokens_def store_maps keepWhere_le)

abbreviation (input) noNewGrants :: "Server \<Rightarrow> Server \<Rightarrow> bool" where
  "noNewGrants sv sv' \<equiv> refresh (sv_store sv') \<subseteq>\<^sub>m refresh (sv_store sv) \<and> codes (sv_store sv') \<subseteq>\<^sub>m codes (sv_store sv)"

lemma handleCodeGrant_failed:
  assumes "handleCodeGrant lb e hdr r sv = (resp, sv')" "rs_Status resp \<noteq> 200"
  shows "rs_Status resp \<in> {400, 401, 500} \<and> noNewGrants sv sv'"
proof (cases rule: handleCodeGrant_cases [where lb = lb and e = e and hdr = hdr and r = r and sv = sv])
  case (redeemed client ac family)
  have "issueAndWriteTokens lb (later 2 e) hdr (codeContext ac family)
     (sv\<lparr>sv_store := snd (takeCode (e_now e 0) (e_now e 1) (Get (rq_PostForm r) ''code'') (sv_store sv))\<rparr>) = (resp, sv')"
    using assms(1) redeemed(6) by simp
  from issueAndWriteTokens_failed [OF this assms(2)] show ?thesis
    using map_le_trans [OF _ takeCode_le(1)] map_le_trans [OF _ takeCode_le(2)] by auto
qed (use assms takeCode_le in auto)

lemma handleRefreshGrant_failed:
  assumes "handleRefreshGrant lb e hdr r sv = (resp, sv')" "rs_Status resp \<noteq> 200"
  shows "rs_Status resp \<in> {400, 401, 500} \<and> noNewGrants sv sv'"
proof (cases rule: handleRefreshGrant_cases [where lb = lb and e = e and hdr = hdr and r = r and sv = sv])
  case (rotated client f)
  have "issueAndWriteTokens lb (later 3 e) hdr (refreshContext f)
     (sv\<lparr>sv_store := snd (takeRefresh (e_now e 0) (e_now e 1) (Get (rq_PostForm r) ''refresh_token'') (sv_store sv))\<rparr>) = (resp, sv')"
    using assms(1) rotated(4) by simp
  from issueAndWriteTokens_failed [OF this assms(2)] show ?thesis
    using map_le_trans [OF _ takeRefresh_le(1)] map_le_trans [OF _ takeRefresh_le(2)] by auto
next
  case (theft client f resp')
  with assms show ?thesis
    using map_le_trans [OF revokeFamily_le(1) takeRefresh_le(1)] map_le_trans [OF revokeFamily_le(2) takeRefresh_le(2)] by auto
qed (use assms takeRefresh_le in auto)

lemma handleClientCredentialsGrant_failed:
  assumes "handleClientCredentialsGrant lb e hdr r sv = (resp, sv')" "rs_Status resp \<noteq> 200"
  shows "rs_Status resp \<in> {400, 401, 500} \<and> sv' = sv"
proof (cases "authenticateClient hdr r sv")
  case (Inl resp')
  with assms authenticateClient_Inl_status [OF Inl] show ?thesis by (auto simp: handleClientCredentialsGrant_def)
next
  case (Inr client)
  with assms show ?thesis
    by (auto simp: handleClientCredentialsGrant_def issueAndWriteClientCredentials_def issueClientCredentialsTokens_def Let_def
        split: option.splits if_splits sum.splits)
qed

text \<open>
  C26. Errors of the token endpoint hand out nothing: an answer other than success is one of the OAuth error statuses 400, 401 and
  500, and no authorization code or refresh token is in the store afterwards that was not there before; when client authentication
  fails, the server state is unchanged, so that a failed attempt cannot burn somebody else's code or refresh token.
\<close>

theorem token_errors_harmless:
  assumes "handleToken lb e r sv = (resp, sv')" "rs_Status resp \<noteq> 200"
  shows "rs_Status resp \<in> {400, 401, 500} \<and> refresh (sv_store sv') \<subseteq>\<^sub>m refresh (sv_store sv) \<and> codes (sv_store sv') \<subseteq>\<^sub>m codes (sv_store sv)
    \<and> (\<forall>err. authenticateClient tokenHeaders r sv = Inl err \<longrightarrow> sv' = sv)"
proof -
  have "rs_Status resp \<in> {400, 401, 500} \<and> noNewGrants sv sv'"
    using assms handleCodeGrant_failed [of lb e tokenHeaders r sv resp sv'] handleRefreshGrant_failed [of lb e tokenHeaders r sv resp sv']
      handleClientCredentialsGrant_failed [of lb e tokenHeaders r sv resp sv']
    by (auto simp: handleToken_def Let_def split: if_splits)
  moreover have "sv' = sv" if "authenticateClient tokenHeaders r sv = Inl err" for err
    using assms(1) that
    by (auto simp: handleToken_def handleCodeGrant_def handleRefreshGrant_def handleClientCredentialsGrant_def Let_def split: if_splits)
  ultimately show ?thesis by blast
qed

section \<open>Witnesses\<close>

definition sampleVerifier :: string where
  "sampleVerifier = replicate 43 (CHR ''v'')"

definition sampleCode :: authCode where
  "sampleCode = \<lparr>ac_ExpiresAt = 10 * minute, ac_Sub = ''ada'', ac_ClientID = ''app'', ac_RedirectURI = ''https://app.example/cb'',
     ac_CodeChallenge = pkceS256 sampleVerifier, ac_CodeChallengeMethod = ''S256'', ac_Nonce = ''n'', ac_Scopes = [''openid'', ''email'']\<rparr>"

definition sampleEntry :: refreshEntry where
  "sampleEntry = \<lparr>re_ExpiresAt = 100 * minute, re_Sub = ''ada'', re_ClientID = ''app'', re_Nonce = ''n'', re_Family = ''fam'', re_Scopes = [''openid'', ''email'']\<rparr>"

definition busyServer :: Server where
  "busyServer = sampleServer\<lparr>sv_store := newStore\<lparr>codes := [''c'' \<mapsto> sampleCode], refresh := [''t'' \<mapsto> sampleEntry],
     accessJTI := [''j'' \<mapsto> \<lparr>jr_exp = 60 * minute, jr_sub = ''ada'', jr_family = ''fam''\<rparr>]\<rparr>\<rparr>"

definition formRequest :: "(string \<times> string) list \<Rightarrow> request" where
  "formRequest fs = sampleRequest\<lparr>rq_PostForm := map (\<lambda>(k, v). (k, [v])) fs\<rparr>"

definition codeRequest :: request where
  "codeRequest = formRequest [(''grant_type'', ''authorization_code''), (''client_id'', ''app''), (''code'', ''c''), (''redirect_uri'', ''https://app.example/cb''), (''code_verifier'', sampleVerifier)]"

definition jobRequest :: request where
  "jobRequest = formRequest [(''grant_type'', ''refresh_token''), (''client_id'', ''job''), (''client_secret'', ''s3cret''), (''refresh_token'', ''t'')]"

definition refreshRequest :: request where
  "refreshRequest = formRequest [(''grant_type'', ''refresh_token''), (''client_id'', ''app''), (''refresh_token'', ''t'')]"

lemma formRequest_get [simp]: "Get (rq_PostForm (formRequest fs)) k = (case map_of fs k of Some v \<Rightarrow> v | None \<Rightarrow> [])"
  by (induction fs) (auto simp: formRequest_def Get_def split: option.splits)

lemma formRequest_fields [simp]: "rq_BasicAuth (formRequest fs) = None" "rq_ParseFormErr (formRequest fs) = False"
  by (simp_all add: formRequest_def sampleRequest_def)

lemma busyServer_fields [simp]:
  "sv_clients busyServer = sampleRegistry" "sv_cfg busyServer = sampleConfig" "sv_keys busyServer = sv_keys sampleServer"
  "codes (sv_store busyServer) = [''c'' \<mapsto> sampleCode]" "refresh (sv_store busyServer) = [''t'' \<mapsto> sampleEntry]"
  "usedRefresh (sv_store busyServer) = Map.empty"
  "accessJTI (sv_store busyServer) = [''j'' \<mapsto> \<lparr>jr_exp = 60 * minute, jr_sub = ''ada'', jr_family = ''fam''\<rparr>]"
  by (simp_all add: busyServer_def newStore_def)

lemma sampleRegistry_ok: "registryOk sampleURL sampleRegistry"
  using LoadClients_ok [OF sample_loads] by simp

lemma sample_signs: "jwtSign (lb_jwt sampleLibs) key header claims \<noteq> None"
  by (simp add: sampleLibs_def sampleJWT_def)

lemma app_authenticates:
  assumes "Get (rq_PostForm r) ''client_id'' = ''app''" "rq_BasicAuth r = None"
  obtains client where "authenticateClient hdr r busyServer = Inr client" "rc_ID client = ''app''" "\<not> rc_Confidential client"
  using assms
  by (auto simp: authenticateClient_def identifyFormClient_def Let_def sampleRegistry_lookup rc_Confidential_def Confidential_def rc_ID_def
      sampleClient_fields)

lemma job_authenticates:
  assumes "Get (rq_PostForm r) ''client_id'' = ''job''" "Get (rq_PostForm r) ''client_secret'' = ''s3cret''" "rq_BasicAuth r = None"
  obtains client where "authenticateClient hdr r busyServer = Inr client" "rc_ID client = ''job''" "rc_client client = sampleService"
  using assms
  by (auto simp: authenticateClient_def identifyFormClient_def Let_def sampleRegistry_lookup rc_Confidential_def rc_secret_def Confidential_def rc_ID_def
      sampleService_fields)

theorem client_authentication_sound_witness:
  "\<exists>client. authenticateClient [] jobRequest busyServer = Inr client \<and> rc_Confidential client \<and> rc_secret client \<noteq> []
     \<and> lookup sampleRegistry (rc_ID client) = Some client"
proof -
  obtain client where c: "authenticateClient [] jobRequest busyServer = Inr client" "rc_client client = sampleService"
    by (rule job_authenticates [of jobRequest "[]"]) (simp_all add: jobRequest_def)
  then have "rc_Confidential client" by (simp add: rc_Confidential_def Confidential_def sampleService_fields)
  with client_authentication_sound [OF c(1), of sampleURL] sampleRegistry_ok c(1) show ?thesis by auto
qed

lemma sample_pkce: "verifyPKCE (ac_CodeChallenge sampleCode) (ac_CodeChallengeMethod sampleCode) sampleVerifier"
proof -
  have "list_all pkceVerifierChar (replicate 43 (CHR ''v''))"
    unfolding list_all_iff set_replicate_conv_if by (simp add: pkceVerifierChar_def less_eq_char_def)
  then show ?thesis
    by (simp add: verifyPKCE_iff sampleCode_def validPKCEVerifier_def sampleVerifier_def del: replicate.simps)
qed

lemma sample_code_grant:
  "\<exists>resp sv'. handleCodeGrant sampleLibs sampleEnv1 [] codeRequest busyServer = (resp, sv') \<and> rs_Status resp = 200"
proof -
  obtain client where c: "authenticateClient [] codeRequest busyServer = Inr client" "rc_ID client = ''app''"
    by (rule app_authenticates [of codeRequest "[]"]) (simp_all add: codeRequest_def)
  have ids: "lookup sampleRegistry ''app'' \<noteq> None" by (simp add: sampleRegistry_lookup)
  have rand: "randomToken (e_rand sampleEnv1 1) = Inr (EncodeToString sampleNonce)" by (simp add: randomToken_def sampleEnv1_def)
  have take: "fst (takeCode (e_now sampleEnv1 0) (e_now sampleEnv1 1) ''c'' (sv_store busyServer)) = Some sampleCode"
    by (rule takeCode_live) (simp_all add: sampleEnv1_def sampleCode_def)
  let ?sv = "busyServer\<lparr>sv_store := snd (takeCode (e_now sampleEnv1 0) (e_now sampleEnv1 1) ''c'' (sv_store busyServer))\<rparr>"
  have "\<exists>tr sv'. issueTokens (lb_jwt sampleLibs) (later 2 sampleEnv1) (codeContext sampleCode (EncodeToString sampleNonce)) ?sv = (Inr tr, sv')"
    using ids sample_signs by (intro issueTokens_succeeds [OF _ _ sample_signs]) (auto simp: sampleCode_def sampleEnv1_def sampleRegistry_lookup)
  then obtain tr sv' where tr: "issueTokens (lb_jwt sampleLibs) (later 2 sampleEnv1) (codeContext sampleCode (EncodeToString sampleNonce)) ?sv = (Inr tr, sv')"
    by blast
  have get: "Get (rq_PostForm codeRequest) ''code'' = ''c''" "Get (rq_PostForm codeRequest) ''redirect_uri'' = ''https://app.example/cb''"
    "Get (rq_PostForm codeRequest) ''code_verifier'' = sampleVerifier"
    by (simp_all add: codeRequest_def)
  have "validateCodeGrant [] (rq_PostForm codeRequest) sampleCode client = None"
    using c(2) sample_pkce by (simp add: validateCodeGrant_None get) (simp add: sampleCode_def)
  then show ?thesis
    using c(1) take rand tr by (simp add: handleCodeGrant_def issueAndWriteTokens_def Let_def get case_prod_beta del: One_nat_def)
qed

theorem code_grant_sound_witness:
  "\<exists>resp sv'. handleCodeGrant sampleLibs sampleEnv1 [] codeRequest busyServer = (resp, sv') \<and> rs_Status resp = 200 \<and> codes (sv_store sv') ''c'' = None"
proof -
  obtain resp sv' where h: "handleCodeGrant sampleLibs sampleEnv1 [] codeRequest busyServer = (resp, sv')" "rs_Status resp = 200"
    using sample_code_grant by blast
  moreover have "Get (rq_PostForm codeRequest) ''code'' = ''c''" by (simp add: codeRequest_def)
  ultimately show ?thesis using code_grant_sound [OF h] by auto
qed

lemma sample_refresh_grant:
  "\<exists>resp sv'. handleRefreshGrant sampleLibs sampleEnv1 [] refreshRequest busyServer = (resp, sv') \<and> rs_Status resp = 200"
proof -
  obtain client where c: "authenticateClient [] refreshRequest busyServer = Inr client" "rc_ID client = ''app''"
    by (rule app_authenticates [of refreshRequest "[]"]) (simp_all add: refreshRequest_def)
  have take: "fst (takeRefresh (e_now sampleEnv1 0) (e_now sampleEnv1 1) ''t'' (sv_store busyServer)) = (Some sampleEntry, False)"
    by (subst takeRefresh_result) (simp_all add: sampleEnv1_def sampleEntry_def)
  let ?sv = "busyServer\<lparr>sv_store := snd (takeRefresh (e_now sampleEnv1 0) (e_now sampleEnv1 1) ''t'' (sv_store busyServer))\<rparr>"
  have "\<exists>tr sv'. issueTokens (lb_jwt sampleLibs) (later 3 sampleEnv1) (refreshContext sampleEntry) ?sv = (Inr tr, sv')"
    by (intro issueTokens_succeeds [OF _ _ sample_signs]) (auto simp: sampleEntry_def sampleEnv1_def sampleRegistry_lookup)
  then obtain tr sv' where tr: "issueTokens (lb_jwt sampleLibs) (later 3 sampleEnv1) (refreshContext sampleEntry) ?sv = (Inr tr, sv')"
    by blast
  have get: "Get (rq_PostForm refreshRequest) ''refresh_token'' = ''t''" by (simp add: refreshRequest_def)
  have "re_ClientID sampleEntry = ''app''" by (simp add: sampleEntry_def)
  with c take tr show ?thesis
    by (simp add: handleRefreshGrant_def issueAndWriteTokens_def Let_def get case_prod_beta del: One_nat_def)
qed

theorem refresh_grant_rotates_witness:
  "\<exists>resp sv' (tr :: tokenResponse). handleRefreshGrant sampleLibs sampleEnv1 [] refreshRequest busyServer = (resp, sv') \<and> rs_Status resp = 200
     \<and> refresh (sv_store sv') (tr_RefreshToken tr) = Some (sampleEntry\<lparr>re_ExpiresAt := 7200 * second\<rparr>)"
proof -
  obtain resp sv' where h: "handleRefreshGrant sampleLibs sampleEnv1 [] refreshRequest busyServer = (resp, sv')" "rs_Status resp = 200"
    using sample_refresh_grant by blast
  have get: "Get (rq_PostForm refreshRequest) ''refresh_token'' = ''t''" "refresh (sv_store busyServer) ''t'' = Some sampleEntry"
    "e_now sampleEnv1 5 + cfg_RefreshTokenTTL (sv_cfg busyServer) = 7200 * second"
    by (simp_all add: refreshRequest_def sampleEnv1_def sampleConfig_def)
  from refresh_grant_rotates [OF h] obtain f and tr :: tokenResponse where "refresh (sv_store busyServer) ''t'' = Some f"
    and new: "refresh (sv_store sv') (tr_RefreshToken tr) = Some (f\<lparr>re_ExpiresAt := 7200 * second\<rparr>)"
    unfolding get(1) get(3) by (elim exE conjE) (rule that)
  then have "f = sampleEntry" using get(2) by (metis option.inject)
  with h new show ?thesis by blast
qed

theorem foreign_refresh_revokes_witness:
  "\<exists>resp sv'. handleRefreshGrant sampleLibs sampleEnv1 [] jobRequest busyServer = (resp, sv') \<and> rs_Status resp = 400
     \<and> isDeniedJTI (59 * minute) ''j'' (sv_store sv')"
proof -
  obtain client where c: "authenticateClient [] jobRequest busyServer = Inr client" "rc_ID client = ''job''"
    by (rule job_authenticates [of jobRequest "[]"]) (simp_all add: jobRequest_def)
  have tok: "Get (rq_PostForm jobRequest) ''refresh_token'' = ''t''" by (simp add: jobRequest_def)
  obtain resp sv' where h: "handleRefreshGrant sampleLibs sampleEnv1 [] jobRequest busyServer = (resp, sv')" by fastforce
  have "rs_Status resp = 400
    \<and> (\<forall>k g. refresh (sv_store sv') k = Some g \<or> usedRefresh (sv_store sv') k = Some g \<longrightarrow> re_Family g \<noteq> re_Family sampleEntry)
    \<and> (\<forall>jti rec t. accessJTI (sv_store busyServer) jti = Some rec \<and> jr_family rec = re_Family sampleEntry \<and> e_now sampleEnv1 2 < jr_exp rec \<and> t < jr_exp rec
         \<longrightarrow> isDeniedJTI t jti (sv_store sv'))"
    by (rule foreign_refresh_revokes [OF c(1) _ _ _ _ _ _ _ _ h]) (simp_all add: tok c(2), simp_all add: sampleEntry_def sampleEnv1_def)
  then have "\<forall>jti rec t. accessJTI (sv_store busyServer) jti = Some rec \<and> jr_family rec = re_Family sampleEntry
      \<and> e_now sampleEnv1 2 < jr_exp rec \<and> t < jr_exp rec \<longrightarrow> isDeniedJTI t jti (sv_store sv')" and "rs_Status resp = 400"
    by blast+
  note denied = this(1) [rule_format, of "''j''" "\<lparr>jr_exp = 60 * minute, jr_sub = ''ada'', jr_family = ''fam''\<rparr>" "59 * minute"] and status = this(2)
  have "isDeniedJTI (59 * minute) ''j'' (sv_store sv')"
    by (rule denied) (simp add: sampleEntry_def sampleEnv1_def)
  with h status show ?thesis by blast
qed

lemma sample_machine_grant:
  "\<exists>resp sv'. handleClientCredentialsGrant sampleLibs sampleEnv1 [] jobRequest busyServer = (resp, sv') \<and> rs_Status resp = 200"
proof -
  obtain client where c: "authenticateClient [] jobRequest busyServer = Inr client" "rc_client client = sampleService"
    by (rule job_authenticates [of jobRequest "[]"]) (simp_all add: jobRequest_def)
  have "rc_Confidential client" "rc_AllowsGrant client GrantClientCredentials"
    by (simp_all add: c(2) rc_Confidential_def Confidential_def rc_AllowsGrant_def AllowsGrant_def grants_def sampleService_fields)
  moreover have "resolveClientCredentialsScopes client (Get (rq_PostForm jobRequest) ''scope'') = Some (clientCredentialsScopes client)"
    by (simp add: jobRequest_def resolveClientCredentialsScopes_def)
  ultimately show ?thesis
    using c(1)
    by (simp add: handleClientCredentialsGrant_def issueAndWriteClientCredentials_def issueClientCredentialsTokens_def randomJTI_def sampleEnv1_def
        signAccess_def signTyped_def sampleLibs_def sampleJWT_def Let_def)
qed

theorem client_credentials_sound_witness:
  "\<exists>resp sv' tr. handleClientCredentialsGrant sampleLibs sampleEnv1 [] jobRequest busyServer = (resp, sv') \<and> rs_Status resp = 200
     \<and> rs_Body resp = JSONBody (tokenResponseJSON tr) \<and> tr_RefreshToken tr = []"
proof -
  obtain resp sv' where h: "handleClientCredentialsGrant sampleLibs sampleEnv1 [] jobRequest busyServer = (resp, sv')" "rs_Status resp = 200"
    using sample_machine_grant by blast
  with client_credentials_sound [OF h] show ?thesis by blast
qed

theorem token_errors_harmless_witness:
  "\<exists>resp. handleToken sampleLibs sampleEnv1 (formRequest [(''grant_type'', ''refresh_token''), (''refresh_token'', ''t''), (''client_id'', ''job''), (''client_secret'', ''guess'')]) busyServer
     = (resp, busyServer) \<and> rs_Status resp = 401"
proof -
  let ?r = "formRequest [(''grant_type'', ''refresh_token''), (''refresh_token'', ''t''), (''client_id'', ''job''), (''client_secret'', ''guess'')]"
  have auth: "authenticateClient tokenHeaders ?r busyServer = Inl (invalidClient tokenHeaders)"
    by (simp add: authenticateClient_def identifyFormClient_def sampleRegistry_lookup rc_Confidential_def Confidential_def rc_secret_def
        sampleService_fields rejectClient_def Let_def)
  obtain resp sv' where h: "handleToken sampleLibs sampleEnv1 ?r busyServer = (resp, sv')" by fastforce
  have st: "rs_Status resp = 401"
    using h auth by (auto simp: handleToken_def handleRefreshGrant_def Let_def invalidClient_def)
  then have "sv' = busyServer" using token_errors_harmless [OF h] auth by auto
  with h st show ?thesis by blast
qed

end
