(* ===== verification/Resource.thy ===== *)
theory Resource
  imports TokenEndpoint
begin

text \<open>
  The endpoints that accept issued tokens (\<^verbatim>\<open>internal/idp/handlers.go\<close>, third part): validation of access tokens and of
  logout hints, user info, introspection, revocation and the end of a session.
\<close>

section \<open>Validation of presented tokens\<close>

text \<open>What \<open>parseAccessToken\<close> checks before the denylist, the only part of the check that reads changing state.\<close>

definition validAccessToken :: "libs \<Rightarrow> env \<Rightarrow> string \<Rightarrow> bool \<Rightarrow> Server \<Rightarrow> idp_error + jsonMap" where
  "validAccessToken lb e tokenString requireAudience sv =
     (case jwtParse (lb_jwt lb) \<lparr>po_ValidMethods = [''RS256''], po_Issuer = Some (cfg_Issuer (sv_cfg sv)),
              po_ExpirationRequired = True, po_WithoutClaimsValidation = False\<rparr>
              (verifyKey (sv_keys sv)) (e_now e 0) tokenString of
        None \<Rightarrow> Inl errTokenInvalid
      | Some token \<Rightarrow>
          if \<not> pt_Valid token then Inl errTokenInvalid
          else if claimString (pt_Header token) ''typ'' \<noteq> typAccessToken then Inl errNotAccessToken
          else (case pt_MapClaims token of
                  None \<Rightarrow> Inl errClaimsInvalid
                | Some claims \<Rightarrow>
                    (case jwtAudience (lb_jwt lb) claims of
                       None \<Rightarrow> Inl errAudienceMissing
                     | Some aud \<Rightarrow>
                         if length aud = 0 then Inl errAudienceMissing
                         else if requireAudience \<and> \<not> audienceAllowed (sv_clients sv) aud then Inl errAudienceRejected
                         else Inr claims)))"

definition parseAccessToken :: "libs \<Rightarrow> env \<Rightarrow> string \<Rightarrow> bool \<Rightarrow> Server \<Rightarrow> idp_error + jsonMap" where
  \<comment> \<open>\<open>e_now 0\<close> is the library's reading, \<open>e_now 1\<close> the one of \<open>isDeniedJTI\<close>\<close>
  "parseAccessToken lb e tokenString requireAudience sv =
     (case validAccessToken lb e tokenString requireAudience sv of
        Inl err \<Rightarrow> Inl err
      | Inr claims \<Rightarrow>
          if claimString claims ''jti'' \<noteq> [] \<and> isDeniedJTI (e_now e 1) (claimString claims ''jti'') (sv_store sv)
          then Inl errTokenRevoked
          else Inr claims)"

definition verifyAccessToken :: "libs \<Rightarrow> env \<Rightarrow> string \<Rightarrow> Server \<Rightarrow> idp_error + jsonMap" where
  "verifyAccessToken lb e tokenString sv = parseAccessToken lb e tokenString True sv"

definition parseIDTokenHint :: "libs \<Rightarrow> env \<Rightarrow> string \<Rightarrow> Server \<Rightarrow> idp_error + (jsonMap \<times> registeredClient)" where
  "parseIDTokenHint lb e hint sv =
     (case jwtParse (lb_jwt lb) \<lparr>po_ValidMethods = [''RS256''], po_Issuer = None,
              po_ExpirationRequired = False, po_WithoutClaimsValidation = True\<rparr>
              (verifyKey (sv_keys sv)) (e_now e 0) hint of
        None \<Rightarrow> Inl errTokenInvalid
      | Some token \<Rightarrow>
          if \<not> pt_Valid token then Inl errTokenInvalid
          else if claimString (pt_Header token) ''typ'' \<noteq> typIDToken then Inl errNotIDToken
          else (case pt_MapClaims token of
                  None \<Rightarrow> Inl errClaimsInvalid
                | Some claims \<Rightarrow>
                    if claimString claims ''iss'' \<noteq> cfg_Issuer (sv_cfg sv) then Inl errIssuerForeign
                    else (case jwtAudience (lb_jwt lb) claims of
                            None \<Rightarrow> Inl errAudienceMissing
                          | Some [] \<Rightarrow> Inl errAudienceMissing
                          | Some (aud # _) \<Rightarrow>
                              (case (case lookup (sv_clients sv) aud of
                                       Some client \<Rightarrow> Some client
                                     | None \<Rightarrow> clientForAudience (sv_clients sv) aud) of
                                 None \<Rightarrow> Inl errAudienceRejected
                               | Some client \<Rightarrow> Inr (claims, client)))))"

definition bearerToken :: "request \<Rightarrow> string" where
  "bearerToken r =
     (let auth = rq_Header r ''Authorization''
      in if length auth > 7 \<and> EqualFold (take 7 auth) ''Bearer '' then TrimSpace (drop 7 auth) else [])"

section \<open>Client authentication of introspection and revocation\<close>

definition confidentialMatch :: "Server \<Rightarrow> string \<Rightarrow> string \<Rightarrow> bool" where
  "confidentialMatch sv cid pw =
     (case lookup (sv_clients sv) cid of
        Some client \<Rightarrow> rc_Confidential client \<and> constantTimeEqual pw (rc_secret client)
      | None \<Rightarrow> False)"

text \<open>
  Either the refusal or the request the handler goes on with. \<^verbatim>\<open>ParseForm\<close> reports an error only on its first call, so after
  the call made here the handler's own call succeeds.
\<close>

definition requireClientAuth :: "request \<Rightarrow> Server \<Rightarrow> response + request" where
  "requireClientAuth r sv =
     (if \<not> anyConfidential (sv_clients sv) then Inr r
      else if (case rq_BasicAuth r of
                 Some (rid, pw) \<Rightarrow> (case QueryUnescape rid of Some rawID \<Rightarrow> confidentialMatch sv rawID pw | None \<Rightarrow> False)
               | None \<Rightarrow> False) then Inr r
      else if Get (rq_PostForm r) ''client_id'' \<noteq> []
              \<and> confidentialMatch sv (Get (rq_PostForm r) ''client_id'') (Get (rq_PostForm r) ''client_secret'')
      then Inr (r\<lparr>rq_ParseFormErr := False\<rparr>)
      else Inl (writeError [(''WWW-Authenticate'', ''Basic realm=\"minidp\"'')] 401 ''invalid_client'' ''Client authentication required.''))"

section \<open>User info\<close>

definition invalidTokenResponse :: response where
  "invalidTokenResponse =
     writeError [(''WWW-Authenticate'', ''Bearer error=\"invalid_token\"'')] 401 ''invalid_token'' ''Invalid or missing access token.''"

definition insufficientScope :: response where
  "insufficientScope =
     writeError [(''WWW-Authenticate'', ''Bearer error=\"insufficient_scope\", scope=\"openid\"'')] 403
       ''insufficient_scope'' ''The openid scope is required for UserInfo.''"

definition addScopeClaims :: "jsonMap \<Rightarrow> bool \<Rightarrow> bool \<Rightarrow> string \<Rightarrow> string \<Rightarrow> string \<Rightarrow> jsonMap" where
  "addScopeClaims out wantProfile wantEmail username name email =
     out @ (if wantProfile \<and> username \<noteq> [] then [(''preferred_username'', JStr username)] else [])
         @ (if wantProfile \<and> name \<noteq> [] then [(''name'', JStr name)] else [])
         @ (if wantEmail \<and> email \<noteq> [] then [(''email'', JStr email)] else [])"

definition userinfoStore :: "libs \<Rightarrow> jsonMap \<Rightarrow> Server \<Rightarrow> staticUserStore option" where
  "userinfoStore lb claims sv =
     (let cid = claimString claims ''client_id'';
          named = (if cid \<noteq> [] then map_option rc_users (lookup (sv_clients sv) cid) else None)
      in case named of
           Some st \<Rightarrow> Some st
         | None \<Rightarrow>
             (case jwtAudience (lb_jwt lb) claims of
                Some (aud # _) \<Rightarrow> map_option rc_users (clientForAudience (sv_clients sv) aud)
              | _ \<Rightarrow> None))"

definition userinfoClaims :: "libs \<Rightarrow> jsonMap \<Rightarrow> string list \<Rightarrow> Server \<Rightarrow> jsonMap" where
  "userinfoClaims lb claims scopes sv =
     (let sub = claimString claims ''sub'';
          wantProfile = hasScope scopes ''profile'';
          wantEmail = hasScope scopes ''email'';
          out = [(''sub'', JStr sub)]
      in case (case userinfoStore lb claims sv of Some st \<Rightarrow> Lookup st sub | None \<Rightarrow> None) of
           Some u \<Rightarrow> addScopeClaims out wantProfile wantEmail (u_Username u) (u_Name u) (u_Email u)
         | None \<Rightarrow> addScopeClaims out wantProfile wantEmail (claimString claims ''preferred_username'') [] (claimString claims ''email''))"

definition handleUserinfo :: "libs \<Rightarrow> env \<Rightarrow> request \<Rightarrow> Server \<Rightarrow> response \<times> Server" where
  "handleUserinfo lb e r sv =
     (case verifyAccessToken lb e (bearerToken r) sv of
        Inl err \<Rightarrow> (invalidTokenResponse, sv)
      | Inr claims \<Rightarrow>
          (let scopes = parseScopes (claimString claims ''scope'')
           in if \<not> hasScope scopes ''openid'' then (insufficientScope, sv)
              else (writeJSON [] 200 (userinfoClaims lb claims scopes sv), sv)))"

section \<open>Introspection and revocation\<close>

definition jsonField :: "jsonMap \<Rightarrow> string \<Rightarrow> json" where
  "jsonField m key = (case map_of m key of Some v \<Rightarrow> v | None \<Rightarrow> JNull)"

definition inactive :: response where
  "inactive = writeJSON [] 200 [(''active'', JBool False)]"

definition handleIntrospect :: "libs \<Rightarrow> env \<Rightarrow> request \<Rightarrow> Server \<Rightarrow> response \<times> Server" where
  "handleIntrospect lb e r sv =
     (case requireClientAuth r sv of
        Inl resp \<Rightarrow> (resp, sv)
      | Inr r' \<Rightarrow>
          if rq_ParseFormErr r' then (inactive, sv)
          else (case verifyAccessToken lb e (Get (rq_PostForm r') ''token'') sv of
                  Inl err \<Rightarrow> (inactive, sv)
                | Inr claims \<Rightarrow>
                    (let sub = claimString claims ''sub''; scope = claimString claims ''scope''
                     in (writeJSON [] 200
                           [(''active'', JBool True), (''sub'', JStr sub), (''client_id'', jsonField claims ''client_id''),
                            (''scope'', JStr scope), (''iss'', jsonField claims ''iss''), (''aud'', jsonField claims ''aud''),
                            (''exp'', jsonField claims ''exp''), (''iat'', jsonField claims ''iat''), (''username'', JStr sub)], sv))))"

text \<open>Readings: \<open>e_now 0\<close> and \<open>e_now 1\<close> for the parse, \<open>e_now 2\<close> for the revocation or the fallback horizon.\<close>

definition revokePresentedToken :: "libs \<Rightarrow> env \<Rightarrow> string \<Rightarrow> Server \<Rightarrow> Server" where
  "revokePresentedToken lb e token sv =
     (case parseAccessToken lb e token False sv of
        Inl err \<Rightarrow> sv\<lparr>sv_store := revokeToken (e_now e 2) token (sv_store sv)\<rparr>
      | Inr claims \<Rightarrow>
          (let jti = claimString claims ''jti''
           in if jti = [] then sv
              else (let until = (case jwtExpiry (lb_jwt lb) claims of
                                   Some (Some expTime) \<Rightarrow> expTime
                                 | _ \<Rightarrow> e_now e 2 + cfg_AccessTokenTTL (sv_cfg sv))
                    in sv\<lparr>sv_store := denyJTI jti until (sv_store sv)\<rparr>)))"

definition okResponse :: response where
  "okResponse = \<lparr>rs_Status = 200, rs_Header = [], rs_Body = NoBody\<rparr>"

definition handleRevoke :: "libs \<Rightarrow> env \<Rightarrow> request \<Rightarrow> Server \<Rightarrow> response \<times> Server" where
  "handleRevoke lb e r sv =
     (case requireClientAuth r sv of
        Inl resp \<Rightarrow> (resp, sv)
      | Inr r' \<Rightarrow>
          if rq_ParseFormErr r' then (okResponse, sv)
          else (let token = Get (rq_PostForm r') ''token''
                in if token \<noteq> [] then (okResponse, revokePresentedToken lb e token sv) else (okResponse, sv)))"

section \<open>End of session\<close>

text \<open>Readings: \<open>e_now 0\<close> for the hint, \<open>e_now 1\<close> for the revocation.\<close>

definition endSessionHint :: "libs \<Rightarrow> env \<Rightarrow> request \<Rightarrow> Server \<Rightarrow> registeredClient option \<times> Server" where
  "endSessionHint lb e r sv =
     (let hint = Get (rq_URLQuery r) ''id_token_hint''
      in if hint \<noteq> [] then
           (case parseIDTokenHint lb e hint sv of
              Inl err \<Rightarrow> (None, sv)
            | Inr (claims, hintClient) \<Rightarrow>
                (let sid = claimString claims ''sid''
                 in (Some hintClient,
                     if sid \<noteq> [] then sv\<lparr>sv_store := revokeFamilyTokens (e_now e 1) sid (sv_store sv)\<rparr> else sv)))
         else (None, sv))"

definition handleEndSession :: "libs \<Rightarrow> env \<Rightarrow> request \<Rightarrow> Server \<Rightarrow> response \<times> Server" where
  "handleEndSession lb e r sv =
     (case endSessionHint lb e r sv of
        (client0, sv1) \<Rightarrow>
          (let client = (case client0 of
                           Some c \<Rightarrow> Some c
                         | None \<Rightarrow> (let cid = Get (rq_URLQuery r) ''client_id'' in if cid \<noteq> [] then lookup (sv_clients sv) cid else None));
               target = Get (rq_URLQuery r) ''post_logout_redirect_uri'';
               allowed = (case client of Some c \<Rightarrow> if target \<noteq> [] then registeredLogoutRedirect sv (rc_ID c) target else [] | None \<Rightarrow> [])
           in if allowed \<noteq> [] then (httpRedirect allowed, sv1)
              else (renderLoginPage (later 2 e) r 200 (messagePage ''You have been signed out.'') sv1, sv1)))"

section \<open>Routing\<close>

datatype endpoint = Discovery | Jwks | AuthorizeGet | AuthorizePost | Landing | Token | Userinfo | Introspect | Revoke | EndSession
  | StaticCSS | StaticLogo | Healthz | Readyz

text \<open>The handler of each route of \<^verbatim>\<open>Handler\<close> before the CORS wrapper.\<close>

fun handle :: "libs \<Rightarrow> env \<Rightarrow> endpoint \<Rightarrow> request \<Rightarrow> Server \<Rightarrow> response \<times> Server" where
  "handle lb e Discovery r sv = handleDiscovery r sv"
| "handle lb e Jwks r sv = handleJWKS r sv"
| "handle lb e AuthorizeGet r sv = handleAuthorizeGet lb e r sv"
| "handle lb e AuthorizePost r sv = handleAuthorizePost lb e r sv"
| "handle lb e Landing r sv = handleLanding e r sv"
| "handle lb e Token r sv = handleToken lb e r sv"
| "handle lb e Userinfo r sv = handleUserinfo lb e r sv"
| "handle lb e Introspect r sv = handleIntrospect lb e r sv"
| "handle lb e Revoke r sv = handleRevoke lb e r sv"
| "handle lb e EndSession r sv = handleEndSession lb e r sv"
| "handle lb e StaticCSS r sv = handleStaticCSS r sv"
| "handle lb e StaticLogo r sv = handleStaticLogo r sv"
| "handle lb e Healthz r sv = handleHealthz r sv"
| "handle lb e Readyz r sv = handleReadyz r sv"

text \<open>
  \<^verbatim>\<open>http.ServeMux\<close>: a \<^verbatim>\<open>GET\<close> pattern also serves \<^verbatim>\<open>HEAD\<close>, and \<^verbatim>\<open>GET /\<close> serves every path no other pattern does. The path
  is clean (the multiplexer redirects others); \<^term>\<open>None\<close> is its 405 response.
\<close>

definition route :: "string \<Rightarrow> string \<Rightarrow> endpoint option" where
  "route method path =
     (if method \<in> {''GET'', ''HEAD''} then
        Some (if path \<in> {''/.well-known/openid-configuration'', ''/openid-configuration'', ''/.well-known/oauth-authorization-server''} then Discovery
              else if path \<in> {''/oauth2/jwks'', ''/jwks''} then Jwks
              else if path = ''/authorize'' then AuthorizeGet
              else if path = ''/userinfo'' then Userinfo
              else if path = ''/end_session'' then EndSession
              else if path = ''/login.css'' then StaticCSS
              else if path = ''/logo.svg'' then StaticLogo
              else if path = ''/healthz'' then Healthz
              else if path = ''/readyz'' then Readyz
              else Landing)
      else if method = ''POST'' then
        (if path = ''/authorize'' then Some AuthorizePost
         else if path = ''/token'' then Some Token
         else if path = ''/userinfo'' then Some Userinfo
         else if path = ''/introspect'' then Some Introspect
         else if path = ''/revoke'' then Some Revoke
         else None)
      else None)"

text \<open>One request served with the wrapper around the handler.\<close>

definition serve :: "libs \<Rightarrow> env \<Rightarrow> endpoint \<Rightarrow> request \<Rightarrow> Server \<Rightarrow> response \<times> Server" where
  "serve lb e ep r sv = withCORS (handle lb e ep) r sv"

section \<open>Access tokens and ID tokens are kept apart\<close>

lemma handleEndSession_snd: "snd (handleEndSession lb e r sv) = snd (endSessionHint lb e r sv)"
  by (simp add: handleEndSession_def Let_def case_prod_beta)

text \<open>
  What is relied on of the JWT library here: the header a token is parsed with carries the \<^verbatim>\<open>typ\<close> it was signed with, and
  parsing one token again gives the same claims.
\<close>

definition keepsTyp :: "jwt_lib \<Rightarrow> bool" where
  "keepsTyp jl \<longleftrightarrow>
     (\<forall>key header claims tok opts kf now p. jwtSign jl key header claims = Some tok \<and> jwtParse jl opts kf now tok = Some p
        \<and> claimString header ''typ'' \<in> {typIDToken, typAccessToken} \<longrightarrow> claimString (pt_Header p) ''typ'' = claimString header ''typ'')"

definition stableClaims :: "jwt_lib \<Rightarrow> bool" where
  "stableClaims jl \<longleftrightarrow>
     (\<forall>opts kf now p opts' kf' now' p' tok. jwtParse jl opts kf now tok = Some p \<and> jwtParse jl opts' kf' now' tok = Some p'
        \<longrightarrow> pt_MapClaims p = pt_MapClaims p')"

lemma signTyped_typ:
  assumes "keepsTyp jl" "signTyped (jwtSign jl) k claims t = Inr tok" "t \<in> {typIDToken, typAccessToken}"
    and "jwtParse jl opts kf now tok = Some p"
  shows "claimString (pt_Header p) ''typ'' = t"
proof -
  obtain header where "jwtSign jl (sk_key k) header claims = Some tok" "claimString header ''typ'' = t"
    using assms(2) by (auto simp: signTyped_def claimString_def Let_def split: option.splits)
  with assms(1) [unfolded keepsTyp_def, rule_format, of "sk_key k" header claims tok opts kf now p] assms(3,4) show ?thesis by simp
qed

lemma parseAccessToken_Inr:
  "parseAccessToken lb e tok ra sv = Inr claims \<longleftrightarrow>
     (\<exists>p aud. jwtParse (lb_jwt lb) \<lparr>po_ValidMethods = [''RS256''], po_Issuer = Some (cfg_Issuer (sv_cfg sv)),
              po_ExpirationRequired = True, po_WithoutClaimsValidation = False\<rparr> (verifyKey (sv_keys sv)) (e_now e 0) tok = Some p
        \<and> pt_Valid p \<and> claimString (pt_Header p) ''typ'' = typAccessToken \<and> pt_MapClaims p = Some claims
        \<and> jwtAudience (lb_jwt lb) claims = Some aud \<and> aud \<noteq> [] \<and> (ra \<longrightarrow> audienceAllowed (sv_clients sv) aud)
        \<and> (claimString claims ''jti'' \<noteq> [] \<longrightarrow> \<not> isDeniedJTI (e_now e 1) (claimString claims ''jti'') (sv_store sv)))"
  by (auto simp: parseAccessToken_def validAccessToken_def split: option.splits if_splits)

lemma parseIDTokenHint_Inr:
  "parseIDTokenHint lb e tok sv = Inr (claims, client) \<Longrightarrow>
     \<exists>p a as. jwtParse (lb_jwt lb) \<lparr>po_ValidMethods = [''RS256''], po_Issuer = None, po_ExpirationRequired = False,
                po_WithoutClaimsValidation = True\<rparr> (verifyKey (sv_keys sv)) (e_now e 0) tok = Some p
        \<and> pt_Valid p \<and> claimString (pt_Header p) ''typ'' = typIDToken \<and> pt_MapClaims p = Some claims
        \<and> claimString claims ''iss'' = cfg_Issuer (sv_cfg sv) \<and> jwtAudience (lb_jwt lb) claims = Some (a # as)
        \<and> (lookup (sv_clients sv) a = Some client \<or> lookup (sv_clients sv) a = None \<and> clientForAudience (sv_clients sv) a = Some client)"
  by (auto simp: parseIDTokenHint_def split: option.splits if_splits list.splits)

text \<open>
  C13. The two kinds of tokens cannot be swapped: an ID token, signed by any key, is refused as a bearer token at the user info
  endpoint, is reported inactive by introspection, and its presentation for revocation puts no jti on the denylist; an access token
  is refused as a logout hint, so that presenting it at the end-session endpoint changes nothing.
\<close>

theorem token_kinds_separated:
  assumes "keepsTyp (lb_jwt lb)"
  shows "(sign (jwtSign (lb_jwt lb)) ks claims = Inr tok \<longrightarrow>
        (\<forall>claims'. parseAccessToken lb e tok ra sv \<noteq> Inr claims')
        \<and> (bearerToken r = tok \<longrightarrow> handleUserinfo lb e r sv = (invalidTokenResponse, sv))
        \<and> (requireClientAuth r sv = Inr r \<and> Get (rq_PostForm r) ''token'' = tok \<longrightarrow> handleIntrospect lb e r sv = (inactive, sv))
        \<and> revokePresentedToken lb e tok sv = sv\<lparr>sv_store := revokeToken (e_now e 2) tok (sv_store sv)\<rparr>)
    \<and> (signAccess (jwtSign (lb_jwt lb)) ks claims = Inr tok \<longrightarrow>
        Get (rq_URLQuery r) ''id_token_hint'' = tok \<longrightarrow> snd (handleEndSession lb e r sv) = sv)"
proof (intro conjI [OF impI impI])
  assume "sign (jwtSign (lb_jwt lb)) ks claims = Inr tok"
  then obtain k where k: "signTyped (jwtSign (lb_jwt lb)) k claims typIDToken = Inr tok"
    by (auto simp: sign_Inr)
  have no: "parseAccessToken lb e tok ra' sv \<noteq> Inr claims'" for ra' claims'
    using signTyped_typ [OF assms k] by (fastforce simp: parseAccessToken_Inr)
  then have refused: "\<exists>err. parseAccessToken lb e tok ra' sv = Inl err" for ra'
    by (cases "parseAccessToken lb e tok ra' sv") auto
  from refused [of True] refused [of False] no
  show "(\<forall>claims'. parseAccessToken lb e tok ra sv \<noteq> Inr claims')
      \<and> (bearerToken r = tok \<longrightarrow> handleUserinfo lb e r sv = (invalidTokenResponse, sv))
      \<and> (requireClientAuth r sv = Inr r \<and> Get (rq_PostForm r) ''token'' = tok \<longrightarrow> handleIntrospect lb e r sv = (inactive, sv))
      \<and> revokePresentedToken lb e tok sv = sv\<lparr>sv_store := revokeToken (e_now e 2) tok (sv_store sv)\<rparr>"
    by (auto simp: handleUserinfo_def handleIntrospect_def verifyAccessToken_def revokePresentedToken_def)
next
  assume "signAccess (jwtSign (lb_jwt lb)) ks claims = Inr tok"
  then obtain k where k: "signTyped (jwtSign (lb_jwt lb)) k claims typAccessToken = Inr tok"
    by (auto simp: signAccess_Inr)
  have "parseIDTokenHint lb e tok sv \<noteq> Inr x" for x
    using signTyped_typ [OF assms k] parseIDTokenHint_Inr [of lb e tok sv] by (cases x) fastforce
  then obtain err where "parseIDTokenHint lb e tok sv = Inl err" by (cases "parseIDTokenHint lb e tok sv") auto
  then show "Get (rq_URLQuery r) ''id_token_hint'' = tok \<longrightarrow> snd (handleEndSession lb e r sv) = sv"
    by (simp add: handleEndSession_snd endSessionHint_def Let_def)
qed

section \<open>Introspection and revocation need a client secret\<close>

text \<open>The name and secret of a confidential client, as basic credentials or in the form.\<close>

definition showsSecret :: "request \<Rightarrow> registeredClient \<Rightarrow> bool" where
  "showsSecret r client \<longleftrightarrow>
     (\<exists>rid. rq_BasicAuth r = Some (rid, rc_secret client) \<and> QueryUnescape rid = Some (rc_ID client))
     \<or> (Get (rq_PostForm r) ''client_id'' = rc_ID client \<and> Get (rq_PostForm r) ''client_secret'' = rc_secret client)"

lemma anyConfidentialI: "registryOk up reg \<Longrightarrow> lookup reg i = Some c \<Longrightarrow> rc_Confidential c \<Longrightarrow> anyConfidential reg"
  by (auto simp: anyConfidential_def registryOk_def Clients.lookup_def)

lemma confidentialMatch_iff:
  "confidentialMatch sv cid pw \<longleftrightarrow> (\<exists>client. lookup (sv_clients sv) cid = Some client \<and> rc_Confidential client \<and> pw = rc_secret client)"
  by (auto simp: confidentialMatch_def split: option.splits)

lemma requireClientAuth_Inr:
  assumes "registryOk up (sv_clients sv)" "anyConfidential (sv_clients sv)" "requireClientAuth r sv = Inr r'"
  shows "\<exists>client. lookup (sv_clients sv) (rc_ID client) = Some client \<and> rc_Confidential client \<and> showsSecret r client"
proof -
  have "\<exists>cid client. lookup (sv_clients sv) cid = Some client \<and> rc_Confidential client
      \<and> ((\<exists>rid. rq_BasicAuth r = Some (rid, rc_secret client) \<and> QueryUnescape rid = Some cid)
         \<or> (Get (rq_PostForm r) ''client_id'' = cid \<and> Get (rq_PostForm r) ''client_secret'' = rc_secret client))"
    using assms(2,3) by (fastforce simp: requireClientAuth_def confidentialMatch_iff split: if_splits option.splits)
  then show ?thesis
    using directory.find_self [OF assms(1)] unfolding showsSecret_def by metis
qed

text \<open>
  Introspection and revocation are closed once a confidential client is registered: a request that shows no confidential
  client's name together with its secret is answered 401 on both endpoints and changes nothing.
\<close>

theorem introspection_needs_secret:
  assumes "registryOk up (sv_clients sv)" "lookup (sv_clients sv) i = Some c" "rc_Confidential c"
    and "\<forall>client. lookup (sv_clients sv) (rc_ID client) = Some client \<and> rc_Confidential client \<longrightarrow> \<not> showsSecret r client"
  shows "rs_Status (fst (handleIntrospect lb e r sv)) = 401 \<and> snd (handleIntrospect lb e r sv) = sv
    \<and> rs_Status (fst (handleRevoke lb e r sv)) = 401 \<and> snd (handleRevoke lb e r sv) = sv"
proof -
  have "anyConfidential (sv_clients sv)"
    by (rule anyConfidentialI [OF assms(1-3)])
  then have "requireClientAuth r sv \<noteq> Inr r'" for r'
    using requireClientAuth_Inr [OF assms(1), of r r'] assms(4) by blast
  then obtain resp where resp: "requireClientAuth r sv = Inl resp"
    by (cases "requireClientAuth r sv") auto
  then have "rs_Status resp = 401" by (auto simp: requireClientAuth_def split: if_splits)
  with resp show ?thesis by (simp add: handleIntrospect_def handleRevoke_def)
qed

section \<open>User info follows the scopes\<close>

text \<open>The account a token's subject has, if its client still knows it.\<close>

definition onRecord :: "libs \<Rightarrow> jsonMap \<Rightarrow> Server \<Rightarrow> User option" where
  "onRecord lb claims sv = (case userinfoStore lb claims sv of Some st \<Rightarrow> Lookup st (claimString claims ''sub'') | None \<Rightarrow> None)"

lemma map_of_addScopeClaims:
  "map_of (addScopeClaims [(''sub'', JStr sub)] wp we username name email) k =
     (if k = ''sub'' then Some (JStr sub)
      else if k = ''preferred_username'' \<and> wp \<and> username \<noteq> [] then Some (JStr username)
      else if k = ''name'' \<and> wp \<and> name \<noteq> [] then Some (JStr name)
      else if k = ''email'' \<and> we \<and> email \<noteq> [] then Some (JStr email)
      else None)"
  by (simp add: addScopeClaims_def)

lemma userinfoClaims_alt:
  "userinfoClaims lb claims scopes sv =
     (case onRecord lb claims sv of
        Some u \<Rightarrow> addScopeClaims [(''sub'', JStr (claimString claims ''sub''))] (hasScope scopes ''profile'') (hasScope scopes ''email'')
                    (u_Username u) (u_Name u) (u_Email u)
      | None \<Rightarrow> addScopeClaims [(''sub'', JStr (claimString claims ''sub''))] (hasScope scopes ''profile'') (hasScope scopes ''email'')
                  (claimString claims ''preferred_username'') [] (claimString claims ''email''))"
  by (simp add: userinfoClaims_def onRecord_def Let_def)

text \<open>
  C28. User info releases what the scopes of the token allow and nothing made up: for a token whose scope claim names a scope, a successful
  answer needs a token that passes every check of the resource endpoints and names the \<^verbatim>\<open>openid\<close> scope; the answer holds the token's
  subject, and beyond it an email address only with the \<^verbatim>\<open>email\<close> scope and names only with the \<^verbatim>\<open>profile\<close> scope, each of them the value on
  the account of the subject or, for an account that is gone, the claim of the token (no name then). Conversely such a token without the
  \<^verbatim>\<open>openid\<close> scope gets the status 403. (A token without a scope claim is the subject of \<open>userinfo_without_scope_claim\<close>.)
\<close>

theorem userinfo_by_scope:
  assumes "handleUserinfo lb e r sv = (resp, sv')"
    and "\<forall>claims. verifyAccessToken lb e (bearerToken r) sv = Inr claims \<longrightarrow> Fields (claimString claims ''scope'') \<noteq> []"
  shows "sv' = sv
    \<and> (rs_Status resp = 200 \<longrightarrow>
        (\<exists>claims out. verifyAccessToken lb e (bearerToken r) sv = Inr claims \<and> rs_Body resp = JSONBody out
          \<and> ''openid'' \<in> set (Fields (claimString claims ''scope''))
          \<and> map_of out ''sub'' = Some (JStr (claimString claims ''sub''))
          \<and> (\<forall>k v. map_of out k = Some v \<longrightarrow>
               k = ''sub''
               \<or> k = ''email'' \<and> ''email'' \<in> set (Fields (claimString claims ''scope''))
                 \<and> v = JStr (case onRecord lb claims sv of Some u \<Rightarrow> u_Email u | None \<Rightarrow> claimString claims ''email'')
               \<or> k = ''name'' \<and> ''profile'' \<in> set (Fields (claimString claims ''scope''))
                 \<and> (\<exists>u. onRecord lb claims sv = Some u \<and> v = JStr (u_Name u))
               \<or> k = ''preferred_username'' \<and> ''profile'' \<in> set (Fields (claimString claims ''scope''))
                 \<and> v = JStr (case onRecord lb claims sv of Some u \<Rightarrow> u_Username u | None \<Rightarrow> claimString claims ''preferred_username''))))
    \<and> (\<forall>claims. verifyAccessToken lb e (bearerToken r) sv = Inr claims \<longrightarrow>
        rs_Status resp = (if ''openid'' \<in> set (Fields (claimString claims ''scope'')) then 200 else 403))"
proof (cases "verifyAccessToken lb e (bearerToken r) sv")
  case (Inl err)
  with assms show ?thesis by (auto simp: handleUserinfo_def invalidTokenResponse_def)
next
  case (Inr claims)
  let ?scopes = "parseScopes (claimString claims ''scope'')"
  have scopes: "hasScope ?scopes sc \<longleftrightarrow> sc \<in> set (Fields (claimString claims ''scope''))" for sc
  proof -
    have named: "Fields (claimString claims ''scope'') \<noteq> []" using assms(2) Inr by blast
    then have "claimString claims ''scope'' \<noteq> []" by (auto simp: Fields_def)
    moreover have "filter (\<lambda>p. p \<noteq> []) (Fields (claimString claims ''scope'')) = Fields (claimString claims ''scope'')"
      using Fields_words by (fastforce intro!: filter_True)
    ultimately show ?thesis using named by (simp add: parseScopes_def hasScope_def)
  qed
  show ?thesis
  proof (cases "hasScope ?scopes ''openid''")
    case True
    then have "sv' = sv" "rs_Status resp = 200" "rs_Body resp = JSONBody (userinfoClaims lb claims ?scopes sv)"
      using assms(1) Inr by (auto simp: handleUserinfo_def Let_def)
    with True Inr show ?thesis
      by (auto simp: userinfoClaims_alt map_of_addScopeClaims scopes split: option.splits if_splits)
  next
    case False
    then have "sv' = sv" "rs_Status resp = 403"
      using assms(1) Inr by (auto simp: handleUserinfo_def insufficientScope_def Let_def)
    with False Inr show ?thesis by (simp add: scopes)
  qed
qed

text \<open>
  A token without a scope claim is not refused by the user info endpoint: the scopes of an empty claim read as \<^verbatim>\<open>openid\<close>, and the
  answer names the subject.
\<close>

theorem userinfo_without_scope_claim:
  assumes "verifyAccessToken lb e (bearerToken r) sv = Inr claims" "claimString claims ''scope'' = []"
  shows "handleUserinfo lb e r sv = (writeJSON [] 200 [(''sub'', JStr (claimString claims ''sub''))], sv)"
proof -
  have "\<not> hasScope [''openid''] ''profile''" "\<not> hasScope [''openid''] ''email''" "hasScope [''openid''] ''openid''"
    by (simp_all add: hasScope_def)
  with assms show ?thesis
    by (simp add: handleUserinfo_def parseScopes_def userinfoClaims_alt addScopeClaims_def Let_def split: option.splits)
qed

section \<open>Logout\<close>

lemma handleEndSession_hint:
  assumes "Get (rq_URLQuery r) ''id_token_hint'' \<noteq> []"
    and "parseIDTokenHint lb e (Get (rq_URLQuery r) ''id_token_hint'') sv = Inr (claims, client)" "claimString claims ''sid'' \<noteq> []"
  shows "snd (handleEndSession lb e r sv) = sv\<lparr>sv_store := revokeFamilyTokens (e_now e 1) (claimString claims ''sid'') (sv_store sv)\<rparr>"
  using assms by (simp add: handleEndSession_snd endSessionHint_def Let_def)

lemma handleEndSession_state:
  "snd (handleEndSession lb e r sv) = sv
   \<or> (\<exists>sid. snd (handleEndSession lb e r sv) = sv\<lparr>sv_store := revokeFamilyTokens (e_now e 1) sid (sv_store sv)\<rparr>)"
  by (auto simp: handleEndSession_snd endSessionHint_def Let_def split: sum.splits)

lemma handleEndSession_location:
  assumes "registryOk up (sv_clients sv)" "(''Location'', v) \<in> set (rs_Header (fst (handleEndSession lb e r sv)))"
  shows "\<exists>client. lookup (sv_clients sv) (rc_ID client) = Some client
    \<and> Get (rq_URLQuery r) ''post_logout_redirect_uri'' \<in> set (c_PostLogoutRedirectURIs (rc_client client))
    \<and> v = hexEscapeNonASCII (Get (rq_URLQuery r) ''post_logout_redirect_uri'')"
proof -
  let ?t = "Get (rq_URLQuery r) ''post_logout_redirect_uri''"
  have page: "(''Location'', v) \<notin> set (rs_Header (renderLoginPage e' r st data sv'))" for e' st data sv'
    using location_names [OF _ renderLoginPage_names] by blast
  obtain c where c: "registeredLogoutRedirect sv (rc_ID c) ?t = ?t" "?t \<noteq> []" "v = hexEscapeNonASCII ?t"
    using assms(2) page
    by (auto simp: handleEndSession_def Let_def case_prod_beta httpRedirect_def registeredRedirect_eq split: if_splits option.splits)
  then have "?t \<in> set (logoutRedirects (sv_clients sv) (rc_ID c))"
    by (auto simp: registeredRedirect_eq split: if_splits)
  moreover from this obtain rc where rc: "byID (sv_clients sv) (rc_ID c) = Some rc"
    using assms(1) by (cases "byID (sv_clients sv) (rc_ID c)") (auto simp: registryOk_def)
  moreover have "entryIndexed up (sv_clients sv) (rc_ID c) rc"
    using assms(1) rc by (simp add: registryOk_def)
  ultimately show ?thesis
    using c(3) by (intro exI [of _ rc]) (simp add: entryIndexed_def Clients.lookup_def)
qed

text \<open>
  Logging out ends the session: with an ID token hint that passes its checks and carries a session id, every refresh token of that
  session is gone, live or consumed, and every registered access token of it is denied until it expires; nothing of another
  session is touched. The expiry of the hint plays no role, so that an old hint still ends its session.
\<close>

theorem logout_ends_session:
  assumes "Get (rq_URLQuery r) ''id_token_hint'' \<noteq> []"
    and "parseIDTokenHint lb e (Get (rq_URLQuery r) ''id_token_hint'') sv = Inr (claims, client)"
    and "claimString claims ''sid'' = sid" "sid \<noteq> []" "handleEndSession lb e r sv = (resp, sv')"
  shows "(\<forall>k f. refresh (sv_store sv') k = Some f \<or> usedRefresh (sv_store sv') k = Some f \<longrightarrow> re_Family f \<noteq> sid)
    \<and> (\<forall>jti rec t. accessJTI (sv_store sv) jti = Some rec \<and> jr_family rec = sid \<and> e_now e 1 < jr_exp rec \<and> t < jr_exp rec
         \<longrightarrow> isDeniedJTI t jti (sv_store sv'))
    \<and> (\<forall>k f. re_Family f \<noteq> sid \<longrightarrow> (refresh (sv_store sv') k = Some f \<longleftrightarrow> refresh (sv_store sv) k = Some f))
    \<and> codes (sv_store sv') = codes (sv_store sv)"
proof -
  have sv': "sv_store sv' = revokeFamilyLocked (e_now e 1) sid (sv_store sv)"
    using handleEndSession_hint [OF assms(1,2)] assms(3-5) by (simp add: revokeFamilyTokens_def)
  have "isDeniedJTI t jti (sv_store sv')"
    if "accessJTI (sv_store sv) jti = Some rec" "jr_family rec = sid" "e_now e 1 < jr_exp rec" "t < jr_exp rec" for jti rec t
    using revokeFamilyLocked_denied [OF that(1,2) assms(4) that(3)] that(4) by (simp add: sv' isDeniedJTI_def)
  with assms(4) show ?thesis by (auto simp: sv' store_maps)
qed

section \<open>Headers of every response\<close>

text \<open>The header names the handlers use, besides \<^verbatim>\<open>Location\<close>.\<close>

definition plainNames :: "string set" where
  "plainNames = {''Content-Type'', ''X-Content-Type-Options'', ''WWW-Authenticate'', ''Cache-Control'', ''Pragma'', ''Set-Cookie''}"

definition plain :: "response \<Rightarrow> bool" where
  "plain resp \<longleftrightarrow> headerNames resp \<subseteq> plainNames"

lemma plainNames_members [simp]:
  "''Content-Type'' \<in> plainNames" "''X-Content-Type-Options'' \<in> plainNames" "''WWW-Authenticate'' \<in> plainNames"
  "''Cache-Control'' \<in> plainNames" "''Pragma'' \<in> plainNames" "''Set-Cookie'' \<in> plainNames"
  unfolding plainNames_def by (rule insertI1 | rule insertI2)+

lemma plain_record [simp]: "plain \<lparr>rs_Status = s, rs_Header = h, rs_Body = b\<rparr> \<longleftrightarrow> fst ` set h \<subseteq> plainNames"
  by (simp add: plain_def)

lemma plain_writers [simp]:
  "plain (writeJSON hdr st v) \<longleftrightarrow> fst ` set hdr \<subseteq> plainNames"
  "plain (writeError hdr st c ds) \<longleftrightarrow> fst ` set hdr \<subseteq> plainNames"
  "plain (writeAuthError hdr c ds) \<longleftrightarrow> fst ` set hdr \<subseteq> plainNames"
  "plain (serverError hdr) \<longleftrightarrow> fst ` set hdr \<subseteq> plainNames"
  "plain (invalidClient hdr) \<longleftrightarrow> fst ` set hdr \<subseteq> plainNames"
  "plain (httpError hdr m st) \<longleftrightarrow> fst ` set hdr \<subseteq> plainNames"
  by (simp_all add: plain_def header_names serverError_def invalidClient_def)

lemma plain_pages [simp]: "plain (renderLoginPage e r st data sv)" "plain (renderAuthorizeError e r form st m sv)"
proof -
  have sub: "pageNames \<subseteq> plainNames" by simp
  show "plain (renderLoginPage e r st data sv)" unfolding plain_def by (rule order_trans [OF renderLoginPage_names sub])
  show "plain (renderAuthorizeError e r form st m sv)" unfolding plain_def by (rule order_trans [OF renderAuthorizeError_names sub])
qed

lemma plain_resource [simp]: "plain invalidTokenResponse" "plain insufficientScope" "plain inactive" "plain okResponse"
  by (simp_all add: invalidTokenResponse_def insufficientScope_def inactive_def okResponse_def)

lemma tokenHeaders_plain [simp]: "fst ` set tokenHeaders \<subseteq> plainNames"
  by (simp add: tokenHeaders_def)

lemma authenticateClient_plain: "authenticateClient hdr r sv = Inl resp \<Longrightarrow> fst ` set hdr \<subseteq> plainNames \<Longrightarrow> plain resp"
  by (auto simp: authenticateClient_def authClientBasic_def identifyFormClient_def rejectClient_def Let_def
      split: option.splits if_splits)

lemma validateCodeGrant_plain: "validateCodeGrant hdr form ac client = Some resp \<Longrightarrow> fst ` set hdr \<subseteq> plainNames \<Longrightarrow> plain resp"
  by (auto simp: validateCodeGrant_def Let_def split: if_splits)

lemma grants_plain [simp]:
  assumes "fst ` set hdr \<subseteq> plainNames"
  shows "plain (fst (handleCodeGrant lb e hdr r sv))" "plain (fst (handleRefreshGrant lb e hdr r sv))"
    "plain (fst (handleClientCredentialsGrant lb e hdr r sv))"
  using assms authenticateClient_plain [OF _ assms, of r sv] validateCodeGrant_plain [OF _ assms]
  by (simp_all add: handleCodeGrant_def handleRefreshGrant_def handleClientCredentialsGrant_def issueAndWriteTokens_def
      issueAndWriteClientCredentials_def Let_def case_prod_beta split: sum.splits option.splits)

lemma handleToken_plain [simp]: "plain (fst (handleToken lb e r sv))"
  by (simp add: handleToken_def Let_def)

lemma requireClientAuth_plain: "requireClientAuth r sv = Inl resp \<Longrightarrow> plain resp"
  by (auto simp: requireClientAuth_def split: if_splits)

lemma resource_plain [simp]:
  "plain (fst (handleUserinfo lb e r sv))" "plain (fst (handleIntrospect lb e r sv))" "plain (fst (handleRevoke lb e r sv))"
  by (simp_all add: handleUserinfo_def handleIntrospect_def handleRevoke_def Let_def requireClientAuth_plain split: sum.splits)

lemma handle_plain: "ep \<notin> {AuthorizeGet, AuthorizePost, EndSession} \<Longrightarrow> plain (fst (handle lb e ep r sv))"
  by (cases ep) (simp_all add: handleDiscovery_def handleLanding_def handleReadyz_def handleJWKS_def handleStaticCSS_def handleStaticLogo_def
      handleHealthz_def split: sum.split)

text \<open>The handlers that may redirect.\<close>

definition known :: "response \<Rightarrow> bool" where
  "known resp \<longleftrightarrow> headerNames resp \<subseteq> insert ''Location'' plainNames"

lemma plain_known: "plain resp \<Longrightarrow> known resp"
  by (auto simp: plain_def known_def)

lemma known_redirects [simp]: "known (httpRedirect u)" "known (redirectToClient lb e r client q extra sv)"
proof -
  have sub: "pageNames \<union> {''Location''} \<subseteq> insert ''Location'' plainNames" by simp
  show "known (redirectToClient lb e r client q extra sv)"
    unfolding known_def by (rule order_trans [OF redirectToClient_names sub])
qed (simp add: known_def header_names)

lemma authorizeContext_known:
  assumes "authorizeContext lb e r form sv = Inl resp"
  shows "known resp"
proof -
  have "plain (httpError [] m 500)" for m by simp
  with assms show ?thesis
    by (auto simp: authorizeContext_def authorizeErrorRedirect_def Let_def plain_known split: prod.splits option.splits if_splits)
qed

lemma handle_known: "known (fst (handle lb e ep r sv))"
proof (cases "ep \<in> {AuthorizeGet, AuthorizePost, EndSession}")
  case True
  have "known (fst (handleAuthorizeGet lb e r sv))"
    by (auto simp: handleAuthorizeGet_def authorizeErrorRedirect_def Let_def plain_known split: prod.splits option.splits)
  moreover have "known (fst (handleEndSession lb e r sv))"
    by (simp add: handleEndSession_def Let_def case_prod_beta plain_known)
  moreover have "known (fst (handleAuthorizePost lb e r sv))"
  proof (cases rule: handleAuthorizePost_cases [where lb = lb and e = e and r = r and sv = sv])
    case (refused lm resp)
    have "pageNames \<subseteq> insert ''Location'' plainNames" by simp
    then have "known resp" using refused(2) authorizeContext_known unfolding known_def by (meson order_trans)
    with refused(1) show ?thesis by simp
  next
    case (accepted rc u lm)
    then show ?thesis by (auto simp: completeAuthorize_def plain_known split: prod.splits sum.splits)
  qed
  ultimately show ?thesis using True by auto
next
  case False
  then show ?thesis by (intro plain_known handle_plain)
qed

section \<open>Redirects and hardening of every endpoint\<close>

lemma serve_header:
  "x \<in> set (rs_Header (fst (serve lb e ep r sv))) \<Longrightarrow>
     x \<in> set (corsHeaders sv r) \<or> x \<in> set (rs_Header (fst (handle lb e ep r sv)))"
  by (auto simp: serve_def withCORS_def split: prod.splits if_splits)

lemma corsHeaders_subset: "set (corsHeaders sv r) \<subseteq> set (rs_Header (fst (serve lb e ep r sv)))"
  by (auto simp: serve_def withCORS_def split: prod.splits)

lemma corsHeaders_origin:
  "(''Access-Control-Allow-Origin'', v) \<in> set (corsHeaders sv r) \<longleftrightarrow>
     rq_Header r ''Origin'' \<noteq> [] \<and> sv_allowedOrigins sv (TrimSuffix (rq_Header r ''Origin'') ''/'') \<and> v = rq_Header r ''Origin''"
  by (auto simp: corsHeaders_def Let_def)

lemma corsHeaders_no_location: "(''Location'', v) \<notin> set (corsHeaders sv r)"
  by (simp add: corsHeaders_def Let_def)

text \<open>
  C14. No open redirect: whatever request is served, a \<^verbatim>\<open>Location\<close> header is either the redirect URI of the authorization request,
  registered for the client that the request names, with another query, or a post-logout URI that is registered for some
  client; no other endpoint redirects.
\<close>

theorem no_open_redirect:
  assumes "registryOk up (sv_clients sv)" "(''Location'', v) \<in> set (rs_Header (fst (serve lb e ep r sv)))"
  shows "ep = AuthorizeGet \<and> redirectsTo lb sv (rq_URLQuery r) v
    \<or> ep = AuthorizePost \<and> redirectsTo lb sv (oauthContextOf (rq_PostForm r)) v
    \<or> ep = EndSession \<and> (\<exists>client uri. lookup (sv_clients sv) (rc_ID client) = Some client
         \<and> uri \<in> set (c_PostLogoutRedirectURIs (rc_client client)) \<and> v = hexEscapeNonASCII uri)"
proof -
  have loc: "(''Location'', v) \<in> set (rs_Header (fst (handle lb e ep r sv)))"
    using serve_header [OF assms(2)] corsHeaders_no_location by blast
  have "''Location'' \<notin> plainNames" by (simp add: plainNames_def)
  then have "\<not> plain (fst (handle lb e ep r sv))"
    using location_names [OF loc] unfolding plain_def by blast
  then have "ep \<in> {AuthorizeGet, AuthorizePost, EndSession}"
    using handle_plain by blast
  then consider "ep = AuthorizeGet" | "ep = AuthorizePost" | "ep = EndSession" by blast
  then show ?thesis
  proof cases
    case 1
    with handleAuthorizeGet_location [OF assms(1)] loc show ?thesis by simp
  next
    case 2
    with handleAuthorizePost_location [OF assms(1)] loc show ?thesis by simp
  next
    case 3
    with handleEndSession_location [OF assms(1)] loc show ?thesis by (simp, blast)
  qed
qed

text \<open>
  Every response is hardened and shared with registered origins only: it carries the content security policy and the headers
  against framing, content sniffing and referrer leaks, and it names an origin in \<^verbatim>\<open>Access-Control-Allow-Origin\<close> exactly when the
  request comes from an allowed origin, in which case it is that origin.
\<close>

theorem responses_hardened:
  "{(''Content-Security-Policy'', contentSecurityPolicy), (''X-Frame-Options'', ''DENY''), (''X-Content-Type-Options'', ''nosniff''),
    (''Referrer-Policy'', ''strict-origin-when-cross-origin'')} \<subseteq> set (rs_Header (fst (serve lb e ep r sv)))
   \<and> ((''Access-Control-Allow-Origin'', v) \<in> set (rs_Header (fst (serve lb e ep r sv))) \<longleftrightarrow>
        rq_Header r ''Origin'' \<noteq> [] \<and> sv_allowedOrigins sv (TrimSuffix (rq_Header r ''Origin'') ''/'') \<and> v = rq_Header r ''Origin'')"
proof -
  have "''Access-Control-Allow-Origin'' \<notin> insert ''Location'' plainNames" by (simp add: plainNames_def)
  then have "(''Access-Control-Allow-Origin'', v) \<notin> set (rs_Header (fst (handle lb e ep r sv)))"
    using handle_known [of lb e ep r sv] unfolding known_def headerNames_def by force
  then have origin: "(''Access-Control-Allow-Origin'', v) \<in> set (rs_Header (fst (serve lb e ep r sv))) \<longleftrightarrow>
      (''Access-Control-Allow-Origin'', v) \<in> set (corsHeaders sv r)"
    using serve_header corsHeaders_subset by blast
  have hard: "{(''Content-Security-Policy'', contentSecurityPolicy), (''X-Frame-Options'', ''DENY''), (''X-Content-Type-Options'', ''nosniff''),
      (''Referrer-Policy'', ''strict-origin-when-cross-origin'')} \<subseteq> set (corsHeaders sv r)"
    by (simp add: corsHeaders_def Let_def)
  show ?thesis
    by (intro conjI order_trans [OF hard corsHeaders_subset]) (simp only: origin corsHeaders_origin)
qed

section \<open>Witnesses\<close>

lemma sampleJWT_keepsTyp: "keepsTyp sampleJWT"
  unfolding keepsTyp_def
proof (intro allI impI)
  fix key header claims tok opts kf now p
  assume "jwtSign sampleJWT key header claims = Some tok \<and> jwtParse sampleJWT opts kf now tok = Some p
    \<and> claimString header ''typ'' \<in> {typIDToken, typAccessToken}"
  then have tok: "tok = claimString header ''typ'' @ CHR ''.'' # claimString claims ''jti''" "jwtParse sampleJWT opts kf now tok = Some p"
    "claimString header ''typ'' = ''JWT'' \<or> claimString header ''typ'' = ''at+jwt''"
    by (auto simp: sampleJWT_def)
  then have "Cut tok (CHR ''.'') = Some (claimString header ''typ'', claimString claims ''jti'')"
    by auto
  with tok(2) show "claimString (pt_Header p) ''typ'' = claimString header ''typ''"
    by (auto simp: sampleJWT_def claimString_def)
qed

lemma sampleJWT_stable: "stableClaims sampleJWT"
  by (auto simp: stableClaims_def sampleJWT_def split: option.splits)

lemma sampleLibs_jwt [simp]: "lb_jwt sampleLibs = sampleJWT"
  by (simp add: sampleLibs_def)

text \<open>The tokens of the sample library with the jti \<^verbatim>\<open>j\<close>.\<close>

lemma sample_sign:
  "sign (jwtSign sampleJWT) (sv_keys sampleServer) [(''jti'', JStr ''j'')] = Inr ''JWT.j''"
  "signAccess (jwtSign sampleJWT) (sv_keys sampleServer) [(''jti'', JStr ''j'')] = Inr ''at+jwt.j''"
  by (simp_all add: sign_def signAccess_def signTyped_def sampleJWT_def claimString_def Let_def)

theorem token_kinds_separated_witness:
  "sign (jwtSign sampleJWT) (sv_keys sampleServer) [(''jti'', JStr ''j'')] = Inr ''JWT.j''
   \<and> (\<forall>claims'. parseAccessToken sampleLibs sampleEnv1 ''JWT.j'' True sampleServer \<noteq> Inr claims')"
proof -
  have "keepsTyp (lb_jwt sampleLibs)" by (simp add: sampleJWT_keepsTyp)
  from token_kinds_separated [OF this, of "sv_keys sampleServer" "[(''jti'', JStr ''j'')]" "''JWT.j''" sampleEnv1 True sampleServer sampleRequest]
    sample_sign
  show ?thesis by simp
qed

lemma sample_access:
  assumes "sv_clients sv = sampleRegistry" "accessJTI (sv_store sv) ''j'' = x" "deniedJTI (sv_store sv) ''j'' = None"
  shows "\<exists>claims. parseAccessToken sampleLibs sampleEnv1 ''at+jwt.j'' ra sv = Inr claims \<and> claimString claims ''sub'' = ''ada''
    \<and> claimString claims ''jti'' = ''j'' \<and> claimString claims ''scope'' = ''openid email'' \<and> claimString claims ''client_id'' = ''app''"
proof -
  have "registryOk sampleURL sampleRegistry" by (rule sampleRegistry_ok)
  then have "audienceAllowed sampleRegistry [''app'']"
    using sampleRegistry_lookup(1)
    by (auto simp: audienceAllowed_def registryOk_def Clients.lookup_def rc_Audience_def audience_def sampleClient_fields
        intro!: exI [of _ "''app''"])
  with assms show ?thesis
    by (simp add: parseAccessToken_def validAccessToken_def sampleJWT_def sampleClaims_def claimString_def isDeniedJTI_def sampleEnv1_def)
qed

theorem introspection_needs_secret_witness:
  "rs_Status (fst (handleRevoke sampleLibs sampleEnv1 (formRequest [(''token'', ''t''), (''client_id'', ''job'')]) busyServer)) = 401
   \<and> snd (handleRevoke sampleLibs sampleEnv1 (formRequest [(''token'', ''t''), (''client_id'', ''job'')]) busyServer) = busyServer"
proof -
  let ?r = "formRequest [(''token'', ''t''), (''client_id'', ''job'')]"
  obtain c where c: "lookup (sv_clients busyServer) ''job'' = Some c" "rc_client c = sampleService"
    by (simp add: sampleRegistry_lookup)
  have ok: "registryOk sampleURL (sv_clients busyServer)" by (simp add: sampleRegistry_ok)
  have "[] \<noteq> rc_secret client" if "lookup (sv_clients busyServer) (rc_ID client) = Some client" "rc_Confidential client" for client
    using registered_secret [OF ok that] by simp
  then have "\<forall>client. lookup (sv_clients busyServer) (rc_ID client) = Some client \<and> rc_Confidential client \<longrightarrow> \<not> showsSecret ?r client"
    by (simp add: showsSecret_def)
  moreover have "rc_Confidential c" by (simp add: rc_Confidential_def Confidential_def c(2) sampleService_fields)
  ultimately show ?thesis
    using introspection_needs_secret [OF ok c(1)] by blast
qed

definition bearerRequest :: "string \<Rightarrow> request" where
  "bearerRequest tok = sampleRequest\<lparr>rq_Header := (\<lambda>_. [])(''Authorization'' := ''Bearer '' @ tok)\<rparr>"

lemma bearerRequest_token: "bearerToken (bearerRequest ''at+jwt.j'') = ''at+jwt.j''" "bearerToken (bearerRequest ''at+jwt.bare'') = ''at+jwt.bare''"
proof -
  have "TrimSpace ''at+jwt.j'' = ''at+jwt.j''" "TrimSpace ''at+jwt.bare'' = ''at+jwt.bare''" "EqualFold ''Bearer '' ''Bearer ''"
    by code_simp+
  then show "bearerToken (bearerRequest ''at+jwt.j'') = ''at+jwt.j''" "bearerToken (bearerRequest ''at+jwt.bare'') = ''at+jwt.bare''"
    by (simp_all add: bearerToken_def bearerRequest_def Let_def)
qed

theorem userinfo_by_scope_witness:
  "\<exists>resp sv' out. handleUserinfo sampleLibs sampleEnv1 (bearerRequest ''at+jwt.j'') sampleServer = (resp, sv') \<and> sv' = sampleServer
     \<and> rs_Body resp = JSONBody out \<and> map_of out ''sub'' = Some (JStr ''ada'') \<and> map_of out ''name'' = None"
proof -
  obtain claims where c: "verifyAccessToken sampleLibs sampleEnv1 ''at+jwt.j'' sampleServer = Inr claims" "claimString claims ''sub'' = ''ada''"
    "claimString claims ''scope'' = ''openid email''"
    using sample_access [of sampleServer None True] unfolding verifyAccessToken_def by auto
  have fields: "Fields ''openid email'' = [''openid'', ''email'']" by code_simp
  obtain resp sv' where h: "handleUserinfo sampleLibs sampleEnv1 (bearerRequest ''at+jwt.j'') sampleServer = (resp, sv')" by fastforce
  have "\<forall>claims. verifyAccessToken sampleLibs sampleEnv1 (bearerToken (bearerRequest ''at+jwt.j'')) sampleServer = Inr claims \<longrightarrow>
      Fields (claimString claims ''scope'') \<noteq> []"
    using c(1,3) fields by (simp add: bearerRequest_token)
  note info = userinfo_by_scope [OF h this, unfolded bearerRequest_token c(1) sum.inject]
  then have "rs_Status resp = 200" using c(3) fields by simp
  with info obtain out where out: "rs_Body resp = JSONBody out" "map_of out ''sub'' = Some (JStr ''ada'')"
    "\<And>v. map_of out ''name'' = Some v \<Longrightarrow> ''profile'' \<in> set (Fields ''openid email'')"
    using c(2,3) by force
  then have "map_of out ''name'' = None" using fields by (cases "map_of out ''name''") auto
  with h info out(1,2) show ?thesis by blast
qed

theorem userinfo_without_scope_claim_witness:
  "handleUserinfo sampleLibs sampleEnv1 (bearerRequest ''at+jwt.bare'') sampleServer = (writeJSON [] 200 [(''sub'', JStr ''ada'')], sampleServer)"
proof -
  have "audienceAllowed sampleRegistry [''app'']"
    using sampleRegistry_ok sampleRegistry_lookup(1)
    by (auto simp: audienceAllowed_def registryOk_def Clients.lookup_def rc_Audience_def audience_def sampleClient_fields intro!: exI [of _ "''app''"])
  then have "verifyAccessToken sampleLibs sampleEnv1 (bearerToken (bearerRequest ''at+jwt.bare'')) sampleServer = Inr (sampleClaims ''bare'')"
    unfolding bearerRequest_token verifyAccessToken_def
    by (simp add: parseAccessToken_def validAccessToken_def sampleJWT_def isDeniedJTI_def sampleEnv1_def) (simp add: claimString_def)
  from userinfo_without_scope_claim [OF this] show ?thesis
    by (simp add: sampleClaims_def claimString_def)
qed

theorem logout_ends_session_witness:
  "\<exists>resp sv'. handleEndSession sampleLibs sampleEnv1 (sampleRequest\<lparr>rq_URLQuery := [(''id_token_hint'', [''JWT.x''])]\<rparr>) busyServer = (resp, sv')
     \<and> refresh (sv_store sv') ''t'' = None \<and> isDeniedJTI (59 * minute) ''j'' (sv_store sv')"
proof -
  let ?r = "sampleRequest\<lparr>rq_URLQuery := [(''id_token_hint'', [''JWT.x''])]\<rparr>"
  have hint: "Get (rq_URLQuery ?r) ''id_token_hint'' = ''JWT.x''" by (simp add: Get_def)
  obtain client where p: "parseIDTokenHint sampleLibs sampleEnv1 ''JWT.x'' busyServer = Inr (sampleClaims ''x'', client)"
    by (simp add: parseIDTokenHint_def sampleJWT_def sampleClaims_def claimString_def sampleConfig_def sampleRegistry_lookup)
  have sid: "claimString (sampleClaims ''x'') ''sid'' = ''fam''" by (simp add: sampleClaims_def claimString_def)
  obtain resp sv' where h: "handleEndSession sampleLibs sampleEnv1 ?r busyServer = (resp, sv')" by fastforce
  note logout = logout_ends_session [of ?r sampleLibs sampleEnv1 busyServer, unfolded hint, OF _ p sid _ h]
  have gone: "\<forall>k f. refresh (sv_store sv') k = Some f \<or> usedRefresh (sv_store sv') k = Some f \<longrightarrow> re_Family f \<noteq> ''fam''"
    and denied: "\<forall>jti rec t. accessJTI (sv_store busyServer) jti = Some rec \<and> jr_family rec = ''fam'' \<and> e_now sampleEnv1 1 < jr_exp rec
      \<and> t < jr_exp rec \<longrightarrow> isDeniedJTI t jti (sv_store sv')"
    and kept: "\<forall>k f. re_Family f \<noteq> ''fam'' \<longrightarrow> (refresh (sv_store sv') k = Some f \<longleftrightarrow> refresh (sv_store busyServer) k = Some f)"
    using logout by blast+
  have "isDeniedJTI (59 * minute) ''j'' (sv_store sv')"
    by (rule denied [rule_format, of "''j''" "\<lparr>jr_exp = 60 * minute, jr_sub = ''ada'', jr_family = ''fam''\<rparr>"]) (simp add: sampleEnv1_def)
  moreover have "refresh (sv_store sv') ''t'' = None"
  proof (cases "refresh (sv_store sv') ''t''")
    case (Some f)
    then have "re_Family f \<noteq> ''fam''" using gone by blast
    with kept Some have "f = sampleEntry" by auto
    with \<open>re_Family f \<noteq> ''fam''\<close> show ?thesis by (simp add: sampleEntry_def)
  qed
  ultimately show ?thesis using h by blast
qed

text \<open>An authorization request without a response type is sent back to its client.\<close>

theorem no_open_redirect_witness:
  "\<exists>v. (''Location'', v) \<in> set (rs_Header (fst (serve sampleLibs sampleEnv1 AuthorizeGet
        (sampleGet\<lparr>rq_URLQuery := [(''client_id'', [''app'']), (''redirect_uri'', [''https://app.example/cb''])]\<rparr>) sampleServer)))
     \<and> redirectsTo sampleLibs sampleServer [(''client_id'', [''app'']), (''redirect_uri'', [''https://app.example/cb''])] v"
proof -
  let ?q = "[(''client_id'', [''app'']), (''redirect_uri'', [''https://app.example/cb''])]"
  let ?r = "sampleGet\<lparr>rq_URLQuery := ?q\<rparr>"
  have get: "Get ?q ''client_id'' = ''app''" "Get ?q ''redirect_uri'' = ''https://app.example/cb''" "Get ?q ''response_type'' = []"
    "Get ?q ''state'' = []" "Get ?q ''request'' = []" "Get ?q ''request_uri'' = []" "Get ?q ''prompt'' = []" "Get ?q ''response_mode'' = []"
    by (simp_all add: Get_def)
  obtain rc where rc: "clientForAuthorize sampleServer ?q = (Some rc, [])"
    by (simp add: clientForAuthorize_ok get sampleRegistry_lookup redirectURIAllowed_def sampleClient_fields)
  then have reg: "registeredRedirect sampleServer (rc_ID rc) (Get ?q ''redirect_uri'') = Get ?q ''redirect_uri''"
    using registeredRedirect_allowed [of sampleURL sampleServer] sampleRegistry_ok by (auto simp: clientForAuthorize_ok)
  obtain code desc where v: "validateAuthorizeRequest rc ?q = (code, desc)" "code \<noteq> []"
    using validateAuthorizeRequest_ok [of rc ?q] get(3) by (cases "validateAuthorizeRequest rc ?q") auto
  have "handleAuthorizeGet sampleLibs sampleEnv1 ?r sampleServer = (authorizeErrorRedirect sampleLibs sampleEnv1 ?r rc ?q code desc sampleServer, sampleServer)"
    using rc v by (simp add: handleAuthorizeGet_def Let_def)
  then obtain v where loc: "(''Location'', v) \<in> set (rs_Header (fst (serve sampleLibs sampleEnv1 AuthorizeGet ?r sampleServer)))"
    using reg get(2)
    by (auto simp: serve_def withCORS_def authorizeErrorRedirect_def redirectToClient_def httpRedirect_def sampleLibs_def sampleURL_def Let_def
        sampleGet_def)
  have "registryOk sampleURL (sv_clients sampleServer)" by (simp add: sampleRegistry_ok)
  from no_open_redirect [OF this loc] loc show ?thesis by auto
qed

end
