(* ===== verification/ClientsFormat.thy ===== *)
theory ClientsFormat
  imports GoJson Clients
begin

text \<open>
  The bytes of the clients file: the struct tags of \<^verbatim>\<open>Client\<close>, \<^verbatim>\<open>User\<close> and \<^verbatim>\<open>ResourceDefinition\<close> (\<^verbatim>\<open>internal/idp/clients.go\<close>,
  \<^verbatim>\<open>internal/idp/users.go\<close>), \<^verbatim>\<open>Client.MarshalJSON\<close>, and the four conversions of \<^verbatim>\<open>ReadClientsFile\<close> and \<^verbatim>\<open>SaveClientsFile\<close>
  as the \<open>clients_codec\<close> \<open>goJSON\<close>. A slice of the records does not say whether an empty slice is \<^verbatim>\<open>nil\<close>; the argument \<open>nl\<close>, on the name of the
  field and the position of its entry, does. It changes the bytes (\<^verbatim>\<open>null\<close> or \<^verbatim>\<open>[]\<close>), but nothing that is read back.

  What was saved is read back when its strings are valid UTF-8; every string that is read is. Stray bytes are replaced on the way to the
  file, after the validation, so that a file can be saved that is refused at the next start.
\<close>

section \<open>The struct tags\<close>

definition userT :: gotype where
  "userT = KStruct [(''username'', False, KString), (''password_hash'', False, KString), (''email'', True, KString),
     (''name'', True, KString), (''roles'', True, KSlice KString)]"

definition clientT :: gotype where
  "clientT = KStruct [(''client_id'', False, KString), (''type'', False, KString), (''client_secret'', True, KString),
     (''audience'', True, KString), (''grant_types'', True, KSlice KString), (''client_credentials_scopes'', True, KSlice KString),
     (''allowed_scopes'', True, KSlice KString), (''client_credentials_roles'', True, KSlice KString),
     (''redirect_uris'', False, KSlice KString), (''post_logout_redirect_uris'', True, KSlice KString),
     (''allowed_origins'', True, KSlice KString), (''users'', False, KSlice userT)]"

definition resourceT :: gotype where
  "resourceT = KStruct [(''audience'', False, KString), (''app_roles'', False, KSlice KString)]"

text \<open>The document in the object form: with a pointer when it is read, which tells a missing list of clients from an empty one.\<close>

definition docT :: gotype where
  "docT = KStruct [(''clients'', False, KPtr (KSlice clientT)), (''resources'', False, KSlice resourceT)]"

section \<open>Records as Go values\<close>

definition sliceVal :: "bool \<Rightarrow> gval list \<Rightarrow> gval" where
  "sliceVal isNil vs = (if isNil \<and> vs = [] then VNilSlice else VSlice vs [])"

definition stringsVal :: "bool \<Rightarrow> string list \<Rightarrow> gval" where
  "stringsVal isNil ss = sliceVal isNil (map VString ss)"

definition userVal :: "User \<Rightarrow> gval" where
  "userVal u = VStruct [VString (u_Username u), VString (u_PasswordHash u), VString (u_Email u), VString (u_Name u), stringsVal False (u_Roles u)]"

definition clientVal :: "(string \<Rightarrow> bool) \<Rightarrow> Client \<Rightarrow> gval" where
  "clientVal nl c = VStruct
     [VString (c_ClientID c), VString (c_Type c), VString (c_ClientSecret c), VString (c_Audience c), stringsVal False (c_GrantTypes c),
      stringsVal False (c_ClientCredentialsScopes c), stringsVal False (c_AllowedScopes c), stringsVal False (c_ClientCredentialsRoles c),
      stringsVal (nl ''redirect_uris'') (c_RedirectURIs c), stringsVal False (c_PostLogoutRedirectURIs c),
      stringsVal False (c_AllowedOrigins c), sliceVal (nl ''users'') (map userVal (c_Users c))]"

definition resourceVal :: "(string \<Rightarrow> bool) \<Rightarrow> ResourceDefinition \<Rightarrow> gval" where
  "resourceVal nl r = VStruct [VString (rd_Audience r), stringsVal (nl ''app_roles'') (rd_AppRoles r)]"

fun strOf :: "gval \<Rightarrow> string" where
  "strOf (VString s) = s"
| "strOf _ = []"

fun elemsOf :: "gval \<Rightarrow> gval list" where
  "elemsOf (VSlice vs _) = vs"
| "elemsOf _ = []"

fun fieldsOf :: "gval \<Rightarrow> gval list" where
  "fieldsOf (VStruct vs) = vs"
| "fieldsOf _ = []"

definition stringsOf :: "gval \<Rightarrow> string list" where
  "stringsOf v = map strOf (elemsOf v)"

definition userOf :: "gval \<Rightarrow> User" where
  "userOf v = (let f = (!) (fieldsOf v) in
     \<lparr>u_Username = strOf (f 0), u_PasswordHash = strOf (f 1), u_Email = strOf (f 2), u_Name = strOf (f 3), u_Roles = stringsOf (f 4)\<rparr>)"

definition clientOf :: "gval \<Rightarrow> Client" where
  "clientOf v = (let f = (!) (fieldsOf v) in
     \<lparr>c_ClientID = strOf (f 0), c_Type = strOf (f 1), c_ClientSecret = strOf (f 2), c_Audience = strOf (f 3), c_GrantTypes = stringsOf (f 4),
      c_ClientCredentialsScopes = stringsOf (f 5), c_AllowedScopes = stringsOf (f 6), c_ClientCredentialsRoles = stringsOf (f 7),
      c_RedirectURIs = stringsOf (f 8), c_PostLogoutRedirectURIs = stringsOf (f 9), c_AllowedOrigins = stringsOf (f 10),
      c_Users = map userOf (elemsOf (f 11))\<rparr>)"

definition resourceOf :: "gval \<Rightarrow> ResourceDefinition" where
  "resourceOf v = (let f = (!) (fieldsOf v) in \<lparr>rd_Audience = strOf (f 0), rd_AppRoles = stringsOf (f 1)\<rparr>)"

section \<open>The conversions\<close>

definition MarshalJSON :: "gval \<Rightarrow> string option" where
  "MarshalJSON c = Marshal clientT c"

text \<open>A slice of values with a \<^verbatim>\<open>MarshalJSON\<close> method: the bytes of the method become part of the document.\<close>

definition marshalers :: "gval \<Rightarrow> jsyn option" where
  "marshalers v =
     (case v of
        VSlice vs _ \<Rightarrow> map_option SArr (encodeAll (\<lambda>c. case MarshalJSON c of None \<Rightarrow> None | Some data \<Rightarrow> parseJSON data) vs)
      | _ \<Rightarrow> Some SNull)"

definition clientsVal :: "(string \<Rightarrow> nat \<Rightarrow> bool) \<Rightarrow> Client list \<Rightarrow> gval" where
  "clientsVal nl cs = sliceVal (nl ''clients'' 0) (map (\<lambda>(i, c). clientVal (\<lambda>f. nl f i) c) (enumerate 0 cs))"

definition resourcesVal :: "(string \<Rightarrow> nat \<Rightarrow> bool) \<Rightarrow> ResourceDefinition list \<Rightarrow> gval" where
  "resourcesVal nl rs = sliceVal (nl ''resources'' 0) (map (\<lambda>(i, r). resourceVal (\<lambda>f. nl f i) r) (enumerate 0 rs))"

definition readArray :: "string \<Rightarrow> Client list option" where
  "readArray raw = map_option (\<lambda>v. map clientOf (elemsOf v)) (Unmarshal (KSlice clientT) raw)"

definition readDoc :: "string \<Rightarrow> (Client list option \<times> ResourceDefinition list) option" where
  "readDoc raw =
     map_option (\<lambda>v.
         (case fieldsOf v ! 0 of VPtr cs \<Rightarrow> Some (map clientOf (elemsOf cs)) | _ \<Rightarrow> None, map resourceOf (elemsOf (fieldsOf v ! 1))))
       (Unmarshal docT raw)"

definition writeArray :: "(string \<Rightarrow> nat \<Rightarrow> bool) \<Rightarrow> Client list \<Rightarrow> string option" where
  "writeArray nl cs = map_option indentJSON (marshalers (clientsVal nl cs))"

definition writeDoc :: "(string \<Rightarrow> nat \<Rightarrow> bool) \<Rightarrow> Client list \<Rightarrow> ResourceDefinition list \<Rightarrow> string option" where
  "writeDoc nl cs rs =
     (case (marshalers (clientsVal nl cs), encode (KSlice resourceT) (resourcesVal nl rs)) of
        (Some j, Some k) \<Rightarrow> Some (indentJSON (SObj [(quoteBody ''clients'', j), (quoteBody ''resources'', k)]))
      | _ \<Rightarrow> None)"

definition goJSON :: "(string \<Rightarrow> nat \<Rightarrow> bool) \<Rightarrow> clients_codec" where
  "goJSON nl =
     \<lparr>unmarshalArray = readArray, unmarshalDoc = readDoc, marshalArray = writeArray nl, marshalDoc = (\<lambda>(cs, rs). writeDoc nl cs rs)\<rparr>"

lemmas goJSON_defs = goJSON_def readArray_def readDoc_def writeArray_def writeDoc_def

text \<open>What is read does not depend on the \<^verbatim>\<open>nil\<close> slices that are written.\<close>

definition stdJSON :: clients_codec where
  "stdJSON = goJSON (\<lambda>_ _. False)"

lemma goJSON_reads: "ReadClientsFile (goJSON nl) = ReadClientsFile stdJSON" "LoadClients (goJSON nl) = LoadClients stdJSON"
proof -
  have "unmarshalArray (goJSON nl) = unmarshalArray stdJSON" "unmarshalDoc (goJSON nl) = unmarshalDoc stdJSON"
    by (simp_all add: goJSON_defs stdJSON_def)
  then show "ReadClientsFile (goJSON nl) = ReadClientsFile stdJSON"
    by (intro ext) (simp only: ReadClientsFile_def cong: sum.case_cong option.case_cong if_cong)
  then show "LoadClients (goJSON nl) = LoadClients stdJSON"
    by (intro ext) (simp add: LoadClients_def)
qed

section \<open>Strings in the records\<close>

definition utf8User :: "User \<Rightarrow> bool" where
  "utf8User u \<longleftrightarrow> validUTF8 (u_Username u) \<and> validUTF8 (u_PasswordHash u) \<and> validUTF8 (u_Email u) \<and> validUTF8 (u_Name u)
     \<and> list_all validUTF8 (u_Roles u)"

definition utf8Client :: "Client \<Rightarrow> bool" where
  "utf8Client c \<longleftrightarrow> validUTF8 (c_ClientID c) \<and> validUTF8 (c_Type c) \<and> validUTF8 (c_ClientSecret c) \<and> validUTF8 (c_Audience c)
     \<and> list_all validUTF8 (c_GrantTypes c) \<and> list_all validUTF8 (c_ClientCredentialsScopes c) \<and> list_all validUTF8 (c_AllowedScopes c)
     \<and> list_all validUTF8 (c_ClientCredentialsRoles c) \<and> list_all validUTF8 (c_RedirectURIs c)
     \<and> list_all validUTF8 (c_PostLogoutRedirectURIs c) \<and> list_all validUTF8 (c_AllowedOrigins c) \<and> list_all utf8User (c_Users c)"

definition utf8Resource :: "ResourceDefinition \<Rightarrow> bool" where
  "utf8Resource r \<longleftrightarrow> validUTF8 (rd_Audience r) \<and> list_all validUTF8 (rd_AppRoles r)"

text \<open>The same with every stray byte replaced.\<close>

definition cleanUser :: "User \<Rightarrow> User" where
  "cleanUser u = \<lparr>u_Username = coerceUTF8 (u_Username u), u_PasswordHash = coerceUTF8 (u_PasswordHash u), u_Email = coerceUTF8 (u_Email u),
     u_Name = coerceUTF8 (u_Name u), u_Roles = map coerceUTF8 (u_Roles u)\<rparr>"

definition cleanClient :: "Client \<Rightarrow> Client" where
  "cleanClient c =
     \<lparr>c_ClientID = coerceUTF8 (c_ClientID c), c_Type = coerceUTF8 (c_Type c), c_ClientSecret = coerceUTF8 (c_ClientSecret c),
      c_Audience = coerceUTF8 (c_Audience c), c_GrantTypes = map coerceUTF8 (c_GrantTypes c),
      c_ClientCredentialsScopes = map coerceUTF8 (c_ClientCredentialsScopes c), c_AllowedScopes = map coerceUTF8 (c_AllowedScopes c),
      c_ClientCredentialsRoles = map coerceUTF8 (c_ClientCredentialsRoles c), c_RedirectURIs = map coerceUTF8 (c_RedirectURIs c),
      c_PostLogoutRedirectURIs = map coerceUTF8 (c_PostLogoutRedirectURIs c), c_AllowedOrigins = map coerceUTF8 (c_AllowedOrigins c),
      c_Users = map cleanUser (c_Users c)\<rparr>"

definition cleanResource :: "ResourceDefinition \<Rightarrow> ResourceDefinition" where
  "cleanResource r = \<lparr>rd_Audience = coerceUTF8 (rd_Audience r), rd_AppRoles = map coerceUTF8 (rd_AppRoles r)\<rparr>"

lemma map_coerce: "list_all validUTF8 ss \<Longrightarrow> map coerceUTF8 ss = ss"
  by (induction ss) (auto simp: coerce_valid)

lemma clean_utf8:
  "utf8User u \<Longrightarrow> cleanUser u = u" "utf8Client c \<Longrightarrow> cleanClient c = c" "utf8Resource r \<Longrightarrow> cleanResource r = r"
proof -
  show u: "utf8User u \<Longrightarrow> cleanUser u = u" for u
    by (simp add: utf8User_def cleanUser_def coerce_valid [THEN iffD2] map_coerce)
  have "list_all utf8User us \<Longrightarrow> map cleanUser us = us" for us by (induction us) (auto simp: u)
  then show "utf8Client c \<Longrightarrow> cleanClient c = c"
    by (simp add: utf8Client_def cleanClient_def coerce_valid [THEN iffD2] map_coerce)
  show "utf8Resource r \<Longrightarrow> cleanResource r = r"
    by (simp add: utf8Resource_def cleanResource_def coerce_valid [THEN iffD2] map_coerce)
qed

section \<open>Reading and writing\<close>

lemma typed_sliceVal: "hasType P (KSlice t) (sliceVal b vs) \<longleftrightarrow> list_all (hasType P t) vs"
  by (simp add: sliceVal_def)

lemma typed_strings: "hasType P (KSlice KString) (stringsVal b ss) \<longleftrightarrow> list_all P ss"
  by (simp add: stringsVal_def typed_sliceVal list_all_iff del: hasType.simps(3))

lemma typed_user: "hasType (\<lambda>_. True) userT (userVal u)"
  by (simp add: userT_def userVal_def typed_strings list_all_iff del: hasType.simps(3))

lemma typed_users: "hasType (\<lambda>_. True) (KSlice userT) (sliceVal b (map userVal us))"
  by (simp add: typed_sliceVal list_all_iff typed_user del: hasType.simps(3))

lemma typed_client: "hasType (\<lambda>_. True) clientT (clientVal nl c)"
  by (simp add: clientT_def clientVal_def typed_strings typed_users list_all_iff del: hasType.simps(3))

lemma typed_resource: "hasType (\<lambda>_. True) resourceT (resourceVal nl r)"
  by (simp add: resourceT_def resourceVal_def typed_strings list_all_iff del: hasType.simps(3))

lemma typed_clients: "hasType (\<lambda>_. True) (KSlice clientT) (clientsVal nl cs)"
  by (auto simp: clientsVal_def typed_sliceVal list_all_iff typed_client simp del: hasType.simps(3))

lemma typed_resources: "hasType (\<lambda>_. True) (KSlice resourceT) (resourcesVal nl rs)"
  by (auto simp: resourcesVal_def typed_sliceVal list_all_iff typed_resource simp del: hasType.simps(3))

lemma ascii_names: "validUTF8 s \<longleftrightarrow> list_all (\<lambda>c. octet c < 0x80) s \<or> validUTF8 s"
  using validUTF8_ascii by (auto simp: list_all_iff)

lemma plain_types: "plainType clientT" "plainType resourceT"
  by (simp_all add: clientT_def userT_def resourceT_def validUTF8_ascii)

lemma fits_types: "typeFits clientT 9999" "typeFits resourceT 9999"
  by (simp_all add: clientT_def userT_def resourceT_def)

lemma timeless_types: "timeless clientT" "timeless resourceT"
  by (simp_all add: clientT_def userT_def resourceT_def)

text \<open>The method writes what the package would write by itself.\<close>

lemma MarshalJSON_embeds:
  assumes "hasType P clientT c"
  shows "(case MarshalJSON c of None \<Rightarrow> None | Some data \<Rightarrow> parseJSON data) = encode clientT c"
proof -
  obtain j where j: "encode clientT c = Some j" using encode_total [OF timeless_types(1) assms] by blast
  have "nests maxNestingDepth j"
    using nests_encode [of clientT maxNestingDepth c j] j by (simp add: maxNestingDepth_def clientT_def userT_def)
  with parse_compactJSON [OF wfSyn_encode [OF j], of "[]"] j show ?thesis by (simp add: MarshalJSON_def Marshal_def)
qed

lemma encodeAll_cong: "(\<And>v. v \<in> set vs \<Longrightarrow> e v = e' v) \<Longrightarrow> encodeAll e vs = encodeAll e' vs"
  by (induction vs) auto

lemma marshalers_encode: "hasType P (KSlice clientT) v \<Longrightarrow> marshalers v = encode (KSlice clientT) v"
  using MarshalJSON_embeds
  by (auto simp: marshalers_def list_all_iff intro!: arg_cong [where f = "map_option SArr"] encodeAll_cong split: gval.splits)

definition normField :: "bool \<Rightarrow> gotype \<Rightarrow> gval \<Rightarrow> gval" where
  "normField om t v = (if om \<and> isEmptyValue v then zeroVal t else normalVal t v)"

lemma normal_fields:
  "normalVal (KStruct fs) (VStruct vs) = VStruct (map2 (\<lambda>f v. normField (fst (snd f)) (snd (snd f)) v) fs vs)"
proof -
  have "normalFields (map (\<lambda>f. (fst (snd f), zeroVal (snd (snd f)), normalVal (snd (snd f)))) fs) vs
     = map2 (\<lambda>f v. normField (fst (snd f)) (snd (snd f)) v) fs vs"
  proof (induction fs arbitrary: vs)
    case (Cons f fs)
    then show ?case by (cases vs) (simp_all add: normField_def)
  qed simp
  then show ?thesis by simp
qed

lemma norm_string: "strOf (normField b KString (VString s)) = coerceUTF8 s"
  by (simp add: normField_def coerceUTF8_def)

lemma norm_slice: "elemsOf (normField b (KSlice t) (sliceVal n vs)) = map (normalVal t) vs"
  by (simp add: normField_def sliceVal_def)

lemma norm_strings: "stringsOf (normField b (KSlice KString) (stringsVal n ss)) = map coerceUTF8 ss"
  unfolding stringsOf_def stringsVal_def norm_slice by simp

lemma norm_user: "userOf (normalVal userT (userVal u)) = cleanUser u"
  unfolding userT_def userVal_def normal_fields by (simp add: userOf_def cleanUser_def norm_string norm_strings)

lemma norm_client: "clientOf (normalVal clientT (clientVal nl c)) = cleanClient c"
proof -
  have "map userOf (elemsOf (normField b (KSlice userT) (sliceVal n (map userVal us)))) = map cleanUser us" for b n us
    unfolding norm_slice by (simp add: norm_user)
  then show ?thesis
    unfolding clientT_def clientVal_def normal_fields by (simp add: clientOf_def cleanClient_def norm_string norm_strings)
qed

lemma norm_resource: "resourceOf (normalVal resourceT (resourceVal nl r)) = cleanResource r"
  unfolding resourceT_def resourceVal_def normal_fields by (simp add: resourceOf_def cleanResource_def norm_string norm_strings)

lemma elems_normal: "elemsOf (normalVal (KSlice t) (sliceVal n vs)) = map (normalVal t) vs"
  by (simp add: sliceVal_def)

lemma norm_clients: "map clientOf (elemsOf (normalVal (KSlice clientT) (clientsVal nl cs))) = map cleanClient cs"
proof -
  have "map (\<lambda>(i, c). cleanClient c) (enumerate n cs) = map cleanClient cs" for n by (induction cs arbitrary: n) auto
  then show ?thesis unfolding clientsVal_def elems_normal by (simp add: comp_def norm_client case_prod_unfold)
qed

lemma norm_resources: "map resourceOf (elemsOf (normalVal (KSlice resourceT) (resourcesVal nl rs))) = map cleanResource rs"
proof -
  have "map (\<lambda>(i, c). cleanResource c) (enumerate n rs) = map cleanResource rs" for n by (induction rs arbitrary: n) auto
  then show ?thesis unfolding resourcesVal_def elems_normal by (simp add: comp_def norm_resource case_prod_unfold)
qed

lemma blank_newline: "blank [CHR 0x0A]"
  by (simp add: jsonSpace_def)

theorem marshalArray_total: "\<exists>data. marshalArray (goJSON nl) cs = Some data"
  using encode_total [OF _ typed_clients, of nl cs] timeless_types(1)
  by (auto simp: goJSON_defs marshalers_encode [OF typed_clients] simp del: encode.simps(3))

theorem array_reads_back:
  assumes "marshalArray (goJSON nl) cs = Some data"
  shows "unmarshalArray (goJSON nl') (data @ [CHR 0x0A]) = Some (map cleanClient cs)"
proof -
  have "MarshalIndent (KSlice clientT) (clientsVal nl cs) = Some data"
    using assms by (simp add: goJSON_defs marshalers_encode [OF typed_clients] MarshalIndent_def del: encode.simps(3))
  from MarshalIndent_Unmarshal [OF _ _ typed_clients this blank_newline]
  have "Unmarshal (KSlice clientT) (data @ [CHR 0x0A]) = Some (normalVal (KSlice clientT) (clientsVal nl cs))"
    using plain_types(1) fits_types(1) by (simp add: maxNestingDepth_def del: normalVal.simps)
  then show ?thesis by (simp add: goJSON_defs norm_clients del: normalVal.simps)
qed

theorem doc_reads_back:
  assumes "marshalDoc (goJSON nl) (cs, rs) = Some data" "\<not> nl ''clients'' 0"
  shows "unmarshalDoc (goJSON nl') (data @ [CHR 0x0A]) = Some (Some (map cleanClient cs), map cleanResource rs)"
proof -
  note ec = marshalers_encode [OF typed_clients, of nl cs]
  obtain j k where jk: "encode (KSlice clientT) (clientsVal nl cs) = Some j" "encode (KSlice resourceT) (resourcesVal nl rs) = Some k"
    and data: "data = indentJSON (SObj [(quoteBody ''clients'', j), (quoteBody ''resources'', k)])"
    using assms(1) by (auto simp: goJSON_defs ec simp del: encode.simps split: option.splits)
  have nul: "j \<noteq> SNull" using jk(1) assms(2) by (auto simp: clientsVal_def sliceVal_def)
  have "nests 9999 j" "nests 9999 k"
    using nests_encode [OF _ jk(1), of 9999] nests_encode [OF _ jk(2), of 9999] by (simp_all add: clientT_def userT_def resourceT_def)
  then have "parseJSON (data @ [CHR 0x0A]) = Some (SObj [(quoteBody ''clients'', j), (quoteBody ''resources'', k)])"
    unfolding data using wfSyn_encode [OF jk(1)] wfSyn_encode [OF jk(2)] litOk_quoteBody
    by (intro parse_indentJSON blank_newline) (simp_all add: maxNestingDepth_def)
  moreover have "unquote (quoteBody ''clients'') = Some ''clients''" "unquote (quoteBody ''resources'') = Some ''resources''"
    by (simp_all add: unquote_quoteBody coerce_valid validUTF8_ascii)
  moreover have "fieldIndex [''clients'', ''resources''] ''clients'' = Some 0" "fieldIndex [''clients'', ''resources''] ''resources'' = Some 1"
    by (simp_all add: fieldIndex_def)
  moreover have "decode (KSlice clientT) (zeroVal (KSlice clientT)) j = Some (normalVal (KSlice clientT) (clientsVal nl cs))"
    using plain_types(1) by (intro decode_encode [OF _ typed_clients jk(1)]) simp
  moreover have "decode (KSlice resourceT) (zeroVal (KSlice resourceT)) k = Some (normalVal (KSlice resourceT) (resourcesVal nl rs))"
    using plain_types(2) by (intro decode_encode [OF _ typed_resources jk(2)]) simp
  ultimately have "Unmarshal docT (data @ [CHR 0x0A])
      = Some (VStruct [VPtr (normalVal (KSlice clientT) (clientsVal nl cs)), normalVal (KSlice resourceT) (resourcesVal nl rs)])"
    using nul by (simp add: Unmarshal_def docT_def structDecoder_def ptrDecoder_def del: decode.simps(3) normalVal.simps zeroVal.simps(3))
  then show ?thesis by (simp add: goJSON_defs norm_clients norm_resources del: normalVal.simps)
qed

lemma firstNonSpace_text:
  "firstNonSpace (indentJSON (SArr vs) @ w) = CHR ''[''" "firstNonSpace (indentJSON (SObj ms) @ w) = CHR ''{''"
  by (simp_all add: indentJSON_def wsChars_def)

lemma array_starts:
  assumes "marshalArray (goJSON nl) cs = Some data" "\<not> nl ''clients'' 0"
  shows "firstNonSpace (data @ w) = CHR ''[''"
  using assms by (auto simp: goJSON_defs marshalers_def clientsVal_def sliceVal_def firstNonSpace_text)

lemma doc_starts: "marshalDoc (goJSON nl) (cs, rs) = Some data \<Longrightarrow> firstNonSpace (data @ w) = CHR ''{''"
  by (auto simp: goJSON_defs firstNonSpace_text split: option.splits)

text \<open>What is read from a file that was saved: the same clients with stray bytes replaced, if they are still valid.\<close>

theorem saved_file_contents:
  assumes "SaveClientsFile (goJSON nl) up file = Inr data" "\<not> nl ''clients'' 0"
  shows "ReadClientsFile (goJSON nl') up (Inr data) =
    (case orErr (validateClientSlice up (map cleanClient (cf_Clients file)))
            (validateResourceRegistry (map cleanResource (cf_Resources file)) (map cleanClient (cf_Clients file))) of
       Some e \<Rightarrow> Inl e
     | None \<Rightarrow> Inr \<lparr>cf_Clients = map cleanClient (cf_Clients file), cf_Resources = map cleanResource (cf_Resources file)\<rparr>)"
proof (cases "cf_Resources file = []")
  case True
  with assms(1) obtain json where json: "marshalArray (goJSON nl) (cf_Clients file) = Some json" "data = json @ [CHR 0x0A]"
    by (auto simp: SaveClientsFile_def split: option.splits)
  with True show ?thesis
    using array_reads_back [OF json(1), of nl'] array_starts [OF json(1) assms(2), of "[CHR 0x0A]"]
    by (simp add: ReadClientsFile_def orErr_def split: option.splits)
next
  case False
  with assms(1) obtain json where json: "marshalDoc (goJSON nl) (cf_Clients file, cf_Resources file) = Some json" "data = json @ [CHR 0x0A]"
    by (auto simp: SaveClientsFile_def split: option.splits)
  then show ?thesis
    using doc_reads_back [OF json(1) assms(2), of nl'] doc_starts [OF json(1), of "[CHR 0x0A]"]
    by (simp add: ReadClientsFile_def orErr_def split: option.splits)
qed

lemma typed_str_of: "hasType validUTF8 KString v \<Longrightarrow> validUTF8 (strOf v)"
  by (cases v) auto

lemma typed_elems: "hasType P (KSlice t) v \<Longrightarrow> list_all (hasType P t) (elemsOf v)"
  by (cases v) auto

lemma typed_strings_of: "hasType validUTF8 (KSlice KString) v \<Longrightarrow> list_all validUTF8 (stringsOf v)"
  using typed_elems [of validUTF8 KString v] typed_str_of by (auto simp: stringsOf_def list_all_iff simp del: hasType.simps)

lemmas typed_parts = typed_strings_of typed_str_of

lemma utf8_userOf: "hasType validUTF8 userT v \<Longrightarrow> utf8User (userOf v)"
  unfolding userT_def
  by (erule hasType_structE) (auto simp: list_all2_Cons1 utf8User_def userOf_def typed_parts simp del: hasType.simps(1,3))

lemma utf8_clientOf: "hasType validUTF8 clientT v \<Longrightarrow> utf8Client (clientOf v)"
proof -
  have users: "hasType validUTF8 (KSlice userT) w \<Longrightarrow> list_all utf8User (map userOf (elemsOf w))" for w
    using typed_elems [of validUTF8 userT w] utf8_userOf by (auto simp: list_all_iff)
  assume "hasType validUTF8 clientT v"
  then show ?thesis
    unfolding clientT_def
    by (elim hasType_structE) (simp add: list_all2_Cons1 utf8Client_def clientOf_def del: hasType.simps(1,3),
        auto simp: typed_parts users simp del: hasType.simps(1,3) list_all_length)
qed

lemma utf8_resourceOf: "hasType validUTF8 resourceT v \<Longrightarrow> utf8Resource (resourceOf v)"
  unfolding resourceT_def
  by (erule hasType_structE) (auto simp: list_all2_Cons1 utf8Resource_def resourceOf_def typed_parts simp del: hasType.simps(1,3))

lemma array_utf8: "unmarshalArray (goJSON nl) raw = Some cs \<Longrightarrow> list_all utf8Client cs"
  using typed_elems [OF Unmarshal_typed, of clientT raw] utf8_clientOf by (auto simp: goJSON_defs list_all_iff simp del: hasType.simps)

lemma doc_utf8:
  assumes "unmarshalDoc (goJSON nl) raw = Some (ocs, rs)"
  shows "(\<forall>cs. ocs = Some cs \<longrightarrow> list_all utf8Client cs) \<and> list_all utf8Resource rs"
proof -
  from assms obtain v where v: "Unmarshal docT raw = Some v"
    "ocs = (case fieldsOf v ! 0 of VPtr cs \<Rightarrow> Some (map clientOf (elemsOf cs)) | _ \<Rightarrow> None)" "rs = map resourceOf (elemsOf (fieldsOf v ! 1))"
    by (auto simp: goJSON_defs)
  from Unmarshal_typed [OF v(1)] obtain p q where pq: "v = VStruct [p, q]" "hasType validUTF8 (KPtr (KSlice clientT)) p"
    "hasType validUTF8 (KSlice resourceT) q"
    unfolding docT_def by (elim hasType_structE) (auto simp: list_all2_Cons1 simp del: hasType.simps)
  have "list_all utf8Resource rs" using typed_elems [OF pq(3)] utf8_resourceOf v(3) pq(1) by (auto simp: list_all_iff)
  moreover have "list_all utf8Client cs" if "ocs = Some cs" for cs
  proof -
    from that v(2) pq(1) obtain w where w: "p = VPtr w" "cs = map clientOf (elemsOf w)" by (cases p) auto
    with pq(2) have "hasType validUTF8 (KSlice clientT) w" by (simp del: hasType.simps(1,3,4))
    from typed_elems [OF this] w(2) utf8_clientOf show ?thesis by (auto simp: list_all_iff)
  qed
  ultimately show ?thesis by blast
qed

lemma read_file_utf8:
  assumes "ReadClientsFile (goJSON nl) up (Inr raw) = Inr file"
  shows "list_all utf8Client (cf_Clients file)" "list_all utf8Resource (cf_Resources file)" "validateClientSlice up (cf_Clients file) = None"
proof -
  from assms show "validateClientSlice up (cf_Clients file) = None"
    by (auto simp: ReadClientsFile_def split: if_splits option.splits)
  from assms have "unmarshalArray (goJSON nl) raw = Some (cf_Clients file) \<and> cf_Resources file = []
      \<or> unmarshalDoc (goJSON nl) raw = Some (Some (cf_Clients file), cf_Resources file)"
    by (auto simp: ReadClientsFile_def split: if_splits option.splits)
  then show "list_all utf8Client (cf_Clients file)" "list_all utf8Resource (cf_Resources file)"
    using array_utf8 doc_utf8 by fastforce+
qed

section \<open>Properties of the clients file\<close>

text \<open>
  C19. Every clients file that is read gives clients that pass the declarative validity rules, with distinct ids, and every string in the clients,
  the users and the role registry is valid UTF-8, whatever bytes the file has.
\<close>

theorem read_file_typed:
  assumes "ReadClientsFile (goJSON nl) up (Inr raw) = Inr file"
  shows "(\<forall>c \<in> set (cf_Clients file). utf8Client c \<and> clientOk up c) \<and> distinct (map c_ClientID (cf_Clients file))
    \<and> (\<forall>r \<in> set (cf_Resources file). utf8Resource r)"
  using read_file_utf8 [OF assms] by (simp add: validateClientSlice_None list_all_iff)

text \<open>
  C18. A clients file whose strings are valid UTF-8 is read back as it was saved, in the array form and, with a role registry, in the object
  form.
\<close>

theorem clients_file_roundtrip:
  assumes "SaveClientsFile (goJSON nl) up file = Inr data" "\<not> nl ''clients'' 0"
    and "\<forall>c \<in> set (cf_Clients file). utf8Client c" "\<forall>r \<in> set (cf_Resources file). utf8Resource r"
  shows "ReadClientsFile (goJSON nl') up (Inr data) = Inr file"
proof -
  have "map cleanClient (cf_Clients file) = cf_Clients file" using assms(3) by (simp add: clean_utf8 map_idI)
  moreover have "map cleanResource (cf_Resources file) = cf_Resources file" using assms(4) by (simp add: clean_utf8 map_idI)
  moreover have "validateClientSlice up (cf_Clients file) = None" "validateResourceRegistry (cf_Resources file) (cf_Clients file) = None"
    using assms(1) by (auto simp: SaveClientsFile_def split: option.splits)
  ultimately show ?thesis using saved_file_contents [OF assms(1,2), of nl'] by simp
qed

text \<open>
  Two clients whose ids differ in a stray byte pass the validation before the file is saved; in the file both ids have the replacement
  character, and the next start refuses the file.
\<close>

definition strayFile :: ClientsFile where
  "strayFile = \<lparr>cf_Clients = [sampleService\<lparr>c_ClientID := [CHR ''a'', CHR 0xFF]\<rparr>, sampleService\<lparr>c_ClientID := [CHR ''a'', CHR 0xFE]\<rparr>],
     cf_Resources = []\<rparr>"

lemma stray_ids: "TrimSpace [CHR ''a'', CHR 0xFF] = [CHR ''a'', CHR 0xFF]" "TrimSpace [CHR ''a'', CHR 0xFE] = [CHR ''a'', CHR 0xFE]"
  "\<not> ContainsAny [CHR ''a'', CHR 0xFF] wsChars" "\<not> ContainsAny [CHR ''a'', CHR 0xFE] wsChars"
  "coerceUTF8 [CHR ''a'', CHR 0xFF] = CHR ''a'' # replacementRune" "coerceUTF8 [CHR ''a'', CHR 0xFE] = CHR ''a'' # replacementRune"
  by code_simp+

lemma ascii_strings:
  "validUTF8 ''confidential''" "validUTF8 ''s3cret''" "validUTF8 ''api://res''" "validUTF8 ''client_credentials''" "validUTF8 ''api://res/run''"
  "validUTF8 ''api://res/stat''" "validUTF8 ''worker''" "validUTF8 ''job''" "validUTF8 ''app''" "validUTF8 ''public''" "validUTF8 ''api://app/read''"
  "validUTF8 ''https://app.example/cb''" "validUTF8 ''ada''" "validUTF8 ''admin''" "validUTF8 ''bob''"
  by (simp_all add: validUTF8_ascii)

lemma utf8_samples: "utf8User sampleUser" "utf8Client sampleClient" "utf8Client sampleService"
proof -
  show u: "utf8User sampleUser" by (simp add: utf8User_def sampleUser_def validUTF8_ascii)
  show "utf8Client sampleClient" using u by (simp add: utf8Client_def sampleClient_fields ascii_strings)
  show "utf8Client sampleService" by (simp add: utf8Client_def sampleService_fields ascii_strings)
qed

lemma service_ok: "entryOk i \<Longrightarrow> clientOk sampleURL (sampleService\<lparr>c_ClientID := i\<rparr>)"
  using sampleService_ok
  by (simp add: clientOk_def grantsOk_def sampleService_fields audience_def Confidential_def Interactive_def AllowsGrant_def grants_def)

theorem stray_bytes_lock_out:
  "\<exists>data. SaveClientsFile (goJSON (\<lambda>_ _. False)) sampleURL strayFile = Inr data
     \<and> ReadClientsFile (goJSON (\<lambda>_ _. False)) sampleURL (Inr data) = Inl errDuplicateClientID"
proof -
  let ?nl = "\<lambda>_ _. False"
  have "validateClientSlice sampleURL (cf_Clients strayFile) = None"
    by (simp add: validateClientSlice_None strayFile_def service_ok entryOk_def stray_ids)
  moreover have res: "validateResourceRegistry [] cs = None" for cs
    by (simp add: validateResourceRegistry_def validateClientRolesAgainstRegistry_def)
  moreover obtain json where "marshalArray (goJSON ?nl) (cf_Clients strayFile) = Some json" using marshalArray_total by blast
  moreover have r: "cf_Resources strayFile = []" by (simp add: strayFile_def)
  ultimately have save: "SaveClientsFile (goJSON ?nl) sampleURL strayFile = Inr (json @ [CHR 0x0A])"
    by (simp add: SaveClientsFile_def)
  let ?c = "sampleService\<lparr>c_ClientID := CHR ''a'' # replacementRune\<rparr>"
  have "cleanClient (sampleService\<lparr>c_ClientID := i\<rparr>) = sampleService\<lparr>c_ClientID := coerceUTF8 i\<rparr>" for i
    using clean_utf8(2) [OF utf8_samples(3)] by (simp add: cleanClient_def sampleService_def)
  then have "map cleanClient (cf_Clients strayFile) = [?c, ?c]" by (simp add: strayFile_def stray_ids)
  moreover have "TrimSpace (CHR ''a'' # replacementRune) = CHR ''a'' # replacementRune" "\<not> ContainsAny (CHR ''a'' # replacementRune) wsChars" by code_simp+
  then have "Client_validate sampleURL ?c = None" by (simp add: Client_validate_None service_ok entryOk_def)
  ultimately show ?thesis
    using saved_file_contents [OF save, of ?nl] save r by (simp add: validateClientSlice_def)
qed

text \<open>Files with sample clients.\<close>

definition sampleFile :: "Client list \<Rightarrow> string" where
  "sampleFile cs = the (marshalArray stdJSON cs) @ [CHR 0x0A]"

lemma no_registry: "validateResourceRegistry [] cs = None"
  by (simp add: validateResourceRegistry_def validateClientRolesAgainstRegistry_def)

lemma sampleFile_saved:
  assumes "\<forall>c \<in> set cs. clientOk up c" "distinct (map c_ClientID cs)"
  shows "SaveClientsFile stdJSON up \<lparr>cf_Clients = cs, cf_Resources = []\<rparr> = Inr (sampleFile cs)"
proof -
  obtain json where "marshalArray stdJSON cs = Some json" using marshalArray_total unfolding stdJSON_def by blast
  moreover have "validateClientSlice up cs = None" using assms by (simp add: validateClientSlice_None)
  ultimately show ?thesis
    by (simp add: SaveClientsFile_def sampleFile_def no_registry)
qed

lemma sampleFile_reads:
  assumes "\<forall>c \<in> set cs. clientOk up c \<and> utf8Client c" "distinct (map c_ClientID cs)"
  shows "ReadClientsFile stdJSON up (Inr (sampleFile cs)) = Inr \<lparr>cf_Clients = cs, cf_Resources = []\<rparr>"
proof -
  have "map cleanClient cs = cs" using assms(1) by (simp add: clean_utf8 map_idI)
  moreover have "validateClientSlice up cs = None" using assms by (simp add: validateClientSlice_None)
  ultimately show ?thesis
    using saved_file_contents [OF sampleFile_saved [unfolded stdJSON_def], of cs up "\<lambda>_ _. False"] assms
    by (simp add: stdJSON_def [symmetric] no_registry orErr_def)
qed

lemma sample_pair: "distinct (map c_ClientID [sampleClient, sampleService])"
  by (simp add: sampleClient_fields sampleService_fields)

lemma sample_pair_loads: "LoadClients stdJSON sampleURL sampleGen (Inr (sampleFile [sampleClient, sampleService])) = Inr sampleRegistry"
proof -
  have "ReadClientsFile stdJSON sampleURL (Inr (sampleFile [sampleClient, sampleService])) = ReadClientsFile sampleJSON sampleURL (Inr ''[]'')"
    using sampleFile_reads [OF _ sample_pair, of sampleURL] sampleClient_ok sampleService_ok
    by (simp add: utf8_samples sample_reads)
  then show ?thesis using sample_loads by (simp add: LoadClients_def)
qed

theorem clients_file_roundtrip_witness:
  "\<exists>data. ReadClientsFile (goJSON (\<lambda>_ _. True)) sampleURL (Inr data) = Inr \<lparr>cf_Clients = [sampleClient, sampleService], cf_Resources = []\<rparr>"
proof -
  have "SaveClientsFile stdJSON sampleURL \<lparr>cf_Clients = [sampleClient, sampleService], cf_Resources = []\<rparr> = Inr (sampleFile [sampleClient, sampleService])"
    by (rule sampleFile_saved [OF _ sample_pair]) (simp add: sampleClient_ok sampleService_ok)
  from clients_file_roundtrip [OF this [unfolded stdJSON_def]] show ?thesis by (auto simp: utf8_samples)
qed

theorem read_file_typed_witness:
  "\<exists>data cs. ReadClientsFile stdJSON sampleURL (Inr data) = Inr \<lparr>cf_Clients = cs, cf_Resources = []\<rparr>
     \<and> cs \<noteq> [] \<and> (\<forall>c \<in> set cs. utf8Client c \<and> clientOk sampleURL c) \<and> distinct (map c_ClientID cs)"
proof -
  have read: "ReadClientsFile stdJSON sampleURL (Inr (sampleFile [sampleClient, sampleService]))
      = Inr \<lparr>cf_Clients = [sampleClient, sampleService], cf_Resources = []\<rparr>"
    by (rule sampleFile_reads [OF _ sample_pair]) (simp add: sampleClient_ok sampleService_ok utf8_samples)
  from read_file_typed [OF read [unfolded stdJSON_def]] read show ?thesis
    by (intro exI [of _ "sampleFile [sampleClient, sampleService]"] exI [of _ "[sampleClient, sampleService]"]) simp
qed

end
