(* ===== verification/Paths.thy ===== *)
theory Paths
  imports Files
begin

text \<open>
  Paths as \<^verbatim>\<open>path/filepath\<close> treats them on Unix, and the reading of a file through the directory that holds it (\<^verbatim>\<open>readScopedFile\<close> in
  \<^verbatim>\<open>internal/idp/jsonfile.go\<close>, the head of \<^verbatim>\<open>loadSigningKey\<close> in \<^verbatim>\<open>internal/idp/key.go\<close>). The file system gives the directories that can be
  opened, by their clean paths; symbolic links are left out. A cleaned path is in normal form, and what is read is always an
  entry of the directory the path names.
\<close>

section \<open>Clean paths\<close>

text \<open>One element of a path against the elements before it, the last of them first.\<close>

definition cleanStep :: "bool \<Rightarrow> string list \<Rightarrow> string \<Rightarrow> string list" where
  "cleanStep rooted st c =
     (if c = [] \<or> c = ''.'' then st
      else if c = ''..'' then
        (case st of
           [] \<Rightarrow> if rooted then [] else [''..'']
         | t # ts \<Rightarrow> if t = ''..'' then ''..'' # st else ts)
      else c # st)"

definition Clean :: "string \<Rightarrow> string" where
  "Clean path =
     (let rooted = (path \<noteq> [] \<and> hd path = CHR ''/''); ps = rev (foldl (cleanStep rooted) [] (Split path (CHR ''/'')))
      in if rooted then CHR ''/'' # Join ps ''/'' else if ps = [] then ''.'' else Join ps ''/'')"

text \<open>\<^verbatim>\<open>filepath.Split\<close>: the directory keeps its separator.\<close>

definition SplitPath :: "string \<Rightarrow> string \<times> string" where
  "SplitPath path =
     (let name = rev (takeWhile (\<lambda>c. c \<noteq> CHR ''/'') (rev path)) in (take (length path - length name) path, name))"

section \<open>Reading through the directory\<close>

type_synonym fileSystem = "string \<Rightarrow> dir option"

text \<open>\<^verbatim>\<open>root.Open(name)\<close> and \<^verbatim>\<open>io.ReadAll\<close> for a name without separators: the directory itself cannot be read, its parent is out of reach.\<close>

definition rootRead :: "dir \<Rightarrow> string \<Rightarrow> idp_error + string" where
  "rootRead d name =
     (if name = [] \<or> name = ''..'' then Inl (errUpstream ''open'')
      else if name = ''.'' then Inl (errUpstream ''read'')
      else (case d name of
              None \<Rightarrow> Inl (errUpstream ''open'')
            | Some Unreadable \<Rightarrow> Inl (errUpstream ''read'')
            | Some (Contents raw) \<Rightarrow> Inr raw))"

text \<open>The directory and the name that a path is split into before it is opened.\<close>

definition scopedDir :: "string \<Rightarrow> string" where
  "scopedDir path = (let dir = fst (SplitPath (Clean path)) in if dir = [] then ''.'' else dir)"

definition scopedName :: "string \<Rightarrow> string" where
  "scopedName path = snd (SplitPath (Clean path))"

definition OpenRoot :: "fileSystem \<Rightarrow> string \<Rightarrow> dir option" where
  "OpenRoot fs dir = fs (Clean dir)"

definition readScopedFile :: "fileSystem \<Rightarrow> string \<Rightarrow> idp_error + string" where
  "readScopedFile fs path =
     (case OpenRoot fs (scopedDir path) of
        None \<Rightarrow> Inl (errUpstream ''open'')
      | Some d \<Rightarrow> rootRead d (scopedName path))"

section \<open>Normal form\<close>

text \<open>The elements of a clean path, the last one first: names, after a run of parent references that a rooted path does not have.\<close>

definition normalStack :: "bool \<Rightarrow> string list \<Rightarrow> bool" where
  "normalStack rooted st \<longleftrightarrow>
     (\<forall>c \<in> set st. c \<noteq> [] \<and> c \<noteq> ''.'' \<and> CHR ''/'' \<notin> set c)
     \<and> (\<exists>names n. st = names @ replicate n ''..'' \<and> ''..'' \<notin> set names \<and> (rooted \<longrightarrow> n = 0))"

lemma normalStack_Nil [simp]: "normalStack rooted []"
  by (simp add: normalStack_def)

lemma cleanStep_normal: "normalStack rooted st \<Longrightarrow> CHR ''/'' \<notin> set c \<Longrightarrow> normalStack rooted (cleanStep rooted st c)"
proof -
  assume st: "normalStack rooted st" and c: "CHR ''/'' \<notin> set c"
  from st obtain names n where s: "st = names @ replicate n ''..''" "''..'' \<notin> set names" "rooted \<longrightarrow> n = 0"
    and parts: "\<forall>c \<in> set st. c \<noteq> [] \<and> c \<noteq> ''.'' \<and> CHR ''/'' \<notin> set c" by (auto simp: normalStack_def)
  have push: "normalStack rooted (names' @ replicate m ''..'')"
    if "''..'' \<notin> set names'" "rooted \<longrightarrow> m = 0" "\<forall>c \<in> set names'. c \<noteq> [] \<and> c \<noteq> ''.'' \<and> CHR ''/'' \<notin> set c" for names' m
    using that unfolding normalStack_def by fastforce
  show ?thesis
  proof (cases "c = [] \<or> c = ''.''")
    case True
    with st show ?thesis by (auto simp: cleanStep_def)
  next
    case nonempty: False
    show ?thesis
    proof (cases "c = ''..''")
      case False
      have "cleanStep rooted st c = (c # names) @ replicate n ''..''" using nonempty False s(1) by (simp add: cleanStep_def)
      moreover have "normalStack rooted ((c # names) @ replicate n ''..'')"
        using nonempty False s c parts by (intro push) auto
      ultimately show ?thesis by simp
    next
      case True
      show ?thesis
      proof (cases names)
        case Nil
        have "cleanStep rooted st c = replicate (if rooted then 0 else Suc n) ''..''"
          using True s(1,3) Nil by (cases n) (auto simp: cleanStep_def)
        moreover have "normalStack rooted ([] @ replicate (if rooted then 0 else Suc n) ''..'')" by (intro push) auto
        ultimately show ?thesis by simp
      next
        case (Cons t ts)
        have "cleanStep rooted st c = ts @ replicate n ''..''" using True s(1,2) Cons by (auto simp: cleanStep_def)
        moreover have "normalStack rooted (ts @ replicate n ''..'')" using s Cons parts by (intro push) auto
        ultimately show ?thesis by simp
      qed
    qed
  qed
qed

lemma clean_fold_normal:
  "normalStack rooted st \<Longrightarrow> \<forall>c \<in> set cs. CHR ''/'' \<notin> set c \<Longrightarrow> normalStack rooted (foldl (cleanStep rooted) st cs)"
  by (induction cs arbitrary: st) (simp_all add: cleanStep_normal)

lemma normalStack_tl: "normalStack rooted (c # st) \<Longrightarrow> normalStack rooted st"
proof -
  assume "normalStack rooted (c # st)"
  then obtain names n where s: "c # st = names @ replicate n ''..''" "''..'' \<notin> set names" "rooted \<longrightarrow> n = 0"
    and parts: "\<forall>c \<in> set st. c \<noteq> [] \<and> c \<noteq> ''.'' \<and> CHR ''/'' \<notin> set c" by (auto simp: normalStack_def)
  show ?thesis
  proof (cases names)
    case Nil
    with s(1) have "st = [] @ replicate (n - 1) ''..''" by (cases n) auto
    with s(3) parts show ?thesis unfolding normalStack_def by (intro conjI exI [of _ "[]"] exI [of _ "n - 1"]) auto
  next
    case (Cons a as)
    with s parts show ?thesis unfolding normalStack_def by (intro conjI exI [of _ as] exI [of _ n]) auto
  qed
qed

text \<open>A stack in normal form is pushed element by element.\<close>

lemma clean_fold_id: "normalStack rooted (rev ps) \<Longrightarrow> foldl (cleanStep rooted) [] ps = rev ps"
proof (induction ps rule: rev_induct)
  case (snoc c ps)
  then have top: "normalStack rooted (c # rev ps)" by simp
  then obtain names n where s: "c # rev ps = names @ replicate n ''..''" "''..'' \<notin> set names" "rooted \<longrightarrow> n = 0"
    and c: "c \<noteq> []" "c \<noteq> ''.''" by (auto simp: normalStack_def)
  have "cleanStep rooted (rev ps) c = c # rev ps"
  proof (cases "c = ''..''")
    case True
    with s(1,2) have "names = []" by (cases names) auto
    with s(1,3) have "rev ps = replicate (n - 1) ''..''" "\<not> rooted" by (cases n; auto)+
    with True show ?thesis by (cases "n - 1") (auto simp: cleanStep_def)
  qed (simp add: cleanStep_def c)
  with snoc.IH normalStack_tl [OF top] show ?case by simp
qed simp

definition cleanParts :: "string \<Rightarrow> string list" where
  "cleanParts path = rev (foldl (cleanStep (path \<noteq> [] \<and> hd path = CHR ''/'')) [] (Split path (CHR ''/'')))"

lemma Clean_parts:
  "Clean path = (if path \<noteq> [] \<and> hd path = CHR ''/'' then CHR ''/'' # Join (cleanParts path) ''/''
     else if cleanParts path = [] then ''.'' else Join (cleanParts path) ''/'')"
  by (simp add: Clean_def cleanParts_def Let_def)

lemma cleanParts_normal: "normalStack (path \<noteq> [] \<and> hd path = CHR ''/'') (rev (cleanParts path))"
  unfolding cleanParts_def rev_rev_ident by (intro clean_fold_normal) (auto dest: Split_no_sep)

lemma cleanParts_names: "c \<in> set (cleanParts path) \<Longrightarrow> c \<noteq> [] \<and> c \<noteq> ''.'' \<and> CHR ''/'' \<notin> set c"
  using cleanParts_normal [of path] by (auto simp: normalStack_def)

lemma Join_ne: "ps \<noteq> [] \<Longrightarrow> hd ps \<noteq> [] \<Longrightarrow> Join ps sep \<noteq> [] \<and> hd (Join ps sep) = hd (hd ps)"
  by (cases ps rule: list.exhaust; cases "tl ps") auto

lemma Clean_head: "Clean path \<noteq> []" "hd (Clean path) = CHR ''/'' \<longleftrightarrow> path \<noteq> [] \<and> hd path = CHR ''/''"
proof -
  have h: "Join (cleanParts path) ''/'' \<noteq> [] \<and> hd (Join (cleanParts path) ''/'') \<noteq> CHR ''/''" if "cleanParts path \<noteq> []"
  proof -
    have "hd (cleanParts path) \<noteq> []" "CHR ''/'' \<notin> set (hd (cleanParts path))" using that cleanParts_names [of "hd (cleanParts path)" path] by simp_all
    with Join_ne [OF that, of "''/''"] show ?thesis by (metis list.set_sel(1))
  qed
  then show "Clean path \<noteq> []" by (auto simp: Clean_parts)
  show "hd (Clean path) = CHR ''/'' \<longleftrightarrow> path \<noteq> [] \<and> hd path = CHR ''/''" using h by (auto simp: Clean_parts)
qed

lemma Split_clean: "cleanParts path \<noteq> [] \<Longrightarrow> Split (Join (cleanParts path) ''/'') (CHR ''/'') = cleanParts path"
  using cleanParts_names by (intro Split_Join) auto

lemma cleanParts_Clean: "cleanParts (Clean path) = cleanParts path"
proof -
  let ?rooted = "path \<noteq> [] \<and> hd path = CHR ''/''"
  let ?ps = "cleanParts path"
  have id: "foldl (cleanStep ?rooted) [] ?ps = rev ?ps" using cleanParts_normal by (rule clean_fold_id)
  have root: "(Clean path \<noteq> [] \<and> hd (Clean path) = CHR ''/'') = ?rooted" using Clean_head [of path] by simp
  have "foldl (cleanStep ?rooted) [] (Split (Clean path) (CHR ''/'')) = rev ?ps"
  proof (cases ?rooted)
    case True
    then have split: "Split (Clean path) (CHR ''/'') = [] # Split (Join ?ps ''/'') (CHR ''/'')" by (simp add: Clean_parts)
    show ?thesis
    proof (cases "?ps = []")
      case True
      with split show ?thesis by (simp add: cleanStep_def)
    next
      case False
      with split id show ?thesis by (simp add: Split_clean cleanStep_def [of _ _ "[]"])
    qed
  next
    case False
    show ?thesis
    proof (cases "?ps = []")
      case True
      with False have "Clean path = ''.''" by (simp add: Clean_parts)
      with True show ?thesis by (simp add: cleanStep_def)
    next
      case names: False
      with False have "Clean path = Join ?ps ''/''" by (simp add: Clean_parts)
      with names id show ?thesis by (simp add: Split_clean)
    qed
  qed
  then show ?thesis unfolding cleanParts_def [of "Clean path"] root by simp
qed

theorem Clean_idem: "Clean (Clean path) = Clean path"
  using Clean_head [of path] by (simp add: Clean_parts [of "Clean path"] cleanParts_Clean) (simp add: Clean_parts)

section \<open>What is read\<close>

lemma scopedName_plain: "CHR ''/'' \<notin> set (scopedName path)"
  by (auto simp: scopedName_def SplitPath_def Let_def dest: set_takeWhileD)

text \<open>
  A scoped read gives the contents of an entry of the directory that the path names; neither the parent directory nor any path with
  separators is looked up in it, and two paths with the same clean form read the same file.
\<close>

theorem readScopedFile_entry:
  "(readScopedFile fs path = Inr raw \<longrightarrow>
      (\<exists>d. fs (Clean (scopedDir path)) = Some d \<and> d (scopedName path) = Some (Contents raw)
         \<and> CHR ''/'' \<notin> set (scopedName path) \<and> scopedName path \<notin> {[], ''.'', ''..''}))
   \<and> (Clean path = Clean path' \<longrightarrow> readScopedFile fs path = readScopedFile fs path')"
proof (intro conjI impI)
  assume "readScopedFile fs path = Inr raw"
  then show "\<exists>d. fs (Clean (scopedDir path)) = Some d \<and> d (scopedName path) = Some (Contents raw)
      \<and> CHR ''/'' \<notin> set (scopedName path) \<and> scopedName path \<notin> {[], ''.'', ''..''}"
    using scopedName_plain [of path]
    by (auto simp: readScopedFile_def OpenRoot_def rootRead_def split: option.splits node.splits if_splits)
next
  assume "Clean path = Clean path'"
  then show "readScopedFile fs path = readScopedFile fs path'"
    by (simp only: readScopedFile_def scopedDir_def scopedName_def)
qed

end
