(* ===== verification/Startup.thy ===== *)
theory Startup
  imports Resource ClientsFormat Paths
begin

text \<open>
  Starting the program (\<^verbatim>\<open>New\<close> in \<^verbatim>\<open>internal/idp/server.go\<close>, \<^verbatim>\<open>main.go\<close>). What the process finds around it is the record \<open>world\<close>: the
  environment, the file system, the random sources, bcrypt and the PEM codec. A start that waits for another instance's key file
  without an outcome yet is \<^term>\<open>None\<close>. Serving and the shutdown are in theory \<open>Lifecycle\<close>; log output is left out.
\<close>

section \<open>The server\<close>

record world =
  w_getenv :: environ
  w_codec :: key_codec
  w_faults :: faults
  w_faults2 :: faults
  w_rmFails :: "string \<Rightarrow> bool"
  w_gen :: "rsaKey option"
  w_waits :: "dir option list"
  w_now :: "nat \<Rightarrow> time"
  w_fs :: fileSystem
  w_parses :: bool
  w_webFS :: dir
  w_assets :: assetRoot
  w_url :: url_parser
  w_bcrypt :: "string \<Rightarrow> int \<Rightarrow> string option"
  w_rand :: "string option"

text \<open>The directory and the name of the configured PEM file, as \<^verbatim>\<open>loadSigningKey\<close> splits its path; a directory that cannot be opened has no entries.\<close>

definition pemAt :: "fileSystem \<Rightarrow> string \<Rightarrow> dir \<times> string" where
  "pemAt fs path =
     ((\<lambda>name. case OpenRoot fs (scopedDir path) of
         None \<Rightarrow> None
       | Some d \<Rightarrow> (case rootRead d name of
                      Inr raw \<Rightarrow> Some (Contents raw)
                    | Inl e \<Rightarrow> if e = errUpstream ''read'' then Some Unreadable else None)),
      scopedName path)"

text \<open>The signing material; a key directory that cannot be opened is an error.\<close>

definition serverKeys :: "world \<Rightarrow> Config \<Rightarrow> ((idp_error + keySet) \<times> dir option) option" where
  "serverKeys w cfg =
     (let newSet = NewSigningKeySet (w_codec w) (w_faults w) (w_rmFails w) (w_gen w) (w_waits w) (w_now w 0)
      in if cfg_RSAPeM cfg \<noteq> [] then newSet (Some (pemAt (w_fs w) (cfg_RSAPeM cfg))) None
         else if cfg_KeyDir cfg \<noteq> [] then
           (case OpenRoot (w_fs w) (cfg_KeyDir cfg) of
              None \<Rightarrow> Some (Inl (errUpstream ''open''), None)
            | Some d \<Rightarrow> newSet None (Some d))
         else newSet None None)"

definition New :: "world \<Rightarrow> Config \<Rightarrow> ((idp_error + Server) \<times> dir option) option" where
  "New w cfg =
     (case serverKeys w cfg of
        None \<Rightarrow> None
      | Some (Inl err, d) \<Rightarrow> Some (Inl err, d)
      | Some (Inr keys, d) \<Rightarrow>
          (case newLoginTemplate (w_parses w) (w_webFS w) (w_assets w) (cfg_Title cfg) (cfg_Subtitle cfg) of
             Inl err \<Rightarrow> Some (Inl err, d)
           | Inr tmpl \<Rightarrow>
               (case LoadClients stdJSON (w_url w) (w_bcrypt w) (readScopedFile (w_fs w) (cfg_ClientsFile cfg)) of
                  Inl err \<Rightarrow> Some (Inl err, d)
                | Inr clients \<Rightarrow>
                    (case w_rand w of
                       None \<Rightarrow> Some (Inl (errUpstream ''crypto/rand''), d)
                     | Some csrfSecret \<Rightarrow>
                         Some (Inr \<lparr>sv_keys = keys, sv_store = newStore, sv_template = tmpl,
                                    sv_csrf = newCSRFManager csrfSecret (15 * minute),
                                    sv_limiter = Some (newLimiter (w_now w 1) (cfg_LoginRateLimit cfg)), sv_clients = clients,
                                    sv_allowedOrigins = allowedOrigins clients, sv_cfg = cfg\<rparr>, d)))))"

section \<open>The command\<close>

definition minidpUsage :: "string list" where
  "minidpUsage =
     [''minidp '' @ [CHR 0xE2, CHR 0x80, CHR 0x94] @ '' a minimal OIDC/OAuth2 identity provider'',
      [],
      ''Usage:'',
      ''  minidp                    serve the IdP (configured via IDP_* environment variables)'',
      ''  minidp rotate-keys        stage a signing-key rotation inside IDP_KEY_DIR'',
      ''  minidp help               print this summary'',
      [],
      ''rotate-keys marks the active signing key as retiring (still published in the'',
      ''JWKS so outstanding tokens verify until the retention horizon passes) and'',
      ''activates a fresh key; the next server start picks up the new material. The'',
      ''retention horizon is IDP_KEY_RETENTION (seconds) or, by default, the sum of'',
      ''IDP_ACCESS_TOKEN_TTL and IDP_REFRESH_TOKEN_TTL plus a five-minute skew margin.'']"

datatype outcome =
    Serving Server
  | Rotated
  | Usage "string list"
  | Exit nat idp_error

definition rotateKeys :: "world \<Rightarrow> idp_error option \<times> dir option" where
  "rotateKeys w =
     (case LoadKeyRetention (w_getenv w) of
        Inl err \<Rightarrow> (Some err, OpenRoot (w_fs w) (w_getenv w ''IDP_KEY_DIR''))
      | Inr retention \<Rightarrow>
          RotateKeys (w_codec w) (w_faults w) (w_faults2 w) (w_now w 0) (w_now w 1) (w_gen w) (w_getenv w ''IDP_KEY_DIR'') retention
            (OpenRoot (w_fs w) (w_getenv w ''IDP_KEY_DIR'')))"

definition serveCommand :: "world \<Rightarrow> outcome option" where
  "serveCommand w =
     (case LoadConfig (w_getenv w) of
        Inl err \<Rightarrow> Some (Exit 1 err)
      | Inr cfg \<Rightarrow>
          (case New w cfg of
             None \<Rightarrow> None
           | Some (Inl err, d) \<Rightarrow> Some (Exit 1 err)
           | Some (Inr srv, d) \<Rightarrow> Some (Serving srv)))"

text \<open>An unknown argument prints the usage and exits with status 2.\<close>

definition minidp :: "string list \<Rightarrow> world \<Rightarrow> outcome option" where
  "minidp args w =
     (case args of
        [] \<Rightarrow> serveCommand w
      | a # _ \<Rightarrow>
          if a = ''rotate-keys'' then
            (case fst (rotateKeys w) of Some err \<Rightarrow> Some (Exit 1 err) | None \<Rightarrow> Some Rotated)
          else if a \<in> {''help'', ''-h'', ''--help''} then Some (Usage minidpUsage)
          else Some (Exit 2 (errUpstream ''unknown argument'')))"

section \<open>A started server\<close>

lemma publishLoop_active:
  assumes "publishLoop kc d ks es = Inr ks'" "\<And>k. ks_active ks = Some k \<Longrightarrow> k \<in> set (ks_published ks)"
  shows "ks_active ks' = Some k \<Longrightarrow> k \<in> set (ks_published ks')"
  using assms
  by (induction kc d ks es arbitrary: ks' rule: publishLoop.induct)
    (force simp: Let_def split: sum.splits if_splits)+

lemma NewSigningKeySet_active:
  assumes "NewSigningKeySet kc io rm gen waits now pem kd = Some (Inr ks, d)"
  shows "\<exists>k \<in> set (ks_published ks). ks_active ks = Some k"
proof (cases "pem = None \<and> kd \<noteq> None")
  case True
  then obtain d0 d1 where "keySetFromDir kc io rm gen waits now d0 = Some (Inr ks, d1)"
    using assms by (auto simp: NewSigningKeySet_def)
  then consider (legacy) k where "ks = keySetOf k"
    | (ring) kept where "loadPublishedKeys kc d1 kept = Inr ks" "ks_active ks \<noteq> None"
    by (auto simp: keySetFromDir_def split: option.splits sum.splits prod.splits if_splits)
  then show ?thesis
  proof cases
    case legacy
    then show ?thesis by (simp add: keySetOf_def)
  next
    case ring
    then show ?thesis using publishLoop_active [of kc d1 _ kept ks] unfolding loadPublishedKeys_def by fastforce
  qed
next
  case False
  with assms obtain k where "ks = keySetOf k"
    by (auto simp: NewSigningKeySet_def split: option.splits sum.splits prod.splits)
  then show ?thesis by (simp add: keySetOf_def)
qed

lemma New_started:
  assumes "New w cfg = Some (Inr sv, d)"
  shows "registryOk (w_url w) (sv_clients sv)" "ids (sv_clients sv) \<noteq> []"
    and "\<exists>k \<in> set (ks_published (sv_keys sv)). ks_active (sv_keys sv) = Some k"
    and "sv_store sv = newStore" "sv_cfg sv = cfg" "sv_allowedOrigins sv = origins (sv_clients sv)"
    and "sv_limiter sv = Some (newLimiter (w_now w 1) (cfg_LoginRateLimit cfg))" "csrf_ttl (sv_csrf sv) = 15 * minute"
proof -
  from assms obtain keys tmpl clients secret where
    keys: "serverKeys w cfg = Some (Inr keys, d)"
    and load: "LoadClients stdJSON (w_url w) (w_bcrypt w) (readScopedFile (w_fs w) (cfg_ClientsFile cfg)) = Inr clients"
    and sv: "sv = \<lparr>sv_keys = keys, sv_store = newStore, sv_template = tmpl, sv_csrf = newCSRFManager secret (15 * minute),
       sv_limiter = Some (newLimiter (w_now w 1) (cfg_LoginRateLimit cfg)), sv_clients = clients,
       sv_allowedOrigins = allowedOrigins clients, sv_cfg = cfg\<rparr>"
    by (auto simp: New_def split: option.splits sum.splits prod.splits)
  show "registryOk (w_url w) (sv_clients sv)" "ids (sv_clients sv) \<noteq> []"
    using LoadClients_ok [OF load] by (simp_all add: sv)
  show "\<exists>k \<in> set (ks_published (sv_keys sv)). ks_active (sv_keys sv) = Some k"
    using keys NewSigningKeySet_active by (auto simp: sv serverKeys_def Let_def split: if_splits option.splits)
qed (use assms in \<open>auto simp: New_def newCSRFManager_def allowedOrigins_def split: option.splits sum.splits prod.splits\<close>)

text \<open>
  C30. A server that starts is ready: whenever the command goes on to serve, the configured login limit is in force, at least one
  client is registered and all of them passed validation, the active signing key is among the published ones, the readiness probe
  answers 200, the token store is empty, and the origins allowed by CORS are exactly the ones that the registered clients bring
  along.
\<close>

theorem started_server_ready:
  assumes "minidp args w = Some (Serving sv)"
  shows "registryOk (w_url w) (sv_clients sv) \<and> ids (sv_clients sv) \<noteq> []
    \<and> (\<exists>k \<in> set (ks_published (sv_keys sv)). ks_active (sv_keys sv) = Some k)
    \<and> rs_Status (fst (handleReadyz r sv)) = 200
    \<and> sv_store sv = newStore
    \<and> (\<exists>l. sv_limiter sv = Some l \<and> 0 < perMinute l)
    \<and> (\<forall>org. sv_allowedOrigins sv org \<longleftrightarrow>
         (\<exists>i rc. lookup (sv_clients sv) i = Some rc
            \<and> (originsOf (w_url w) (c_RedirectURIs (rc_client rc)) org
               \<or> org \<in> set (map (\<lambda>o'. TrimSuffix o' ''/'') (c_AllowedOrigins (rc_client rc))))))"
proof -
  from assms obtain cfg d where cfg: "LoadConfig (w_getenv w) = Inr cfg" and new: "New w cfg = Some (Inr sv, d)"
    by (auto simp: minidp_def serveCommand_def split: list.splits if_splits option.splits sum.splits prod.splits)
  note sv = New_started [OF new]
  have "0 < cfg_LoginRateLimit cfg"
    using cfg by (auto simp: LoadConfig_def envInt_def Let_def split: option.splits sum.splits if_splits)
  then have "\<exists>l. sv_limiter sv = Some l \<and> 0 < perMinute l"
    by (simp add: sv(7) newLimiter_def)
  moreover have "rs_Status (fst (handleReadyz r sv)) = 200"
    using sv(3) by (auto simp: handleReadyz_def)
  moreover have "sv_allowedOrigins sv org \<longleftrightarrow>
      (\<exists>i rc. lookup (sv_clients sv) i = Some rc
         \<and> (originsOf (w_url w) (c_RedirectURIs (rc_client rc)) org
            \<or> org \<in> set (map (\<lambda>o'. TrimSuffix o' ''/'') (c_AllowedOrigins (rc_client rc)))))" for org
    using sv(1,6) by (simp add: registryOk_def Clients.lookup_def)
  ultimately show ?thesis
    using sv by blast
qed

section \<open>Witnesses\<close>

definition sampleFiles :: fileSystem where
  "sampleFiles = [''/etc'' \<mapsto> [''clients.json'' \<mapsto> Contents (sampleFile [sampleClient, sampleService])]]"

lemma sampleFiles_read: "readScopedFile sampleFiles ''/etc/clients.json'' = Inr (sampleFile [sampleClient, sampleService])"
proof -
  have "scopedDir ''/etc/clients.json'' = ''/etc/''" "scopedName ''/etc/clients.json'' = ''clients.json''" "Clean ''/etc/'' = ''/etc''"
    by code_simp+
  then show ?thesis by (simp add: readScopedFile_def OpenRoot_def rootRead_def sampleFiles_def)
qed

text \<open>Only the clients file is configured; the signing key is an ephemeral one.\<close>

definition sampleWorld :: world where
  "sampleWorld = \<lparr>w_getenv = sampleEnv, w_codec = sampleCodec, w_faults = noFaults, w_faults2 = noFaults,
     w_rmFails = (\<lambda>_. False), w_gen = Some freshKey, w_waits = [], w_now = (\<lambda>_. 0), w_fs = sampleFiles,
     w_parses = True, w_webFS = [''web/login.css'' \<mapsto> Contents ''css'', ''web/logo.svg'' \<mapsto> Contents ''svg''], w_assets = NoAssetDir,
     w_url = sampleURL, w_bcrypt = sampleGen, w_rand = Some ''secret''\<rparr>"

lemma sampleWorld_serves: "\<exists>sv. minidp [] sampleWorld = Some (Serving sv) \<and> sv_clients sv = sampleRegistry"
proof -
  obtain cfg where cfg: "LoadConfig (w_getenv sampleWorld) = Inr cfg"
    using sampleEnv_loads by (auto simp: sampleWorld_def)
  then have "cfg_RSAPeM cfg = []" "cfg_KeyDir cfg = []" "cfg_ClientsFile cfg = ''/etc/clients.json''"
    by (auto simp: LoadConfig_def sampleWorld_def sampleEnv_def Let_def split: option.splits sum.splits if_splits)
  then have "serverKeys sampleWorld cfg = Some (Inr (keySetOf \<lparr>sk_key = freshKey, sk_kid = legacyKid, sk_version = ''1.0''\<rparr>), None)"
    by (simp add: serverKeys_def NewSigningKeySet_def NewSigningKey_def sampleWorld_def)
  moreover have "LoadClients stdJSON (w_url sampleWorld) (w_bcrypt sampleWorld) (readScopedFile (w_fs sampleWorld) (cfg_ClientsFile cfg)) = Inr sampleRegistry"
    using sample_pair_loads \<open>cfg_ClientsFile cfg = _\<close> by (simp add: sampleWorld_def sampleFiles_read)
  moreover have "\<exists>tmpl. newLoginTemplate (w_parses sampleWorld) (w_webFS sampleWorld) (w_assets sampleWorld) (cfg_Title cfg) (cfg_Subtitle cfg) = Inr tmpl"
    by (simp add: newLoginTemplate_def loadAsset_def readAssetOverride_def sampleWorld_def)
  moreover have "w_rand sampleWorld = Some ''secret''" by (simp add: sampleWorld_def)
  ultimately show ?thesis
    using cfg by (auto simp: minidp_def serveCommand_def New_def)
qed

theorem started_server_ready_witness:
  "\<exists>sv. minidp [] sampleWorld = Some (Serving sv) \<and> rs_Status (fst (handleReadyz sampleRequest sv)) = 200 \<and> ids (sv_clients sv) \<noteq> []"
proof -
  obtain sv where "minidp [] sampleWorld = Some (Serving sv)" using sampleWorld_serves by blast
  with started_server_ready [OF this] show ?thesis by blast
qed

end
