(* ===== verification/KeyRace.thy ===== *)
theory KeyRace
  imports Keys
begin

text \<open>
  Several instances that start on one key directory (\<^verbatim>\<open>persistentSigningKey\<close>, \<^verbatim>\<open>waitForPeerKey\<close>, \<^verbatim>\<open>awaitFile\<close>,
  \<^verbatim>\<open>generateAndPersistKey\<close> and \<^verbatim>\<open>discardTempFile\<close> in \<^verbatim>\<open>internal/idp/key.go\<close>). Theory \<open>Keys\<close> has the view of one instance; here the system
  calls of any number of instances interleave on the shared directory.

  An open file stays the same file when its name is removed or given to another one, so a name leads to a file number and the number to the
  contents. An instance is the point in the code it has reached, with the variables it still needs; a step is one system call, which may
  fail. An instance that crashes takes no more steps.
\<close>

section \<open>Files and instances\<close>

record keyFS =
  fs_name :: "string \<rightharpoonup> nat"
  fs_data :: "nat \<Rightarrow> string"
  fs_next :: nat

abbreviation keyTmpName :: string where "keyTmpName \<equiv> ''minidp-rsa.pem.tmp''"

datatype instance_pc =
    AtStat nat
  | AtOpenKey
  | AtReadKey nat
  | AtCreate nat
  | AtAwait nat
  | AtPoll nat time
  | AtClock nat time
  | AtTakeOver nat
  | AtGenerate nat
  | AtWrite nat rsaKey string
  | AtClose nat rsaKey
  | AtRename nat rsaKey
  | AtDiscard nat idp_error
  | Finished "idp_error + signingKey"

definition generated :: "rsaKey \<Rightarrow> signingKey" where
  "generated key = \<lparr>sk_key = key, sk_kid = legacyKid, sk_version = ''1.0''\<rparr>"

definition unlinkTmp :: "keyFS \<Rightarrow> keyFS" where
  "unlinkTmp f = f\<lparr>fs_name := (fs_name f)(keyTmpName := None)\<rparr>"

text \<open>What reading the contents as a key file gives.\<close>

definition keyIn :: "key_codec \<Rightarrow> string \<Rightarrow> idp_error + signingKey" where
  "keyIn kc c = loadSigningKey kc [keyFileName \<mapsto> Contents c] keyFileName"

text \<open>
  One step of an instance; \<open>now\<close> is the clock at the step. The rules with \<open>_fails\<close> are the errors of the system calls. The number is the
  attempt of the loop; a file number is the open temporary file.
\<close>

inductive keyStep :: "key_codec \<Rightarrow> time \<Rightarrow> keyFS \<Rightarrow> instance_pc \<Rightarrow> keyFS \<Rightarrow> instance_pc \<Rightarrow> bool" for kc now where
  stat_found: "fs_name f keyFileName = Some n \<Longrightarrow> keyStep kc now f (AtStat a) f AtOpenKey"
| stat_missing: "fs_name f keyFileName = None \<Longrightarrow> keyStep kc now f (AtStat a) f (AtCreate a)"
| stat_fails: "keyStep kc now f (AtStat a) f (Finished (Inl (errUpstream ''stat'')))"
| open_key: "fs_name f keyFileName = Some n \<Longrightarrow> keyStep kc now f AtOpenKey f (AtReadKey n)"
| open_key_fails: "keyStep kc now f AtOpenKey f (Finished (Inl (errUpstream ''open'')))"
| read_key: "keyStep kc now f (AtReadKey n) f (Finished (keyIn kc (fs_data f n)))"
| read_key_fails: "keyStep kc now f (AtReadKey n) f (Finished (Inl (errUpstream ''read'')))"
| create_exists: "fs_name f keyTmpName = Some n \<Longrightarrow> keyStep kc now f (AtCreate a) f (AtAwait a)"
| create_new: "fs_name f keyTmpName = None \<Longrightarrow>
    keyStep kc now f (AtCreate a)
      (f\<lparr>fs_name := (fs_name f)(keyTmpName \<mapsto> fs_next f), fs_data := (fs_data f)(fs_next f := []), fs_next := Suc (fs_next f)\<rparr>)
      (AtGenerate (fs_next f))"
| create_fails: "keyStep kc now f (AtCreate a) f (Finished (Inl (errUpstream ''open'')))"
| await_start: "keyStep kc now f (AtAwait a) f (AtPoll a (now + 10 * second))"
| poll_found: "fs_name f keyFileName = Some n \<Longrightarrow> keyStep kc now f (AtPoll a deadline) f (AtStat (Suc a))"
| poll_missing: "keyStep kc now f (AtPoll a deadline) f (AtClock a deadline)"
| sleep: "now \<le> deadline \<Longrightarrow> keyStep kc now f (AtClock a deadline) f (AtPoll a deadline)"
| timed_out: "now > deadline \<Longrightarrow> a > 0 \<Longrightarrow> keyStep kc now f (AtClock a deadline) f (Finished (Inl errAwaitTimedOut))"
| stale: "now > deadline \<Longrightarrow> keyStep kc now f (AtClock 0 deadline) f (AtTakeOver 0)"
| take_over: "keyStep kc now f (AtTakeOver a) (unlinkTmp f) (AtStat (Suc a))"
| take_over_fails: "keyStep kc now f (AtTakeOver a) f (AtStat (Suc a))"
| generate: "keyStep kc now f (AtGenerate n) f (AtWrite n key (encodePEM kc key))"
| generate_fails: "keyStep kc now f (AtGenerate n) f (AtDiscard n (errUpstream ''crypto/rsa''))"
| write_part: "todo = chunk @ rest \<Longrightarrow> chunk \<noteq> [] \<Longrightarrow>
    keyStep kc now f (AtWrite n key todo) (f\<lparr>fs_data := (fs_data f)(n := fs_data f n @ chunk)\<rparr>) (AtWrite n key rest)"
| write_done: "keyStep kc now f (AtWrite n key []) f (AtClose n key)"
| write_fails: "keyStep kc now f (AtWrite n key todo) f (AtDiscard n (errUpstream ''write''))"
| close: "keyStep kc now f (AtClose n key) f (AtRename n key)"
| close_fails: "keyStep kc now f (AtClose n key) f (AtDiscard n (errUpstream ''close''))"
| rename: "fs_name f keyTmpName = Some m \<Longrightarrow>
    keyStep kc now f (AtRename n key) (f\<lparr>fs_name := (fs_name f)(keyFileName \<mapsto> m, keyTmpName := None)\<rparr>) (Finished (Inr (generated key)))"
| rename_fails: "keyStep kc now f (AtRename n key) f (AtDiscard n (errUpstream ''rename''))"
| discard: "keyStep kc now f (AtDiscard n err) (unlinkTmp f) (Finished (Inl err))"
| discard_fails: "keyStep kc now f (AtDiscard n err) f (Finished (Inl err))"

inductive_simps keyStep_at:
  "keyStep kc now f (AtStat a) f' pc'"
  "keyStep kc now f AtOpenKey f' pc'"
  "keyStep kc now f (AtReadKey n) f' pc'"

text \<open>
  The states that instances started on the directory \<open>f0\<close> reach, when only steps with \<open>ok\<close> are taken.
\<close>

inductive keyRace :: "key_codec \<Rightarrow> (keyFS \<Rightarrow> instance_pc list \<Rightarrow> nat \<Rightarrow> bool) \<Rightarrow> keyFS \<Rightarrow> keyFS \<Rightarrow> instance_pc list \<Rightarrow> bool" for kc ok f0 where
  start: "keyRace kc ok f0 f0 (replicate n (AtStat 0))"
| step: "keyRace kc ok f0 f ps \<Longrightarrow> i < length ps \<Longrightarrow> ok f ps i \<Longrightarrow> keyStep kc now f (ps ! i) f' pc \<Longrightarrow> keyRace kc ok f0 f' (ps[i := pc])"

section \<open>The owner of the temporary file\<close>

definition tmpOf :: "instance_pc \<Rightarrow> nat option" where
  "tmpOf pc = (case pc of AtGenerate n \<Rightarrow> Some n | AtWrite n key todo \<Rightarrow> Some n | AtClose n key \<Rightarrow> Some n | AtRename n key \<Rightarrow> Some n
     | AtDiscard n err \<Rightarrow> Some n | _ \<Rightarrow> None)"

text \<open>A temporary file is taken over only when no instance is working on it.\<close>

definition takesOverStale :: "keyFS \<Rightarrow> instance_pc list \<Rightarrow> nat \<Rightarrow> bool" where
  "takesOverStale f ps i \<longleftrightarrow> ((\<exists>a. ps ! i = AtTakeOver a) \<longrightarrow> (\<forall>pc \<in> set ps. tmpOf pc = None))"

text \<open>No temporary file is created once the key is there.\<close>

definition createsInTime :: "keyFS \<Rightarrow> instance_pc list \<Rightarrow> nat \<Rightarrow> bool" where
  "createsInTime f ps i \<longleftrightarrow> ((\<exists>a. ps ! i = AtCreate a) \<longrightarrow> fs_name f keyFileName = None \<or> fs_name f keyTmpName \<noteq> None)"

text \<open>A complete key file: the one that was there at the start, or a whole encoded key.\<close>

definition complete :: "key_codec \<Rightarrow> keyFS \<Rightarrow> string \<Rightarrow> bool" where
  "complete kc f0 c \<longleftrightarrow> (\<exists>key. c = encodePEM kc key) \<or> (\<exists>n. fs_name f0 keyFileName = Some n \<and> c = fs_data f0 n)"

definition fsOk :: "key_codec \<Rightarrow> keyFS \<Rightarrow> keyFS \<Rightarrow> bool" where
  "fsOk kc f0 f \<longleftrightarrow>
     (\<forall>n. fs_name f keyFileName = Some n \<longrightarrow> n < fs_next f \<and> complete kc f0 (fs_data f n) \<and> fs_name f keyTmpName \<noteq> Some n)
     \<and> (\<forall>n. fs_name f keyTmpName = Some n \<longrightarrow> n < fs_next f)"

text \<open>What holds of an instance at each point.\<close>

definition pcOk :: "key_codec \<Rightarrow> keyFS \<Rightarrow> keyFS \<Rightarrow> instance_pc \<Rightarrow> bool" where
  "pcOk kc f0 f pc \<longleftrightarrow>
     (\<forall>n. tmpOf pc = Some n \<longrightarrow> fs_name f keyTmpName = Some n) \<and>
     (case pc of
        AtReadKey n \<Rightarrow> n < fs_next f \<and> complete kc f0 (fs_data f n) \<and> fs_name f keyTmpName \<noteq> Some n
      | AtGenerate n \<Rightarrow> fs_data f n = []
      | AtWrite n key todo \<Rightarrow> fs_data f n @ todo = encodePEM kc key
      | AtClose n key \<Rightarrow> fs_data f n = encodePEM kc key
      | AtRename n key \<Rightarrow> fs_data f n = encodePEM kc key
      | AtDiscard n err \<Rightarrow> err \<in> range errUpstream
      | Finished res \<Rightarrow> res \<in> Inl ` insert errAwaitTimedOut (range errUpstream) \<union> {keyIn kc c | c. complete kc f0 c}
      | _ \<Rightarrow> True)"

definition raceOk :: "key_codec \<Rightarrow> keyFS \<Rightarrow> keyFS \<Rightarrow> instance_pc list \<Rightarrow> bool" where
  "raceOk kc f0 f ps \<longleftrightarrow> fsOk kc f0 f \<and> (\<forall>i < length ps. pcOk kc f0 f (ps ! i))
     \<and> (\<forall>i < length ps. \<forall>j < length ps. tmpOf (ps ! i) \<noteq> None \<longrightarrow> tmpOf (ps ! j) \<noteq> None \<longrightarrow> i = j)"

lemma keyIn_encoded: "codecOk kc \<Longrightarrow> keyIn kc (encodePEM kc key) = Inr (generated key)"
  unfolding keyIn_def generated_def by (rule load_encoded) simp_all

text \<open>What a step does to the instance that takes it, and what it leaves of the others.\<close>

lemma keyStep_own:
  assumes "keyStep kc now f pc f' pc'" "codecOk kc" "fsOk kc f0 f" "pcOk kc f0 f pc"
  shows "fsOk kc f0 f'" "pcOk kc f0 f' pc'"
  using assms by (cases rule: keyStep.cases;
      force simp: fsOk_def pcOk_def tmpOf_def unlinkTmp_def complete_def keyIn_encoded [symmetric])+

lemma keyStep_change:
  assumes "keyStep kc now f pc f' pc'"
  obtains (same) "f' = f"
  | (unlink) "f' = unlinkTmp f" "tmpOf pc \<noteq> None \<or> (\<exists>a. pc = AtTakeOver a)"
  | (create) a where "fs_name f keyTmpName = None" "pc = AtCreate a"
      "f' = f\<lparr>fs_name := (fs_name f)(keyTmpName \<mapsto> fs_next f), fs_data := (fs_data f)(fs_next f := []), fs_next := Suc (fs_next f)\<rparr>"
  | (grow) n c where "tmpOf pc = Some n" "f' = f\<lparr>fs_data := (fs_data f)(n := c)\<rparr>"
  | (rename) m n key where "fs_name f keyTmpName = Some m" "pc = AtRename n key" "f' = f\<lparr>fs_name := (fs_name f)(keyFileName \<mapsto> m, keyTmpName := None)\<rparr>"
  using assms by (cases rule: keyStep.cases) (auto simp: tmpOf_def)

lemma pcOk_alone:
  assumes "pcOk kc f0 f q" "tmpOf q = None" "fs_next f \<le> fs_next f'"
    and "\<And>n. n < fs_next f \<Longrightarrow> fs_name f keyTmpName \<noteq> Some n \<Longrightarrow> fs_data f' n = fs_data f n \<and> fs_name f' keyTmpName \<noteq> Some n"
  shows "pcOk kc f0 f' q"
  using assms(1-3) assms(4) by (cases q) (auto simp: pcOk_def tmpOf_def)

lemma keyStep_other:
  assumes "keyStep kc now f pc f' pc'" "pcOk kc f0 f pc" "pcOk kc f0 f q"
    and "tmpOf pc \<noteq> None \<or> (\<exists>a. pc = AtTakeOver a) \<Longrightarrow> tmpOf q = None"
  shows "pcOk kc f0 f' q"
  using assms(1)
proof (cases rule: keyStep_change)
  case same
  with assms(3) show ?thesis by simp
next
  case unlink
  then have "tmpOf q = None" using assms(4) by blast
  from assms(3) this show ?thesis by (rule pcOk_alone) (simp_all add: unlink(1) unlinkTmp_def)
next
  case (create a)
  then have "tmpOf q = None" using assms(3) by (auto simp: pcOk_def)
  from assms(3) this show ?thesis by (rule pcOk_alone) (simp_all add: create)
next
  case (grow n c)
  then have "fs_name f keyTmpName = Some n" "tmpOf q = None" using assms(2,4) by (auto simp: pcOk_def)
  from assms(3) this(2) show ?thesis by (rule pcOk_alone) (use \<open>fs_name f keyTmpName = Some n\<close> in \<open>auto simp: grow(2)\<close>)
next
  case (rename m n key)
  then have "tmpOf q = None" using assms(4) by (simp add: tmpOf_def)
  from assms(3) this show ?thesis by (rule pcOk_alone) (simp_all add: rename(3))
qed

lemma keyStep_owner:
  assumes "keyStep kc now f pc f' pc'" "pcOk kc f0 f q" "tmpOf pc' \<noteq> None" "tmpOf q \<noteq> None"
  shows "tmpOf pc \<noteq> None"
  using assms by (cases rule: keyStep.cases) (auto simp: pcOk_def tmpOf_def)

lemma raceOk_step:
  assumes "raceOk kc f0 f ps" "codecOk kc" "i < length ps" "takesOverStale f ps i" "keyStep kc now f (ps ! i) f' pc"
  shows "raceOk kc f0 f' (ps[i := pc])"
proof -
  have ok: "fsOk kc f0 f" "\<And>j. j < length ps \<Longrightarrow> pcOk kc f0 f (ps ! j)"
    and owner: "\<And>j k. j < length ps \<Longrightarrow> k < length ps \<Longrightarrow> tmpOf (ps ! j) \<noteq> None \<Longrightarrow> tmpOf (ps ! k) \<noteq> None \<Longrightarrow> j = k"
    using assms(1) by (auto simp: raceOk_def)
  note own = keyStep_own [OF assms(5,2) ok(1) ok(2) [OF assms(3)]]
  have other: "pcOk kc f0 f' (ps ! j)" if "j < length ps" "j \<noteq> i" for j
  proof (rule keyStep_other [OF assms(5) ok(2) [OF assms(3)] ok(2) [OF that(1)]])
    assume "tmpOf (ps ! i) \<noteq> None \<or> (\<exists>a. ps ! i = AtTakeOver a)"
    then show "tmpOf (ps ! j) = None"
      using owner [OF that(1) assms(3)] that assms(4) by (auto simp: takesOverStale_def)
  qed
  have "tmpOf (ps ! j) = None" if "j < length ps" "j \<noteq> i" "tmpOf pc = Some m" for j m
    using keyStep_owner [OF assms(5) ok(2) [OF that(1)]] owner [OF that(1) assms(3)] that(2,3) by blast
  then have "\<forall>j < length ps. \<forall>k < length ps. tmpOf (ps[i := pc] ! j) \<noteq> None \<longrightarrow> tmpOf (ps[i := pc] ! k) \<noteq> None \<longrightarrow> j = k"
    using owner assms(3) by (metis nth_list_update_eq nth_list_update_neq option.exhaust)
  moreover have "\<forall>j < length ps. pcOk kc f0 f' (ps[i := pc] ! j)"
    using own(2) other assms(3) by (metis nth_list_update_eq nth_list_update_neq)
  ultimately show ?thesis using own(1) by (simp add: raceOk_def)
qed

text \<open>
  C32. The key file is never seen half written: however many instances start at the same time, whichever system calls fail and whichever
  instances crash, as long as a temporary file is only taken over from an instance that no longer works on it, the key file is at all
  times the one of the start or a completely written key, and an instance that reads it gets a key; it can only fail with the error
  of a system call or the time-out.
\<close>

theorem key_file_complete:
  assumes "codecOk kc" "\<forall>n. fs_name f0 keyFileName = Some n \<longrightarrow> n < fs_next f0 \<and> fs_name f0 keyTmpName \<noteq> Some n \<and> (\<exists>k. keyIn kc (fs_data f0 n) = Inr k)"
    and "\<forall>n. fs_name f0 keyTmpName = Some n \<longrightarrow> n < fs_next f0" "keyRace kc takesOverStale f0 f ps"
  shows "(\<forall>n. fs_name f keyFileName = Some n \<longrightarrow> complete kc f0 (fs_data f n) \<and> (\<exists>k. keyIn kc (fs_data f n) = Inr k))
    \<and> (\<forall>err. Finished (Inl err) \<in> set ps \<longrightarrow> err = errAwaitTimedOut \<or> err \<in> range errUpstream)"
proof -
  have "raceOk kc f0 f ps"
    using assms(4)
  proof (induction rule: keyRace.induct)
    case (start n)
    from assms(2,3) show ?case by (auto simp: raceOk_def fsOk_def pcOk_def tmpOf_def complete_def)
  next
    case (step f ps i now f' pc)
    then show ?case using raceOk_step assms(1) by blast
  qed
  moreover have readable: "\<exists>k. keyIn kc c = Inr k" if "complete kc f0 c" for c
    using that assms(1,2) by (auto simp: complete_def keyIn_encoded)
  moreover have "err = errAwaitTimedOut \<or> err \<in> range errUpstream" if "pcOk kc f0 f (Finished (Inl err))" for err
    using that readable by (fastforce simp: pcOk_def)
  ultimately show ?thesis
    unfolding raceOk_def fsOk_def in_set_conv_nth by metis
qed

section \<open>One key for all instances\<close>

definition orderly :: "keyFS \<Rightarrow> instance_pc list \<Rightarrow> nat \<Rightarrow> bool" where
  "orderly f ps i \<longleftrightarrow> takesOverStale f ps i \<and> createsInTime f ps i"

definition agreeing :: "key_codec \<Rightarrow> keyFS \<Rightarrow> instance_pc \<Rightarrow> bool" where
  "agreeing kc f pc \<longleftrightarrow>
     (case fs_name f keyFileName of
        None \<Rightarrow> (\<forall>m k. pc \<noteq> AtReadKey m \<and> pc \<noteq> Finished (Inr k))
      | Some n \<Rightarrow> tmpOf pc = None \<and> (\<forall>m. pc = AtReadKey m \<longrightarrow> m = n) \<and> (\<forall>k. pc = Finished (Inr k) \<longrightarrow> keyIn kc (fs_data f n) = Inr k))"

lemma agreeing_own:
  assumes "keyStep kc now f pc f' pc'" "codecOk kc" "pcOk kc f0 f pc" "agreeing kc f pc"
    and "\<And>a. pc = AtCreate a \<Longrightarrow> fs_name f keyFileName = None \<or> fs_name f keyTmpName \<noteq> None"
  shows "agreeing kc f' pc'"
  using assms(1)
  by (cases rule: keyStep.cases)
    (use assms(2-5) in \<open>auto simp: agreeing_def tmpOf_def unlinkTmp_def pcOk_def keyIn_encoded split: option.splits\<close>)

lemma agreeing_other:
  assumes "keyStep kc now f pc f' pc'" "agreeing kc f pc" "agreeing kc f q" "tmpOf pc \<noteq> None \<Longrightarrow> tmpOf q = None"
    and "\<And>a. pc = AtCreate a \<Longrightarrow> fs_name f keyFileName = None \<or> fs_name f keyTmpName \<noteq> None"
  shows "agreeing kc f' q"
  using assms(1)
proof (cases rule: keyStep_change)
  case (create a)
  then have "fs_name f keyFileName = None" using assms(5) by blast
  with create(3) assms(3) show ?thesis by (simp add: agreeing_def)
next
  case (rename m n key)
  then have "tmpOf pc \<noteq> None" by (simp add: tmpOf_def)
  then have "fs_name f keyFileName = None" "tmpOf q = None" using assms(2,4) by (auto simp: agreeing_def split: option.splits)
  with rename assms(3) show ?thesis by (simp add: agreeing_def)
qed (use assms(2-4) in \<open>auto simp: agreeing_def unlinkTmp_def split: option.splits\<close>)

lemma agreeing_step:
  assumes "raceOk kc f0 f ps" "\<forall>j < length ps. agreeing kc f (ps ! j)" "codecOk kc" "i < length ps" "orderly f ps i" "keyStep kc now f (ps ! i) f' pc"
  shows "\<forall>j < length ps. agreeing kc f' (ps[i := pc] ! j)"
proof (intro allI impI)
  fix j
  assume j: "j < length ps"
  have create: "\<And>a. ps ! i = AtCreate a \<Longrightarrow> fs_name f keyFileName = None \<or> fs_name f keyTmpName \<noteq> None"
    using assms(5) by (auto simp: orderly_def createsInTime_def)
  show "agreeing kc f' (ps[i := pc] ! j)"
  proof (cases "j = i")
    case True
    with agreeing_own [OF assms(6,3) _ _ create] assms(1,2,4) show ?thesis by (auto simp: raceOk_def)
  next
    case False
    moreover from False have "tmpOf (ps ! i) \<noteq> None \<Longrightarrow> tmpOf (ps ! j) = None" using assms(1,4) j unfolding raceOk_def by blast
    ultimately show ?thesis using agreeing_other [OF assms(6) _ _ _ create] assms(2,4) j by simp
  qed
qed

text \<open>
  C33. All instances that start on an empty or a used key directory end up with the same key, the one in the key file, in every run that is
  \<open>orderly\<close>: no instance takes a temporary file over from an instance that is still working on it (one that is slower than the wait of
  the others), and no instance creates the temporary file after the key file has appeared. The code ensures neither: it takes over after
  a fixed time, and it looks for the key file before it creates the temporary one, so the comment of \<^verbatim>\<open>persistentSigningKey\<close> that exactly one
  instance wins is not true of all runs (\<open>key_race_disagrees\<close>).
\<close>

theorem keys_agree:
  assumes "codecOk kc" "\<forall>n. fs_name f0 keyFileName = Some n \<longrightarrow> n < fs_next f0 \<and> fs_name f0 keyTmpName \<noteq> Some n"
    and "\<forall>n. fs_name f0 keyTmpName = Some n \<longrightarrow> n < fs_next f0"
    and "keyRace kc orderly f0 f ps" "Finished (Inr k) \<in> set ps"
  shows "\<exists>n. fs_name f keyFileName = Some n \<and> keyIn kc (fs_data f n) = Inr k \<and> (\<forall>k'. Finished (Inr k') \<in> set ps \<longrightarrow> k' = k)"
proof -
  have "raceOk kc f0 f ps \<and> (\<forall>j < length ps. agreeing kc f (ps ! j))"
    using assms(4)
  proof (induction rule: keyRace.induct)
    case (start n)
    from assms(2,3) show ?case by (auto simp: raceOk_def fsOk_def pcOk_def tmpOf_def complete_def agreeing_def split: option.splits)
  next
    case (step f ps i now f' pc)
    then show ?case using raceOk_step [OF _ assms(1)] agreeing_step [OF _ _ assms(1)] by (auto simp: orderly_def)
  qed
  then have "agreeing kc f (Finished (Inr k'))" if "Finished (Inr k') \<in> set ps" for k' using that by (metis in_set_conv_nth)
  then have "\<exists>n. fs_name f keyFileName = Some n \<and> keyIn kc (fs_data f n) = Inr k'" if "Finished (Inr k') \<in> set ps" for k'
    using that by (fastforce simp: agreeing_def split: option.splits)
  from this [OF assms(5)] this show ?thesis by fastforce
qed

text \<open>
  The race that is left: two instances have both seen no key file; one creates, writes and renames its key, and only then the other
  creates the temporary file, which has become free again, and replaces the key by its own. Both are up with different keys.
\<close>

definition emptyKeyFS :: keyFS where
  "emptyKeyFS = \<lparr>fs_name = Map.empty, fs_data = (\<lambda>_. []), fs_next = 0\<rparr>"

definition dirOf :: "keyFS \<Rightarrow> dir" where
  "dirOf f = (\<lambda>name. map_option (\<lambda>n. Contents (fs_data f n)) (fs_name f name))"

text \<open>The way of an instance that creates the temporary file, and of one that finds the key file.\<close>

lemma keyRace_generates:
  assumes "keyRace kc ok f0 f ps" "i < length ps" "ps ! i = AtCreate a" "fs_name f keyTmpName = None"
    and "ok f ps i" "\<And>g qs. \<forall>b. qs ! i \<noteq> AtTakeOver b \<and> qs ! i \<noteq> AtCreate b \<Longrightarrow> ok g qs i"
  shows "\<exists>f' n. keyRace kc ok f0 f' (ps[i := Finished (Inr (generated key))]) \<and> fs_name f' keyTmpName = None
    \<and> fs_name f' keyFileName = Some n \<and> fs_data f' n = encodePEM kc key
    \<and> ((\<forall>name m. fs_name f name = Some m \<longrightarrow> m < fs_next f) \<longrightarrow> dirOf f' = (dirOf f)(keyFileName \<mapsto> Contents (encodePEM kc key), keyTmpName := None))"
proof -
  let ?n = "fs_next f"
  define f1 where "f1 = f\<lparr>fs_name := (fs_name f)(keyTmpName \<mapsto> ?n), fs_data := (fs_data f)(?n := []), fs_next := Suc ?n\<rparr>"
  define f2 where "f2 = f1\<lparr>fs_data := (fs_data f1)(?n := encodePEM kc key)\<rparr>"
  define f3 where "f3 = f2\<lparr>fs_name := (fs_name f2)(keyFileName \<mapsto> ?n, keyTmpName := None)\<rparr>"
  have advance: "keyRace kc ok f0 g' (ps[i := q])"
    if "keyRace kc ok f0 g (ps[i := p])" "keyStep kc 0 g p g' q" "\<forall>b. p \<noteq> AtTakeOver b \<and> p \<noteq> AtCreate b" for g g' p q
    using keyRace.step [OF that(1) _ _ _, of i 0 g' q] that(2,3) assms(2,6) by simp
  have "keyRace kc ok f0 f1 (ps[i := AtGenerate ?n])"
    using assms(1,2,5) unfolding f1_def by (rule keyRace.step [where now = 0]) (simp add: assms(3) create_new assms(4))
  then have "keyRace kc ok f0 f1 (ps[i := AtWrite ?n key (encodePEM kc key)])" by (rule advance) (simp_all add: generate)
  then have "keyRace kc ok f0 f2 (ps[i := AtWrite ?n key []])"
  proof (cases "encodePEM kc key = []")
    case True
    then have "f2 = f1" by (simp add: f1_def f2_def)
    with True \<open>keyRace kc ok f0 f1 (ps[i := AtWrite ?n key (encodePEM kc key)])\<close> show ?thesis by simp
  next
    case False
    have "f2 = f1\<lparr>fs_data := (fs_data f1)(?n := fs_data f1 ?n @ encodePEM kc key)\<rparr>" by (simp add: f1_def f2_def)
    with write_part [of "encodePEM kc key" "encodePEM kc key" "[]" kc 0 f1 ?n key] False
    have "keyStep kc 0 f1 (AtWrite ?n key (encodePEM kc key)) f2 (AtWrite ?n key [])" by simp
    with advance [OF \<open>keyRace kc ok f0 f1 (ps[i := AtWrite ?n key (encodePEM kc key)])\<close>] show ?thesis by simp
  qed
  then have "keyRace kc ok f0 f2 (ps[i := AtClose ?n key])" by (rule advance) (simp_all add: write_done)
  then have "keyRace kc ok f0 f2 (ps[i := AtRename ?n key])" by (rule advance) (simp_all add: close)
  then have "keyRace kc ok f0 f3 (ps[i := Finished (Inr (generated key))])"
    by (rule advance) (use rename [of f2 ?n kc 0 ?n key] in \<open>simp_all add: f1_def f2_def f3_def\<close>)
  moreover have "dirOf f3 = (dirOf f)(keyFileName \<mapsto> Contents (encodePEM kc key), keyTmpName := None)"
    if bounded: "\<forall>name m. fs_name f name = Some m \<longrightarrow> m < ?n"
  proof
    fix name
    have "fs_name f name \<noteq> Some ?n" using bounded by auto
    then show "dirOf f3 name = ((dirOf f)(keyFileName \<mapsto> Contents (encodePEM kc key), keyTmpName := None)) name"
      by (cases "fs_name f name") (auto simp: dirOf_def f1_def f2_def f3_def)
  qed
  moreover have "fs_name f3 keyTmpName = None" "fs_name f3 keyFileName = Some ?n" "fs_data f3 ?n = encodePEM kc key"
    by (simp_all add: f1_def f2_def f3_def)
  ultimately show ?thesis by blast
qed

lemma keyRace_loads:
  assumes "keyRace kc ok f0 f ps" "i < length ps" "ps ! i = AtStat a" "fs_name f keyFileName = Some n"
    and "\<And>g qs. \<forall>b. qs ! i \<noteq> AtTakeOver b \<and> qs ! i \<noteq> AtCreate b \<Longrightarrow> ok g qs i"
  shows "keyRace kc ok f0 f (ps[i := Finished (keyIn kc (fs_data f n))])"
proof -
  have "keyRace kc ok f0 f (ps[i := AtOpenKey])"
    using assms(1,2) by (rule keyRace.step [where now = 0]) (simp_all add: assms stat_found [OF assms(4)])
  from keyRace.step [OF this, of i 0 f "AtReadKey n"] assms open_key [OF assms(4), of kc 0]
  have "keyRace kc ok f0 f (ps[i := AtReadKey n])" by simp
  from keyRace.step [OF this, of i 0 f "Finished (keyIn kc (fs_data f n))"] assms read_key [of kc 0 f n] show ?thesis by simp
qed

lemma stale_ok: "\<forall>b. qs ! i \<noteq> AtTakeOver b \<Longrightarrow> takesOverStale f qs i"
  by (simp add: takesOverStale_def)

lemma orderly_ok: "\<forall>b. qs ! i \<noteq> AtTakeOver b \<and> qs ! i \<noteq> AtCreate b \<Longrightarrow> orderly f qs i"
  by (simp add: orderly_def createsInTime_def stale_ok)

text \<open>
  The view of one instance in theory \<open>Keys\<close> is a run of these steps: what \<open>persistentSigningKey\<close> returns when no other instance is about is
  what an instance that runs alone returns, and it leaves the same directory.
\<close>

theorem single_instance_run:
  assumes "\<And>name m. fs_name f name = Some m \<Longrightarrow> m < fs_next f" "persistentSigningKey kc io gen [] (dirOf f) = Some (Inr k, d')"
  shows "\<exists>f'. keyRace kc orderly f f' [Finished (Inr k)] \<and> dirOf f' = d'"
proof (cases "fs_name f keyFileName")
  case None
  let ?d = "(dirOf f)(keyTmpName \<mapsto> Contents [])"
  have tmp: "fs_name f keyTmpName = None"
    using assms(2) None by (auto simp: persistentSigningKey_def persistentLoop.simps dirOf_def Let_def split: if_splits option.splits)
  then obtain key where gen: "generateAndPersistKey kc io gen keyTmpName keyFileName ?d = (Inr key, d')" and k: "k = generated key"
    using assms(2) None
    by (auto simp: persistentSigningKey_def persistentLoop.simps dirOf_def generated_def Let_def split: if_splits prod.splits sum.splits)
  then obtain steps where w: "writeAndRename io keyTmpName keyFileName (encodePEM kc key) ?d = (None, steps)" "d' = last steps"
    by (auto simp: generateAndPersistKey_def split: option.splits prod.splits)
  then have d': "d' = (dirOf f)(keyFileName \<mapsto> Contents (encodePEM kc key), keyTmpName := None)"
    using writeAndRename_done [OF w(1)] by (simp add: fun_upd_twist)
  have "keyRace kc orderly f f ([AtStat 0][0 := AtCreate 0])"
    using keyRace.start [of kc orderly f 1] by (intro keyRace.step [where now = 0 and f = f]) (simp_all add: orderly_ok stat_missing [OF None])
  then have "keyRace kc orderly f f [AtCreate 0]" by simp
  moreover have "orderly f [AtCreate 0] 0" by (simp add: orderly_def takesOverStale_def createsInTime_def None)
  ultimately have "\<exists>f' n. keyRace kc orderly f f' ([AtCreate 0][0 := Finished (Inr (generated key))]) \<and> fs_name f' keyTmpName = None
    \<and> fs_name f' keyFileName = Some n \<and> fs_data f' n = encodePEM kc key
    \<and> ((\<forall>name m. fs_name f name = Some m \<longrightarrow> m < fs_next f) \<longrightarrow> dirOf f' = (dirOf f)(keyFileName \<mapsto> Contents (encodePEM kc key), keyTmpName := None))"
    by (intro keyRace_generates) (simp_all add: tmp orderly_ok)
  then show ?thesis using assms(1) by (auto simp: k d')
next
  case (Some n)
  then have "keyIn kc (fs_data f n) = Inr k" "d' = dirOf f"
    using assms(2) by (auto simp: persistentSigningKey_def persistentLoop.simps dirOf_def keyIn_def loadSigningKey_def Let_def)
  moreover have "keyRace kc orderly f f [AtStat 0]" using keyRace.start [of kc orderly f 1] by simp
  ultimately show ?thesis using keyRace_loads [of kc orderly f f "[AtStat 0]" 0 0 n] Some by (auto simp: orderly_ok)
qed

theorem key_race_disagrees:
  "\<exists>f. keyRace kc takesOverStale emptyKeyFS f [Finished (Inr (generated key)), Finished (Inr (generated key'))]"
proof -
  have stat: "keyStep kc 0 emptyKeyFS (AtStat 0) emptyKeyFS (AtCreate 0)" by (rule stat_missing) (simp add: emptyKeyFS_def)
  have "keyRace kc takesOverStale emptyKeyFS emptyKeyFS [AtStat 0, AtStat 0]"
    using keyRace.start [of kc takesOverStale emptyKeyFS 2] by (simp add: numeral_2_eq_2)
  then have "keyRace kc takesOverStale emptyKeyFS emptyKeyFS ([AtStat 0, AtStat 0][0 := AtCreate 0])"
    by (rule keyRace.step [where now = 0]) (simp_all add: stat stale_ok)
  then have "keyRace kc takesOverStale emptyKeyFS emptyKeyFS ([AtCreate 0, AtStat 0][1 := AtCreate 0])"
    unfolding list_update_code by (rule keyRace.step [where now = 0]) (simp_all add: stat stale_ok)
  then have "keyRace kc takesOverStale emptyKeyFS emptyKeyFS [AtCreate 0, AtCreate 0]" by simp
  then obtain f where f: "keyRace kc takesOverStale emptyKeyFS f [Finished (Inr (generated key)), AtCreate 0]" "fs_name f keyTmpName = None"
    using keyRace_generates [of kc takesOverStale emptyKeyFS emptyKeyFS "[AtCreate 0, AtCreate 0]" 0 0 key] by (auto simp: stale_ok emptyKeyFS_def)
  then show ?thesis
    using keyRace_generates [OF f(1), of 1 0 key'] by (auto simp: stale_ok)
qed

section \<open>Every instance comes to an end\<close>

abbreviation (input) pollPause :: time where "pollPause \<equiv> 50000000"

text \<open>How often an instance can still sleep before the deadline.\<close>

definition sleepsLeft :: "time \<Rightarrow> time \<Rightarrow> nat" where
  "sleepsLeft now deadline = (if now \<le> deadline then nat ((deadline - now) div pollPause) + 1 else 0)"

lemma sleepsLeft_mono: "now \<le> now' \<Longrightarrow> sleepsLeft now' deadline \<le> sleepsLeft now deadline"
  unfolding sleepsLeft_def by (auto intro!: nat_mono zdiv_mono1)

lemma sleepsLeft_sleep:
  assumes "now \<le> deadline" "now + pollPause \<le> now'"
  shows "sleepsLeft now' deadline < sleepsLeft now deadline"
proof (cases "now' \<le> deadline")
  case True
  have "(deadline - now') div pollPause \<le> (deadline - (now + pollPause)) div pollPause" using assms(2) by (intro zdiv_mono1) simp_all
  also have "\<dots> = (deadline - now) div pollPause - 1"
    using div_add_self2 [of pollPause "deadline - (now + pollPause)"] by simp
  finally show ?thesis using True assms by (simp add: sleepsLeft_def)
qed (use assms in \<open>simp add: sleepsLeft_def\<close>)

text \<open>A bound for the steps an instance has left, when the PEM form of its key has at most \<open>b\<close> bytes.\<close>

definition stepsLeft :: "nat \<Rightarrow> time \<Rightarrow> keyFS \<Rightarrow> instance_pc \<Rightarrow> nat" where
  "stepsLeft b now f pc =
     (let round = (\<lambda>a :: nat. if a = 0 then b + 414 else b + 6)
      in case pc of
           AtStat a \<Rightarrow> (if fs_name f keyFileName = None then round a + 407 else 3)
         | AtOpenKey \<Rightarrow> 2
         | AtReadKey n \<Rightarrow> 1
         | AtCreate a \<Rightarrow> round a + 406
         | AtAwait a \<Rightarrow> round a + 405
         | AtPoll a deadline \<Rightarrow> round a + 2 * sleepsLeft now deadline + 2
         | AtClock a deadline \<Rightarrow> round a + 2 * sleepsLeft now deadline + 1
         | AtTakeOver a \<Rightarrow> b + 414
         | AtGenerate n \<Rightarrow> b + 5
         | AtWrite n key todo \<Rightarrow> length todo + 4
         | AtClose n key \<Rightarrow> 3
         | AtRename n key \<Rightarrow> 2
         | AtDiscard n err \<Rightarrow> 1
         | Finished res \<Rightarrow> 0)"

lemma stepsLeft_step:
  assumes "keyStep kc now f pc f' pc'" "now \<le> now'" "\<And>a d. pc = AtClock a d \<Longrightarrow> now + pollPause \<le> now'"
    and "\<And>n key todo. pc' = AtWrite n key todo \<Longrightarrow> length todo \<le> b"
    and "fs_name f keyFileName \<noteq> None \<Longrightarrow> fs_name f2 keyFileName \<noteq> None"
  shows "stepsLeft b now' f2 pc' < stepsLeft b now f pc"
  using assms(1)
proof (cases rule: keyStep.cases)
  case (await_start a)
  have "sleepsLeft now' (now + 10 * second) \<le> sleepsLeft now (now + 10 * second)" using assms(2) by (rule sleepsLeft_mono)
  also have "\<dots> = 201" by (simp add: sleepsLeft_def)
  finally show ?thesis using await_start by (simp add: stepsLeft_def Let_def)
next
  case (poll_missing a deadline)
  then show ?thesis using sleepsLeft_mono [OF assms(2), of deadline] by (simp add: stepsLeft_def Let_def)
next
  case (sleep deadline a)
  then show ?thesis using sleepsLeft_sleep [of now deadline now'] assms(3) by (simp add: stepsLeft_def Let_def)
next
  case (write_part todo chunk rest n key)
  then show ?thesis by (cases chunk) (simp_all add: stepsLeft_def Let_def)
qed (use assms(4,5) in \<open>auto simp: stepsLeft_def Let_def\<close>)

text \<open>
  C34. Starting on a shared key directory ends: when the key has at most \<open>b\<close> bytes in PEM form, the clock does not run backwards and
  moves on by the 50 milliseconds of each pause, and the key file does not disappear again, an instance makes at most \<open>b + 821\<close> system
  calls, whatever the other instances do in between and whichever calls fail.
\<close>

theorem instance_steps_bounded:
  assumes "pcs 0 = AtStat 0" "\<forall>i < m. keyStep kc (now i) (f i) (pcs i) (f' i) (pcs (Suc i))"
    and "\<forall>i < m. now i \<le> now (Suc i)" "\<forall>i < m. \<forall>a d. pcs i = AtClock a d \<longrightarrow> now i + pollPause \<le> now (Suc i)"
    and "\<forall>i < m. fs_name (f i) keyFileName \<noteq> None \<longrightarrow> fs_name (f (Suc i)) keyFileName \<noteq> None"
    and "\<forall>i \<le> m. \<forall>n key todo. pcs i = AtWrite n key todo \<longrightarrow> length todo \<le> b"
  shows "m \<le> b + 821"
proof -
  have "i + stepsLeft b (now i) (f i) (pcs i) \<le> stepsLeft b (now 0) (f 0) (pcs 0)" if "i \<le> m" for i
    using that
  proof (induction i)
    case (Suc i)
    have "stepsLeft b (now (Suc i)) (f (Suc i)) (pcs (Suc i)) < stepsLeft b (now i) (f i) (pcs i)"
      using Suc.prems assms(2-6) by (intro stepsLeft_step [where kc = kc and f' = "f' i"]) auto
    with Suc show ?case by simp
  qed simp
  from this [of m] have "m \<le> stepsLeft b (now 0) (f 0) (AtStat 0)" by (simp add: assms(1))
  also have "\<dots> \<le> b + 821" by (simp add: stepsLeft_def)
  finally show ?thesis .
qed

section \<open>Witnesses\<close>

lemma keyRace_mono: "keyRace kc ok f0 f ps \<Longrightarrow> (\<And>g qs i. ok g qs i \<Longrightarrow> ok' g qs i) \<Longrightarrow> keyRace kc ok' f0 f ps"
  by (induction rule: keyRace.induct) (auto intro: keyRace.intros)

lemma sample_race:
  "\<exists>f n. keyRace sampleCodec orderly emptyKeyFS f [Finished (Inr (generated oldKey)), Finished (Inr (generated oldKey))] \<and> fs_name f keyFileName = Some n"
proof -
  have stat: "keyStep sampleCodec 0 emptyKeyFS (AtStat 0) emptyKeyFS (AtCreate 0)" by (rule stat_missing) (simp add: emptyKeyFS_def)
  have "keyRace sampleCodec orderly emptyKeyFS emptyKeyFS [AtStat 0, AtStat 0]"
    using keyRace.start [of sampleCodec orderly emptyKeyFS 2] by (simp add: numeral_2_eq_2)
  then have "keyRace sampleCodec orderly emptyKeyFS emptyKeyFS ([AtStat 0, AtStat 0][0 := AtCreate 0])"
    by (rule keyRace.step [where now = 0]) (simp_all add: stat orderly_ok)
  then obtain f n where f: "keyRace sampleCodec orderly emptyKeyFS f [Finished (Inr (generated oldKey)), AtStat 0]"
      "fs_name f keyFileName = Some n" "fs_data f n = encodePEM sampleCodec oldKey"
    using keyRace_generates [of sampleCodec orderly emptyKeyFS emptyKeyFS "[AtCreate 0, AtStat 0]" 0 0 oldKey]
    by (auto simp: orderly_ok orderly_def takesOverStale_def createsInTime_def emptyKeyFS_def)
  from keyRace_loads [OF f(1), of 1 0 n] f(2,3) show ?thesis
    by (auto simp: orderly_ok keyIn_encoded [OF sampleCodec_ok])
qed

theorem key_file_complete_witness:
  "\<exists>f n k. keyRace sampleCodec takesOverStale emptyKeyFS f [Finished (Inr (generated oldKey)), Finished (Inr (generated oldKey))]
     \<and> fs_name f keyFileName = Some n \<and> complete sampleCodec emptyKeyFS (fs_data f n) \<and> keyIn sampleCodec (fs_data f n) = Inr k"
proof -
  obtain f n where f: "keyRace sampleCodec orderly emptyKeyFS f [Finished (Inr (generated oldKey)), Finished (Inr (generated oldKey))]"
      "fs_name f keyFileName = Some n" using sample_race by blast
  have r: "keyRace sampleCodec takesOverStale emptyKeyFS f [Finished (Inr (generated oldKey)), Finished (Inr (generated oldKey))]"
    using f(1) by (rule keyRace_mono) (simp add: orderly_def)
  from key_file_complete [OF sampleCodec_ok _ _ r] f(2) r show ?thesis by (fastforce simp: emptyKeyFS_def)
qed

theorem keys_agree_witness:
  "\<exists>f n. keyRace sampleCodec orderly emptyKeyFS f [Finished (Inr (generated oldKey)), Finished (Inr (generated oldKey))]
     \<and> fs_name f keyFileName = Some n \<and> keyIn sampleCodec (fs_data f n) = Inr (generated oldKey)"
proof -
  obtain f n where f: "keyRace sampleCodec orderly emptyKeyFS f [Finished (Inr (generated oldKey)), Finished (Inr (generated oldKey))]"
      "fs_name f keyFileName = Some n" using sample_race by blast
  from keys_agree [OF sampleCodec_ok _ _ f(1), of "generated oldKey"] f show ?thesis by (auto simp: emptyKeyFS_def)
qed

theorem single_instance_run_witness:
  "\<exists>f' d'. keyRace sampleCodec orderly emptyKeyFS f' [Finished (Inr (generated oldKey))] \<and> dirOf f' = d'"
proof -
  have "\<exists>d'. persistentSigningKey sampleCodec noFaults (Some oldKey) [] (dirOf emptyKeyFS) = Some (Inr (generated oldKey), d')"
    by (simp add: persistentSigningKey_def persistentLoop.simps dirOf_def emptyKeyFS_def generateAndPersistKey_def writeAndRename_def noFaults_def
        generated_def Let_def)
  then show ?thesis
    using single_instance_run [of emptyKeyFS sampleCodec noFaults "Some oldKey" "generated oldKey"] by (auto simp: emptyKeyFS_def)
qed

definition usedKeyFS :: keyFS where
  "usedKeyFS = \<lparr>fs_name = [keyFileName \<mapsto> 0], fs_data = (\<lambda>_. encodePEM sampleCodec oldKey), fs_next = 1\<rparr>"

theorem instance_steps_bounded_witness:
  "keyStep sampleCodec 0 usedKeyFS (AtStat 0) usedKeyFS AtOpenKey \<and> keyStep sampleCodec 0 usedKeyFS AtOpenKey usedKeyFS (AtReadKey 0)
   \<and> keyStep sampleCodec 0 usedKeyFS (AtReadKey 0) usedKeyFS (Finished (Inr (generated oldKey))) \<and> (3 :: nat) \<le> 0 + 821"
proof -
  let ?pcs = "\<lambda>i. [AtStat 0, AtOpenKey, AtReadKey 0, Finished (Inr (generated oldKey))] ! i"
  have run: "keyStep sampleCodec 0 usedKeyFS (AtStat 0) usedKeyFS AtOpenKey" "keyStep sampleCodec 0 usedKeyFS AtOpenKey usedKeyFS (AtReadKey 0)"
    "keyStep sampleCodec 0 usedKeyFS (AtReadKey 0) usedKeyFS (Finished (Inr (generated oldKey)))"
    using keyIn_encoded [OF sampleCodec_ok, of oldKey] by (simp_all add: keyStep_at usedKeyFS_def)
  have "(3 :: nat) \<le> 0 + 821"
    by (rule instance_steps_bounded [where pcs = ?pcs and now = "\<lambda>_. 0" and f = "\<lambda>_. usedKeyFS" and f' = "\<lambda>_. usedKeyFS" and kc = sampleCodec])
      (use run in \<open>auto simp: less_Suc_eq le_Suc_eq numeral_3_eq_3\<close>)
  with run show ?thesis by blast
qed

end
