(* ===== verification/Runs.thy ===== *)
theory Runs
  imports Startup
begin

text \<open>
  Sequences of requests. Every handler of the server meets one contract, the locale \<open>request_handler\<close>: it changes nothing of the
  server but the store and the login limiter, and the store only by operations of the kinds it is entitled to, with clock readings
  and random bytes of the request. What every run of requests keeps is proved inside the locale once, and the locale is
  interpreted on each handler and on \<open>serve\<close>.
\<close>

section \<open>What a request may do to the store\<close>

text \<open>The kinds of store operations each endpoint is entitled to.\<close>

fun entitled :: "endpoint \<Rightarrow> storeOp \<Rightarrow> bool" where
  "entitled ep (AddCode n1 rnd n2 c ttl) \<longleftrightarrow> ep = AuthorizePost"
| "entitled ep (TakeCode n1 n2 tok) \<longleftrightarrow> ep = Token"
| "entitled ep (TakeRefresh n1 n2 tok) \<longleftrightarrow> ep = Token"
| "entitled ep (AddRefresh n1 rnd n2 f ttl) \<longleftrightarrow> ep = Token"
| "entitled ep (RegisterJTI j sub fam ex) \<longleftrightarrow> ep = Token"
| "entitled ep (RevokeFamily now fam) \<longleftrightarrow> ep \<in> {Token, EndSession}"
| "entitled ep (RevokeToken now tok) \<longleftrightarrow> ep = Revoke"
| "entitled ep (DenyJTI j until) \<longleftrightarrow> ep = Revoke"

text \<open>A refresh entry that stands for a user, a client and scopes which the registry knows.\<close>

definition refreshGrantOk :: "clientRegistry \<Rightarrow> refreshEntry \<Rightarrow> bool" where
  "refreshGrantOk reg f \<longleftrightarrow>
     (\<exists>rc. lookup reg (re_ClientID f) = Some rc \<and> Lookup (rc_users rc) (re_Sub f) \<noteq> None \<and> (\<forall>sc \<in> set (re_Scopes f). scopeGranted rc sc))"

lemma refreshGrantOk_expiry [simp]: "refreshGrantOk reg (f\<lparr>re_ExpiresAt := t\<rparr>) = refreshGrantOk reg f"
  by (simp add: refreshGrantOk_def)

definition storeGrantsOk :: "clientRegistry \<Rightarrow> store \<Rightarrow> bool" where
  "storeGrantsOk reg s \<longleftrightarrow>
     (\<forall>k ac. codes s k = Some ac \<longrightarrow> codeGrantOk reg ac)
     \<and> (\<forall>k f. refresh s k = Some f \<or> usedRefresh s k = Some f \<longrightarrow> refreshGrantOk reg f)"

definition serverOk :: "url_parser \<Rightarrow> Server \<Rightarrow> bool" where
  "serverOk up sv \<longleftrightarrow> registryOk up (sv_clients sv) \<and> storeGrantsOk (sv_clients sv) (sv_store sv)"

fun opGrantOk :: "clientRegistry \<Rightarrow> storeOp \<Rightarrow> bool" where
  "opGrantOk reg (AddCode n1 rnd n2 c ttl) = codeGrantOk reg c"
| "opGrantOk reg (AddRefresh n1 rnd n2 f ttl) = refreshGrantOk reg f"
| "opGrantOk reg _ = True"

text \<open>A family is either new (drawn by this request) or the one of a refresh token that has just been consumed.\<close>

definition familyKnown :: "env \<Rightarrow> string \<Rightarrow> store \<Rightarrow> bool" where
  "familyKnown e fam s \<longleftrightarrow> (\<exists>i. randomToken (e_rand e i) = Inr fam) \<or> (\<exists>k g. usedRefresh s k = Some g \<and> re_Family g = fam)"

text \<open>An operation that takes its clock readings, random bytes and family from the request and the store.\<close>

fun opAllowed :: "env \<Rightarrow> storeOp \<Rightarrow> store \<Rightarrow> bool" where
  "opAllowed e (AddCode n1 rnd n2 c ttl) s \<longleftrightarrow> (\<exists>i. n1 = e_now e i) \<and> (\<exists>i. rnd = e_rand e i)"
| "opAllowed e (TakeCode n1 n2 tok) s \<longleftrightarrow> (\<exists>i. n1 = e_now e i)"
| "opAllowed e (AddRefresh n1 rnd n2 f ttl) s \<longleftrightarrow> (\<exists>i. n1 = e_now e i) \<and> (\<exists>i. rnd = e_rand e i) \<and> familyKnown e (re_Family f) s"
| "opAllowed e (TakeRefresh n1 n2 tok) s \<longleftrightarrow> (\<exists>i. n1 = e_now e i)"
| "opAllowed e (RegisterJTI j sub fam ex) s \<longleftrightarrow> (\<exists>i. randomJTI (e_rand e i) = Inr j) \<and> (fam = [] \<or> familyKnown e fam s)"
| "opAllowed e (DenyJTI j until) s \<longleftrightarrow> (\<exists>i. \<not> isDeniedJTI (e_now e i) j s)"
| "opAllowed e (RevokeFamily now fam) s \<longleftrightarrow> True"
| "opAllowed e (RevokeToken now tok) s \<longleftrightarrow> True"

inductive performs :: "(storeOp \<Rightarrow> bool) \<Rightarrow> env \<Rightarrow> storeOp list \<Rightarrow> store \<Rightarrow> store \<Rightarrow> bool" for K e where
  idle: "performs K e [] s s"
| step: "performs K e ops s t \<Longrightarrow> K op \<Longrightarrow> opAllowed e op t \<Longrightarrow> performs K e (ops @ [op]) s (execOp op t)"

lemma performs_fold: "performs K e ops s t \<Longrightarrow> t = fold execOp ops s \<and> list_all K ops"
  by (induction rule: performs.induct) simp_all

lemma performs_mono: "performs K e ops s t \<Longrightarrow> (\<And>op. K op \<Longrightarrow> K' op) \<Longrightarrow> performs K' e ops s t"
  by (induction rule: performs.induct) (auto intro: performs.intros)

lemma performs_trans: "performs K e ops2 t u \<Longrightarrow> performs K e ops1 s t \<Longrightarrow> performs K e (ops1 @ ops2) s u"
  by (induction rule: performs.induct) (auto simp flip: append_assoc intro: performs.intros)

lemma performs_one: "K op \<Longrightarrow> opAllowed e op s \<Longrightarrow> performs K e [op] s (execOp op s)"
  using performs.step [OF performs.idle] by fastforce

lemma familyKnown_later: "familyKnown (later k e) fam s \<Longrightarrow> familyKnown e fam s"
  by (auto simp: familyKnown_def)

lemma opAllowed_later: "opAllowed (later k e) op s \<Longrightarrow> opAllowed e op s"
  by (cases op) (auto dest: familyKnown_later)

lemma performs_later: "performs K (later k e) ops s t \<Longrightarrow> performs K e ops s t"
  by (induction rule: performs.induct) (auto intro: performs.intros opAllowed_later)

section \<open>What such operations keep\<close>

lemma storeGrantsOk_sub:
  assumes "storeGrantsOk reg s" "codes t \<subseteq>\<^sub>m codes s" "refresh t \<subseteq>\<^sub>m refresh s" "usedRefresh t \<subseteq>\<^sub>m usedRefresh s"
  shows "storeGrantsOk reg t"
  using assms unfolding storeGrantsOk_def map_le_def dom_def by (metis (mono_tags) mem_Collect_eq option.distinct(1))

lemma storeGrantsOk_drop [simp]: "storeGrantsOk reg s \<Longrightarrow> storeGrantsOk reg (dropExpired n s)"
  by (erule storeGrantsOk_sub) (simp_all add: store_maps keepWhere_le)

lemma storeGrantsOk_revoke [simp]: "storeGrantsOk reg s \<Longrightarrow> storeGrantsOk reg (revokeFamilyLocked n fam s)"
  by (erule storeGrantsOk_sub) (simp_all add: store_maps keepWhere_le)

lemma storeGrantsOk_updates [simp]:
  "storeGrantsOk reg s \<Longrightarrow> storeGrantsOk reg (s\<lparr>codes := (codes s)(k := None)\<rparr>)"
  "storeGrantsOk reg s \<Longrightarrow> storeGrantsOk reg (s\<lparr>refresh := (refresh s)(k := None)\<rparr>)"
  "storeGrantsOk reg s \<Longrightarrow> storeGrantsOk reg (s\<lparr>codes := (codes s)(k := None), refresh := (refresh s)(k := None)\<rparr>)"
  "storeGrantsOk reg s \<Longrightarrow> storeGrantsOk reg (s\<lparr>usedRefresh := (usedRefresh s)(k := None)\<rparr>)"
  "storeGrantsOk reg s \<Longrightarrow> codeGrantOk reg c \<Longrightarrow> storeGrantsOk reg (s\<lparr>codes := (codes s)(k \<mapsto> c)\<rparr>)"
  "storeGrantsOk reg s \<Longrightarrow> refreshGrantOk reg f \<Longrightarrow> storeGrantsOk reg (s\<lparr>refresh := (refresh s)(k \<mapsto> f)\<rparr>)"
  "storeGrantsOk reg s \<Longrightarrow> refreshGrantOk reg f \<Longrightarrow>
     storeGrantsOk reg (s\<lparr>refresh := (refresh s)(k := None), usedRefresh := (usedRefresh s)(k \<mapsto> f)\<rparr>)"
  "storeGrantsOk reg (s\<lparr>accessJTI := m1\<rparr>) = storeGrantsOk reg s"
  "storeGrantsOk reg (s\<lparr>deniedJTI := m2\<rparr>) = storeGrantsOk reg s"
  by (auto simp: storeGrantsOk_def)

lemma storeGrantsOk_takeRefresh:
  assumes "storeGrantsOk reg s"
  shows "storeGrantsOk reg (snd (takeRefresh n1 n2 tok s))"
proof -
  have "refreshGrantOk reg f" if "refresh (dropExpired n1 s) tok = Some f" for f
    using that assms by (auto simp: storeGrantsOk_def store_maps)
  with assms show ?thesis by (simp add: takeRefresh_def Let_def split: option.splits)
qed

lemma storeGrantsOk_execOp: "opGrantOk reg op \<Longrightarrow> storeGrantsOk reg s \<Longrightarrow> storeGrantsOk reg (execOp op s)"
  by (cases op)
    (simp_all add: addCode_def takeCode_def addRefresh_def storeGrantsOk_takeRefresh registerJTI_def denyJTI_def revokeFamilyTokens_def revokeToken_def
      Let_def split: option.splits sum.splits)

lemma performs_storeGrantsOk:
  "performs K e ops s t \<Longrightarrow> (\<And>op. K op \<Longrightarrow> opGrantOk reg op) \<Longrightarrow> storeGrantsOk reg s \<Longrightarrow> storeGrantsOk reg t"
  by (induction rule: performs.induct) (auto intro: storeGrantsOk_execOp)

text \<open>A denial until \<open>u\<close> survives as long as the clock shows less and the jti is not drawn again.\<close>

lemma performs_denied:
  assumes "performs K e ops s t" "\<And>i. e_now e i < u" "\<And>i. randomJTI (e_rand e i) \<noteq> Inr jti" "deniedUntil jti u s"
  shows "deniedUntil jti u t"
  using assms
proof (induction rule: performs.induct)
  case (step ops s t op)
  then have den: "deniedUntil jti u t" by blast
  then have "isDeniedJTI (e_now e i) jti t" for i
    using step.prems(1) [of i] by (auto simp: deniedUntil_def isDeniedJTI_def)
  then have "respectsDenial jti u op"
    using step.hyps(3) step.prems(1,2) by (cases op) (auto simp: less_imp_le)
  then show ?case using den by (rule deniedUntil_execOp)
qed

text \<open>A family without refresh tokens.\<close>

definition familyDead :: "string \<Rightarrow> store \<Rightarrow> bool" where
  "familyDead fam s \<longleftrightarrow> (\<forall>k f. refresh s k = Some f \<or> usedRefresh s k = Some f \<longrightarrow> re_Family f \<noteq> fam)"

lemma familyDead_sub:
  "familyDead fam s \<Longrightarrow> refresh t \<subseteq>\<^sub>m refresh s \<Longrightarrow> usedRefresh t \<subseteq>\<^sub>m usedRefresh s \<Longrightarrow> familyDead fam t"
  unfolding familyDead_def map_le_def dom_def by (metis (mono_tags) mem_Collect_eq option.distinct(1))

lemma familyDead_drop [simp]: "familyDead fam s \<Longrightarrow> familyDead fam (dropExpired n s)"
  by (erule familyDead_sub) (simp_all add: store_maps keepWhere_le)

lemma familyDead_revoke [simp]: "familyDead fam s \<Longrightarrow> familyDead fam (revokeFamilyLocked n g s)"
  by (erule familyDead_sub) (simp_all add: store_maps keepWhere_le)

lemma familyDead_updates [simp]:
  "familyDead fam (s\<lparr>codes := m0\<rparr>) = familyDead fam s"
  "familyDead fam (s\<lparr>accessJTI := m1\<rparr>) = familyDead fam s"
  "familyDead fam (s\<lparr>deniedJTI := m2\<rparr>) = familyDead fam s"
  "familyDead fam s \<Longrightarrow> familyDead fam (s\<lparr>refresh := (refresh s)(k := None)\<rparr>)"
  "familyDead fam s \<Longrightarrow> familyDead fam (s\<lparr>codes := m0, refresh := (refresh s)(k := None)\<rparr>)"
  "familyDead fam s \<Longrightarrow> familyDead fam (s\<lparr>usedRefresh := (usedRefresh s)(k := None)\<rparr>)"
  "familyDead fam s \<Longrightarrow> re_Family f \<noteq> fam \<Longrightarrow> familyDead fam (s\<lparr>refresh := (refresh s)(k \<mapsto> f)\<rparr>)"
  "familyDead fam s \<Longrightarrow> re_Family f \<noteq> fam \<Longrightarrow>
     familyDead fam (s\<lparr>refresh := (refresh s)(k := None), usedRefresh := (usedRefresh s)(k \<mapsto> f)\<rparr>)"
  by (auto simp: familyDead_def)

lemma familyDead_execOp:
  assumes "familyDead fam s" "opAllowed e op s" "\<And>i. randomToken (e_rand e i) \<noteq> Inr fam"
  shows "familyDead fam (execOp op s)"
proof (cases op)
  case (AddRefresh n1 rnd n2 f ttl)
  have "re_Family f \<noteq> fam"
    using assms AddRefresh by (auto simp: familyKnown_def familyDead_def)
  with assms(1) AddRefresh show ?thesis by (simp add: addRefresh_def Let_def split: sum.splits)
next
  case (TakeRefresh n1 n2 tok)
  have "re_Family f \<noteq> fam" if "refresh (dropExpired n1 s) tok = Some f" for f
    using that assms(1) by (auto simp: familyDead_def store_maps)
  with assms(1) TakeRefresh show ?thesis by (simp add: takeRefresh_def Let_def split: option.splits)
qed (use assms(1) in \<open>simp_all add: addCode_def takeCode_def registerJTI_def denyJTI_def revokeFamilyTokens_def revokeToken_def Let_def
      split: option.splits sum.splits\<close>)

lemma performs_familyDead:
  "performs K e ops s t \<Longrightarrow> familyDead fam s \<Longrightarrow> (\<And>i. randomToken (e_rand e i) \<noteq> Inr fam) \<Longrightarrow> familyDead fam t"
  by (induction rule: performs.induct) (auto intro: familyDead_execOp)

section \<open>The contract of a handler\<close>

definition sameSetup :: "Server \<Rightarrow> Server \<Rightarrow> bool" where
  "sameSetup sv sv' \<longleftrightarrow> sv' = sv\<lparr>sv_store := sv_store sv', sv_limiter := sv_limiter sv'\<rparr>"

lemma sameSetup_fields:
  assumes "sameSetup sv sv'"
  shows "sv_keys sv' = sv_keys sv" "sv_clients sv' = sv_clients sv" "sv_cfg sv' = sv_cfg sv" "sv_csrf sv' = sv_csrf sv"
    "sv_allowedOrigins sv' = sv_allowedOrigins sv" "sv_template sv' = sv_template sv"
proof -
  have sv': "sv' = sv\<lparr>sv_store := sv_store sv', sv_limiter := sv_limiter sv'\<rparr>" using assms by (simp add: sameSetup_def)
  show "sv_keys sv' = sv_keys sv" "sv_clients sv' = sv_clients sv" "sv_cfg sv' = sv_cfg sv" "sv_csrf sv' = sv_csrf sv"
    "sv_allowedOrigins sv' = sv_allowedOrigins sv" "sv_template sv' = sv_template sv"
    by (subst sv', simp)+
qed

lemma sameSetup_simps [simp]:
  "sameSetup sv sv" "sameSetup sv (sv\<lparr>sv_store := st\<rparr>)" "sameSetup sv (sv\<lparr>sv_limiter := lm\<rparr>)"
  "sameSetup sv (sv\<lparr>sv_store := st, sv_limiter := lm\<rparr>)"
  by (simp_all add: sameSetup_def)

lemma sameSetup_trans: "sameSetup sv sv1 \<Longrightarrow> sameSetup sv1 sv2 \<Longrightarrow> sameSetup sv sv2"
  by (cases sv; cases sv1; cases sv2) (simp add: sameSetup_def)

text \<open>
  The operations \<open>K\<close> are the ones the handler is entitled to; when the server is in order, the codes and refresh entries it adds are in
  order, too.
\<close>

definition orderly :: "(storeOp \<Rightarrow> bool) \<Rightarrow> url_parser \<Rightarrow> Server \<Rightarrow> storeOp \<Rightarrow> bool" where
  "orderly K up sv op \<longleftrightarrow> K op \<and> (serverOk up sv \<longrightarrow> opGrantOk (sv_clients sv) op)"

locale request_handler =
  fixes h :: "env \<Rightarrow> request \<Rightarrow> Server \<Rightarrow> response \<times> Server"
    and K :: "storeOp \<Rightarrow> bool"
  assumes frame: "sameSetup sv (snd (h e r sv))"
    and effects: "\<exists>ops. performs (orderly K up sv) e ops (sv_store sv) (sv_store (snd (h e r sv)))"
begin

lemma operations: "\<exists>ops. sv_store (snd (h e r sv)) = fold execOp ops (sv_store sv) \<and> list_all K ops"
proof -
  obtain ops where "performs (orderly K up sv) e ops (sv_store sv) (sv_store (snd (h e r sv)))"
    using effects by blast
  then show ?thesis
    using performs_fold [of _ e ops] by (fastforce simp: orderly_def list_all_iff)
qed

lemma keeps_serverOk:
  assumes "serverOk up sv"
  shows "serverOk up (snd (h e r sv))"
proof -
  obtain ops where "performs (orderly K up sv) e ops (sv_store sv) (sv_store (snd (h e r sv)))"
    using effects by blast
  then have "storeGrantsOk (sv_clients sv) (sv_store (snd (h e r sv)))"
    using assms by (auto simp: orderly_def serverOk_def intro: performs_storeGrantsOk)
  then show ?thesis
    using assms sameSetup_fields(2) [OF frame] by (simp add: serverOk_def)
qed

lemma keeps_denied:
  assumes "\<And>i. e_now e i < u" "\<And>i. randomJTI (e_rand e i) \<noteq> Inr jti" "deniedUntil jti u (sv_store sv)"
  shows "deniedUntil jti u (sv_store (snd (h e r sv)))"
  using effects performs_denied [OF _ assms] by blast

lemma keeps_familyDead:
  assumes "familyDead fam (sv_store sv)" "\<And>i. randomToken (e_rand e i) \<noteq> Inr fam"
  shows "familyDead fam (sv_store (snd (h e r sv)))"
  using effects performs_familyDead [OF _ assms] by blast

end

text \<open>A handler that leaves the server alone meets the contract without any entitlement.\<close>

locale quiet_handler =
  fixes h :: "env \<Rightarrow> request \<Rightarrow> Server \<Rightarrow> response \<times> Server"
  assumes quiet: "snd (h e r sv) = sv"

sublocale quiet_handler \<subseteq> request_handler h "\<lambda>_. False"
  by unfold_locales (auto simp: quiet intro: performs.idle)

section \<open>The handlers meet the contract\<close>

interpretation discoveryHandler: quiet_handler "\<lambda>e. handleDiscovery"
  by unfold_locales (simp add: handleDiscovery_def)

interpretation jwksHandler: quiet_handler "\<lambda>e. handleJWKS"
  by unfold_locales (simp add: handleJWKS_def split: sum.split)

interpretation readyzHandler: quiet_handler "\<lambda>e. handleReadyz"
  by unfold_locales (simp add: handleReadyz_def)

interpretation landingHandler: quiet_handler handleLanding
  by unfold_locales (simp add: handleLanding_def)

interpretation authorizeGetHandler: quiet_handler "handleAuthorizeGet lb" for lb
  by unfold_locales (auto simp: handleAuthorizeGet_def Let_def split: prod.splits option.splits)

interpretation userinfoHandler: quiet_handler "handleUserinfo lb" for lb
  by unfold_locales (auto simp: handleUserinfo_def Let_def split: sum.splits)

interpretation introspectHandler: quiet_handler "handleIntrospect lb" for lb
  by unfold_locales (auto simp: handleIntrospect_def Let_def split: sum.splits)

subsection \<open>Submitting the login form\<close>

lemma serverOk_limiter [simp]: "serverOk up (sv\<lparr>sv_limiter := lm\<rparr>) = serverOk up sv"
  by (simp add: serverOk_def)

lemma handleAuthorizePost_effects:
  "\<exists>ops. performs (orderly (entitled AuthorizePost) up sv) e ops (sv_store sv) (sv_store (snd (handleAuthorizePost lb e r sv)))"
proof (cases rule: handleAuthorizePost_cases [where lb = lb and e = e and r = r and sv = sv])
  case (refused lm resp)
  then show ?thesis by (auto intro: performs.idle)
next
  case (accepted rc u lm)
  let ?c = "codeFor (rq_PostForm r) (u_Username u) 0"
  let ?op = "AddCode (e_now e 2) (e_rand e 2) (e_now e 3) ?c authCodeTTL"
  have "sv_store (snd (handleAuthorizePost lb e r sv)) = execOp ?op (sv_store sv)"
    unfolding accepted(2) completeAuthorize_state by simp
  moreover have "orderly (entitled AuthorizePost) up sv ?op"
    using loginAccepted_grant(1) [OF _ accepted(1), of up 0] by (simp add: orderly_def serverOk_def)
  moreover have "opAllowed e ?op (sv_store sv)" by auto
  ultimately show ?thesis using performs_one by metis
qed

lemma handleAuthorizePost_frame: "sameSetup sv (snd (handleAuthorizePost lb e r sv))"
proof (cases rule: handleAuthorizePost_cases [where lb = lb and e = e and r = r and sv = sv])
  case (accepted rc u lm)
  show ?thesis unfolding accepted(2) completeAuthorize_state by (simp add: sameSetup_def)
qed simp

interpretation authorizePostHandler: request_handler "handleAuthorizePost lb" "entitled AuthorizePost" for lb
  by unfold_locales (rule handleAuthorizePost_frame handleAuthorizePost_effects)+

subsection \<open>The token endpoint\<close>

lemma issueTokens_frame: "sameSetup sv (snd (issueTokens jl e ctx sv))"
proof (cases rule: issueTokens_cases [where jl = jl and e = e and ctx = ctx and sv = sv])
  case (registered client jti tok)
  then show ?thesis by (auto simp: Let_def split: sum.splits prod.splits)
qed simp_all

lemma registerJTI_used [simp]: "usedRefresh (registerJTI j sub fam ex s) = usedRefresh s"
  by (simp add: registerJTI_def)

lemma issueTokens_effects:
  assumes "familyKnown e (cx_Family ctx) (sv_store sv)" "P \<Longrightarrow> refreshGrantOk reg (refreshFor ctx 0)"
  shows "\<exists>ops. performs (\<lambda>op. entitled Token op \<and> (P \<longrightarrow> opGrantOk reg op)) e ops (sv_store sv)
    (sv_store (snd (issueTokens jl (later n e) ctx sv)))"
proof (cases rule: issueTokens_cases [where jl = jl and e = "later n e" and ctx = ctx and sv = sv])
  case (registered client jti tok)
  define K where "K = (\<lambda>op. entitled Token op \<and> (P \<longrightarrow> opGrantOk reg op))"
  let ?reg = "RegisterJTI jti (cx_Sub ctx) (cx_Family ctx) (e_now e n + cfg_AccessTokenTTL (sv_cfg sv))"
  let ?add = "AddRefresh (e_now e (n + 1)) (e_rand e (n + 2)) (e_now e (n + 2)) (refreshFor ctx 0) (cfg_RefreshTokenTTL (sv_cfg sv))"
  let ?s1 = "execOp ?reg (sv_store sv)"
  have "randomJTI (e_rand e n) = Inr jti" using registered(2) by simp
  then have one: "performs K e [?reg] (sv_store sv) ?s1"
    by (intro performs_one) (use assms(1) in \<open>auto simp: K_def\<close>)
  have "familyKnown e (cx_Family ctx) ?s1" using assms(1) by (simp add: familyKnown_def)
  then have two: "performs K e ([?reg] @ [?add]) (sv_store sv) (execOp ?add ?s1)"
    using assms(2) by (intro performs.step [OF one]) (auto simp: refreshFor_def K_def)
  have "sv_store (snd (issueTokens jl (later n e) ctx sv)) = ?s1 \<or> sv_store (snd (issueTokens jl (later n e) ctx sv)) = execOp ?add ?s1"
    unfolding registered(4) by (simp add: Let_def split: sum.split prod.split)
  then show ?thesis
    unfolding K_def [symmetric] using one two by (elim disjE) (simp_all only:, blast+)
qed (auto intro: performs.idle)

lemma issueAndWriteTokens_snd: "snd (issueAndWriteTokens lb e hdr ctx sv) = snd (issueTokens (lb_jwt lb) e ctx sv)"
  by (simp add: issueAndWriteTokens_def split: prod.splits sum.splits)

lemma orderly_alt: "orderly K up sv = (\<lambda>op. K op \<and> (serverOk up sv \<longrightarrow> opGrantOk (sv_clients sv) op))"
  by (simp add: orderly_def fun_eq_iff)

lemma handleCodeGrant_effects:
  "\<exists>ops. performs (orderly (entitled Token) up sv) e ops (sv_store sv) (sv_store (snd (handleCodeGrant lb e hdr r sv)))"
proof -
  let ?op = "TakeCode (e_now e 0) (e_now e 1) (Get (rq_PostForm r) ''code'')"
  have take: "performs (orderly (entitled Token) up sv) e [?op] (sv_store sv) (execOp ?op (sv_store sv))"
    by (rule performs_one) (auto simp: orderly_def)
  show ?thesis
  proof (cases rule: handleCodeGrant_cases [where lb = lb and e = e and hdr = hdr and r = r and sv = sv])
    case (refused resp)
    then show ?thesis by (auto intro: performs.idle)
  next
    case (burned client resp)
    with take show ?thesis by auto
  next
    case (redeemed client ac family)
    let ?ctx = "codeContext ac family"
    let ?sv = "sv\<lparr>sv_store := execOp ?op (sv_store sv)\<rparr>"
    have "codeGrantOk (sv_clients sv) ac" if "serverOk up sv"
      using that takeCode_Some [OF redeemed(3)] by (auto simp: serverOk_def storeGrantsOk_def)
    then have "serverOk up sv \<Longrightarrow> refreshGrantOk (sv_clients sv) (refreshFor ?ctx 0)"
      by (auto simp: refreshGrantOk_def codeGrantOk_def refreshFor_def)
    moreover have "familyKnown e (cx_Family ?ctx) (sv_store ?sv)" using redeemed(5) by (auto simp: familyKnown_def)
    ultimately obtain ops where "performs (orderly (entitled Token) up sv) e ops (sv_store ?sv)
        (sv_store (snd (issueTokens (lb_jwt lb) (later 2 e) ?ctx ?sv)))"
      using issueTokens_effects [of e ?ctx ?sv "serverOk up sv" "sv_clients sv"] unfolding orderly_alt by blast
    then show ?thesis
      using performs_trans take redeemed(6) by (fastforce simp: issueAndWriteTokens_snd)
  qed
qed

lemma handleRefreshGrant_effects:
  "\<exists>ops. performs (orderly (entitled Token) up sv) e ops (sv_store sv) (sv_store (snd (handleRefreshGrant lb e hdr r sv)))"
proof -
  let ?op = "TakeRefresh (e_now e 0) (e_now e 1) (Get (rq_PostForm r) ''refresh_token'')"
  have take: "performs (orderly (entitled Token) up sv) e [?op] (sv_store sv) (execOp ?op (sv_store sv))"
    by (rule performs_one) (auto simp: orderly_def)
  show ?thesis
  proof (cases rule: handleRefreshGrant_cases [where lb = lb and e = e and hdr = hdr and r = r and sv = sv])
    case (refused resp)
    then show ?thesis by (auto intro: performs.idle)
  next
    case (unknown client resp)
    with take show ?thesis by auto
  next
    case (theft client f resp)
    have "performs (orderly (entitled Token) up sv) e ([?op] @ [RevokeFamily (e_now e 2) (re_Family f)]) (sv_store sv)
        (execOp (RevokeFamily (e_now e 2) (re_Family f)) (execOp ?op (sv_store sv)))"
      by (rule performs.step [OF take]) (auto simp: orderly_def)
    with theft(5) show ?thesis by auto
  next
    case (rotated client f)
    let ?ctx = "refreshContext f"
    let ?sv = "sv\<lparr>sv_store := execOp ?op (sv_store sv)\<rparr>"
    note taken = takeRefresh_Some [OF rotated(3)]
    have "refreshGrantOk (sv_clients sv) f" if "serverOk up sv"
      using that taken(1) by (auto simp: serverOk_def storeGrantsOk_def)
    then have "serverOk up sv \<Longrightarrow> refreshGrantOk (sv_clients sv) (refreshFor ?ctx 0)"
      by (auto simp: refreshGrantOk_def refreshFor_def)
    moreover have "familyKnown e (cx_Family ?ctx) (sv_store ?sv)"
      unfolding familyKnown_def by (rule disjI2, rule exI [of _ "Get (rq_PostForm r) ''refresh_token''"], rule exI [of _ f]) (simp add: taken(3) del: One_nat_def)
    ultimately obtain ops where "performs (orderly (entitled Token) up sv) e ops (sv_store ?sv)
        (sv_store (snd (issueTokens (lb_jwt lb) (later 3 e) ?ctx ?sv)))"
      using issueTokens_effects [of e ?ctx ?sv "serverOk up sv" "sv_clients sv"] unfolding orderly_alt by blast
    then show ?thesis
      using performs_trans take rotated(4) by (fastforce simp: issueAndWriteTokens_snd)
  qed
qed

lemma handleClientCredentialsGrant_effects:
  "\<exists>ops. performs (orderly (entitled Token) up sv) e ops (sv_store sv) (sv_store (snd (handleClientCredentialsGrant lb e hdr r sv)))"
proof (cases "sv_store (snd (handleClientCredentialsGrant lb e hdr r sv)) = sv_store sv")
  case True
  then show ?thesis by (auto intro: performs.idle)
next
  case False
  then obtain client jti ex where j: "randomJTI (e_rand e 0) = Inr jti"
    "sv_store (snd (handleClientCredentialsGrant lb e hdr r sv)) = execOp (RegisterJTI jti (rc_ID client) [] ex) (sv_store sv)"
    by (auto simp: handleClientCredentialsGrant_def issueAndWriteClientCredentials_def issueClientCredentialsTokens_def Let_def
        split: sum.splits option.splits if_splits)
  then have "performs (orderly (entitled Token) up sv) e [RegisterJTI jti (rc_ID client) [] ex] (sv_store sv)
      (execOp (RegisterJTI jti (rc_ID client) [] ex) (sv_store sv))"
    by (intro performs_one) (auto simp: orderly_def)
  with j(2) show ?thesis by auto
qed

lemma handleToken_effects:
  "\<exists>ops. performs (orderly (entitled Token) up sv) e ops (sv_store sv) (sv_store (snd (handleToken lb e r sv)))"
  using handleCodeGrant_effects handleRefreshGrant_effects handleClientCredentialsGrant_effects
  by (auto simp: handleToken_def Let_def intro: performs.idle)

lemma sameSetup_store: "sameSetup (sv\<lparr>sv_store := st\<rparr>) sv' \<Longrightarrow> sameSetup sv sv'"
  by (simp add: sameSetup_def)

lemma grants_frame: "sameSetup sv (snd (handleCodeGrant lb e hdr r sv))" "sameSetup sv (snd (handleRefreshGrant lb e hdr r sv))"
    "sameSetup sv (snd (handleClientCredentialsGrant lb e hdr r sv))"
proof -
  show "sameSetup sv (snd (handleCodeGrant lb e hdr r sv))"
    by (cases rule: handleCodeGrant_cases [where lb = lb and e = e and hdr = hdr and r = r and sv = sv])
      (auto simp: issueAndWriteTokens_snd intro: sameSetup_store issueTokens_frame)
  show "sameSetup sv (snd (handleRefreshGrant lb e hdr r sv))"
    by (cases rule: handleRefreshGrant_cases [where lb = lb and e = e and hdr = hdr and r = r and sv = sv])
      (auto simp: issueAndWriteTokens_snd intro: sameSetup_store issueTokens_frame)
  show "sameSetup sv (snd (handleClientCredentialsGrant lb e hdr r sv))"
    by (simp add: handleClientCredentialsGrant_def issueAndWriteClientCredentials_def issueClientCredentialsTokens_def Let_def
        split: sum.splits option.splits)
qed

interpretation tokenHandler: request_handler "handleToken lb" "entitled Token" for lb
proof
  show "sameSetup sv (snd (handleToken lb e r sv))" for sv e r
    using grants_frame by (simp add: handleToken_def Let_def)
qed (rule handleToken_effects)

subsection \<open>Revocation and logout\<close>

lemma handleRevoke_state:
  obtains (same) "snd (handleRevoke lb e r sv) = sv"
  | (token) tok where "snd (handleRevoke lb e r sv) = sv\<lparr>sv_store := execOp (RevokeToken (e_now e 2) tok) (sv_store sv)\<rparr>"
  | (deny) jti u where "\<not> isDeniedJTI (e_now e 1) jti (sv_store sv)" "snd (handleRevoke lb e r sv) = sv\<lparr>sv_store := execOp (DenyJTI jti u) (sv_store sv)\<rparr>"
proof (cases "\<exists>tok. snd (handleRevoke lb e r sv) = revokePresentedToken lb e tok sv")
  case True
  then obtain tok where t: "snd (handleRevoke lb e r sv) = revokePresentedToken lb e tok sv" by blast
  show ?thesis
  proof (cases "parseAccessToken lb e tok False sv")
    case (Inl err)
    then show ?thesis using token t by (simp add: revokePresentedToken_def)
  next
    case (Inr claims)
    then have "claimString claims ''jti'' \<noteq> [] \<Longrightarrow> \<not> isDeniedJTI (e_now e 1) (claimString claims ''jti'') (sv_store sv)"
      by (auto simp: parseAccessToken_Inr)
    then show ?thesis
      using same deny Inr t by (cases "claimString claims ''jti'' = []") (auto simp: revokePresentedToken_def Let_def)
  qed
next
  case False
  then show ?thesis
    using same by (auto simp: handleRevoke_def Let_def split: sum.splits if_splits)
qed

interpretation revokeHandler: request_handler "handleRevoke lb" "entitled Revoke" for lb
proof
  fix e r sv up
  show "sameSetup sv (snd (handleRevoke lb e r sv))"
    by (cases rule: handleRevoke_state [where lb = lb and e = e and r = r and sv = sv]) simp_all
  show "\<exists>ops. performs (orderly (entitled Revoke) up sv) e ops (sv_store sv) (sv_store (snd (handleRevoke lb e r sv)))"
  proof (cases rule: handleRevoke_state [where lb = lb and e = e and r = r and sv = sv])
    case same
    then show ?thesis by (auto intro: performs.idle)
  next
    case (token tok)
    have "performs (orderly (entitled Revoke) up sv) e [RevokeToken (e_now e 2) tok] (sv_store sv) (execOp (RevokeToken (e_now e 2) tok) (sv_store sv))"
      by (rule performs_one) (simp_all add: orderly_def)
    with token show ?thesis by auto
  next
    case (deny jti u)
    have "performs (orderly (entitled Revoke) up sv) e [DenyJTI jti u] (sv_store sv) (execOp (DenyJTI jti u) (sv_store sv))"
      by (rule performs_one) (use deny(1) in \<open>auto simp: orderly_def\<close>)
    with deny(2) show ?thesis by auto
  qed
qed

interpretation logoutHandler: request_handler "handleEndSession lb" "entitled EndSession" for lb
proof
  fix e r sv up
  show "sameSetup sv (snd (handleEndSession lb e r sv))"
    using handleEndSession_state [of lb e r sv] by auto
  show "\<exists>ops. performs (orderly (entitled EndSession) up sv) e ops (sv_store sv) (sv_store (snd (handleEndSession lb e r sv)))"
    using handleEndSession_state [of lb e r sv]
  proof
    assume "\<exists>sid. snd (handleEndSession lb e r sv) = sv\<lparr>sv_store := revokeFamilyTokens (e_now e 1) sid (sv_store sv)\<rparr>"
    then obtain sid where "sv_store (snd (handleEndSession lb e r sv)) = execOp (RevokeFamily (e_now e 1) sid) (sv_store sv)" by auto
    moreover have "performs (orderly (entitled EndSession) up sv) e [RevokeFamily (e_now e 1) sid] (sv_store sv)
        (execOp (RevokeFamily (e_now e 1) sid) (sv_store sv))"
      by (rule performs_one) (simp_all add: orderly_def)
    ultimately show ?thesis by auto
  qed (auto intro: performs.idle)
qed

section \<open>Every endpoint\<close>

lemma handle_frame: "sameSetup sv (snd (handle lb e ep r sv))"
  by (cases ep) (simp_all add: authorizePostHandler.frame tokenHandler.frame revokeHandler.frame logoutHandler.frame discoveryHandler.quiet
      jwksHandler.quiet readyzHandler.quiet landingHandler.quiet authorizeGetHandler.quiet userinfoHandler.quiet introspectHandler.quiet
      handleStaticCSS_def handleStaticLogo_def handleHealthz_def)

lemma handle_effects: "\<exists>ops. performs (orderly (entitled ep) up sv) e ops (sv_store sv) (sv_store (snd (handle lb e ep r sv)))"
proof (cases "ep \<in> {AuthorizePost, Token, Revoke, EndSession}")
  case True
  then show ?thesis
    using authorizePostHandler.effects [where up = up] tokenHandler.effects [where up = up] revokeHandler.effects [where up = up]
      logoutHandler.effects [where up = up] by auto
next
  case False
  then have "snd (handle lb e ep r sv) = sv"
    by (cases ep) (simp_all add: discoveryHandler.quiet jwksHandler.quiet readyzHandler.quiet landingHandler.quiet authorizeGetHandler.quiet
      userinfoHandler.quiet introspectHandler.quiet handleStaticCSS_def handleStaticLogo_def handleHealthz_def)
  then show ?thesis by (auto intro: performs.idle)
qed

lemma serve_snd: "snd (serve lb e ep r sv) = (if rq_Method r = ''OPTIONS'' then sv else snd (handle lb e ep r sv))"
  by (simp add: serve_def withCORS_def case_prod_beta)

interpretation served: request_handler "\<lambda>e. serve lb e ep" "entitled ep" for lb ep
proof
  fix e r sv up
  show "sameSetup sv (snd (serve lb e ep r sv))" by (simp add: serve_snd handle_frame)
  show "\<exists>ops. performs (orderly (entitled ep) up sv) e ops (sv_store sv) (sv_store (snd (serve lb e ep r sv)))"
    using handle_effects by (auto simp: serve_snd intro: performs.idle)
qed

section \<open>Runs\<close>

type_synonym event = "env \<times> endpoint \<times> request"

definition execRequest :: "libs \<Rightarrow> event \<Rightarrow> Server \<Rightarrow> Server" where
  "execRequest lb ev sv = (case ev of (e, ep, r) \<Rightarrow> snd (serve lb e ep r sv))"

abbreviation (input) runRequests :: "libs \<Rightarrow> event list \<Rightarrow> Server \<Rightarrow> Server" where
  "runRequests lb evs sv \<equiv> fold (execRequest lb) evs sv"

text \<open>What one request keeps, a run of requests keeps.\<close>

lemma run_induct:
  assumes "P sv" "\<And>ev sv. ev \<in> set evs \<Longrightarrow> P sv \<Longrightarrow> P (execRequest lb ev sv)"
  shows "P (runRequests lb evs sv)"
  using assms by (induction evs arbitrary: sv) auto

lemma run_setup: "sameSetup sv (runRequests lb evs sv)"
proof (rule run_induct)
  fix ev sv'
  assume "sameSetup sv sv'"
  moreover have "sameSetup sv' (execRequest lb ev sv')" by (auto simp: execRequest_def served.frame split: prod.splits)
  ultimately show "sameSetup sv (execRequest lb ev sv')"
    by (rule sameSetup_trans)
qed simp

lemma started:
  assumes "minidp args w = Some (Serving sv)"
  shows "serverOk (w_url w) sv" "sv_store sv = newStore"
proof -
  obtain cfg d where "New w cfg = Some (Inr sv, d)"
    using assms by (auto simp: minidp_def serveCommand_def split: list.splits if_splits option.splits sum.splits prod.splits)
  from New_started [OF this] show "serverOk (w_url w) sv" "sv_store sv = newStore"
    by (simp_all add: serverOk_def storeGrantsOk_def)
qed

text \<open>
  C8. The endpoints refine the store with least privilege: what a request does to the store is a sequence of the store's own atomic
  operations, and only of the kinds its endpoint is entitled to: the login form adds codes, the token endpoint takes codes and
  refresh tokens, adds refresh tokens, registers access tokens and revokes families, revocation revokes or denies one token, and
  logout revokes a family; every other endpoint leaves the store as it is. Keys, clients and configuration never change.
\<close>

theorem endpoints_refine_store:
  "\<exists>ops. sv_store (snd (serve lb e ep r sv)) = fold execOp ops (sv_store sv) \<and> list_all (entitled ep) ops
     \<and> sv_clients (snd (serve lb e ep r sv)) = sv_clients sv \<and> sv_keys (snd (serve lb e ep r sv)) = sv_keys sv
     \<and> sv_cfg (snd (serve lb e ep r sv)) = sv_cfg sv \<and> sv_csrf (snd (serve lb e ep r sv)) = sv_csrf sv"
proof -
  obtain ops where ops: "sv_store (snd (serve lb e ep r sv)) = fold execOp ops (sv_store sv)" "list_all (entitled ep) ops"
    using served.operations [where lb = lb and ep = ep and e = e and r = r and sv = sv] by blast
  have "sameSetup sv (snd (serve lb e ep r sv))" by (rule served.frame)
  from ops sameSetup_fields(1-4) [OF this] show ?thesis by (intro exI [of _ ops]) simp
qed

text \<open>
  Every grant in the store stands for a real authorization: in every state that a started server reaches, after any sequence of
  requests with any clock readings and random bytes, each stored code and each refresh token, live or consumed, belongs to a
  registered client and a user of that client, and carries only scopes which that client may ask for; each code, moreover, has one
  of the client's redirect URIs and the PKCE challenge that public clients must send.
\<close>

theorem stored_grants_authorized:
  assumes "minidp args w = Some (Serving sv)"
  shows "serverOk (w_url w) (runRequests lb evs sv)"
proof (rule run_induct)
  show "serverOk (w_url w) sv" by (rule started(1) [OF assms])
qed (auto simp: execRequest_def intro: served.keeps_serverOk)

lemma parseAccessToken_stable:
  assumes "stableClaims (lb_jwt lb)" "parseAccessToken lb e tok ra sv = Inr claims" "parseAccessToken lb e' tok ra' sv' = Inr claims'"
  shows "claims' = claims"
proof -
  obtain opts kf now p where p: "jwtParse (lb_jwt lb) opts kf now tok = Some p" "pt_MapClaims p = Some claims"
    using assms(2) unfolding parseAccessToken_Inr by blast
  obtain opts' kf' now' p' where p': "jwtParse (lb_jwt lb) opts' kf' now' tok = Some p'" "pt_MapClaims p' = Some claims'"
    using assms(3) unfolding parseAccessToken_Inr by blast
  have "pt_MapClaims p = pt_MapClaims p'"
    using p(1) p'(1) by (intro assms(1) [unfolded stableClaims_def, rule_format]) (rule conjI)
  with p(2) p'(2) show ?thesis by simp
qed

text \<open>
  C6. A revoked access token stays revoked: once the revocation endpoint has accepted an access token with a jti and an expiry, no later
  request gets it past the checks of the resource endpoints before that expiry, whatever requests are served in between, as long
  as no request draws the same jti again.
\<close>

theorem revocation_lasts:
  assumes "stableClaims (lb_jwt lb)" "requireClientAuth r sv = Inr r'" "\<not> rq_ParseFormErr r'" "Get (rq_PostForm r') ''token'' = tok" "tok \<noteq> []"
    and "parseAccessToken lb e tok False sv = Inr claims" "claimString claims ''jti'' = jti" "jti \<noteq> []" "jwtExpiry (lb_jwt lb) claims = Some (Some u)"
    and "\<forall>rec. accessJTI (sv_store sv) jti = Some rec \<longrightarrow> u \<le> jr_exp rec" "rq_Method r \<noteq> ''OPTIONS''"
    and "\<forall>(e', ep, r') \<in> set evs. (\<forall>i. e_now e' i < u \<and> randomJTI (e_rand e' i) \<noteq> Inr jti)"
    and "e_now e2 1 < u"
  shows "parseAccessToken lb e2 tok ra (runRequests lb evs (snd (serve lb e Revoke r sv))) \<noteq> Inr claims2"
proof
  let ?sv = "snd (serve lb e Revoke r sv)"
  assume ok: "parseAccessToken lb e2 tok ra (runRequests lb evs ?sv) = Inr claims2"
  then have "claims2 = claims"
    by (rule parseAccessToken_stable [OF assms(1,6)])
  have "sv_store ?sv = denyJTI jti u (sv_store sv)"
    using assms(2-9,11) by (simp add: serve_snd handleRevoke_def revokePresentedToken_def Let_def)
  then have "deniedUntil jti u (sv_store ?sv)"
    using assms(10) by (simp add: deniedUntil_def denyJTI_def)
  then have "deniedUntil jti u (sv_store (runRequests lb evs ?sv))"
    by (rule run_induct) (use assms(12) in \<open>auto simp: execRequest_def intro!: served.keeps_denied\<close>)
  then have "isDeniedJTI (e_now e2 1) jti (sv_store (runRequests lb evs ?sv))"
    using assms(13) by (auto simp: deniedUntil_def isDeniedJTI_def)
  with ok \<open>claims2 = claims\<close> assms(7,8) show False
    by (auto simp: parseAccessToken_Inr)
qed

text \<open>
  C7. Logout ends the session, for requests that are served one after another: after a logout with a valid hint that carries the session
  id \<open>sid\<close>, however many requests are served next, no refresh token of that session is in the store, unless a later authorization
  happens to draw the same id; and each access token of the session that was registered and unexpired is on the denylist until it
  expires, unless a later request happens to draw its jti. (Requests that run at the same time as the logout are the subject of
  \<open>Concurrent\<close>.)
\<close>

theorem logout_final:
  assumes "Get (rq_URLQuery r) ''id_token_hint'' \<noteq> []"
    and "parseIDTokenHint lb e (Get (rq_URLQuery r) ''id_token_hint'') sv = Inr (claims, client)"
    and "claimString claims ''sid'' = sid" "sid \<noteq> []" "rq_Method r \<noteq> ''OPTIONS''"
    and "\<forall>(e', ep, r') \<in> set evs. (\<forall>i. randomToken (e_rand e' i) \<noteq> Inr sid)"
  shows "\<not> (\<exists>k f. refresh (sv_store (runRequests lb evs (snd (serve lb e EndSession r sv)))) k = Some f \<and> re_Family f = sid)
    \<and> (\<forall>jti rec now. accessJTI (sv_store sv) jti = Some rec \<and> jr_family rec = sid \<and> e_now e 1 < jr_exp rec \<and> now < jr_exp rec
          \<and> (\<forall>(e', ep, r') \<in> set evs. \<forall>i. e_now e' i < jr_exp rec \<and> randomJTI (e_rand e' i) \<noteq> Inr jti) \<longrightarrow>
          isDeniedJTI now jti (sv_store (runRequests lb evs (snd (serve lb e EndSession r sv)))))"
proof -
  let ?sv = "snd (serve lb e EndSession r sv)"
  have st: "sv_store ?sv = revokeFamilyLocked (e_now e 1) sid (sv_store sv)"
    using handleEndSession_hint [OF assms(1,2)] assms(3-5) by (simp add: serve_snd revokeFamilyTokens_def)
  then have "familyDead sid (sv_store ?sv)"
    using assms(4) by (auto simp: familyDead_def store_maps)
  then have dead: "familyDead sid (sv_store (runRequests lb evs ?sv))"
    by (rule run_induct) (use assms(6) in \<open>auto simp: execRequest_def intro!: served.keeps_familyDead\<close>)
  have "isDeniedJTI now jti (sv_store (runRequests lb evs ?sv))"
    if rec: "accessJTI (sv_store sv) jti = Some rec" "jr_family rec = sid" "e_now e 1 < jr_exp rec" and now: "now < jr_exp rec"
      and evs: "\<forall>(e', ep, r') \<in> set evs. \<forall>i. e_now e' i < jr_exp rec \<and> randomJTI (e_rand e' i) \<noteq> Inr jti" for jti rec now
  proof -
    have "deniedUntil jti (jr_exp rec) (sv_store ?sv)"
      unfolding st using revokeFamilyLocked_deniedUntil [OF rec(1,2) assms(4) rec(3)] .
    then have "deniedUntil jti (jr_exp rec) (sv_store (runRequests lb evs ?sv))"
      by (rule run_induct) (use evs in \<open>auto simp: execRequest_def intro!: served.keeps_denied\<close>)
    then show ?thesis using now by (auto simp: deniedUntil_def isDeniedJTI_def)
  qed
  with dead show ?thesis unfolding familyDead_def by blast
qed

section \<open>Codes are exchanged once\<close>

text \<open>The code a request adds to the store, and the code it exchanges for tokens.\<close>

definition issuedBy :: "libs \<Rightarrow> event \<Rightarrow> Server \<Rightarrow> string option" where
  "issuedBy lb ev sv =
     (case ev of (e, ep, r) \<Rightarrow>
        if ep = AuthorizePost then
          (case randomToken (e_rand e 2) of
             Inr k \<Rightarrow> if codes (sv_store (execRequest lb ev sv)) k = None then None else Some k
           | Inl err \<Rightarrow> None)
        else None)"

definition exchangedBy :: "libs \<Rightarrow> event \<Rightarrow> Server \<Rightarrow> string option" where
  "exchangedBy lb ev sv =
     (case ev of (e, ep, r) \<Rightarrow>
        if ep = Token \<and> Get (rq_PostForm r) ''grant_type'' = ''authorization_code'' \<and> rs_Status (fst (serve lb e ep r sv)) = 200
        then Some (Get (rq_PostForm r) ''code'') else None)"

lemma performs_codes:
  assumes "performs K e ops s t" "\<And>op. K op \<Longrightarrow> entitled ep op" "ep \<noteq> AuthorizePost"
  shows "dom (codes t) \<subseteq> dom (codes s)"
  using assms
proof (induction rule: performs.induct)
  case (step ops s t op)
  then have "issuedCode op t = None" by (cases op) force+
  then have "dom (codes (execOp op t)) \<subseteq> dom (codes t)" using codesOnce.live_exec [of op t] by simp
  with step show ?case by blast
qed simp

lemma handleAuthorizePost_codes:
  assumes "codes (sv_store (snd (handleAuthorizePost lb e r sv))) k = Some ac"
  shows "codes (sv_store sv) k = Some ac \<or> randomToken (e_rand e 2) = Inr k"
proof (cases rule: handleAuthorizePost_cases [where lb = lb and e = e and r = r and sv = sv])
  case (refused lm resp)
  with assms show ?thesis by simp
next
  case (accepted rc u lm)
  then have "codes (snd (addCode (e_now e 2) (e_rand e 2) (e_now e 3) (codeFor (rq_PostForm r) (u_Username u) 0) authCodeTTL (sv_store sv))) k = Some ac"
    using assms unfolding accepted(2) completeAuthorize_state by simp
  from addCode_codes [OF this] show ?thesis by blast
qed

lemma handleCodeGrant_200:
  assumes "rs_Status (fst (handleCodeGrant lb e hdr r sv)) = 200"
  shows "codes (sv_store sv) (Get (rq_PostForm r) ''code'') \<noteq> None"
    and "codes (sv_store (snd (handleCodeGrant lb e hdr r sv))) (Get (rq_PostForm r) ''code'') = None"
proof -
  let ?code = "Get (rq_PostForm r) ''code''"
  obtain resp sv' where h: "handleCodeGrant lb e hdr r sv = (resp, sv')" by fastforce
  with assms have ok: "rs_Status resp = 200" by simp
  have "codes (sv_store sv) ?code \<noteq> None \<and> codes (sv_store sv') ?code = None"
  proof (cases rule: handleCodeGrant_cases [where lb = lb and e = e and hdr = hdr and r = r and sv = sv])
    case (redeemed client ac family)
    let ?sv = "sv\<lparr>sv_store := snd (takeCode (e_now e 0) (e_now e 1) ?code (sv_store sv))\<rparr>"
    from issueAndWriteTokens_200 [OF h [unfolded redeemed(6)] ok] obtain tr
      where tr: "issueTokens (lb_jwt lb) (later 2 e) (codeContext ac family) ?sv = (Inr tr, sv')" by blast
    then obtain jti where "sv' = ?sv\<lparr>sv_store := storeAfterIssue (later 2 e) (codeContext ac family) jti (tr_RefreshToken tr) ?sv\<rparr>"
      by (rule issueTokens_done) blast
    then have "codes (sv_store sv') ?code = None"
      by (simp add: storeAfterIssue_maps takeCode_maps)
    with takeCode_Some [OF redeemed(3)] show ?thesis by simp
  qed (use h ok in auto)
  with h show "codes (sv_store sv) ?code \<noteq> None" "codes (sv_store (snd (handleCodeGrant lb e hdr r sv))) ?code = None" by simp_all
qed

lemma exchangedBy_Some:
  assumes "exchangedBy lb (e, ep, r) sv = Some k"
  shows "ep = Token" "codes (sv_store sv) k \<noteq> None" "codes (sv_store (execRequest lb (e, ep, r) sv)) k = None"
proof -
  have ep: "ep = Token" "Get (rq_PostForm r) ''grant_type'' = ''authorization_code''" "rs_Status (fst (serve lb e Token r sv)) = 200"
    "k = Get (rq_PostForm r) ''code''"
    using assms by (auto simp: exchangedBy_def split: if_splits)
  then have m: "rq_Method r \<noteq> ''OPTIONS''" by (auto simp: serve_def withCORS_def)
  have st: "rs_Status (fst (handleToken lb e r sv)) = 200"
    using ep(3) m by (auto simp: serve_def withCORS_def split: prod.splits)
  then have "\<not> rq_ParseFormErr r" by (auto simp: handleToken_def Let_def)
  with ep(2) have h: "handleToken lb e r sv = handleCodeGrant lb e tokenHeaders r sv" by (simp add: handleToken_def Let_def)
  show "ep = Token" by fact
  show "codes (sv_store sv) k \<noteq> None" "codes (sv_store (execRequest lb (e, ep, r) sv)) k = None"
    using handleCodeGrant_200 [of lb e tokenHeaders r sv] st m ep(1,4) by (simp_all add: h execRequest_def serve_snd)
qed

interpretation exchanges: oneshot "execRequest lb" "\<lambda>sv. dom (codes (sv_store sv))" "issuedBy lb" "exchangedBy lb" for lb
proof
  fix ev :: event and sv
  obtain e ep r where ev: "ev = (e, ep, r)" by (cases ev) auto
  show "dom (codes (sv_store (execRequest lb ev sv))) \<subseteq> dom (codes (sv_store sv)) \<union> set_option (issuedBy lb ev sv)"
  proof (cases "ep = AuthorizePost")
    case True
    have "k \<in> dom (codes (sv_store sv)) \<union> set_option (issuedBy lb ev sv)" if "codes (sv_store (execRequest lb ev sv)) k = Some ac" for k ac
    proof (cases "rq_Method r = ''OPTIONS''")
      case opt: True
      with that ev show ?thesis by (auto simp: execRequest_def serve_snd)
    next
      case False
      with that ev True have "codes (sv_store (snd (handleAuthorizePost lb e r sv))) k = Some ac" by (simp add: execRequest_def serve_snd)
      from handleAuthorizePost_codes [OF this] show ?thesis
        using that ev True by (auto simp: issuedBy_def)
    qed
    then show ?thesis by blast
  next
    case False
    obtain ops where "performs (orderly (entitled ep) undefined sv) e ops (sv_store sv) (sv_store (snd (serve lb e ep r sv)))"
      using served.effects [where lb = lb and ep = ep and e = e and r = r and sv = sv] by blast
    from performs_codes [OF this _ False] show ?thesis by (auto simp: ev execRequest_def orderly_def)
  qed
next
  fix ev :: event and sv k
  obtain e ep r where ev: "ev = (e, ep, r)" by (cases ev) auto
  assume k: "exchangedBy lb ev sv = Some k"
  note ex = exchangedBy_Some [OF k [unfolded ev]]
  show "k \<in> dom (codes (sv_store sv))" "k \<notin> dom (codes (sv_store (execRequest lb ev sv)))" using ex by (auto simp: ev)
  show "issuedBy lb ev sv = None" using ex(1) by (simp add: ev issuedBy_def)
qed

text \<open>
  An authorization code is exchanged at most once: in every run of requests to a started server, if the codes handed out are pairwise
  different, then the token requests that succeed with a code never name the same code twice, and each of the codes was handed out
  by a submission of the login form earlier.
\<close>

theorem code_exchanged_once:
  assumes "minidp args w = Some (Serving sv)" "distinct (observe (issuedBy lb) (execRequest lb) evs sv)"
  shows "distinct (observe (exchangedBy lb) (execRequest lb) evs sv)
    \<and> set (observe (exchangedBy lb) (execRequest lb) evs sv) \<subseteq> set (observe (issuedBy lb) (execRequest lb) evs sv)"
proof -
  have "dom (codes (sv_store sv)) = {}" using started(2) [OF assms(1)] by simp
  then show ?thesis
    using exchanges.taken_once [OF assms(2)] exchanges.taken_from [of lb evs sv] by simp
qed

text \<open>
  C22. A valid code is honoured, and only once: when an authenticated client that may use the authorization-code grant presents a stored,
  unexpired code of its own at the token endpoint, with the redirect URI of the authorization and the right PKCE verifier, and keys and
  randomness work, then the answer has the status 200; and in every run of requests that follows, however long, no exchange of that code
  succeeds, unless the login form hands out the same code once more.
\<close>

theorem code_honoured_once:
  assumes "registryOk up (sv_clients sv)" "rq_Method r \<noteq> ''OPTIONS''" "\<not> rq_ParseFormErr r"
    and "Get (rq_PostForm r) ''grant_type'' = ''authorization_code''"
    and "authenticateClient tokenHeaders r sv = Inr client" "rc_AllowsGrant client GrantAuthorizationCode"
    and "Get (rq_PostForm r) ''code'' = code" "code \<noteq> []" "codes (sv_store sv) code = Some ac"
    and "e_now e 0 \<le> ac_ExpiresAt ac" "e_now e 1 \<le> ac_ExpiresAt ac" "rc_ID client = ac_ClientID ac"
    and "Get (rq_PostForm r) ''redirect_uri'' \<noteq> []" "Get (rq_PostForm r) ''redirect_uri'' = ac_RedirectURI ac"
    and "verifyPKCE (ac_CodeChallenge ac) (ac_CodeChallengeMethod ac) (Get (rq_PostForm r) ''code_verifier'')"
    and "ks_active (sv_keys sv) = Some k" "\<And>header claims. jwtSign (lb_jwt lb) (sk_key k) header claims \<noteq> None" "\<And>i. e_rand e i \<noteq> None"
  shows "rs_Status (fst (serve lb e Token r sv)) = 200
    \<and> (code \<notin> set (observe (issuedBy lb) (execRequest lb) evs (snd (serve lb e Token r sv))) \<longrightarrow>
       code \<notin> set (observe (exchangedBy lb) (execRequest lb) evs (snd (serve lb e Token r sv))))"
proof -
  obtain resp sv' where h: "handleCodeGrant lb e tokenHeaders r sv = (resp, sv')" "rs_Status resp = 200" "codes (sv_store sv') code = None"
    using handleCodeGrant_succeeds [OF assms(1,5), unfolded assms(7), OF assms(8,9-18)] by blast
  then have "handleToken lb e r sv = (resp, sv')" using assms(3,4) by (simp add: handleToken_def Let_def)
  then have st: "rs_Status (fst (serve lb e Token r sv)) = 200" "codes (sv_store (snd (serve lb e Token r sv))) code = None"
    using h(2,3) assms(2) by (simp_all add: serve_def withCORS_def)
  from st(2) have "code \<notin> dom (codes (sv_store (snd (serve lb e Token r sv))))" by auto
  with st(1) exchanges.taken_from [of lb evs "snd (serve lb e Token r sv)"] show ?thesis by blast
qed

section \<open>Witnesses\<close>

theorem stored_grants_authorized_witness:
  "\<exists>sv. minidp [] sampleWorld = Some (Serving sv)
     \<and> serverOk sampleURL (runRequests sampleLibs [(sampleEnv1, AuthorizePost, samplePost sampleToken), (sampleEnv1, Token, codeRequest)] sv)"
proof -
  obtain sv where sv: "minidp [] sampleWorld = Some (Serving sv)" using sampleWorld_serves by blast
  have "w_url sampleWorld = sampleURL" by (simp add: sampleWorld_def)
  with sv stored_grants_authorized [OF sv] show ?thesis by metis
qed

theorem code_exchanged_once_witness:
  "\<exists>sv. minidp [] sampleWorld = Some (Serving sv)
     \<and> distinct (observe (exchangedBy sampleLibs) (execRequest sampleLibs)
         [(sampleEnv1, AuthorizePost, samplePost sampleToken), (sampleEnv1, Token, codeRequest), (sampleEnv1, Token, codeRequest)] sv)"
proof -
  let ?evs = "[(sampleEnv1, AuthorizePost, samplePost sampleToken), (sampleEnv1, Token, codeRequest), (sampleEnv1, Token, codeRequest)]"
  obtain sv where sv: "minidp [] sampleWorld = Some (Serving sv)" using sampleWorld_serves by blast
  have "issuedBy sampleLibs (sampleEnv1, Token, codeRequest) s = None" for s by (simp add: issuedBy_def)
  then have "distinct (observe (issuedBy sampleLibs) (execRequest sampleLibs) ?evs sv)" by (simp split: option.splits)
  from code_exchanged_once [OF sv this] sv show ?thesis by blast
qed

lemma sampleEnv1_draws: "randomToken (e_rand sampleEnv1 i) \<noteq> Inr ''fam''" "randomJTI (e_rand sampleEnv1 i) \<noteq> Inr ''j''"
proof -
  have "length (EncodeToString sampleNonce) > 3" by (simp add: length_EncodeToString sampleNonce_def)
  then have "EncodeToString sampleNonce \<noteq> ''fam''" "EncodeToString sampleNonce \<noteq> ''j''" by auto
  then show "randomToken (e_rand sampleEnv1 i) \<noteq> Inr ''fam''" "randomJTI (e_rand sampleEnv1 i) \<noteq> Inr ''j''"
    by (simp_all add: sampleEnv1_def randomToken_def randomJTI_def)
qed

theorem revocation_lasts_witness:
  "\<forall>claims2. parseAccessToken sampleLibs sampleEnv1 ''at+jwt.j'' True
     (runRequests sampleLibs [(sampleEnv1, Token, refreshRequest)]
        (snd (serve sampleLibs sampleEnv1 Revoke
           (formRequest [(''token'', ''at+jwt.j''), (''client_id'', ''job''), (''client_secret'', ''s3cret'')]) busyServer))) \<noteq> Inr claims2"
proof -
  let ?r = "formRequest [(''token'', ''at+jwt.j''), (''client_id'', ''job''), (''client_secret'', ''s3cret'')]"
  have den: "deniedJTI (sv_store busyServer) ''j'' = None" by (simp add: busyServer_def newStore_def)
  obtain claims where c: "parseAccessToken sampleLibs sampleEnv1 ''at+jwt.j'' False busyServer = Inr claims" "claimString claims ''jti'' = ''j''"
    using sample_access [OF _ refl den, of False] by auto
  have conf: "anyConfidential sampleRegistry"
  proof (rule anyConfidentialI [OF sampleRegistry_ok sampleRegistry_lookup(2)])
  qed (simp add: rc_Confidential_def Confidential_def sampleService_fields)
  have auth: "requireClientAuth ?r busyServer = Inr (?r\<lparr>rq_ParseFormErr := False\<rparr>)"
    using conf by (simp add: requireClientAuth_def confidentialMatch_def sampleRegistry_lookup rc_Confidential_def Confidential_def
        rc_secret_def sampleService_fields)
  have "jwtExpiry (lb_jwt sampleLibs) claims = Some (Some (3600 * second))" by (simp add: sampleJWT_def)
  moreover have "rq_Method ?r \<noteq> ''OPTIONS''" by (simp add: formRequest_def sampleRequest_def)
  ultimately show ?thesis
    using c auth sampleEnv1_draws(2)
    by (intro allI revocation_lasts [where u = "3600 * second" and jti = "''j''"]) (auto simp: sampleJWT_stable, auto simp: sampleEnv1_def)
qed

theorem logout_final_witness:
  "\<exists>sv'. sv' = runRequests sampleLibs [(sampleEnv1, Token, codeRequest), (sampleEnv1, Token, refreshRequest)]
        (snd (serve sampleLibs sampleEnv1 EndSession (sampleRequest\<lparr>rq_URLQuery := [(''id_token_hint'', [''JWT.x''])]\<rparr>) busyServer))
     \<and> \<not> (\<exists>k f. refresh (sv_store sv') k = Some f \<and> re_Family f = ''fam'')
     \<and> isDeniedJTI 5 ''j'' (sv_store sv')"
proof -
  let ?r = "sampleRequest\<lparr>rq_URLQuery := [(''id_token_hint'', [''JWT.x''])]\<rparr>"
  let ?evs = "[(sampleEnv1, Token, codeRequest), (sampleEnv1, Token, refreshRequest)]"
  have "Get (rq_URLQuery ?r) ''id_token_hint'' \<noteq> []" by (simp add: Get_def)
  moreover have "parseIDTokenHint sampleLibs sampleEnv1 (Get (rq_URLQuery ?r) ''id_token_hint'') busyServer
      = Inr (sampleClaims ''x'', the (lookup sampleRegistry ''app''))"
    by (simp add: Get_def parseIDTokenHint_def sampleJWT_def sampleClaims_def claimString_def sampleConfig_def sampleRegistry_lookup)
  moreover have "claimString (sampleClaims ''x'') ''sid'' = ''fam''" by (simp add: sampleClaims_def claimString_def)
  moreover have "rq_Method ?r \<noteq> ''OPTIONS''" by (simp add: sampleRequest_def)
  moreover have "\<forall>(e', ep, r') \<in> set ?evs. (\<forall>i. randomToken (e_rand e' i) \<noteq> Inr ''fam'')" using sampleEnv1_draws(1) by simp
  ultimately have "\<not> (\<exists>k f. refresh (sv_store (runRequests sampleLibs ?evs (snd (serve sampleLibs sampleEnv1 EndSession ?r busyServer)))) k = Some f
      \<and> re_Family f = ''fam'')
    \<and> (\<forall>jti rec now. accessJTI (sv_store busyServer) jti = Some rec \<and> jr_family rec = ''fam'' \<and> e_now sampleEnv1 1 < jr_exp rec \<and> now < jr_exp rec
          \<and> (\<forall>(e', ep, r') \<in> set ?evs. \<forall>i. e_now e' i < jr_exp rec \<and> randomJTI (e_rand e' i) \<noteq> Inr jti) \<longrightarrow>
          isDeniedJTI now jti (sv_store (runRequests sampleLibs ?evs (snd (serve sampleLibs sampleEnv1 EndSession ?r busyServer)))))"
    by (intro logout_final) simp_all
  note final = this
  have "accessJTI (sv_store busyServer) ''j'' = Some \<lparr>jr_exp = 60 * minute, jr_sub = ''ada'', jr_family = ''fam''\<rparr>"
    "\<And>i. e_now sampleEnv1 i = 0"
    by (simp_all add: busyServer_def sampleEnv1_def)
  with final [THEN conjunct2, rule_format, of "''j''" "\<lparr>jr_exp = 60 * minute, jr_sub = ''ada'', jr_family = ''fam''\<rparr>" 5] final [THEN conjunct1]
    sampleEnv1_draws(2)
  show ?thesis by simp
qed

theorem code_honoured_once_witness:
  "rs_Status (fst (serve sampleLibs sampleEnv1 Token codeRequest busyServer)) = 200
   \<and> ''c'' \<notin> set (observe (exchangedBy sampleLibs) (execRequest sampleLibs) [(sampleEnv1, Token, codeRequest), (sampleEnv1, Token, codeRequest)]
        (snd (serve sampleLibs sampleEnv1 Token codeRequest busyServer)))"
proof -
  let ?evs = "[(sampleEnv1, Token, codeRequest), (sampleEnv1, Token, codeRequest)]"
  obtain client where c: "authenticateClient tokenHeaders codeRequest busyServer = Inr client" "rc_ID client = ''app''"
    by (rule app_authenticates [of codeRequest tokenHeaders]) (simp_all add: codeRequest_def)
  have "lookup sampleRegistry ''app'' = Some client"
    using authenticated_registered [OF c(1), of sampleURL] c(2) sampleRegistry_ok by simp
  then have grant: "rc_AllowsGrant client GrantAuthorizationCode"
    by (auto simp: sampleRegistry_lookup rc_AllowsGrant_def AllowsGrant_def grants_def sampleClient_fields)
  have form: "rq_Method codeRequest \<noteq> ''OPTIONS''" "\<not> rq_ParseFormErr codeRequest"
    by (simp_all add: codeRequest_def) (simp_all add: formRequest_def sampleRequest_def)
  have get: "Get (rq_PostForm codeRequest) ''code'' = ''c''" "Get (rq_PostForm codeRequest) ''redirect_uri'' = ''https://app.example/cb''"
    "Get (rq_PostForm codeRequest) ''code_verifier'' = sampleVerifier" "Get (rq_PostForm codeRequest) ''grant_type'' = ''authorization_code''"
    by (simp_all add: codeRequest_def)
  have code: "ac_ExpiresAt sampleCode = 10 * minute" "ac_ClientID sampleCode = ''app''" "ac_RedirectURI sampleCode = ''https://app.example/cb''"
    by (simp_all add: sampleCode_def)
  have key: "ks_active (sv_keys busyServer) = Some \<lparr>sk_key = oldKey, sk_kid = legacyKid, sk_version = ''1.0''\<rparr>" by simp
  have "rs_Status (fst (serve sampleLibs sampleEnv1 Token codeRequest busyServer)) = 200
   \<and> (''c'' \<notin> set (observe (issuedBy sampleLibs) (execRequest sampleLibs) ?evs (snd (serve sampleLibs sampleEnv1 Token codeRequest busyServer))) \<longrightarrow>
      ''c'' \<notin> set (observe (exchangedBy sampleLibs) (execRequest sampleLibs) ?evs (snd (serve sampleLibs sampleEnv1 Token codeRequest busyServer))))"
    by (rule code_honoured_once [OF _ form get(4) c(1) grant get(1) _ _ _ _ _ _ _ _ key sample_signs, of sampleURL sampleCode])
      (simp_all add: get code c(2) sample_pkce sampleRegistry_ok, simp_all add: sampleEnv1_def)
  moreover have "issuedBy sampleLibs (sampleEnv1, Token, codeRequest) s = None" for s by (simp add: issuedBy_def)
  ultimately show ?thesis by (simp split: option.splits)
qed

end
