(* ===== verification/Concurrent.thy ===== *)
theory Concurrent
  imports Runs
begin

text \<open>
  Requests that run at the same time. \<^verbatim>\<open>net/http\<close> serves every request on a goroutine of its own; what the goroutines share and
  change is the store and the login limiter, and each method of these holds its mutex from the first to the last line. A request is
  therefore a program that, between pure computations, makes atomic calls and waits for their replies.

  For every handler there is such a program, written along the handler; run alone, it gives the response and the server of the
  handler. A configuration is the shared server with the programs of the requests in progress, and a schedule says which request
  arrives or makes its next call: a list of such actions is one interleaving, and what is proved for all lists holds for all of them. An exchange succeeds once, grants stay authorized, a denial lasts, and a logout is
  final for every request but a refresh that is midway.
\<close>

section \<open>Calls and programs\<close>

datatype call = StoreCall storeOp | IsDenied time string | Allow time string

datatype reply =
    TokenReply "idp_error + string"
  | CodeReply "authCode option"
  | RefreshReply "refreshEntry option \<times> bool"
  | BoolReply bool
  | DoneReply

fun execCall :: "call \<Rightarrow> Server \<Rightarrow> Server" where
  "execCall (StoreCall op) sv = sv\<lparr>sv_store := execOp op (sv_store sv)\<rparr>"
| "execCall (IsDenied now jti) sv = sv"
| "execCall (Allow now ip) sv = sv\<lparr>sv_limiter := snd (allow now ip (sv_limiter sv))\<rparr>"

fun storeReply :: "storeOp \<Rightarrow> store \<Rightarrow> reply" where
  "storeReply (AddCode n1 rnd n2 c ttl) s = TokenReply (fst (addCode n1 rnd n2 c ttl s))"
| "storeReply (TakeCode n1 n2 tok) s = CodeReply (fst (takeCode n1 n2 tok s))"
| "storeReply (AddRefresh n1 rnd n2 f ttl) s = TokenReply (fst (addRefresh n1 rnd n2 f ttl s))"
| "storeReply (TakeRefresh n1 n2 tok) s = RefreshReply (fst (takeRefresh n1 n2 tok s))"
| "storeReply (RegisterJTI j sub fam ex) s = DoneReply"
| "storeReply (DenyJTI j until) s = DoneReply"
| "storeReply (RevokeFamily now fam) s = DoneReply"
| "storeReply (RevokeToken now tok) s = DoneReply"

fun replyOf :: "call \<Rightarrow> Server \<Rightarrow> reply" where
  "replyOf (StoreCall op) sv = storeReply op (sv_store sv)"
| "replyOf (IsDenied now jti) sv = BoolReply (isDeniedJTI now jti (sv_store sv))"
| "replyOf (Allow now ip) sv = BoolReply (fst (allow now ip (sv_limiter sv)))"

text \<open>The reply as the type that the call returns.\<close>

fun tokenOf :: "reply \<Rightarrow> idp_error + string" where
  "tokenOf (TokenReply t) = t" | "tokenOf _ = Inl (errUpstream ''reply'')"

fun codeOf :: "reply \<Rightarrow> authCode option" where
  "codeOf (CodeReply c) = c" | "codeOf _ = None"

fun refreshOf :: "reply \<Rightarrow> refreshEntry option \<times> bool" where
  "refreshOf (RefreshReply f) = f" | "refreshOf _ = (None, False)"

fun boolOf :: "reply \<Rightarrow> bool" where
  "boolOf (BoolReply b) = b" | "boolOf _ = False"

datatype 'a prog = Return 'a | Call call "reply \<Rightarrow> 'a prog"

primrec bindProg :: "'a prog \<Rightarrow> ('a \<Rightarrow> 'b prog) \<Rightarrow> 'b prog" where
  "bindProg (Return a) f = f a"
| "bindProg (Call c k) f = Call c (\<lambda>rep. bindProg (k rep) f)"

text \<open>A program that runs alone.\<close>

primrec runProg :: "'a prog \<Rightarrow> Server \<Rightarrow> 'a \<times> Server" where
  "runProg (Return a) sv = (a, sv)"
| "runProg (Call c k) sv = runProg (k (replyOf c sv)) (execCall c sv)"

lemma runProg_bind: "runProg (bindProg p f) sv = (case runProg p sv of (a, sv') \<Rightarrow> runProg (f a) sv')"
  by (induction p arbitrary: sv) (auto split: prod.splits)

section \<open>The programs of the handlers\<close>

text \<open>
  The argument \<open>sv\<close> stands for the parts of the server that never change after the start: configuration, clients, keys, CSRF key and
  template.
\<close>

definition issueTokensProg :: "jwt_lib \<Rightarrow> env \<Rightarrow> authContext \<Rightarrow> Server \<Rightarrow> (idp_error + tokenResponse) prog" where
  "issueTokensProg jl e ctx sv =
     (case lookup (sv_clients sv) (cx_ClientID ctx) of
        None \<Rightarrow> Return (Inl errTokensUnregCli)
      | Some client \<Rightarrow>
          (let now = e_now e 0;
               accessExpires = now + cfg_AccessTokenTTL (sv_cfg sv)
           in case randomJTI (e_rand e 0) of
                Inl err \<Rightarrow> Return (Inl err)
              | Inr jti \<Rightarrow>
                  (let wantProfile = hasScope (cx_Scopes ctx) ''profile'';
                       wantEmail = hasScope (cx_Scopes ctx) ''email'';
                       profile = profileFor (rc_users client) (cx_Sub ctx) wantProfile wantEmail;
                       rc = registeredClaims sv (rc_Audience client) (cx_Sub ctx) jti now accessExpires;
                       access = newAccessClaims rc (rc_ID client) (cx_Scopes ctx) wantProfile profile
                   in case signAccess (jwtSign jl) (sv_keys sv) (accessJSON jl access) of
                        Inl err \<Rightarrow> Return (Inl err)
                      | Inr accessTokenString \<Rightarrow>
                          Call (StoreCall (RegisterJTI (rg_ID rc) (cx_Sub ctx) (cx_Family ctx) accessExpires))
                            (\<lambda>_. case (if hasScope (cx_Scopes ctx) ''openid''
                                       then issueIDToken jl (e_rand e 1) sv ctx (rc_ID client) now accessExpires wantProfile profile
                                       else Inr []) of
                                   Inl err \<Rightarrow> Return (Inl err)
                                 | Inr idToken \<Rightarrow>
                                     Call (StoreCall (AddRefresh (e_now e 1) (e_rand e 2) (e_now e 2)
                                             \<lparr>re_ExpiresAt = 0, re_Sub = cx_Sub ctx, re_ClientID = cx_ClientID ctx, re_Nonce = cx_Nonce ctx,
                                              re_Family = cx_Family ctx, re_Scopes = cx_Scopes ctx\<rparr>
                                             (cfg_RefreshTokenTTL (sv_cfg sv))))
                                       (\<lambda>rep. case tokenOf rep of
                                                 Inl err \<Rightarrow> Return (Inl err)
                                               | Inr rtok \<Rightarrow>
                                                   Return (Inr \<lparr>tr_AccessToken = accessTokenString, tr_IDToken = idToken, tr_RefreshToken = rtok,
                                                     tr_TokenType = ''Bearer'', tr_Scope = joinScopes (cx_Scopes ctx),
                                                     tr_ExpiresIn = wholeSeconds (cfg_AccessTokenTTL (sv_cfg sv))\<rparr>))))))"

definition issueClientCredentialsProg :: "jwt_lib \<Rightarrow> env \<Rightarrow> registeredClient \<Rightarrow> string list \<Rightarrow> Server \<Rightarrow> (idp_error + tokenResponse) prog" where
  "issueClientCredentialsProg jl e client scopes sv =
     (let now = e_now e 0;
          expires = now + cfg_AccessTokenTTL (sv_cfg sv)
      in case randomJTI (e_rand e 0) of
           Inl err \<Rightarrow> Return (Inl err)
         | Inr jti \<Rightarrow>
             (let access = \<lparr>acl_Registered = registeredClaims sv (rc_Audience client) (rc_ID client) jti now expires,
                            acl_ClientID = rc_ID client, acl_Azp = rc_ID client, acl_Idtyp = ''app'', acl_Scp = [],
                            acl_Scope = joinScopes scopes, acl_Username = [], acl_Email = [],
                            acl_Roles = clientCredentialsRoles client\<rparr>
              in case signAccess (jwtSign jl) (sv_keys sv) (accessJSON jl access) of
                   Inl err \<Rightarrow> Return (Inl err)
                 | Inr accessTokenString \<Rightarrow>
                     Call (StoreCall (RegisterJTI jti (rc_ID client) [] expires))
                       (\<lambda>_. Return (Inr \<lparr>tr_AccessToken = accessTokenString, tr_IDToken = [], tr_RefreshToken = [],
                           tr_TokenType = ''Bearer'', tr_Scope = joinScopes scopes,
                           tr_ExpiresIn = wholeSeconds (cfg_AccessTokenTTL (sv_cfg sv))\<rparr>))))"

definition tokensWritten :: "headers \<Rightarrow> idp_error + tokenResponse \<Rightarrow> response" where
  "tokensWritten hdr res = (case res of Inl err \<Rightarrow> serverError hdr | Inr tr \<Rightarrow> writeJSON hdr 200 (tokenResponseJSON tr))"

definition issueAndWriteProg :: "libs \<Rightarrow> env \<Rightarrow> headers \<Rightarrow> authContext \<Rightarrow> Server \<Rightarrow> response prog" where
  "issueAndWriteProg lb e hdr ctx sv = bindProg (issueTokensProg (lb_jwt lb) e ctx sv) (\<lambda>res. Return (tokensWritten hdr res))"

definition codeGrantProg :: "libs \<Rightarrow> env \<Rightarrow> headers \<Rightarrow> request \<Rightarrow> Server \<Rightarrow> response prog" where
  "codeGrantProg lb e hdr r sv =
     (let form = rq_PostForm r; code = Get form ''code''
      in if code = [] then Return (writeAuthError hdr ''invalid_request'' ''Missing code.'')
         else case authenticateClient hdr r sv of
                Inl resp \<Rightarrow> Return resp
              | Inr client \<Rightarrow>
                  Call (StoreCall (TakeCode (e_now e 0) (e_now e 1) code))
                    (\<lambda>rep. case codeOf rep of
                            None \<Rightarrow> Return (writeAuthError hdr ''invalid_grant'' ''Unknown, expired or already redeemed authorization code.'')
                          | Some ac \<Rightarrow>
                              (case validateCodeGrant hdr form ac client of
                                 Some resp \<Rightarrow> Return resp
                               | None \<Rightarrow>
                                   (case randomToken (e_rand e 1) of
                                      Inl err \<Rightarrow> Return (serverError hdr)
                                    | Inr family \<Rightarrow>
                                        issueAndWriteProg lb (later 2 e) hdr
                                          \<lparr>cx_Sub = ac_Sub ac, cx_ClientID = ac_ClientID ac, cx_Nonce = ac_Nonce ac,
                                           cx_Family = family, cx_Scopes = ac_Scopes ac\<rparr> sv))))"

definition refreshGrantProg :: "libs \<Rightarrow> env \<Rightarrow> headers \<Rightarrow> request \<Rightarrow> Server \<Rightarrow> response prog" where
  "refreshGrantProg lb e hdr r sv =
     (let token = Get (rq_PostForm r) ''refresh_token''
      in if token = [] then Return (writeAuthError hdr ''invalid_request'' ''Missing refresh_token.'')
         else case authenticateClient hdr r sv of
                Inl resp \<Rightarrow> Return resp
              | Inr client \<Rightarrow>
                  Call (StoreCall (TakeRefresh (e_now e 0) (e_now e 1) token))
                    (\<lambda>rep. case fst (refreshOf rep) of
                            None \<Rightarrow> Return (writeAuthError hdr ''invalid_grant'' ''Unknown, expired or already used refresh token.'')
                          | Some entry \<Rightarrow>
                              if rc_ID client \<noteq> re_ClientID entry
                              then Call (StoreCall (RevokeFamily (e_now e 2) (re_Family entry)))
                                     (\<lambda>_. Return (writeAuthError hdr ''invalid_grant'' ''client_id does not match the refresh token.''))
                              else issueAndWriteProg lb (later 3 e) hdr
                                     \<lparr>cx_Sub = re_Sub entry, cx_ClientID = re_ClientID entry, cx_Nonce = re_Nonce entry,
                                      cx_Family = re_Family entry, cx_Scopes = re_Scopes entry\<rparr> sv))"

definition clientCredentialsGrantProg :: "libs \<Rightarrow> env \<Rightarrow> headers \<Rightarrow> request \<Rightarrow> Server \<Rightarrow> response prog" where
  "clientCredentialsGrantProg lb e hdr r sv =
     (case authenticateClient hdr r sv of
        Inl resp \<Rightarrow> Return resp
      | Inr client \<Rightarrow>
          if \<not> rc_Confidential client \<or> \<not> rc_AllowsGrant client GrantClientCredentials
          then Return (writeAuthError hdr ''unauthorized_client'' ''The client is not authorized to use the client_credentials grant.'')
          else (case resolveClientCredentialsScopes client (Get (rq_PostForm r) ''scope'') of
                  None \<Rightarrow> Return (writeAuthError hdr ''invalid_scope''
                     (''The requested scope is not configured for this client; '' @
                      ''use a registered permission or the audience's .default scope.''))
                | Some scopes \<Rightarrow>
                    bindProg (issueClientCredentialsProg (lb_jwt lb) e client scopes sv) (\<lambda>res. Return (tokensWritten hdr res))))"

definition tokenProg :: "libs \<Rightarrow> env \<Rightarrow> request \<Rightarrow> Server \<Rightarrow> response prog" where
  "tokenProg lb e r sv =
     (let hdr = tokenHeaders; g = Get (rq_PostForm r) ''grant_type''
      in if rq_ParseFormErr r then Return (writeAuthError hdr ''invalid_request'' ''Malformed form body.'')
         else if g = ''authorization_code'' then codeGrantProg lb e hdr r sv
         else if g = ''refresh_token'' then refreshGrantProg lb e hdr r sv
         else if g = ''client_credentials'' then clientCredentialsGrantProg lb e hdr r sv
         else if g = [] then Return (writeAuthError hdr ''invalid_request'' ''Missing grant_type.'')
         else Return (writeAuthError hdr ''unsupported_grant_type''
                 ''Only authorization_code, refresh_token and client_credentials are supported.''))"

definition completeAuthorizeProg :: "libs \<Rightarrow> env \<Rightarrow> request \<Rightarrow> registeredClient \<Rightarrow> Values \<Rightarrow> Values \<Rightarrow> string \<Rightarrow> Server \<Rightarrow> response prog" where
  "completeAuthorizeProg lb e r client form q sub sv =
     Call (StoreCall (AddCode (e_now e 0) (e_rand e 0) (e_now e 1)
             \<lparr>ac_ExpiresAt = 0, ac_Sub = sub, ac_ClientID = Get q ''client_id'', ac_RedirectURI = Get q ''redirect_uri'',
              ac_CodeChallenge = Get q ''code_challenge'', ac_CodeChallengeMethod = Get q ''code_challenge_method'',
              ac_Nonce = Get q ''nonce'', ac_Scopes = parseScopes (Get q ''scope'')\<rparr> authCodeTTL))
       (\<lambda>rep. case tokenOf rep of
                 Inl err \<Rightarrow> Return (renderAuthorizeError (later 2 e) r form 500 ''Internal error. Please start again.'' sv)
               | Inr code \<Rightarrow> Return (redirectToClient lb (later 2 e) r client q [(''code'', code)] sv))"

definition authorizePostProg :: "libs \<Rightarrow> env \<Rightarrow> request \<Rightarrow> Server \<Rightarrow> response prog" where
  "authorizePostProg lb e r sv =
     (let ip = clientIP sv r
      in if rq_ParseFormErr r then Return (renderLoginPage (later 2 e) r 400 (messagePage ''Malformed form submission.'') sv)
         else
           let form = rq_PostForm r
           in if (case oauthParamsOf r of
                    None \<Rightarrow> True
                  | Some params \<Rightarrow> \<not> verify (sv_csrf sv) (e_now e 0) ''/authorize'' params (csrfNonce r) (Get form ''csrf_token''))
              then Return (renderAuthorizeError (later 2 e) r form 400
                      ''Your sign-in session expired or the request was tampered with. Please start again.'' sv)
              else
                Call (Allow (e_now e 1) ip)
                  (\<lambda>rep. if \<not> boolOf rep
                        then Return (renderAuthorizeError (later 2 e) r form 429
                                ''Too many sign-in attempts. Please wait a minute and try again.'' sv)
                        else (case authorizeContext lb (later 2 e) r form sv of
                                Inl resp \<Rightarrow> Return resp
                              | Inr (who, client, q) \<Rightarrow> completeAuthorizeProg lb (later 2 e) r client form q (sj_Sub who) sv)))"

definition parseAccessProg :: "libs \<Rightarrow> env \<Rightarrow> string \<Rightarrow> bool \<Rightarrow> Server \<Rightarrow> (idp_error + jsonMap) prog" where
  "parseAccessProg lb e tokenString requireAudience sv =
     (case validAccessToken lb e tokenString requireAudience sv of
        Inl err \<Rightarrow> Return (Inl err)
      | Inr claims \<Rightarrow>
          if claimString claims ''jti'' \<noteq> []
          then Call (IsDenied (e_now e 1) (claimString claims ''jti''))
                 (\<lambda>rep. Return (if boolOf rep then Inl errTokenRevoked else Inr claims))
          else Return (Inr claims))"

definition userinfoProg :: "libs \<Rightarrow> env \<Rightarrow> request \<Rightarrow> Server \<Rightarrow> response prog" where
  "userinfoProg lb e r sv =
     bindProg (parseAccessProg lb e (bearerToken r) True sv)
       (\<lambda>res. case res of
                 Inl err \<Rightarrow> Return invalidTokenResponse
               | Inr claims \<Rightarrow>
                   (let scopes = parseScopes (claimString claims ''scope'')
                    in if \<not> hasScope scopes ''openid'' then Return insufficientScope
                       else Return (writeJSON [] 200 (userinfoClaims lb claims scopes sv))))"

definition introspectProg :: "libs \<Rightarrow> env \<Rightarrow> request \<Rightarrow> Server \<Rightarrow> response prog" where
  "introspectProg lb e r sv =
     (case requireClientAuth r sv of
        Inl resp \<Rightarrow> Return resp
      | Inr r' \<Rightarrow>
          if rq_ParseFormErr r' then Return inactive
          else bindProg (parseAccessProg lb e (Get (rq_PostForm r') ''token'') True sv)
                 (\<lambda>res. case res of
                           Inl err \<Rightarrow> Return inactive
                         | Inr claims \<Rightarrow>
                             (let sub = claimString claims ''sub''; scope = claimString claims ''scope''
                              in Return (writeJSON [] 200
                                   [(''active'', JBool True), (''sub'', JStr sub), (''client_id'', jsonField claims ''client_id''),
                                    (''scope'', JStr scope), (''iss'', jsonField claims ''iss''), (''aud'', jsonField claims ''aud''),
                                    (''exp'', jsonField claims ''exp''), (''iat'', jsonField claims ''iat''), (''username'', JStr sub)]))))"

definition revokePresentedProg :: "libs \<Rightarrow> env \<Rightarrow> string \<Rightarrow> Server \<Rightarrow> unit prog" where
  "revokePresentedProg lb e token sv =
     bindProg (parseAccessProg lb e token False sv)
       (\<lambda>res. case res of
                 Inl err \<Rightarrow> Call (StoreCall (RevokeToken (e_now e 2) token)) (\<lambda>_. Return ())
               | Inr claims \<Rightarrow>
                   (let jti = claimString claims ''jti''
                    in if jti = [] then Return ()
                       else (let until = (case jwtExpiry (lb_jwt lb) claims of
                                            Some (Some expTime) \<Rightarrow> expTime
                                          | _ \<Rightarrow> e_now e 2 + cfg_AccessTokenTTL (sv_cfg sv))
                             in Call (StoreCall (DenyJTI jti until)) (\<lambda>_. Return ()))))"

definition revokeProg :: "libs \<Rightarrow> env \<Rightarrow> request \<Rightarrow> Server \<Rightarrow> response prog" where
  "revokeProg lb e r sv =
     (case requireClientAuth r sv of
        Inl resp \<Rightarrow> Return resp
      | Inr r' \<Rightarrow>
          if rq_ParseFormErr r' then Return okResponse
          else (let token = Get (rq_PostForm r') ''token''
                in if token \<noteq> [] then bindProg (revokePresentedProg lb e token sv) (\<lambda>_. Return okResponse) else Return okResponse))"

definition endSessionHintProg :: "libs \<Rightarrow> env \<Rightarrow> request \<Rightarrow> Server \<Rightarrow> registeredClient option prog" where
  "endSessionHintProg lb e r sv =
     (let hint = Get (rq_URLQuery r) ''id_token_hint''
      in if hint \<noteq> [] then
           (case parseIDTokenHint lb e hint sv of
              Inl err \<Rightarrow> Return None
            | Inr (claims, hintClient) \<Rightarrow>
                (let sid = claimString claims ''sid''
                 in if sid \<noteq> [] then Call (StoreCall (RevokeFamily (e_now e 1) sid)) (\<lambda>_. Return (Some hintClient))
                    else Return (Some hintClient)))
         else Return None)"

definition endSessionProg :: "libs \<Rightarrow> env \<Rightarrow> request \<Rightarrow> Server \<Rightarrow> response prog" where
  "endSessionProg lb e r sv =
     bindProg (endSessionHintProg lb e r sv)
       (\<lambda>client0.
          let client = (case client0 of
                          Some c \<Rightarrow> Some c
                        | None \<Rightarrow> (let cid = Get (rq_URLQuery r) ''client_id'' in if cid \<noteq> [] then lookup (sv_clients sv) cid else None));
              target = Get (rq_URLQuery r) ''post_logout_redirect_uri'';
              allowed = (case client of Some c \<Rightarrow> if target \<noteq> [] then registeredLogoutRedirect sv (rc_ID c) target else [] | None \<Rightarrow> [])
          in if allowed \<noteq> [] then Return (httpRedirect allowed)
             else Return (renderLoginPage (later 2 e) r 200 (messagePage ''You have been signed out.'') sv))"

text \<open>The other handlers make no calls.\<close>

definition handleProg :: "libs \<Rightarrow> env \<Rightarrow> endpoint \<Rightarrow> request \<Rightarrow> Server \<Rightarrow> response prog" where
  "handleProg lb e ep r sv =
     (case ep of
        AuthorizePost \<Rightarrow> authorizePostProg lb e r sv
      | Token \<Rightarrow> tokenProg lb e r sv
      | Userinfo \<Rightarrow> userinfoProg lb e r sv
      | Introspect \<Rightarrow> introspectProg lb e r sv
      | Revoke \<Rightarrow> revokeProg lb e r sv
      | EndSession \<Rightarrow> endSessionProg lb e r sv
      | _ \<Rightarrow> Return (fst (handle lb e ep r sv)))"

definition serveProg :: "libs \<Rightarrow> env \<Rightarrow> endpoint \<Rightarrow> request \<Rightarrow> Server \<Rightarrow> response prog" where
  "serveProg lb e ep r sv =
     (if rq_Method r = ''OPTIONS''
      then Return \<lparr>rs_Status = 204, rs_Header = corsHeaders sv r, rs_Body = NoBody\<rparr>
      else bindProg (handleProg lb e ep r sv) (\<lambda>resp. Return (resp\<lparr>rs_Header := corsHeaders sv r @ rs_Header resp\<rparr>)))"


section \<open>Run alone, a program is its handler\<close>

text \<open>What handlers compute from the server does not read the store or the limiter.\<close>

lemma registeredClaims_setup [simp]:
  "registeredClaims (sv\<lparr>sv_store := st\<rparr>) aud sub jti now ex = registeredClaims sv aud sub jti now ex"
  by (simp add: registeredClaims_def)

lemma issueIDToken_setup [simp]:
  "issueIDToken jl rnd (sv\<lparr>sv_store := st\<rparr>) ctx aud now ex wp pf = issueIDToken jl rnd sv ctx aud now ex wp pf"
  by (simp add: issueIDToken_def Let_def cong: sum.case_cong)

lemma renderLoginPage_setup [simp]:
  "renderLoginPage e r status d (sv\<lparr>sv_store := st\<rparr>) = renderLoginPage e r status d sv"
  "renderLoginPage e r status d (sv\<lparr>sv_limiter := lm\<rparr>) = renderLoginPage e r status d sv"
  by (simp_all add: renderLoginPage_def loginCookie_def Let_def cong: option.case_cong if_cong)

lemma renderAuthorizeError_setup [simp]:
  "renderAuthorizeError e r form status msg (sv\<lparr>sv_store := st\<rparr>) = renderAuthorizeError e r form status msg sv"
  "renderAuthorizeError e r form status msg (sv\<lparr>sv_limiter := lm\<rparr>) = renderAuthorizeError e r form status msg sv"
  by (simp_all add: renderAuthorizeError_def)

lemma registeredRedirect_setup [simp]:
  "registeredRedirect (sv\<lparr>sv_store := st\<rparr>) cid raw = registeredRedirect sv cid raw"
  "registeredRedirect (sv\<lparr>sv_limiter := lm\<rparr>) cid raw = registeredRedirect sv cid raw"
  by (simp_all add: registeredRedirect_def)

lemma redirectToClient_setup [simp]:
  "redirectToClient lb e r client q extra (sv\<lparr>sv_store := st\<rparr>) = redirectToClient lb e r client q extra sv"
  "redirectToClient lb e r client q extra (sv\<lparr>sv_limiter := lm\<rparr>) = redirectToClient lb e r client q extra sv"
  by (simp_all add: redirectToClient_def Let_def cong: option.case_cong if_cong)

lemma authorizeContext_setup [simp]: "authorizeContext lb e r form (sv\<lparr>sv_limiter := lm\<rparr>) = authorizeContext lb e r form sv"
  by (simp add: authorizeContext_def authorizeErrorRedirect_def Let_def cong: option.case_cong prod.case_cong if_cong)

lemma issueTokensProg_run:
  "runProg (issueTokensProg jl e ctx sv) (sv\<lparr>sv_store := st\<rparr>) = issueTokens jl e ctx (sv\<lparr>sv_store := st\<rparr>)"
  by (simp add: issueTokensProg_def issueTokens_def Let_def split: option.split sum.split prod.split)

lemma issueAndWriteProg_run:
  "runProg (issueAndWriteProg lb e hdr ctx sv) (sv\<lparr>sv_store := st\<rparr>) = issueAndWriteTokens lb e hdr ctx (sv\<lparr>sv_store := st\<rparr>)"
  by (simp add: issueAndWriteProg_def runProg_bind issueTokensProg_run issueAndWriteTokens_def tokensWritten_def split: prod.split sum.split)

lemma codeGrantProg_run: "runProg (codeGrantProg lb e hdr r sv) sv = handleCodeGrant lb e hdr r sv"
  by (auto simp: codeGrantProg_def handleCodeGrant_def Let_def issueAndWriteProg_run split: option.split sum.split prod.split)

lemma refreshGrantProg_run: "runProg (refreshGrantProg lb e hdr r sv) sv = handleRefreshGrant lb e hdr r sv"
  by (simp add: refreshGrantProg_def handleRefreshGrant_def Let_def issueAndWriteProg_run split: option.split sum.split prod.split)

lemma clientCredentialsGrantProg_run: "runProg (clientCredentialsGrantProg lb e hdr r sv) sv = handleClientCredentialsGrant lb e hdr r sv"
  by (simp add: clientCredentialsGrantProg_def handleClientCredentialsGrant_def issueClientCredentialsProg_def issueClientCredentialsTokens_def
      issueAndWriteClientCredentials_def tokensWritten_def runProg_bind Let_def split: option.split sum.split)

lemma authorizePostProg_run: "runProg (authorizePostProg lb e r sv) sv = handleAuthorizePost lb e r sv"
  by (simp add: authorizePostProg_def handleAuthorizePost_def completeAuthorizeProg_def completeAuthorize_def Let_def
      split: option.split sum.split prod.split)

lemma tokenProg_run: "runProg (tokenProg lb e r sv) sv = handleToken lb e r sv"
  by (simp add: tokenProg_def handleToken_def Let_def codeGrantProg_run refreshGrantProg_run clientCredentialsGrantProg_run)

lemma parseAccessProg_run: "runProg (parseAccessProg lb e tok ra sv) sv = (parseAccessToken lb e tok ra sv, sv)"
  by (simp add: parseAccessProg_def parseAccessToken_def split: sum.split)

lemma userinfoProg_run: "runProg (userinfoProg lb e r sv) sv = handleUserinfo lb e r sv"
  by (simp add: userinfoProg_def handleUserinfo_def verifyAccessToken_def runProg_bind parseAccessProg_run Let_def split: sum.split)

lemma introspectProg_run: "runProg (introspectProg lb e r sv) sv = handleIntrospect lb e r sv"
  by (simp add: introspectProg_def handleIntrospect_def verifyAccessToken_def runProg_bind parseAccessProg_run Let_def split: sum.split)

lemma revokeProg_run: "runProg (revokeProg lb e r sv) sv = handleRevoke lb e r sv"
  by (simp add: revokeProg_def handleRevoke_def revokePresentedProg_def revokePresentedToken_def runProg_bind parseAccessProg_run Let_def
      split: sum.split option.split)

lemma endSessionProg_run: "runProg (endSessionProg lb e r sv) sv = handleEndSession lb e r sv"
  by (simp add: endSessionProg_def handleEndSession_def endSessionHintProg_def endSessionHint_def runProg_bind Let_def
      split: sum.split option.split prod.split)

text \<open>
  The program of a request, run without interference, is the handler: it gives the same response and the same server for every
  endpoint and every request, so what is proved of the handlers holds for the programs and the programs may stand for them.
\<close>

lemma request_program_is_handler: "runProg (serveProg lb e ep r sv) sv = serve lb e ep r sv"
proof -
  have "runProg (handleProg lb e ep r sv) sv = handle lb e ep r sv"
    by (cases ep) (simp_all add: handleProg_def authorizePostProg_run tokenProg_run userinfoProg_run introspectProg_run revokeProg_run
        endSessionProg_run prod_eq_iff discoveryHandler.quiet jwksHandler.quiet readyzHandler.quiet landingHandler.quiet authorizeGetHandler.quiet
        handleStaticCSS_def handleStaticLogo_def handleHealthz_def)
  then show ?thesis by (simp add: serveProg_def serve_def withCORS_def runProg_bind split: prod.split)
qed


text \<open>
  A program reads what changes only through its calls: with another store and another limiter in the server it is created from, it is
  the same program.
\<close>

lemma clients_setup:
  "identifyFormClient hdr r (sv\<lparr>sv_store := st, sv_limiter := lm\<rparr>) = identifyFormClient hdr r sv"
  "confidentialMatch (sv\<lparr>sv_store := st, sv_limiter := lm\<rparr>) cid pw = confidentialMatch sv cid pw"
  "userinfoStore lb claims (sv\<lparr>sv_store := st, sv_limiter := lm\<rparr>) = userinfoStore lb claims sv"
  by (simp_all add: identifyFormClient_def confidentialMatch_def userinfoStore_def Let_def cong: option.case_cong list.case_cong)

lemma lookups_setup:
  "authenticateClient hdr r (sv\<lparr>sv_store := st, sv_limiter := lm\<rparr>) = authenticateClient hdr r sv"
  "requireClientAuth r (sv\<lparr>sv_store := st, sv_limiter := lm\<rparr>) = requireClientAuth r sv"
  "userinfoClaims lb claims scopes (sv\<lparr>sv_store := st, sv_limiter := lm\<rparr>) = userinfoClaims lb claims scopes sv"
  "registeredLogoutRedirect (sv\<lparr>sv_store := st, sv_limiter := lm\<rparr>) cid raw = registeredLogoutRedirect sv cid raw"
  "corsHeaders (sv\<lparr>sv_store := st, sv_limiter := lm\<rparr>) r = corsHeaders sv r"
  by (simp_all add: authenticateClient_def authClientBasic_def requireClientAuth_def userinfoClaims_def
      registeredLogoutRedirect_def corsHeaders_def clients_setup Let_def cong: option.case_cong prod.case_cong if_cong)

lemma ipTrusted_setup: "ipTrusted (sv\<lparr>sv_store := st, sv_limiter := lm\<rparr>) = ipTrusted sv"
  by (simp add: fun_eq_iff ipTrusted_def)

lemma forwardedClientIP_setup: "forwardedClientIP (sv\<lparr>sv_store := st, sv_limiter := lm\<rparr>) xff host = forwardedClientIP sv xff host"
  by (simp add: forwardedClientIP_def forwardedLoop_find foreign_def ipTrusted_setup cong: option.case_cong)

lemma checks_setup:
  "validAccessToken lb e tok ra (sv\<lparr>sv_store := st, sv_limiter := lm\<rparr>) = validAccessToken lb e tok ra sv"
  "parseIDTokenHint lb e hint (sv\<lparr>sv_store := st, sv_limiter := lm\<rparr>) = parseIDTokenHint lb e hint sv"
  "clientIP (sv\<lparr>sv_store := st, sv_limiter := lm\<rparr>) r = clientIP sv r"
  by (simp_all add: validAccessToken_def parseIDTokenHint_def clientIP_def forwardedClientIP_setup ipTrusted_setup Let_def
      cong: option.case_cong list.case_cong if_cong)

lemma authorizeContext_setup_store: "authorizeContext lb e r form (sv\<lparr>sv_store := st\<rparr>) = authorizeContext lb e r form sv"
  by (simp add: authorizeContext_def authorizeErrorRedirect_def Let_def cong: option.case_cong prod.case_cong if_cong)

lemma issuing_setup:
  "issueTokensProg jl e ctx (sv\<lparr>sv_store := st, sv_limiter := lm\<rparr>) = issueTokensProg jl e ctx sv"
  "issueClientCredentialsProg jl e client scopes (sv\<lparr>sv_store := st, sv_limiter := lm\<rparr>) = issueClientCredentialsProg jl e client scopes sv"
  by (simp_all add: issueTokensProg_def issueClientCredentialsProg_def issueIDToken_def registeredClaims_def Let_def
      cong: option.case_cong sum.case_cong if_cong)

lemma quiet_setup:
  "fst (handleDiscovery r (sv\<lparr>sv_store := st, sv_limiter := lm\<rparr>)) = fst (handleDiscovery r sv)"
  "fst (handleJWKS r (sv\<lparr>sv_store := st, sv_limiter := lm\<rparr>)) = fst (handleJWKS r sv)"
  "fst (handleReadyz r (sv\<lparr>sv_store := st, sv_limiter := lm\<rparr>)) = fst (handleReadyz r sv)"
  "fst (handleAuthorizeGet lb e r (sv\<lparr>sv_store := st, sv_limiter := lm\<rparr>)) = fst (handleAuthorizeGet lb e r sv)"
  by (simp_all add: handleDiscovery_def discoveryDocument_def scopesSupported_def grantTypesSupported_def handleJWKS_def handleReadyz_def
      handleAuthorizeGet_def authorizeErrorRedirect_def Let_def split: option.split prod.split sum.split)

lemma tokenProg_setup: "tokenProg lb e r (sv\<lparr>sv_store := st, sv_limiter := lm\<rparr>) = tokenProg lb e r sv"
  by (simp add: tokenProg_def codeGrantProg_def refreshGrantProg_def clientCredentialsGrantProg_def issueAndWriteProg_def lookups_setup issuing_setup Let_def
      cong: option.case_cong sum.case_cong if_cong)

lemma authorizePostProg_setup: "authorizePostProg lb e r (sv\<lparr>sv_store := st, sv_limiter := lm\<rparr>) = authorizePostProg lb e r sv"
  by (simp add: authorizePostProg_def completeAuthorizeProg_def checks_setup authorizeContext_setup_store Let_def
      cong: option.case_cong sum.case_cong prod.case_cong if_cong)

lemma resourceProg_setup:
  "userinfoProg lb e r (sv\<lparr>sv_store := st, sv_limiter := lm\<rparr>) = userinfoProg lb e r sv"
  "introspectProg lb e r (sv\<lparr>sv_store := st, sv_limiter := lm\<rparr>) = introspectProg lb e r sv"
  "revokeProg lb e r (sv\<lparr>sv_store := st, sv_limiter := lm\<rparr>) = revokeProg lb e r sv"
  "endSessionProg lb e r (sv\<lparr>sv_store := st, sv_limiter := lm\<rparr>) = endSessionProg lb e r sv"
  by (simp_all add: userinfoProg_def introspectProg_def revokeProg_def revokePresentedProg_def parseAccessProg_def endSessionProg_def endSessionHintProg_def
      lookups_setup checks_setup Let_def cong: option.case_cong sum.case_cong if_cong)

lemma serveProg_setup: "serveProg lb e ep r (sv\<lparr>sv_store := st, sv_limiter := lm\<rparr>) = serveProg lb e ep r sv"
proof -
  have "handleProg lb e ep r (sv\<lparr>sv_store := st, sv_limiter := lm\<rparr>) = handleProg lb e ep r sv"
    by (cases ep) (simp_all add: handleProg_def authorizePostProg_setup tokenProg_setup resourceProg_setup quiet_setup handleLanding_def
        handleStaticCSS_def handleStaticLogo_def handleHealthz_def)
  then show ?thesis by (simp add: serveProg_def lookups_setup)
qed

section \<open>Programs that keep to rules\<close>

text \<open>
  A program obeys the guarantee \<open>G\<close> and the result \<open>Q\<close> under the rely \<open>R\<close>: as long as the replies satisfy \<open>R\<close>, whatever the others do to
  the server in between, it makes only calls in \<open>G\<close> and returns only results in \<open>Q\<close>.
\<close>

primrec obeys :: "(call \<Rightarrow> bool) \<Rightarrow> (call \<Rightarrow> reply \<Rightarrow> bool) \<Rightarrow> ('a \<Rightarrow> bool) \<Rightarrow> 'a prog \<Rightarrow> bool" where
  "obeys G R Q (Return a) = Q a"
| "obeys G R Q (Call c k) = (G c \<and> (\<forall>rep. R c rep \<longrightarrow> obeys G R Q (k rep)))"

lemma obeys_bind: "obeys G R Q (bindProg p f) = obeys G R (\<lambda>a. obeys G R Q (f a)) p"
  by (induction p) simp_all

lemma obeys_mono: "obeys G R Q p \<Longrightarrow> (\<And>c. G c \<Longrightarrow> G' c) \<Longrightarrow> (\<And>a. Q a \<Longrightarrow> Q' a) \<Longrightarrow> obeys G' R Q' p"
  by (induction p) auto

text \<open>The number of calls a program makes at most.\<close>

primrec withinCalls :: "'a prog \<Rightarrow> nat \<Rightarrow> bool" where
  "withinCalls (Return a) n = True"
| "withinCalls (Call c k) n = (n > 0 \<and> (\<forall>rep. withinCalls (k rep) (n - 1)))"

lemma withinCalls_mono: "withinCalls p m \<Longrightarrow> m \<le> n \<Longrightarrow> withinCalls p n"
proof (induction p arbitrary: m n)
  case (Call c k)
  then show ?case by (auto intro: Call.IH [OF rangeI, of _ "m - 1"])
qed simp

lemma withinCalls_bind: "withinCalls p m \<Longrightarrow> (\<And>a. withinCalls (f a) n) \<Longrightarrow> withinCalls (bindProg p f) (m + n)"
proof (induction p arbitrary: m)
  case (Return a)
  then show ?case using withinCalls_mono [of "f a" n "m + n"] by simp
next
  case (Call c k)
  have "withinCalls (bindProg (k rep) f) (m - 1 + n)" for rep
    by (rule Call.IH [OF rangeI]) (use Call.prems in simp_all)
  moreover from Call.prems(1) have "m - 1 + n = m + n - 1" by simp
  ultimately show ?case using Call.prems(1) by simp
qed

section \<open>Interleavings\<close>

type_synonym thread = "event \<times> response prog"

datatype action = Arrive event | Proceed nat

fun stepConf :: "libs \<Rightarrow> action \<Rightarrow> Server \<times> thread list \<Rightarrow> Server \<times> thread list" where
  "stepConf lb (Arrive (e, ep, r)) (sv, ts) = (sv, ts @ [((e, ep, r), serveProg lb e ep r sv)])"
| "stepConf lb (Proceed i) (sv, ts) =
     (if i < length ts
      then (case snd (ts ! i) of
              Return resp \<Rightarrow> (sv, ts)
            | Call c k \<Rightarrow> (execCall c sv, ts[i := (fst (ts ! i), k (replyOf c sv))]))
      else (sv, ts))"

text \<open>The call an action makes, with the thread that makes it and the reply.\<close>

fun callMade :: "action \<Rightarrow> Server \<times> thread list \<Rightarrow> (nat \<times> call \<times> reply) option" where
  "callMade (Arrive ev) conf = None"
| "callMade (Proceed i) (sv, ts) =
     (if i < length ts then (case snd (ts ! i) of Return resp \<Rightarrow> None | Call c k \<Rightarrow> Some (i, c, replyOf c sv)) else None)"

definition interleaved :: "libs \<Rightarrow> action list \<Rightarrow> Server \<times> thread list \<Rightarrow> Server \<times> thread list" where
  "interleaved lb sched conf = fold (stepConf lb) sched conf"

definition callTrace :: "libs \<Rightarrow> action list \<Rightarrow> Server \<times> thread list \<Rightarrow> (nat \<times> call \<times> reply) list" where
  "callTrace lb sched conf = observe callMade (stepConf lb) sched conf"

lemma interleaved_simps [simp]:
  "interleaved lb [] conf = conf" "interleaved lb (a # sched) conf = interleaved lb sched (stepConf lb a conf)"
  "interleaved lb (sched @ sched') conf = interleaved lb sched' (interleaved lb sched conf)"
  by (simp_all add: interleaved_def)

lemma observe_append: "observe obs exec (ops @ ops') s = observe obs exec ops s @ observe obs exec ops' (fold exec ops s)"
  by (induction ops arbitrary: s) simp_all

lemma callTrace_snoc:
  "callTrace lb (sched @ [a]) conf = callTrace lb sched conf @ (case callMade a (interleaved lb sched conf) of None \<Rightarrow> [] | Some ev \<Rightarrow> [ev])"
  by (simp add: callTrace_def observe_append interleaved_def)

lemma stepConf_cases:
  obtains (arrive) e ep r where "a = Arrive (e, ep, r)" "stepConf lb a (sv, ts) = (sv, ts @ [((e, ep, r), serveProg lb e ep r sv)])"
      "callMade a (sv, ts) = None"
  | (call) i c k where "a = Proceed i" "i < length ts" "snd (ts ! i) = Call c k"
      "stepConf lb a (sv, ts) = (execCall c sv, ts[i := (fst (ts ! i), k (replyOf c sv))])" "callMade a (sv, ts) = Some (i, c, replyOf c sv)"
  | (idle) i where "a = Proceed i" "stepConf lb a (sv, ts) = (sv, ts)" "callMade a (sv, ts) = None" "i < length ts \<longrightarrow> (\<exists>resp. snd (ts ! i) = Return resp)"
proof (cases a)
  case (Arrive ev)
  then show ?thesis using arrive by (cases ev) auto
next
  case (Proceed i)
  then show ?thesis
  proof (cases "i < length ts")
    case True
    then show ?thesis using Proceed call idle by (cases "snd (ts ! i)") auto
  next
    case False
    with Proceed show ?thesis by (intro idle [of i]) simp_all
  qed
qed

text \<open>
  What the interleavings of programs keep: an invariant of the server that every call in \<open>G\<close> keeps and under which the replies satisfy
  \<open>R\<close>, when the requests that arrive run programs which obey \<open>G\<close> under \<open>R\<close>.
\<close>

locale interleaving =
  fixes lb :: libs
    and inv :: "Server \<Rightarrow> bool"
    and G :: "call \<Rightarrow> bool"
    and R :: "call \<Rightarrow> reply \<Rightarrow> bool"
    and admitted :: "event \<Rightarrow> bool"
  assumes program: "inv sv \<Longrightarrow> admitted (e, ep, r) \<Longrightarrow> obeys G R (\<lambda>_. True) (serveProg lb e ep r sv)"
    and reply: "inv sv \<Longrightarrow> G c \<Longrightarrow> R c (replyOf c sv)"
    and call: "inv sv \<Longrightarrow> G c \<Longrightarrow> inv (execCall c sv)"
begin

lemma step_keeps:
  assumes "inv sv" "\<forall>t \<in> set ts. obeys G R (\<lambda>_. True) (snd t)" "\<And>ev. a = Arrive ev \<Longrightarrow> admitted ev" "stepConf lb a (sv, ts) = (sv', ts')"
  shows "inv sv'" "\<forall>t \<in> set ts'. obeys G R (\<lambda>_. True) (snd t)" "sv' = sv \<or> (\<exists>c. G c \<and> sv' = execCall c sv)"
proof -
  have "inv sv' \<and> (\<forall>t \<in> set ts'. obeys G R (\<lambda>_. True) (snd t)) \<and> (sv' = sv \<or> (\<exists>c. G c \<and> sv' = execCall c sv))"
  proof (cases rule: stepConf_cases [where a = a and lb = lb and sv = sv and ts = ts])
    case (arrive e ep r)
    then show ?thesis using assms program [OF assms(1), of e ep r] by auto
  next
    case (call i c k)
    then have k: "G c" "\<And>rep. R c rep \<Longrightarrow> obeys G R (\<lambda>_. True) (k rep)"
      using assms(2) nth_mem [OF call(2)] by fastforce+
    then show ?thesis
      using call assms reply [OF assms(1) k(1)] interleaving.call [OF interleaving_axioms assms(1) k(1)] set_update_subset_insert [of ts i]
      by fastforce
  next
    case (idle i)
    then show ?thesis using assms by auto
  qed
  then show "inv sv'" "\<forall>t \<in> set ts'. obeys G R (\<lambda>_. True) (snd t)" "sv' = sv \<or> (\<exists>c. G c \<and> sv' = execCall c sv)" by blast+
qed

lemma run_keeps:
  assumes "inv sv" "\<forall>t \<in> set ts. obeys G R (\<lambda>_. True) (snd t)" "\<forall>ev. Arrive ev \<in> set sched \<longrightarrow> admitted ev"
    and "interleaved lb sched (sv, ts) = (sv', ts')"
  shows "inv sv'" "\<forall>t \<in> set ts'. obeys G R (\<lambda>_. True) (snd t)"
proof -
  have "inv sv' \<and> (\<forall>t \<in> set ts'. obeys G R (\<lambda>_. True) (snd t))"
    using assms
  proof (induction sched arbitrary: sv ts)
    case (Cons a sched)
    obtain sv1 ts1 where s: "stepConf lb a (sv, ts) = (sv1, ts1)" by fastforce
    note kept = step_keeps [OF Cons.prems(1,2) _ s]
    have "inv sv1" "\<forall>t \<in> set ts1. obeys G R (\<lambda>_. True) (snd t)" using kept(1,2) Cons.prems(3) by auto
    with Cons.IH Cons.prems(3,4) s show ?case by simp
  qed simp
  then show "inv sv'" "\<forall>t \<in> set ts'. obeys G R (\<lambda>_. True) (snd t)" by blast+
qed

text \<open>A property that every call in \<open>G\<close> keeps lasts from the moment it holds.\<close>

lemma run_lasts:
  assumes "inv sv" "\<forall>t \<in> set ts. obeys G R (\<lambda>_. True) (snd t)" "\<forall>ev. Arrive ev \<in> set sched \<longrightarrow> admitted ev"
    and "P sv" "\<And>sv c. P sv \<Longrightarrow> G c \<Longrightarrow> P (execCall c sv)"
  shows "P (fst (interleaved lb sched (sv, ts)))"
  using assms(1-4)
proof (induction sched arbitrary: sv ts)
  case (Cons a sched)
  obtain sv1 ts1 where s: "stepConf lb a (sv, ts) = (sv1, ts1)" by fastforce
  note kept = step_keeps [OF Cons.prems(1,2) _ s]
  have "inv sv1" "\<forall>t \<in> set ts1. obeys G R (\<lambda>_. True) (snd t)" "P sv1" using kept Cons.prems(3,4) assms(5) by auto
  with Cons.IH Cons.prems(3) s show ?case by simp
qed simp

end


section \<open>Every grant in the store is authorized, in every interleaving\<close>

fun grantCall :: "clientRegistry \<Rightarrow> call \<Rightarrow> bool" where
  "grantCall reg (StoreCall op) = opGrantOk reg op"
| "grantCall reg (IsDenied now jti) = True"
| "grantCall reg (Allow now ip) = True"

definition grantReply :: "clientRegistry \<Rightarrow> call \<Rightarrow> reply \<Rightarrow> bool" where
  "grantReply reg c rep \<longleftrightarrow> (\<forall>ac. codeOf rep = Some ac \<longrightarrow> codeGrantOk reg ac) \<and> (\<forall>f. fst (refreshOf rep) = Some f \<longrightarrow> refreshGrantOk reg f)"

lemma issueTokensProg_grants:
  assumes "refreshGrantOk reg (refreshFor ctx 0)"
  shows "obeys (grantCall reg) (grantReply reg) (\<lambda>_. True) (issueAndWriteProg lb e hdr ctx sv)"
  using assms
  by (simp add: issueAndWriteProg_def obeys_bind issueTokensProg_def refreshFor_def Let_def split: option.split sum.split)

lemma codeGrantProg_grants: "obeys (grantCall reg) (grantReply reg) (\<lambda>_. True) (codeGrantProg lb e hdr r sv)"
proof -
  have "obeys (grantCall reg) (grantReply reg) (\<lambda>_. True) (issueAndWriteProg lb (later 2 e) hdr (codeContext ac family) sv)"
    if "codeGrantOk reg ac" for ac family
    using that by (intro issueTokensProg_grants) (auto simp: codeGrantOk_def refreshGrantOk_def refreshFor_def)
  then show ?thesis
    by (auto simp: codeGrantProg_def grantReply_def Let_def split: option.split sum.split)
qed

lemma refreshGrantProg_grants: "obeys (grantCall reg) (grantReply reg) (\<lambda>_. True) (refreshGrantProg lb e hdr r sv)"
proof -
  have "obeys (grantCall reg) (grantReply reg) (\<lambda>_. True) (issueAndWriteProg lb (later 3 e) hdr (refreshContext f) sv)"
    if "refreshGrantOk reg f" for f
    using that by (intro issueTokensProg_grants) (auto simp: refreshGrantOk_def refreshFor_def)
  then show ?thesis
    by (auto simp: refreshGrantProg_def grantReply_def Let_def split: option.split sum.split)
qed

lemma authorizePostProg_grants:
  assumes "registryOk up (sv_clients sv)"
  shows "obeys (grantCall (sv_clients sv)) R (\<lambda>_. True) (authorizePostProg lb e r sv)"
proof -
  have "codeGrantOk (sv_clients sv) (codeFor (rq_PostForm r) (sj_Sub who) 0)"
    if csrf: "oauthParamsOf r = Some params" "verify (sv_csrf sv) (e_now e 0) ''/authorize'' params (csrfNonce r) (Get (rq_PostForm r) ''csrf_token'')"
      and ctx: "authorizeContext lb (later 2 e) r (rq_PostForm r) sv = Inr (who, rc, q)" for who rc q params
  proof -
    \<comment> \<open>the limiter does not matter for the grant\<close>
    let ?sv = "sv\<lparr>sv_limiter := None\<rparr>"
    obtain u where "loginAccepted lb e r ?sv rc u" "sj_Sub who = u_Username u"
      using csrf ctx by (auto simp: loginAccepted_def authorizeContext_Inr allow_def)
    with loginAccepted_grant(1) [of up ?sv lb e r rc u 0] assms show ?thesis by simp
  qed
  then show ?thesis
    by (auto simp: authorizePostProg_def completeAuthorizeProg_def Let_def authorizeContext_Inr codeFor_context split: option.split sum.split)
qed

lemma parseAccessProg_reads: "(\<And>n j. G (IsDenied n j)) \<Longrightarrow> (\<And>res. Q res) \<Longrightarrow> obeys G R Q (parseAccessProg lb e tok ra sv)"
  by (simp add: parseAccessProg_def split: sum.split)

lemma serveProg_grants:
  assumes "registryOk up (sv_clients sv)"
  shows "obeys (grantCall (sv_clients sv)) (grantReply (sv_clients sv)) (\<lambda>_. True) (serveProg lb e ep r sv)"
proof -
  let ?obeys = "\<lambda>p. obeys (grantCall (sv_clients sv)) (grantReply (sv_clients sv)) (\<lambda>_. True) (p :: response prog)"
  have "?obeys (tokenProg lb e r sv)"
    by (simp add: tokenProg_def Let_def codeGrantProg_grants refreshGrantProg_grants clientCredentialsGrantProg_def issueClientCredentialsProg_def obeys_bind
        split: sum.split option.split)
  moreover have "?obeys (userinfoProg lb e r sv)" "?obeys (introspectProg lb e r sv)"
    by (simp_all add: userinfoProg_def introspectProg_def obeys_bind parseAccessProg_reads Let_def split: sum.split)
  moreover have "?obeys (revokeProg lb e r sv)"
    by (simp add: revokeProg_def revokePresentedProg_def obeys_bind Let_def split: sum.split)
      (auto intro!: parseAccessProg_reads split: sum.split)
  moreover have "?obeys (endSessionProg lb e r sv)"
    by (simp add: endSessionProg_def endSessionHintProg_def obeys_bind Let_def split: sum.split option.split)
  ultimately have "?obeys (handleProg lb e ep r sv)"
    using authorizePostProg_grants [OF assms] by (cases ep) (simp_all add: handleProg_def)
  then show ?thesis by (simp add: serveProg_def obeys_bind)
qed

interpretation grants: interleaving lb "\<lambda>sv. sv_clients sv = reg \<and> serverOk up sv" "grantCall reg" "grantReply reg" "\<lambda>_. True" for lb reg up
proof
  fix sv e ep r
  assume "sv_clients sv = reg \<and> serverOk up sv"
  then show "obeys (grantCall reg) (grantReply reg) (\<lambda>_. True) (serveProg lb e ep r sv)"
    using serveProg_grants by (auto simp: serverOk_def)
next
  fix sv c
  assume inv: "sv_clients sv = reg \<and> serverOk up sv"
  then have ok: "storeGrantsOk reg (sv_store sv)" by (auto simp: serverOk_def)
  show "grantReply reg c (replyOf c sv)"
  proof (cases c)
    case (StoreCall op)
    with ok show ?thesis
      by (cases op) (auto simp: grantReply_def storeGrantsOk_def dest: takeCode_Some takeRefresh_Some(1))
  qed (simp_all add: grantReply_def)
  assume "grantCall reg c"
  with inv show "sv_clients (execCall c sv) = reg \<and> serverOk up (execCall c sv)"
    by (cases c) (auto simp: serverOk_def storeGrantsOk_execOp)
qed

text \<open>
  C4. Every grant stands for an authorization, whatever runs at the same time: in every interleaving of any requests to a started server,
  each stored code and refresh token belongs to a registered client and one of its users and carries only scopes of that client.
\<close>

theorem interleaved_grants_authorized:
  assumes "minidp args w = Some (Serving sv)"
  shows "serverOk (w_url w) (fst (interleaved lb sched (sv, [])))"
  using grants.run_keeps(1) [where sv = sv and reg = "sv_clients sv" and up = "w_url w" and ts = "[]" and sched = sched and lb = lb] started(1) [OF assms]
  by (cases "interleaved lb sched (sv, [])") auto

section \<open>Every request is answered\<close>

lemma serveProg_within: "withinCalls (serveProg lb e ep r sv) 3"
proof -
  have issue: "withinCalls (issueAndWriteProg lb e' hdr ctx sv) 2" for e' hdr ctx
    by (simp add: issueAndWriteProg_def issueTokensProg_def Let_def split: option.split sum.split)
  have "withinCalls (tokenProg lb e r sv) 3"
    by (simp add: tokenProg_def codeGrantProg_def refreshGrantProg_def clientCredentialsGrantProg_def issueClientCredentialsProg_def issue Let_def
        split: option.split sum.split)
  moreover have "withinCalls (authorizePostProg lb e r sv) 3"
    by (simp add: authorizePostProg_def completeAuthorizeProg_def Let_def split: option.split sum.split)
  moreover have "withinCalls (userinfoProg lb e r sv) 3" "withinCalls (introspectProg lb e r sv) 3" "withinCalls (revokeProg lb e r sv) 3"
    by (simp_all add: userinfoProg_def introspectProg_def revokeProg_def revokePresentedProg_def parseAccessProg_def Let_def split: sum.split option.split)
  moreover have "withinCalls (endSessionProg lb e r sv) 3"
    by (simp add: endSessionProg_def endSessionHintProg_def Let_def split: sum.split option.split)
  ultimately have "withinCalls (handleProg lb e ep r sv) 3" by (cases ep) (simp_all add: handleProg_def)
  then have "withinCalls (bindProg (handleProg lb e ep r sv) (\<lambda>resp. Return (f resp))) 3" for f
    using withinCalls_bind [of "handleProg lb e ep r sv" 3 "\<lambda>resp. Return (f resp)" 0] by simp
  from this [of "\<lambda>resp. resp\<lparr>rs_Header := corsHeaders sv r @ rs_Header resp\<rparr>"] show ?thesis by (simp add: serveProg_def)
qed

lemma threads_within:
  assumes "\<forall>t \<in> set ts. withinCalls (snd t) 3"
  shows "\<forall>t \<in> set (snd (interleaved lb sched (sv, ts))). withinCalls (snd t) 3"
  using assms
proof (induction sched arbitrary: sv ts)
  case (Cons a sched)
  have "\<forall>t \<in> set (snd (stepConf lb a (sv, ts))). withinCalls (snd t) 3"
  proof (cases rule: stepConf_cases [where a = a and lb = lb and sv = sv and ts = ts])
    case (arrive e ep r)
    with Cons.prems serveProg_within show ?thesis by auto
  next
    case (call i c k)
    then have "withinCalls (k rep) 3" for rep
      using Cons.prems nth_mem [OF call(2)] withinCalls_mono [of "k rep" 2 3] by fastforce
    with Cons.prems call show ?thesis using set_update_subset_insert [of ts i] by fastforce
  next
    case (idle i)
    with Cons.prems show ?thesis by auto
  qed
  then show ?case using Cons.IH by (cases "stepConf lb a (sv, ts)") simp
qed simp

lemma arrived_threads:
  assumes "interleaved lb sched (sv, []) = (sv', ts)" "t \<in> set ts"
  shows "Arrive (fst t) \<in> set sched"
  using assms
proof (induction sched arbitrary: sv' ts t rule: rev_induct)
  case (snoc a sched)
  obtain sv1 ts1 where one: "interleaved lb sched (sv, []) = (sv1, ts1)" by fastforce
  then have step: "stepConf lb a (sv1, ts1) = (sv', ts)" using snoc.prems(1) by simp
  show ?case
  proof (cases rule: stepConf_cases [where a = a and lb = lb and sv = sv1 and ts = ts1])
    case (arrive e ep r)
    then have "t \<in> set ts1 \<or> fst t = (e, ep, r)" using snoc.prems(2) step by auto
    with snoc.IH [OF one, of t] arrive(1) show ?thesis by auto
  next
    case (call i c k)
    then have "t \<in> insert (fst (ts1 ! i), k (replyOf c sv1)) (set ts1)"
      using step snoc.prems(2) set_update_subset_insert [of ts1 i "(fst (ts1 ! i), k (replyOf c sv1))"] by auto
    with snoc.IH [OF one] nth_mem [OF call(2)] show ?thesis by fastforce
  next
    case (idle i)
    with snoc.IH [OF one] snoc.prems(2) step show ?thesis by auto
  qed
qed simp

lemma turns_answer:
  assumes "i < length ts" "withinCalls (snd (ts ! i)) (count_list sched (Proceed i))"
  shows "\<exists>resp. snd (snd (interleaved lb sched (sv, ts)) ! i) = Return resp \<and> i < length (snd (interleaved lb sched (sv, ts)))"
  using assms
proof (induction sched arbitrary: sv ts)
  case Nil
  then show ?case by (cases "snd (ts ! i)") auto
next
  case (Cons a sched)
  show ?case
  proof (cases rule: stepConf_cases [where a = a and lb = lb and sv = sv and ts = ts])
    case (arrive e ep r)
    with Cons show ?thesis by (simp add: nth_append)
  next
    case (call j c k)
    with Cons show ?thesis by (cases "j = i") auto
  next
    case (idle j)
    then have "withinCalls (snd (ts ! i)) (count_list sched (Proceed i))"
      using Cons.prems by (cases "j = i") auto
    with idle Cons show ?thesis by simp
  qed
qed

text \<open>
  Every request is answered after at most three turns, whatever the other requests do meanwhile: no handler loops or waits for another
  one, so a request that has arrived has its response as soon as the schedule has let it proceed three times.
\<close>

theorem requests_answered:
  assumes "interleaved lb sched (sv, []) = (sv', ts)" "i < length ts" "count_list sched' (Proceed i) \<ge> 3"
  shows "\<exists>resp. snd (snd (interleaved lb sched' (sv', ts)) ! i) = Return resp"
proof -
  have "withinCalls (snd (ts ! i)) 3" using threads_within [of "[]" lb sched sv] assms(1,2) by auto
  then have "withinCalls (snd (ts ! i)) (count_list sched' (Proceed i))" using assms(3) by (rule withinCalls_mono)
  from turns_answer [OF assms(2) this] show ?thesis by blast
qed


section \<open>A code is exchanged once, in every interleaving\<close>

definition addedCode :: "nat \<times> call \<times> reply \<Rightarrow> string option" where
  "addedCode ev = (case ev of (i, StoreCall (AddCode n1 rnd n2 c ttl), TokenReply (Inr tok)) \<Rightarrow> Some tok | _ \<Rightarrow> None)"

definition takenCode :: "nat \<times> call \<times> reply \<Rightarrow> string option" where
  "takenCode ev = (case ev of (i, StoreCall (TakeCode n1 n2 tok), CodeReply (Some ac)) \<Rightarrow> Some tok | _ \<Rightarrow> None)"

lemma storeCall_codes:
  "addedCode (i, StoreCall op, storeReply op s) = issuedCode op s" "takenCode (i, StoreCall op, storeReply op s) = redeemedCode op s"
  by (cases op; simp add: addedCode_def takenCode_def split: sum.split option.split)+

lemma otherCall_codes:
  "addedCode (i, IsDenied n j, rep) = None" "takenCode (i, IsDenied n j, rep) = None"
  "addedCode (i, Allow n ip, rep) = None" "takenCode (i, Allow n ip, rep) = None"
  by (simp_all add: addedCode_def takenCode_def)

interpretation codeCalls: oneshot "stepConf lb" "\<lambda>conf. dom (codes (sv_store (fst conf)))" "\<lambda>a conf. Option.bind (callMade a conf) addedCode"
    "\<lambda>a conf. Option.bind (callMade a conf) takenCode" for lb
proof
  fix a and conf :: "Server \<times> thread list"
  obtain sv ts where conf: "conf = (sv, ts)" by (cases conf)
  show "dom (codes (sv_store (fst (stepConf lb a conf)))) \<subseteq> dom (codes (sv_store (fst conf))) \<union> set_option (Option.bind (callMade a conf) addedCode)"
    unfolding conf
  proof (cases rule: stepConf_cases [where a = a and lb = lb and sv = sv and ts = ts])
    case (call i c k)
    then show "dom (codes (sv_store (fst (stepConf lb a (sv, ts))))) \<subseteq> dom (codes (sv_store (fst (sv, ts)))) \<union> set_option (Option.bind (callMade a (sv, ts)) addedCode)"
      using codesOnce.live_exec [of _ "sv_store sv"] by (cases c) (simp_all add: storeCall_codes)
  qed simp_all
  fix code
  assume taken: "Option.bind (callMade a conf) takenCode = Some code"
  have "code \<in> dom (codes (sv_store sv)) \<and> code \<notin> dom (codes (sv_store (fst (stepConf lb a (sv, ts)))))
      \<and> Option.bind (callMade a (sv, ts)) addedCode = None"
  proof (cases rule: stepConf_cases [where a = a and lb = lb and sv = sv and ts = ts])
    case (call i c k)
    then show ?thesis
      using taken codesOnce.takes_live [of _ "sv_store sv" code] codesOnce.takes_removes [of _ "sv_store sv" code]
        codesOnce.takes_puts [of _ "sv_store sv" code] unfolding conf
      by (cases c) (simp_all add: storeCall_codes otherCall_codes)
  qed (use taken conf in simp_all)
  then show "code \<in> dom (codes (sv_store (fst conf)))" "code \<notin> dom (codes (sv_store (fst (stepConf lb a conf))))"
    "Option.bind (callMade a conf) addedCode = None" unfolding conf by simp_all
qed

lemma observe_bind: "observe (\<lambda>a s. Option.bind (obs a s) g) exec ops s = List.map_filter g (observe obs exec ops s)"
  by (induction ops arbitrary: s) (auto simp: map_filter_append List.map_filter_simps split: option.splits)

lemma map_filter_distinctD:
  assumes "distinct (List.map_filter g xs)" "x \<in> set xs" "y \<in> set xs" "g x = Some v" "g y = Some v"
  shows "x = y"
proof (rule ccontr)
  assume "x \<noteq> y"
  obtain us vs where xs: "xs = us @ x # vs" using assms(2) by (meson split_list)
  then have "y \<in> set us \<union> set vs" using assms(3) \<open>x \<noteq> y\<close> by auto
  then have "v \<in> set (List.map_filter g us) \<union> set (List.map_filter g vs)" using assms(5) by (force simp: set_map_filter)
  then show False using assms(1,4) by (auto simp: xs map_filter_append List.map_filter_simps)
qed

text \<open>The history of a thread: it still obeys its rules, or one of the replies it got has broken the rely.\<close>

lemma thread_history:
  assumes "\<And>e ep r sv. obeys (\<lambda>_. True) (R (e, ep, r)) (Q (e, ep, r)) (serveProg lb e ep r sv)"
    and "interleaved lb sched (sv, []) = (sv', ts)" "i < length ts"
  shows "obeys (\<lambda>_. True) (R (fst (ts ! i))) (Q (fst (ts ! i))) (snd (ts ! i))
    \<or> (\<exists>c rep. (i, c, rep) \<in> set (callTrace lb sched (sv, [])) \<and> \<not> R (fst (ts ! i)) c rep)"
  using assms(2,3)
proof (induction sched arbitrary: sv' ts i rule: rev_induct)
  case (snoc a sched)
  obtain sv1 ts1 where one: "interleaved lb sched (sv, []) = (sv1, ts1)" by fastforce
  then have step: "stepConf lb a (sv1, ts1) = (sv', ts)" using snoc.prems(1) by simp
  note trace = callTrace_snoc [of lb sched a "(sv, [])", unfolded one]
  show ?case
  proof (cases rule: stepConf_cases [where a = a and lb = lb and sv = sv1 and ts = ts1])
    case (arrive e ep r)
    then show ?thesis
      using snoc.IH [OF one, of i] snoc.prems(2) step assms(1) [of e ep r sv1] trace by (cases "i < length ts1") (auto simp: nth_append)
  next
    case (call j c k)
    then have ts: "ts = ts1[j := (fst (ts1 ! j), k (replyOf c sv1))]" using step by simp
    then have i: "i < length ts1" using snoc.prems(2) by simp
    from snoc.IH [OF one i] trace call(5) ts show ?thesis
    proof (cases "i = j")
      case True
      with snoc.IH [OF one i] trace call ts show ?thesis
        by (cases "R (fst (ts1 ! j)) c (replyOf c sv1)") auto
    qed auto
  next
    case (idle j)
    then show ?thesis using snoc.IH [OF one, of i] snoc.prems(2) step trace by auto
  qed
qed simp

text \<open>The requests that exchange a code, and the reply that a successful one has got.\<close>

definition exchangesCode :: "event \<Rightarrow> bool" where
  "exchangesCode ev \<longleftrightarrow> (case ev of (e, ep, r) \<Rightarrow> ep = Token \<and> Get (rq_PostForm r) ''grant_type'' = ''authorization_code'')"

definition presentedCode :: "event \<Rightarrow> string" where
  "presentedCode ev = (case ev of (e, ep, r) \<Rightarrow> Get (rq_PostForm r) ''code'')"

lemma serveProg_exchange:
  "obeys (\<lambda>_. True) (\<lambda>c rep. takenCode (0, c, rep) \<noteq> Some (presentedCode (e, ep, r))) (\<lambda>resp. \<not> (exchangesCode (e, ep, r) \<and> rs_Status resp = 200))
     (serveProg lb e ep r sv)"
proof (cases "exchangesCode (e, ep, r) \<and> rq_Method r \<noteq> ''OPTIONS'' \<and> \<not> rq_ParseFormErr r")
  case True
  have "codeOf rep = None" if "takenCode (0, StoreCall (TakeCode n1 n2 (Get (rq_PostForm r) ''code'')), rep) \<noteq> Some (presentedCode (e, ep, r))" for n1 n2 rep
    using that by (cases rep) (auto simp: takenCode_def presentedCode_def split: option.splits)
  then have "obeys (\<lambda>_. True) (\<lambda>c rep. takenCode (0, c, rep) \<noteq> Some (presentedCode (e, ep, r))) (\<lambda>resp. rs_Status resp \<noteq> 200)
      (codeGrantProg lb e tokenHeaders r sv)"
    using authenticateClient_Inl_status [of tokenHeaders r sv]
    by (auto simp: codeGrantProg_def Let_def split: sum.split)
  with True show ?thesis
    by (auto simp: serveProg_def obeys_bind handleProg_def tokenProg_def exchangesCode_def Let_def)
next
  case False
  have any: "obeys (\<lambda>_. True) R (\<lambda>_. True) p" for R and p :: "response prog" by (induction p) auto
  show ?thesis
  proof (cases "exchangesCode (e, ep, r)")
    case True
    with False show ?thesis by (auto simp: exchangesCode_def serveProg_def handleProg_def tokenProg_def)
  qed (simp add: any)
qed

text \<open>The code of a request that has been answered with tokens for it.\<close>

definition exchangedIn :: "thread \<Rightarrow> string option" where
  "exchangedIn t = (case snd t of
     Return resp \<Rightarrow> if exchangesCode (fst t) \<and> rs_Status resp = 200 then Some (presentedCode (fst t)) else None
   | Call c k \<Rightarrow> None)"

lemma distinct_map_filterI:
  assumes "\<And>i j v. i < length xs \<Longrightarrow> j < length xs \<Longrightarrow> g (xs ! i) = Some v \<Longrightarrow> g (xs ! j) = Some v \<Longrightarrow> i = j"
  shows "distinct (List.map_filter g xs)"
  using assms
proof (induction xs)
  case (Cons x xs)
  have "distinct (List.map_filter g xs)" using Cons.IH Cons.prems [of "Suc _" "Suc _"] by auto
  moreover have "v \<notin> set (List.map_filter g xs)" if "g x = Some v" for v
  proof
    assume "v \<in> set (List.map_filter g xs)"
    then obtain y where "y \<in> set xs" "g y = Some v" by (auto simp: set_map_filter)
    then obtain i where "i < length xs" "g (xs ! i) = Some v" by (auto simp: in_set_conv_nth)
    with that Cons.prems [of 0 "Suc i" v] show False by simp
  qed
  ultimately show ?case by (auto simp: List.map_filter_simps split: option.split)
qed (simp add: List.map_filter_simps)

text \<open>
  C2. Codes are exchanged once, whatever runs at the same time: in every interleaving of any requests in which no code is drawn that was
  drawn or stored before, no two requests are answered with tokens for the same authorization code, and each code that is answered with
  tokens was in the store at the start or has been handed out by the login form since.
\<close>

theorem interleaved_exchange_once:
  assumes "distinct (List.map_filter addedCode (callTrace lb sched (sv, [])))"
    and "set (List.map_filter addedCode (callTrace lb sched (sv, []))) \<inter> dom (codes (sv_store sv)) = {}"
    and "interleaved lb sched (sv, []) = (sv', ts)"
  shows "distinct (List.map_filter exchangedIn ts)
    \<and> set (List.map_filter exchangedIn ts) \<subseteq> dom (codes (sv_store sv)) \<union> set (List.map_filter addedCode (callTrace lb sched (sv, [])))"
proof -
  let ?trace = "callTrace lb sched (sv, [])"
  have took: "\<exists>c rep. (n, c, rep) \<in> set ?trace \<and> takenCode (n, c, rep) = Some code"
    if n: "n < length ts" and answered: "exchangedIn (ts ! n) = Some code" for n code
  proof -
    obtain resp where r: "snd (ts ! n) = Return resp" "exchangesCode (fst (ts ! n))" "rs_Status resp = 200" "code = presentedCode (fst (ts ! n))"
      using answered by (auto simp: exchangedIn_def split: prog.splits if_splits)
    have "takenCode (n, c, rep) = takenCode (0, c, rep)" for c rep by (simp add: takenCode_def)
    moreover have "\<exists>c rep. (n, c, rep) \<in> set ?trace \<and> takenCode (0, c, rep) = Some (presentedCode (fst (ts ! n)))"
      using thread_history [where R = "\<lambda>ev c rep. takenCode (0, c, rep) \<noteq> Some (presentedCode ev)" and Q = "\<lambda>ev resp. \<not> (exchangesCode ev \<and> rs_Status resp = 200)",
          OF serveProg_exchange assms(3) n] r(1-3) by simp
    ultimately show ?thesis by (simp add: r(4))
  qed
  have trace: "observe (\<lambda>a conf. Option.bind (callMade a conf) f) (stepConf lb) sched (sv, []) = List.map_filter f ?trace" for f
    by (simp add: observe_bind callTrace_def)
  have "distinct (List.map_filter takenCode ?trace)"
    using codeCalls.taken_once [of lb sched "(sv, [])", unfolded trace] assms(1,2) by simp
  then have "distinct (List.map_filter exchangedIn ts)"
    using took map_filter_distinctD [where g = takenCode and xs = ?trace] by (intro distinct_map_filterI) (metis prod.inject)
  moreover have "set (List.map_filter takenCode ?trace) \<subseteq> dom (codes (sv_store sv)) \<union> set (List.map_filter addedCode ?trace)"
    using codeCalls.taken_from [of lb sched "(sv, [])", unfolded trace] by simp
  moreover have "set (List.map_filter exchangedIn ts) \<subseteq> set (List.map_filter takenCode ?trace)"
  proof
    fix code
    assume "code \<in> set (List.map_filter exchangedIn ts)"
    then obtain t where "t \<in> set ts" "exchangedIn t = Some code" by (auto simp: set_map_filter)
    then obtain n where "n < length ts" "exchangedIn (ts ! n) = Some code" by (auto simp: in_set_conv_nth)
    from took [OF this] show "code \<in> set (List.map_filter takenCode ?trace)" by (force simp: set_map_filter)
  qed
  ultimately show ?thesis by blast
qed

section \<open>Revocation lasts, in every interleaving\<close>

fun denialCall :: "string \<Rightarrow> time \<Rightarrow> call \<Rightarrow> bool" where
  "denialCall jti u (StoreCall op) = respectsDenial jti u op"
| "denialCall jti u (IsDenied now j) = (now < u)"
| "denialCall jti u (Allow now ip) = True"

text \<open>
  A request of a revocation does not shorten the denial: if the token it presents is one the server accepts and has this jti, it
  expires at \<open>u\<close> or later. (The revocation endpoint denies a jti until the expiry of the token that is presented.)
\<close>

definition deniesNoEarlier :: "libs \<Rightarrow> Server \<Rightarrow> string \<Rightarrow> time \<Rightarrow> event \<Rightarrow> bool" where
  "deniesNoEarlier lb sv jti u ev \<longleftrightarrow>
     (case ev of (e, ep, r) \<Rightarrow>
        ep \<noteq> Revoke \<or>
        (case requireClientAuth r sv of
           Inl resp \<Rightarrow> True
         | Inr r' \<Rightarrow>
             (case validAccessToken lb e (Get (rq_PostForm r') ''token'') False sv of
                Inl err \<Rightarrow> True
              | Inr claims \<Rightarrow>
                  claimString claims ''jti'' = jti \<longrightarrow>
                    (case jwtExpiry (lb_jwt lb) claims of Some (Some v) \<Rightarrow> u \<le> v | _ \<Rightarrow> False))))"

definition before :: "string \<Rightarrow> time \<Rightarrow> event \<Rightarrow> bool" where
  "before jti u ev \<longleftrightarrow> (\<forall>i. e_now (fst ev) i < u \<and> randomJTI (e_rand (fst ev) i) \<noteq> Inr jti)"

lemma deniesNoEarlier_setup:
  assumes "sameSetup sv sv'"
  shows "deniesNoEarlier lb sv' jti u ev = deniesNoEarlier lb sv jti u ev"
proof -
  have sv': "sv' = sv\<lparr>sv_store := sv_store sv', sv_limiter := sv_limiter sv'\<rparr>" using assms by (simp add: sameSetup_def)
  show ?thesis by (subst sv') (simp add: deniesNoEarlier_def lookups_setup(2) checks_setup(1) cong: sum.case_cong prod.case_cong)
qed

lemma revokeProg_denial:
  assumes "deniesNoEarlier lb sv jti u (e, Revoke, r)" "\<And>i. e_now e i < u"
  shows "obeys (denialCall jti u) (\<lambda>_ _. True) (\<lambda>_. True) (revokeProg lb e r sv)"
  using assms
  by (auto simp: revokeProg_def revokePresentedProg_def obeys_bind parseAccessProg_def deniesNoEarlier_def Let_def
      split: sum.splits option.splits)

lemma serveProg_denial:
  assumes "before jti u (e, ep, r)" "deniesNoEarlier lb sv jti u (e, ep, r)"
  shows "obeys (denialCall jti u) (\<lambda>_ _. True) (\<lambda>_. True) (serveProg lb e ep r sv)"
proof -
  have t: "e_now e i < u" "e_now e i \<le> u" "randomJTI (e_rand e i) \<noteq> Inr jti" for i using assms(1) by (auto simp: before_def less_imp_le)
  let ?obeys = "\<lambda>p. obeys (denialCall jti u) (\<lambda>_ _. True) (\<lambda>_. True) (p :: response prog)"
  have issue: "?obeys (issueAndWriteProg lb (later n e) hdr ctx sv)" for n hdr ctx
    using t(3) [of n] by (auto simp: issueAndWriteProg_def obeys_bind issueTokensProg_def registeredClaims_def t(2) Let_def split: option.split sum.split)
  have "?obeys (clientCredentialsGrantProg lb e hdr r sv)" for hdr
    using t(3) [of 0]
    by (auto simp: clientCredentialsGrantProg_def issueClientCredentialsProg_def obeys_bind Let_def split: option.split sum.split)
  then have "?obeys (tokenProg lb e r sv)"
    by (simp add: tokenProg_def codeGrantProg_def refreshGrantProg_def issue t Let_def split: option.split sum.split)
  moreover have "?obeys (authorizePostProg lb e r sv)"
    by (simp add: authorizePostProg_def completeAuthorizeProg_def t Let_def split: option.split sum.split)
  moreover have "?obeys (userinfoProg lb e r sv)" "?obeys (introspectProg lb e r sv)"
    by (simp_all add: userinfoProg_def introspectProg_def obeys_bind parseAccessProg_def t Let_def split: sum.split)
  moreover have "ep = Revoke \<Longrightarrow> ?obeys (revokeProg lb e r sv)"
    using revokeProg_denial [OF _ t(1)] assms(2) by simp
  moreover have "?obeys (endSessionProg lb e r sv)"
    by (simp add: endSessionProg_def endSessionHintProg_def obeys_bind Let_def split: sum.split option.split)
  ultimately have "?obeys (handleProg lb e ep r sv)" by (cases ep) (simp_all add: handleProg_def)
  then show ?thesis by (simp add: serveProg_def obeys_bind)
qed

lemma sameSetup_execCall: "sameSetup sv0 sv \<Longrightarrow> sameSetup sv0 (execCall c sv)"
  by (erule sameSetup_trans) (cases c, simp_all)

interpretation denials: interleaving lb "sameSetup sv0" "denialCall jti u" "\<lambda>_ _. True" "\<lambda>ev. before jti u ev \<and> deniesNoEarlier lb sv0 jti u ev"
  for lb sv0 jti u
  by unfold_locales (auto intro: serveProg_denial sameSetup_execCall simp: deniesNoEarlier_setup)

lemma denied_call: "deniedUntil jti u (sv_store sv) \<Longrightarrow> denialCall jti u c \<Longrightarrow> deniedUntil jti u (sv_store (execCall c sv))"
  by (cases c) (simp_all add: deniedUntil_execOp)

text \<open>
  C10. Revocation lasts, whatever runs at the same time: once an access token's jti is denied until its expiry \<open>u\<close>, then in every
  continuation of the interleaving, also by requests that were already under way, each look at the denylist before \<open>u\<close> finds the
  token denied; so no request that looks it up from then on accepts the token. This holds for schedules before \<open>u\<close> in which no request
  draws the same jti again and no revocation request presents another accepted token of the same jti that expires earlier or never.
\<close>

theorem interleaved_revocation_lasts:
  assumes "\<forall>ev. Arrive ev \<in> set (sched @ sched') \<longrightarrow> before jti u ev \<and> deniesNoEarlier lb sv jti u ev"
    and "interleaved lb sched (sv, []) = (sv1, ts1)" "deniedUntil jti u (sv_store sv1)"
    and "(i, IsDenied now jti, rep) \<in> set (callTrace lb sched' (sv1, ts1))"
  shows "rep = BoolReply True"
proof -
  have adm: "\<forall>ev. Arrive ev \<in> set sched \<longrightarrow> before jti u ev \<and> deniesNoEarlier lb sv jti u ev"
    "\<forall>ev. Arrive ev \<in> set sched' \<longrightarrow> before jti u ev \<and> deniesNoEarlier lb sv jti u ev" using assms(1) by simp_all
  have "sameSetup sv sv1"
    by (rule denials.run_keeps(1) [OF _ _ adm(1) assms(2)]) simp_all
  moreover have "\<forall>t \<in> set ts1. obeys (denialCall jti u) (\<lambda>_ _. True) (\<lambda>_. True) (snd t)"
    by (rule denials.run_keeps(2) [OF _ _ adm(1) assms(2)]) simp_all
  moreover note adm(2)
  ultimately show ?thesis
    using assms(3,4)
  proof (induction sched' arbitrary: sv1 ts1)
    case (Cons a sched')
    obtain sv2 ts2 where s: "stepConf lb a (sv1, ts1) = (sv2, ts2)" by fastforce
    have adm: "\<And>ev. a = Arrive ev \<Longrightarrow> before jti u ev \<and> deniesNoEarlier lb sv jti u ev" using Cons.prems(3) by auto
    note kept = denials.step_keeps [where lb = lb and jti = jti and u = u, OF Cons.prems(1,2) adm s]
    have den: "deniedUntil jti u (sv_store sv2)" using kept(3) Cons.prems(4) denied_call by blast
    consider (now) "callMade a (sv1, ts1) = Some (i, IsDenied now jti, rep)" | (afterwards) "(i, IsDenied now jti, rep) \<in> set (callTrace lb sched' (sv2, ts2))"
      using Cons.prems(5) s by (auto simp: callTrace_def split: option.splits)
    then show ?case
    proof cases
      case now
      then obtain k where k: "i < length ts1" "snd (ts1 ! i) = Call (IsDenied now jti) k" "rep = BoolReply (isDeniedJTI now jti (sv_store sv1))"
        by (cases rule: stepConf_cases [where a = a and lb = lb and sv = sv1 and ts = ts1]) auto
      then have "now < u" using Cons.prems(2) nth_mem [OF k(1)] by fastforce
      with k(3) Cons.prems(4) show ?thesis by (auto simp: deniedUntil_def isDeniedJTI_def)
    next
      case afterwards
      with Cons.IH [OF kept(1,2) _ den] Cons.prems(3) show ?thesis by simp
    qed
  qed (simp add: callTrace_def)
qed

section \<open>Logout is final, for every request that is not between its two calls\<close>

definition refreshes :: "event \<Rightarrow> bool" where
  "refreshes ev \<longleftrightarrow> (case ev of (e, ep, r) \<Rightarrow> ep = Token \<and> Get (rq_PostForm r) ''grant_type'' = ''refresh_token'')"

definition drawsNot :: "string \<Rightarrow> event \<Rightarrow> bool" where
  "drawsNot fam ev \<longleftrightarrow> (\<forall>i. randomToken (e_rand (fst ev) i) \<noteq> Inr fam)"

fun familyCall :: "string \<Rightarrow> call \<Rightarrow> bool" where
  "familyCall fam (StoreCall (AddRefresh n1 rnd n2 f ttl)) = (re_Family f \<noteq> fam)"
| "familyCall fam _ = True"

definition familyReply :: "string \<Rightarrow> call \<Rightarrow> reply \<Rightarrow> bool" where
  "familyReply fam c rep \<longleftrightarrow> (\<forall>f. fst (refreshOf rep) = Some f \<longrightarrow> re_Family f \<noteq> fam)"

lemma issueAndWriteProg_family:
  "cx_Family ctx \<noteq> fam \<Longrightarrow> obeys (familyCall fam) R (\<lambda>_. True) (issueAndWriteProg lb e hdr ctx sv)"
  by (simp add: issueAndWriteProg_def obeys_bind issueTokensProg_def Let_def split: option.split sum.split)

lemma codeGrantProg_family:
  assumes "drawsNot fam (e, ep, r)"
  shows "obeys (familyCall fam) R (\<lambda>_. True) (codeGrantProg lb e hdr r sv)"
  using assms
  by (auto simp: codeGrantProg_def drawsNot_def Let_def intro!: issueAndWriteProg_family split: option.split sum.split)

lemma refreshGrantProg_family: "obeys (familyCall fam) (familyReply fam) (\<lambda>_. True) (refreshGrantProg lb e hdr r sv)"
  by (auto simp: refreshGrantProg_def familyReply_def Let_def intro!: issueAndWriteProg_family split: option.split sum.split)

lemma serveProg_family:
  assumes "drawsNot fam (e, ep, r)" "refreshes (e, ep, r) \<Longrightarrow> R = familyReply fam"
  shows "obeys (familyCall fam) R (\<lambda>_. True) (serveProg lb e ep r sv)"
proof -
  let ?obeys = "\<lambda>p. obeys (familyCall fam) R (\<lambda>_. True) (p :: response prog)"
  have "?obeys (clientCredentialsGrantProg lb e hdr r sv)" for hdr
    by (simp add: clientCredentialsGrantProg_def issueClientCredentialsProg_def obeys_bind Let_def split: option.split sum.split)
  then have "ep = Token \<Longrightarrow> ?obeys (tokenProg lb e r sv)"
    using codeGrantProg_family [OF assms(1)] refreshGrantProg_family assms(2) by (auto simp: tokenProg_def refreshes_def Let_def)
  moreover have "?obeys (authorizePostProg lb e r sv)"
    by (simp add: authorizePostProg_def completeAuthorizeProg_def Let_def split: option.split sum.split)
  moreover have "?obeys (userinfoProg lb e r sv)" "?obeys (introspectProg lb e r sv)" "?obeys (revokeProg lb e r sv)" "?obeys (endSessionProg lb e r sv)"
    by (simp_all add: userinfoProg_def introspectProg_def revokeProg_def revokePresentedProg_def endSessionProg_def endSessionHintProg_def obeys_bind
        parseAccessProg_def Let_def split: sum.split option.split)
  ultimately have "?obeys (handleProg lb e ep r sv)" by (cases ep) (simp_all add: handleProg_def)
  then show ?thesis by (simp add: serveProg_def obeys_bind)
qed

lemma familyDead_call:
  assumes "familyDead fam (sv_store sv)" "familyCall fam c"
  shows "familyDead fam (sv_store (execCall c sv))"
proof (cases c)
  case (StoreCall op)
  then show ?thesis
  proof (cases op)
    case (AddRefresh n1 rnd n2 f ttl)
    with StoreCall assms show ?thesis by (simp add: addRefresh_def Let_def split: sum.split)
  next
    case (TakeRefresh n1 n2 tok)
    have "re_Family f \<noteq> fam" if "refresh (dropExpired n1 (sv_store sv)) tok = Some f" for f
      using that assms(1) by (auto simp: familyDead_def store_maps)
    with StoreCall TakeRefresh assms(1) show ?thesis by (simp add: takeRefresh_def Let_def split: option.split)
  qed (use assms(1) in \<open>simp_all add: addCode_def takeCode_def registerJTI_def denyJTI_def revokeFamilyTokens_def revokeToken_def Let_def
      split: option.split sum.split\<close>)
qed (use assms in simp_all)

lemma familyDead_reply:
  assumes "familyDead fam (sv_store sv)"
  shows "familyReply fam c (replyOf c sv)"
proof (cases c)
  case (StoreCall op)
  have "re_Family f \<noteq> fam" if "fst (fst (takeRefresh n1 n2 tok (sv_store sv))) = Some f" for n1 n2 tok f
    using that assms takeRefresh_Some(1) unfolding familyDead_def by (metis prod.collapse)
  with StoreCall show ?thesis by (cases op) (simp_all add: familyReply_def)
qed (simp_all add: familyReply_def)

interpretation logout: interleaving lb "\<lambda>sv. familyDead fam (sv_store sv)" "familyCall fam" "familyReply fam" "drawsNot fam" for lb fam
  by unfold_locales (auto intro: serveProg_family familyDead_reply familyDead_call)

text \<open>
  A request that is not a refresh adds no refresh token to a family it has not drawn, whatever replies it has got.
\<close>

lemma obeys_anyReply: "obeys G (\<lambda>_ _. True) Q p \<Longrightarrow> obeys G R Q p"
  by (induction p) auto

lemma others_threads:
  assumes "\<forall>ev. Arrive ev \<in> set sched \<longrightarrow> drawsNot fam ev"
    and "\<forall>t \<in> set ts. \<not> refreshes (fst t) \<longrightarrow> obeys (familyCall fam) (\<lambda>_ _. True) (\<lambda>_. True) (snd t)"
  shows "\<forall>t \<in> set (snd (interleaved lb sched (sv, ts))). \<not> refreshes (fst t) \<longrightarrow> obeys (familyCall fam) (\<lambda>_ _. True) (\<lambda>_. True) (snd t)"
  using assms
proof (induction sched arbitrary: sv ts)
  case (Cons a sched)
  let ?ok = "\<lambda>t :: thread. \<not> refreshes (fst t) \<longrightarrow> obeys (familyCall fam) (\<lambda>_ _. True) (\<lambda>_. True) (snd t)"
  have "\<forall>t \<in> set (snd (stepConf lb a (sv, ts))). ?ok t"
  proof (cases rule: stepConf_cases [where a = a and lb = lb and sv = sv and ts = ts])
    case (arrive e ep r)
    with Cons.prems have "drawsNot fam (e, ep, r)" by auto
    from serveProg_family [OF this] arrive Cons.prems(2) show ?thesis by auto
  next
    case (call i c k)
    then have "?ok (fst (ts ! i), k (replyOf c sv))" using Cons.prems(2) nth_mem [OF call(2)] by fastforce
    with call(4) Cons.prems(2) show ?thesis using set_update_subset_insert [of ts i] by fastforce
  next
    case (idle i)
    with Cons.prems(2) show ?thesis by simp
  qed
  with Cons show ?case by (cases "stepConf lb a (sv, ts)") simp
qed simp

text \<open>A refresh request that has been answered, or has not consumed its token yet.\<close>

definition notMidway :: "libs \<Rightarrow> Server \<Rightarrow> thread \<Rightarrow> bool" where
  "notMidway lb sv t \<longleftrightarrow> (\<exists>resp. snd t = Return resp) \<or> (\<exists>e ep r. t = ((e, ep, r), serveProg lb e ep r sv))"

lemma endSession_program:
  assumes "Get (rq_URLQuery r) ''id_token_hint'' \<noteq> []" "parseIDTokenHint lb e (Get (rq_URLQuery r) ''id_token_hint'') sv = Inr (claims, client)"
    and "claimString claims ''sid'' = sid" "sid \<noteq> []" "rq_Method r \<noteq> ''OPTIONS''"
  shows "\<exists>k. serveProg lb e EndSession r sv = Call (StoreCall (RevokeFamily (e_now e 1) sid)) k"
  using assms by (simp add: serveProg_def handleProg_def endSessionProg_def endSessionHintProg_def Let_def)

text \<open>
  C9. Logout is final, whatever runs at the same time: a logout request with a valid hint that carries the session id \<open>sid\<close> has arrived
  and makes its first turn at a moment when no refresh request is midway between consuming its token and its answer. Then no interleaving
  of what follows, with requests that were under way and requests that arrive later, leaves a refresh token of the session in the store,
  and none consumes one, unless a request draws \<open>sid\<close> again. (A refresh that is midway can leave one: \<open>interleaved_reuse_survives\<close>.)
\<close>

theorem interleaved_logout_final:
  assumes "interleaved lb sched (sv, []) = (sv1, ts1)" "i < length ts1" "ts1 ! i = ((e, EndSession, r), serveProg lb e EndSession r sv)"
    and "Get (rq_URLQuery r) ''id_token_hint'' \<noteq> []" "parseIDTokenHint lb e (Get (rq_URLQuery r) ''id_token_hint'') sv = Inr (claims, client)"
    and "claimString claims ''sid'' = sid" "sid \<noteq> []" "rq_Method r \<noteq> ''OPTIONS''"
    and "\<forall>t \<in> set ts1. refreshes (fst t) \<longrightarrow> notMidway lb sv t"
    and "\<forall>ev. Arrive ev \<in> set (sched @ sched') \<longrightarrow> drawsNot sid ev"
    and "interleaved lb (Proceed i # sched') (sv1, ts1) = (sv2, ts2)"
  shows "\<not> (\<exists>k f. refresh (sv_store sv2) k = Some f \<and> re_Family f = sid)
    \<and> \<not> (\<exists>n1 n2 tok f. fst (fst (takeRefresh n1 n2 tok (sv_store sv2))) = Some f \<and> re_Family f = sid)"
proof -
  let ?obeys = "\<lambda>t :: thread. obeys (familyCall sid) (familyReply sid) (\<lambda>_. True) (snd t)"
  obtain k where k: "snd (ts1 ! i) = Call (StoreCall (RevokeFamily (e_now e 1) sid)) k"
    using endSession_program [OF assms(4-8)] assms(3) by auto
  have draws: "\<forall>ev. Arrive ev \<in> set sched \<longrightarrow> drawsNot sid ev" "\<forall>ev. Arrive ev \<in> set sched' \<longrightarrow> drawsNot sid ev"
    using assms(10) by simp_all
  have "?obeys t" if "t \<in> set ts1" for t
  proof (cases "refreshes (fst t)")
    case False
    with others_threads [of sched sid "[]" lb sv] draws(1) that assms(1) show ?thesis by (simp add: obeys_anyReply)
  next
    case True
    with assms(9) that have "notMidway lb sv t" by blast
    moreover have "drawsNot sid (fst t)" using arrived_threads [OF assms(1) that] draws(1) by blast
    ultimately show ?thesis by (auto simp: notMidway_def intro: serveProg_family)
  qed
  then have threads: "\<forall>t \<in> set ts1. ?obeys t" by blast
  let ?sv = "execCall (StoreCall (RevokeFamily (e_now e 1) sid)) sv1"
  let ?ts = "ts1[i := (fst (ts1 ! i), k DoneReply)]"
  have "stepConf lb (Proceed i) (sv1, ts1) = (?sv, ?ts)" using assms(2) k by simp
  then have run: "interleaved lb sched' (?sv, ?ts) = (sv2, ts2)" using assms(11) by simp
  have dead: "familyDead sid (sv_store ?sv)" using assms(7) by (auto simp: familyDead_def revokeFamilyTokens_def store_maps)
  have "?obeys (fst (ts1 ! i), k DoneReply)"
    using threads nth_mem [OF assms(2)] k by (force simp: familyReply_def)
  then have "\<forall>t \<in> set ?ts. ?obeys t" using threads set_update_subset_insert [of ts1 i] by fastforce
  from logout.run_keeps(1) [OF dead this draws(2) run] have "familyDead sid (sv_store sv2)" .
  then have gone: "refresh (sv_store sv2) k = Some f \<Longrightarrow> re_Family f \<noteq> sid" for k f unfolding familyDead_def by blast
  have "fst (fst (takeRefresh n1 n2 tok (sv_store sv2))) = Some f \<Longrightarrow> re_Family f \<noteq> sid" for n1 n2 tok f
    by (rule gone [OF takeRefresh_Some(1)])
  with gone show ?thesis by blast
qed


section \<open>Reuse detection and a request under way\<close>

text \<open>
  The same refresh token arrives twice: the first request has consumed it when the second one is found out as a reuse and revokes the
  family; then the first one goes on.
\<close>

definition raceSchedule :: "action list" where
  "raceSchedule = [Arrive (sampleEnv1, Token, refreshRequest), Proceed 0, Arrive (sampleEnv1, Token, refreshRequest), Proceed 1, Proceed 0, Proceed 0]"

lemma sample_signatures:
  "\<exists>sa. \<forall>claims. signAccess (jwtSign sampleJWT) (sv_keys sampleServer) claims = Inr (sa claims)"
  "\<exists>si. \<forall>claims. sign (jwtSign sampleJWT) (sv_keys sampleServer) claims = Inr (si claims)"
proof -
  have s: "\<exists>x. signTyped (jwtSign sampleJWT) key claims ty = Inr x" for key claims ty
    by (simp add: signTyped_def sampleJWT_def Let_def)
  show "\<exists>sa. \<forall>claims. signAccess (jwtSign sampleJWT) (sv_keys sampleServer) claims = Inr (sa claims)"
    "\<exists>si. \<forall>claims. sign (jwtSign sampleJWT) (sv_keys sampleServer) claims = Inr (si claims)"
    using s by (auto intro!: choice simp: signAccess_Inr sign_Inr)
qed

lemma sampleEnv1_reads: "e_now sampleEnv1 n = 0" "e_rand sampleEnv1 n = Some sampleNonce" "later m sampleEnv1 = sampleEnv1"
  by (simp_all add: sampleEnv1_def later_def)

definition sampleIssue :: "request \<Rightarrow> authContext \<Rightarrow> response prog" where
  "sampleIssue r ctx = bindProg (issueAndWriteProg sampleLibs sampleEnv1 tokenHeaders ctx busyServer)
     (\<lambda>resp. Return (resp\<lparr>rs_Header := corsHeaders busyServer r @ rs_Header resp\<rparr>))"

lemma sample_issue:
  assumes "cx_ClientID ctx = ''app''"
  shows "\<exists>k1 k2 jti ex ttl. sampleIssue r ctx = Call (StoreCall (RegisterJTI jti (cx_Sub ctx) (cx_Family ctx) ex)) k1
     \<and> (\<forall>rep. k1 rep = Call (StoreCall (AddRefresh 0 (Some sampleNonce) 0 (refreshFor ctx 0) ttl)) k2)
     \<and> (\<forall>tok. \<exists>resp. k2 (TokenReply (Inr tok)) = Return resp \<and> rs_Status resp = 200)"
proof -
  obtain sa si where s: "\<And>claims. signAccess (jwtSign sampleJWT) (sv_keys sampleServer) claims = Inr (sa claims)"
    "\<And>claims. sign (jwtSign sampleJWT) (sv_keys sampleServer) claims = Inr (si claims)" using sample_signatures by blast
  obtain jti where jti: "randomJTI (Some sampleNonce) = Inr jti" by (simp add: randomJTI_def)
  show ?thesis
    by (simp add: sampleIssue_def issueAndWriteProg_def issueTokensProg_def s jti sampleEnv1_reads assms sampleRegistry_lookup issueIDToken_def
        registeredClaims_def tokensWritten_def refreshFor_def Let_def)
qed

lemma sample_request:
  "rq_Method refreshRequest \<noteq> ''OPTIONS''" "rq_Method codeRequest \<noteq> ''OPTIONS''" "\<not> rq_ParseFormErr refreshRequest" "\<not> rq_ParseFormErr codeRequest"
  by (simp_all add: refreshRequest_def codeRequest_def) (simp_all add: formRequest_def sampleRequest_def)

lemma refresh_program:
  "\<exists>k resp. serveProg sampleLibs sampleEnv1 Token refreshRequest busyServer = Call (StoreCall (TakeRefresh 0 0 ''t'')) k
     \<and> k (RefreshReply (None, True)) = Return resp \<and> rs_Status resp = 400
     \<and> k (RefreshReply (Some sampleEntry, False)) = sampleIssue refreshRequest (refreshContext sampleEntry)"
proof -
  obtain client where c: "authenticateClient tokenHeaders refreshRequest busyServer = Inr client" "rc_ID client = ''app''"
    by (rule app_authenticates [of refreshRequest tokenHeaders]) (simp_all add: refreshRequest_def)
  have form: "Get (rq_PostForm refreshRequest) ''grant_type'' = ''refresh_token''" "Get (rq_PostForm refreshRequest) ''refresh_token'' = ''t''"
    by (simp_all add: refreshRequest_def)
  have entry: "re_ClientID sampleEntry = ''app''" by (simp add: sampleEntry_def)
  show ?thesis
    by (simp add: serveProg_def handleProg_def tokenProg_def refreshGrantProg_def sampleIssue_def form c entry sampleEnv1_reads sample_request Let_def)
qed

lemma code_program:
  "\<exists>k resp. serveProg sampleLibs sampleEnv1 Token codeRequest busyServer = Call (StoreCall (TakeCode 0 0 ''c'')) k
     \<and> k (CodeReply None) = Return resp \<and> rs_Status resp = 400
     \<and> k (CodeReply (Some sampleCode)) = sampleIssue codeRequest (codeContext sampleCode (EncodeToString sampleNonce))"
proof -
  obtain client where c: "authenticateClient tokenHeaders codeRequest busyServer = Inr client" "rc_ID client = ''app''"
    by (rule app_authenticates [of codeRequest tokenHeaders]) (simp_all add: codeRequest_def)
  have form: "Get (rq_PostForm codeRequest) ''grant_type'' = ''authorization_code''" "Get (rq_PostForm codeRequest) ''code'' = ''c''"
    "Get (rq_PostForm codeRequest) ''redirect_uri'' = ''https://app.example/cb''" "Get (rq_PostForm codeRequest) ''code_verifier'' = sampleVerifier"
    by (simp_all add: codeRequest_def)
  have "validateCodeGrant tokenHeaders (rq_PostForm codeRequest) sampleCode client = None"
    using c(2) sample_pkce by (simp add: validateCodeGrant_None form) (simp add: sampleCode_def)
  moreover have "randomToken (Some sampleNonce) = Inr (EncodeToString sampleNonce)" by (simp add: randomToken_def)
  ultimately show ?thesis
    by (simp add: serveProg_def handleProg_def tokenProg_def codeGrantProg_def sampleIssue_def form c sampleEnv1_reads sample_request Let_def)
qed

lemma sample_program_again: "serveProg sampleLibs e ep r (busyServer\<lparr>sv_store := st\<rparr>) = serveProg sampleLibs e ep r busyServer"
proof -
  have "busyServer\<lparr>sv_store := st\<rparr> = busyServer\<lparr>sv_store := st, sv_limiter := sv_limiter busyServer\<rparr>" by (cases busyServer) simp
  then show ?thesis using serveProg_setup by metis
qed

text \<open>
  Two requests with the same refresh token can both pass each other: the second one is found out as a reuse and gets an error, the
  family is revoked, and yet the first one goes on to answer with tokens and leaves a live refresh token of the revoked family behind.
  The consumption of the token and the storing of its successor are two critical sections, not one.
\<close>

theorem interleaved_reuse_survives:
  "\<exists>sv' resp resp' tok f. interleaved sampleLibs raceSchedule (busyServer, []) =
       (sv', [((sampleEnv1, Token, refreshRequest), Return resp), ((sampleEnv1, Token, refreshRequest), Return resp')])
     \<and> callTrace sampleLibs (take 4 raceSchedule) (busyServer, []) =
         [(0, StoreCall (TakeRefresh 0 0 ''t''), RefreshReply (Some sampleEntry, False)), (1, StoreCall (TakeRefresh 0 0 ''t''), RefreshReply (None, True))]
     \<and> rs_Status resp' = 400 \<and> rs_Status resp = 200 \<and> refresh (sv_store sv') tok = Some f \<and> re_Family f = re_Family sampleEntry"
proof -
  obtain k resp1 where k: "serveProg sampleLibs sampleEnv1 Token refreshRequest busyServer = Call (StoreCall (TakeRefresh 0 0 ''t'')) k"
      "k (RefreshReply (None, True)) = Return resp1" "rs_Status resp1 = 400" "k (RefreshReply (Some sampleEntry, False)) = sampleIssue refreshRequest (refreshContext sampleEntry)"
    using refresh_program by blast
  obtain k1 k2 jti sub fam ex ttl where issue: "sampleIssue refreshRequest (refreshContext sampleEntry) = Call (StoreCall (RegisterJTI jti sub fam ex)) k1"
      "\<And>rep. k1 rep = Call (StoreCall (AddRefresh 0 (Some sampleNonce) 0 (sampleEntry\<lparr>re_ExpiresAt := 0\<rparr>) ttl)) k2"
      "\<And>tok. \<exists>resp. k2 (TokenReply (Inr tok)) = Return resp \<and> rs_Status resp = 200"
    using sample_issue [of "refreshContext sampleEntry" refreshRequest] by (auto simp: sampleEntry_def refreshFor_def)
  obtain r1 s1 where t1: "takeRefresh 0 0 ''t'' (sv_store busyServer) = (r1, s1)" by fastforce
  obtain r2 s2 where t2: "takeRefresh 0 0 ''t'' s1 = (r2, s2)" by fastforce
  obtain tok2 s2' where "addRefresh 0 (Some sampleNonce) 0 sampleEntry ttl s2 = (Inr tok2, s2')" by (simp add: addRefresh_def randomToken_def Let_def)
  from interleaved_reuse_revives_family [OF _ _ _ _ t1 t2 this] have reuse: "r1 = (Some sampleEntry, False)" "r2 = (None, True)"
    by (simp_all add: sampleEntry_def)
  obtain tok s4 where add: "addRefresh 0 (Some sampleNonce) 0 (sampleEntry\<lparr>re_ExpiresAt := 0\<rparr>) ttl (registerJTI jti sub fam ex s2) = (Inr tok, s4)"
      "refresh s4 tok = Some (sampleEntry\<lparr>re_ExpiresAt := ttl\<rparr>)"
    by (auto simp: addRefresh_def randomToken_def Let_def)
  obtain resp where resp: "k2 (TokenReply (Inr tok)) = Return resp" "rs_Status resp = 200" using issue(3) by blast
  have "interleaved sampleLibs raceSchedule (busyServer, []) =
      (busyServer\<lparr>sv_store := s4\<rparr>, [((sampleEnv1, Token, refreshRequest), Return resp), ((sampleEnv1, Token, refreshRequest), Return resp1)])"
    by (simp add: raceSchedule_def k issue sample_program_again t1 t2 reuse add resp)
  moreover have "callTrace sampleLibs (take 4 raceSchedule) (busyServer, []) =
      [(0, StoreCall (TakeRefresh 0 0 ''t''), RefreshReply (Some sampleEntry, False)), (1, StoreCall (TakeRefresh 0 0 ''t''), RefreshReply (None, True))]"
    by (simp add: raceSchedule_def callTrace_def k sample_program_again t1 t2 reuse)
  moreover have "refresh (sv_store (busyServer\<lparr>sv_store := s4\<rparr>)) tok = Some (sampleEntry\<lparr>re_ExpiresAt := ttl\<rparr>)"
    "re_Family (sampleEntry\<lparr>re_ExpiresAt := ttl\<rparr>) = re_Family sampleEntry" using add by simp_all
  ultimately show ?thesis using k(3) resp(2) by blast
qed

section \<open>Witnesses\<close>

theorem interleaved_grants_authorized_witness:
  "\<exists>sv. minidp [] sampleWorld = Some (Serving sv)
     \<and> serverOk sampleURL (fst (interleaved sampleLibs ([Arrive (sampleEnv1, AuthorizePost, samplePost sampleToken)] @ raceSchedule) (sv, [])))"
proof -
  obtain sv where sv: "minidp [] sampleWorld = Some (Serving sv)" using sampleWorld_serves by blast
  have "w_url sampleWorld = sampleURL" by (simp add: sampleWorld_def)
  with sv interleaved_grants_authorized [OF sv] show ?thesis by metis
qed

theorem requests_answered_witness:
  "\<exists>resp. snd (snd (interleaved sampleLibs [Proceed 0, Proceed 0, Proceed 0]
     (busyServer, [((sampleEnv1, Token, codeRequest), serveProg sampleLibs sampleEnv1 Token codeRequest busyServer)])) ! 0) = Return resp"
  by (rule requests_answered [where sched = "[Arrive (sampleEnv1, Token, codeRequest)]" and sv = busyServer]) simp_all

definition twoExchanges :: "action list" where
  "twoExchanges = [Arrive (sampleEnv1, Token, codeRequest), Arrive (sampleEnv1, Token, codeRequest), Proceed 0, Proceed 1, Proceed 0, Proceed 0]"

theorem interleaved_exchange_once_witness:
  "\<exists>sv' ts. interleaved sampleLibs twoExchanges (busyServer, []) = (sv', ts) \<and> length ts = 2
     \<and> List.map_filter exchangedIn ts = [''c''] \<and> distinct (List.map_filter exchangedIn ts)"
proof -
  obtain k resp1 where k: "serveProg sampleLibs sampleEnv1 Token codeRequest busyServer = Call (StoreCall (TakeCode 0 0 ''c'')) k"
      "k (CodeReply None) = Return resp1" "rs_Status resp1 = 400"
      "k (CodeReply (Some sampleCode)) = sampleIssue codeRequest (codeContext sampleCode (EncodeToString sampleNonce))"
    using code_program by blast
  obtain k1 k2 jti sub fam ex f ttl where issue:
      "sampleIssue codeRequest (codeContext sampleCode (EncodeToString sampleNonce)) = Call (StoreCall (RegisterJTI jti sub fam ex)) k1"
      "\<And>rep. k1 rep = Call (StoreCall (AddRefresh 0 (Some sampleNonce) 0 f ttl)) k2"
      "\<And>tok. \<exists>resp. k2 (TokenReply (Inr tok)) = Return resp \<and> rs_Status resp = 200"
    using sample_issue [of "codeContext sampleCode (EncodeToString sampleNonce)" codeRequest] by (auto simp: sampleCode_def)
  obtain s1 where t1: "takeCode 0 0 ''c'' (sv_store busyServer) = (Some sampleCode, s1)"
    using takeCode_live [of "sv_store busyServer" "''c''" sampleCode 0 0]
    by (cases "takeCode 0 0 ''c'' (sv_store busyServer)") (simp add: sampleCode_def)
  obtain s2 where t2: "takeCode 0 0 ''c'' s1 = (None, s2)"
    using takeCode_removes [of 0 0 "''c''" "sv_store busyServer"] takeCode_gone [of s1 "''c''" 0 0] t1 by (cases "takeCode 0 0 ''c'' s1") simp
  obtain tok s3 where add: "addRefresh 0 (Some sampleNonce) 0 f ttl (registerJTI jti sub fam ex s2) = (Inr tok, s3)"
    by (auto simp: addRefresh_def randomToken_def Let_def)
  obtain resp where resp: "k2 (TokenReply (Inr tok)) = Return resp" "rs_Status resp = 200" using issue(3) by blast
  let ?ev = "(sampleEnv1, Token, codeRequest)"
  have run: "interleaved sampleLibs twoExchanges (busyServer, []) = (busyServer\<lparr>sv_store := s3\<rparr>, [(?ev, Return resp), (?ev, Return resp1)])"
    by (simp add: twoExchanges_def k issue t1 t2 add resp)
  have trace: "List.map_filter addedCode (callTrace sampleLibs twoExchanges (busyServer, [])) = []"
    by (simp add: twoExchanges_def callTrace_def k issue t1 t2 add resp List.map_filter_simps addedCode_def)
  have "exchangesCode ?ev" "presentedCode ?ev = ''c''" by (simp_all add: exchangesCode_def presentedCode_def codeRequest_def)
  then have "List.map_filter exchangedIn [(?ev, Return resp), (?ev, Return resp1)] = [''c'']"
    using k(3) resp(2) by (simp add: exchangedIn_def List.map_filter_simps)
  moreover have "distinct (List.map_filter exchangedIn [(?ev, Return resp), (?ev, Return resp1)])"
    using interleaved_exchange_once [OF _ _ run] trace by simp
  ultimately show ?thesis using run by (metis length_Cons list.size(3) numeral_2_eq_2)
qed

text \<open>A logout waits for its turn together with a refresh request of the same session that has not consumed its token yet.\<close>

definition logoutRequest :: request where
  "logoutRequest = sampleRequest\<lparr>rq_URLQuery := [(''id_token_hint'', [''JWT.x''])]\<rparr>"

theorem interleaved_logout_final_witness:
  "\<exists>ts1. interleaved sampleLibs [Arrive (sampleEnv1, Token, refreshRequest), Arrive (sampleEnv1, EndSession, logoutRequest)] (busyServer, []) = (busyServer, ts1)
     \<and> (\<exists>k f. refresh (sv_store busyServer) k = Some f \<and> re_Family f = ''fam'')
     \<and> \<not> (\<exists>k f. refresh (sv_store (fst (interleaved sampleLibs [Proceed 1, Proceed 0, Arrive (sampleEnv1, Token, refreshRequest), Proceed 2] (busyServer, ts1)))) k = Some f
           \<and> re_Family f = ''fam'')"
proof -
  let ?sched = "[Arrive (sampleEnv1, Token, refreshRequest), Arrive (sampleEnv1, EndSession, logoutRequest)]"
  let ?ts = "[((sampleEnv1, Token, refreshRequest), serveProg sampleLibs sampleEnv1 Token refreshRequest busyServer),
    ((sampleEnv1, EndSession, logoutRequest), serveProg sampleLibs sampleEnv1 EndSession logoutRequest busyServer)]"
  let ?sched' = "[Proceed 0, Arrive (sampleEnv1, Token, refreshRequest), Proceed 2]"
  obtain sv2 ts2 where run': "interleaved sampleLibs (Proceed 1 # ?sched') (busyServer, ?ts) = (sv2, ts2)" by fastforce
  have run: "interleaved sampleLibs ?sched (busyServer, []) = (busyServer, ?ts)" by simp
  have "\<not> (\<exists>k f. refresh (sv_store sv2) k = Some f \<and> re_Family f = ''fam'')
    \<and> \<not> (\<exists>n1 n2 tok f. fst (fst (takeRefresh n1 n2 tok (sv_store sv2))) = Some f \<and> re_Family f = ''fam'')"
  proof (rule interleaved_logout_final [OF run _ _ _ _ _ _ _ _ _ run'])
    show "Get (rq_URLQuery logoutRequest) ''id_token_hint'' \<noteq> []" by (simp add: Get_def logoutRequest_def)
    show "parseIDTokenHint sampleLibs sampleEnv1 (Get (rq_URLQuery logoutRequest) ''id_token_hint'') busyServer
        = Inr (sampleClaims ''x'', the (lookup sampleRegistry ''app''))"
      by (simp add: Get_def logoutRequest_def parseIDTokenHint_def sampleJWT_def sampleClaims_def claimString_def sampleConfig_def sampleRegistry_lookup)
    show "claimString (sampleClaims ''x'') ''sid'' = ''fam''" by (simp add: sampleClaims_def claimString_def)
    show "rq_Method logoutRequest \<noteq> ''OPTIONS''" by (simp add: sampleRequest_def logoutRequest_def)
    show "\<forall>t \<in> set ?ts. refreshes (fst t) \<longrightarrow> notMidway sampleLibs busyServer t" by (simp add: notMidway_def)
    show "\<forall>ev. Arrive ev \<in> set (?sched @ ?sched') \<longrightarrow> drawsNot ''fam'' ev" using sampleEnv1_draws(1) by (auto simp: drawsNot_def)
  qed simp_all
  moreover have "refresh (sv_store busyServer) ''t'' = Some sampleEntry" "re_Family sampleEntry = ''fam''" by (simp_all add: sampleEntry_def)
  ultimately show ?thesis using run run' by (intro exI [of _ ?ts] conjI) (blast | simp)+
qed

text \<open>A revocation and a userinfo request with the same token: the latter is under way when the former denies the token.\<close>

definition revokeRequest :: request where
  "revokeRequest = formRequest [(''token'', ''at+jwt.j''), (''client_id'', ''job''), (''client_secret'', ''s3cret'')]"

definition userinfoRequest :: request where
  "userinfoRequest = sampleRequest\<lparr>rq_Method := ''GET'', rq_Header := (\<lambda>_. [])(''Authorization'' := ''Bearer at+jwt.j'')\<rparr>"

lemma sample_valid_access:
  "\<exists>claims. validAccessToken sampleLibs sampleEnv1 ''at+jwt.j'' ra busyServer = Inr claims \<and> claimString claims ''jti'' = ''j''"
proof -
  have "deniedJTI (sv_store busyServer) ''j'' = None" by (simp add: busyServer_def newStore_def)
  then show ?thesis
    using sample_access [of busyServer _ ra] by (auto simp: parseAccessToken_def split: sum.splits if_splits)
qed

lemma sample_revoke_auth: "requireClientAuth revokeRequest busyServer = Inr (revokeRequest\<lparr>rq_ParseFormErr := False\<rparr>)"
proof -
  have "anyConfidential sampleRegistry"
  proof (rule anyConfidentialI [OF sampleRegistry_ok sampleRegistry_lookup(2)])
  qed (simp add: rc_Confidential_def Confidential_def sampleService_fields)
  then show ?thesis
    by (simp add: requireClientAuth_def revokeRequest_def confidentialMatch_def sampleRegistry_lookup rc_Confidential_def Confidential_def
        rc_secret_def sampleService_fields)
qed

lemma revoke_program:
  "\<exists>k k1 resp. serveProg sampleLibs sampleEnv1 Revoke revokeRequest busyServer = Call (IsDenied 0 ''j'') k
     \<and> k (BoolReply False) = Call (StoreCall (DenyJTI ''j'' (3600 * second))) k1 \<and> (\<forall>rep. k1 rep = Return resp)"
proof -
  obtain claims where c: "validAccessToken sampleLibs sampleEnv1 ''at+jwt.j'' False busyServer = Inr claims" "claimString claims ''jti'' = ''j''"
    using sample_valid_access by blast
  have "rq_Method revokeRequest \<noteq> ''OPTIONS''" "Get (rq_PostForm revokeRequest) ''token'' = ''at+jwt.j''"
    by (simp_all add: revokeRequest_def) (simp add: formRequest_def sampleRequest_def)
  moreover have "jwtExpiry sampleJWT claims = Some (Some (3600 * second))" by (simp add: sampleJWT_def)
  ultimately show ?thesis
    by (simp add: serveProg_def handleProg_def revokeProg_def sample_revoke_auth revokePresentedProg_def parseAccessProg_def c sampleEnv1_reads Let_def)
qed

lemma userinfo_program: "\<exists>k. serveProg sampleLibs sampleEnv1 Userinfo userinfoRequest busyServer = Call (IsDenied 0 ''j'') k"
proof -
  obtain claims where c: "validAccessToken sampleLibs sampleEnv1 ''at+jwt.j'' True busyServer = Inr claims" "claimString claims ''jti'' = ''j''"
    using sample_valid_access by blast
  have "EqualFold ''Bearer '' ''Bearer ''" "TrimSpace ''at+jwt.j'' = ''at+jwt.j''" by code_simp+
  then have "bearerToken userinfoRequest = ''at+jwt.j''" "rq_Method userinfoRequest = ''GET''"
    by (simp_all add: bearerToken_def userinfoRequest_def Let_def)
  then show ?thesis
    by (simp add: serveProg_def handleProg_def userinfoProg_def parseAccessProg_def c sampleEnv1_reads)
qed

theorem interleaved_revocation_lasts_witness:
  "\<exists>conf. interleaved sampleLibs [Arrive (sampleEnv1, Revoke, revokeRequest), Arrive (sampleEnv1, Userinfo, userinfoRequest), Proceed 0, Proceed 0] (busyServer, []) = conf
     \<and> callTrace sampleLibs [Proceed 1] conf = [(1, IsDenied 0 ''j'', BoolReply True)]"
proof -
  let ?sched = "[Arrive (sampleEnv1, Revoke, revokeRequest), Arrive (sampleEnv1, Userinfo, userinfoRequest), Proceed 0, Proceed 0]"
  let ?sv = "busyServer\<lparr>sv_store := denyJTI ''j'' (3600 * second) (sv_store busyServer)\<rparr>"
  obtain k k1 resp where k: "serveProg sampleLibs sampleEnv1 Revoke revokeRequest busyServer = Call (IsDenied 0 ''j'') k"
      "k (BoolReply False) = Call (StoreCall (DenyJTI ''j'' (3600 * second))) k1" "\<And>rep. k1 rep = Return resp"
    using revoke_program by blast
  obtain ku where ku: "serveProg sampleLibs sampleEnv1 Userinfo userinfoRequest busyServer = Call (IsDenied 0 ''j'') ku"
    using userinfo_program by blast
  have "isDeniedJTI 0 ''j'' (sv_store busyServer) = False" by (simp add: isDeniedJTI_def busyServer_def newStore_def)
  then have run: "interleaved sampleLibs ?sched (busyServer, []) =
      (?sv, [((sampleEnv1, Revoke, revokeRequest), Return resp), ((sampleEnv1, Userinfo, userinfoRequest), Call (IsDenied 0 ''j'') ku)])"
    by (simp add: k ku)
  let ?ts = "[((sampleEnv1, Revoke, revokeRequest), Return resp), ((sampleEnv1, Userinfo, userinfoRequest), Call (IsDenied 0 ''j'') ku)]"
  have trace: "callTrace sampleLibs [Proceed 1] (?sv, ?ts) = [(1, IsDenied 0 ''j'', replyOf (IsDenied 0 ''j'') ?sv)]" by (simp add: callTrace_def)
  have "replyOf (IsDenied 0 ''j'') ?sv = BoolReply True"
  proof (rule interleaved_revocation_lasts [OF _ run])
    show "\<forall>ev. Arrive ev \<in> set (?sched @ [Proceed 1]) \<longrightarrow>
        before ''j'' (3600 * second) ev \<and> deniesNoEarlier sampleLibs busyServer ''j'' (3600 * second) ev"
      using sampleEnv1_draws(2) by (auto simp: before_def sampleEnv1_reads deniesNoEarlier_def sampleJWT_def split: sum.split)
    show "deniedUntil ''j'' (3600 * second) (sv_store ?sv)" by (simp add: deniedUntil_def denyJTI_def)
    show "(1, IsDenied 0 ''j'', replyOf (IsDenied 0 ''j'') ?sv) \<in> set (callTrace sampleLibs [Proceed 1] (?sv, ?ts))" unfolding trace by simp
  qed
  with run trace show ?thesis by (intro exI [of _ "(?sv, ?ts)"]) (simp del: replyOf.simps)
qed

end
