(* ===== verification/Lifecycle.thy ===== *)
theory Lifecycle
  imports Concurrent
begin

text \<open>
  The process from the command line to its exit status (\<^verbatim>\<open>main\<close> in \<^verbatim>\<open>main.go\<close>): after the start it serves requests until a signal
  arrives; then \<^verbatim>\<open>http.Server.Shutdown\<close> runs with a context that expires ten seconds later. As its documentation says, it closes the
  listener, so that no new request arrives, and waits for the requests under way; it returns when they are answered or, with the error
  of the context, when the context has expired, and \<^verbatim>\<open>main\<close> returns in either case. A listener that fails ends the process at once; the
  \<^verbatim>\<open>ErrServerClosed\<close> it reports during the shutdown does not. Every event of the process has the reading of the clock at which it happens.
\<close>

section \<open>The process\<close>

datatype phase = Accepting | Draining time | Ended nat

record process =
  pr_server :: Server
  pr_threads :: "thread list"
  pr_phase :: phase

datatype processEvent = Act action | StopSignal | ListenFailed | Wake

type_synonym timedEvent = "time \<times> processEvent"

definition answered :: "thread \<Rightarrow> bool" where
  "answered t = (case snd t of Return resp \<Rightarrow> True | Call c k \<Rightarrow> False)"

definition advance :: "libs \<Rightarrow> action \<Rightarrow> process \<Rightarrow> process" where
  "advance lb a p = (case stepConf lb a (pr_server p, pr_threads p) of (sv, ts) \<Rightarrow> p\<lparr>pr_server := sv, pr_threads := ts\<rparr>)"

text \<open>\<^verbatim>\<open>Shutdown\<close> returns when no request is under way any more, and \<^verbatim>\<open>main\<close> with it; until then it waits for its context.\<close>

definition drained :: "time \<Rightarrow> process \<Rightarrow> process" where
  "drained deadline p = p\<lparr>pr_phase := (if list_all answered (pr_threads p) then Ended 0 else Draining deadline)\<rparr>"

definition shutdownTimeout :: duration where
  "shutdownTimeout = 10 * second"

definition processStep :: "libs \<Rightarrow> timedEvent \<Rightarrow> process \<Rightarrow> process" where
  "processStep lb ev p =
     (case pr_phase p of
        Accepting \<Rightarrow>
          (case snd ev of
             Act a \<Rightarrow> advance lb a p
           | StopSignal \<Rightarrow> drained (fst ev + shutdownTimeout) p
           | ListenFailed \<Rightarrow> p\<lparr>pr_phase := Ended 1\<rparr>
           | Wake \<Rightarrow> p)
      | Draining deadline \<Rightarrow>
          if fst ev \<ge> deadline then p\<lparr>pr_phase := Ended 0\<rparr>
          else (case snd ev of
                  Act (Proceed i) \<Rightarrow> drained deadline (advance lb (Proceed i) p)
                | Act (Arrive e) \<Rightarrow> p
                | StopSignal \<Rightarrow> p
                | ListenFailed \<Rightarrow> p
                | Wake \<Rightarrow> p)
      | Ended n \<Rightarrow> p)"

definition runProcess :: "libs \<Rightarrow> timedEvent list \<Rightarrow> process \<Rightarrow> process" where
  "runProcess lb evs p = fold (processStep lb) evs p"

definition serving :: "Server \<Rightarrow> process" where
  "serving sv = \<lparr>pr_server = sv, pr_threads = [], pr_phase = Accepting\<rparr>"

text \<open>The exit status of the command, if it has ended: a start that fails, a command that is done, or the process above.\<close>

definition exitStatus :: "libs \<Rightarrow> string list \<Rightarrow> world \<Rightarrow> timedEvent list \<Rightarrow> nat option" where
  "exitStatus lb args w evs =
     (case minidp args w of
        None \<Rightarrow> None
      | Some (Exit n err) \<Rightarrow> Some n
      | Some Rotated \<Rightarrow> Some 0
      | Some (Usage lines) \<Rightarrow> Some 0
      | Some (Serving sv) \<Rightarrow>
          (case pr_phase (runProcess lb evs (serving sv)) of Ended n \<Rightarrow> Some n | _ \<Rightarrow> None))"

section \<open>Running\<close>

lemma runProcess_simps [simp]:
  "runProcess lb [] p = p" "runProcess lb (ev # evs) p = runProcess lb evs (processStep lb ev p)"
  "runProcess lb (evs @ evs') p = runProcess lb evs' (runProcess lb evs p)"
  by (simp_all add: runProcess_def)

lemma ended_stays: "pr_phase p = Ended n \<Longrightarrow> runProcess lb evs p = p"
  by (induction evs) (simp_all add: processStep_def)

lemma advance_phase [simp]: "pr_phase (advance lb a p) = pr_phase p"
  by (simp add: advance_def split: prod.split)

text \<open>While it accepts, the process is an interleaving of the requests.\<close>

lemma accepting_run:
  assumes "pr_phase p = Accepting" "\<forall>ev \<in> set evs. \<exists>a. snd ev = Act a"
  shows "pr_phase (runProcess lb evs p) = Accepting \<and> (pr_server (runProcess lb evs p), pr_threads (runProcess lb evs p)) =
      interleaved lb (map (\<lambda>ev. case snd ev of Act a \<Rightarrow> a | _ \<Rightarrow> Proceed 0) evs) (pr_server p, pr_threads p)"
  using assms
proof (induction evs arbitrary: p)
  case (Cons ev evs)
  obtain a where ev: "snd ev = Act a" using Cons.prems(2) by auto
  then have "processStep lb ev p = advance lb a p" using Cons.prems(1) by (simp add: processStep_def)
  moreover have "(pr_server (advance lb a p), pr_threads (advance lb a p)) = stepConf lb a (pr_server p, pr_threads p)"
    by (simp add: advance_def split: prod.split)
  ultimately show ?case
    using Cons.IH [of "advance lb a p"] Cons.prems by (simp_all add: ev)
qed simp_all

text \<open>While it drains, some request is under way and no new one comes; the end comes when all are answered.\<close>

definition waiting :: "time \<Rightarrow> process \<Rightarrow> bool" where
  "waiting deadline p \<longleftrightarrow> pr_phase p = Draining deadline \<and> \<not> list_all answered (pr_threads p)"

lemma drained_cases:
  "drained d p = p\<lparr>pr_phase := Ended 0\<rparr> \<and> list_all answered (pr_threads p) \<or> waiting d (drained d p) \<and> pr_threads (drained d p) = pr_threads p"
  by (simp add: drained_def waiting_def)

lemma answered_iff: "answered t \<longleftrightarrow> withinCalls (snd t) 0"
  by (cases "snd t") (simp_all add: answered_def)

text \<open>The turns of a request before the deadline.\<close>

definition turnsBefore :: "time \<Rightarrow> timedEvent list \<Rightarrow> nat \<Rightarrow> nat" where
  "turnsBefore deadline evs i = length (filter (\<lambda>ev. fst ev < deadline \<and> snd ev = Act (Proceed i)) evs)"

lemma drain_ends:
  assumes "waiting d p" "sorted (map fst evs)" "\<forall>i < length (pr_threads p). withinCalls (snd (pr_threads p ! i)) (turnsBefore d evs i)"
  shows "pr_phase (runProcess lb evs p) = Ended 0 \<and> list_all answered (pr_threads (runProcess lb evs p))
    \<and> length (pr_threads (runProcess lb evs p)) = length (pr_threads p)"
  using assms
proof (induction evs arbitrary: p)
  case Nil
  then have "\<forall>i < length (pr_threads p). answered (pr_threads p ! i)" by (simp add: answered_iff turnsBefore_def)
  with Nil.prems(1) show ?case by (auto simp: waiting_def list_all_length)
next
  case (Cons ev evs)
  have early: "fst ev < d"
  proof (rule ccontr)
    assume "\<not> fst ev < d"
    then have "\<forall>e \<in> set (ev # evs). \<not> fst e < d" using Cons.prems(2) by fastforce
    then have "turnsBefore d (ev # evs) i = 0" for i unfolding turnsBefore_def by (simp add: filter_False del: filter.simps)
    then have "\<forall>i < length (pr_threads p). answered (pr_threads p ! i)" using Cons.prems(3) by (simp add: answered_iff)
    with Cons.prems(1) show False by (auto simp: waiting_def list_all_length)
  qed
  have evs: "sorted (map fst evs)" using Cons.prems(2) by simp
  show ?case
  proof (cases "\<exists>i. snd ev = Act (Proceed i)")
    case True
    then obtain j where ev: "snd ev = Act (Proceed j)" by blast
    let ?q = "advance lb (Proceed j) p"
    have step: "processStep lb ev p = drained d ?q" using Cons.prems(1) early by (simp add: processStep_def waiting_def ev)
    obtain sv ts where conf: "pr_server p = sv" "pr_threads p = ts" by simp
    have turns: "turnsBefore d (ev # evs) i = (if i = j then Suc (turnsBefore d evs i) else turnsBefore d evs i)" for i
      using early by (simp add: turnsBefore_def ev)
    have "length (pr_threads ?q) = length ts \<and> (\<forall>i < length ts. withinCalls (snd (pr_threads ?q ! i)) (turnsBefore d evs i))"
    proof (cases rule: stepConf_cases [where a = "Proceed j" and lb = lb and sv = sv and ts = ts])
      case (call i c k)
      then show ?thesis using Cons.prems(3) by (auto simp: advance_def conf turns nth_list_update)
    next
      case (idle i)
      have "withinCalls (snd (ts ! i)) (turnsBefore d evs i)" if "i < length ts" for i
        using Cons.prems(3) that idle by (cases "i = j") (auto simp: conf turns)
      with idle show ?thesis by (simp add: advance_def conf)
    qed simp
    moreover from drained_cases [of d ?q] show ?thesis
    proof
      assume "drained d ?q = ?q\<lparr>pr_phase := Ended 0\<rparr> \<and> list_all answered (pr_threads ?q)"
      with calculation show ?thesis by (simp add: step ended_stays conf)
    next
      assume "waiting d (drained d ?q) \<and> pr_threads (drained d ?q) = pr_threads ?q"
      with calculation Cons.IH [of "drained d ?q"] evs show ?thesis by (simp add: step conf)
    qed
  next
    case False
    then have "processStep lb ev p = p"
      using Cons.prems(1) early by (auto simp: processStep_def waiting_def split: processEvent.split action.split)
    moreover have "turnsBefore d (ev # evs) i = turnsBefore d evs i" for i using False by (simp add: turnsBefore_def)
    ultimately show ?thesis using Cons.IH [OF Cons.prems(1) evs] Cons.prems(3) by simp
  qed
qed

text \<open>The process does not outlive its deadline, and no failure of the listener changes its exit status any more.\<close>

lemma deadline_ends:
  assumes "pr_phase p \<in> {Draining d, Ended 0}" "\<exists>ev \<in> set evs. d \<le> fst ev"
  shows "pr_phase (runProcess lb evs p) = Ended 0"
  using assms
proof (induction evs arbitrary: p)
  case (Cons ev evs)
  show ?case
  proof (cases "pr_phase p = Ended 0")
    case True
    then show ?thesis by (simp add: ended_stays del: runProcess_simps(2))
  next
    case False
    then have p: "pr_phase p = Draining d" using Cons.prems(1) by simp
    show ?thesis
    proof (cases "d \<le> fst ev")
      case True
      then have "pr_phase (processStep lb ev p) = Ended 0" using p by (simp add: processStep_def)
      then show ?thesis by (simp add: ended_stays)
    next
      case early: False
      then have "pr_phase (processStep lb ev p) \<in> {Draining d, Ended 0}"
        using p by (auto simp: processStep_def drained_def split: processEvent.split action.split)
      then show ?thesis using Cons.IH Cons.prems(2) early by simp
    qed
  qed
qed simp

text \<open>
  C36. A signal lets the requests under way finish, for ten seconds: when a started process that serves requests gets the signal at a time
  \<open>now\<close>, and each request that is under way has three more turns before ten seconds have passed (no request makes more than three calls of
  the store and the limiter), then the process exits with status 0, every request that had arrived before the signal is answered, and
  none is taken on after it. Whatever the requests do, the process exits, also with status 0, at the latest with the first event ten
  seconds after the signal.
\<close>

theorem graceful_shutdown:
  assumes "minidp args w = Some (Serving sv)" "\<forall>ev \<in> set evs. \<exists>a. snd ev = Act a" "sorted (map fst evs')"
    and "run = runProcess lb evs (serving sv)" "run' = runProcess lb (evs @ (now, StopSignal) # evs') (serving sv)"
  shows "((\<forall>i < length (pr_threads run). turnsBefore (now + 10 * second) evs' i \<ge> 3) \<longrightarrow>
        exitStatus lb args w (evs @ (now, StopSignal) # evs') = Some 0
        \<and> list_all answered (pr_threads run') \<and> length (pr_threads run') = length (pr_threads run))
    \<and> ((\<exists>ev \<in> set evs'. now + 10 * second \<le> fst ev) \<longrightarrow> exitStatus lb args w (evs @ (now, StopSignal) # evs') = Some 0)"
proof -
  let ?d = "now + 10 * second"
  have p: "pr_phase run = Accepting"
    and conf: "(pr_server run, pr_threads run) = interleaved lb (map (\<lambda>ev. case snd ev of Act a \<Rightarrow> a | _ \<Rightarrow> Proceed 0) evs) (sv, [])"
    using accepting_run [OF _ assms(2), of "serving sv" lb] by (simp_all add: serving_def assms(4))
  have run': "run' = runProcess lb evs' (drained ?d run)"
    using p by (simp add: assms(4,5) processStep_def shutdownTimeout_def)
  have exit: "pr_phase run' = Ended 0 \<Longrightarrow> exitStatus lb args w (evs @ (now, StopSignal) # evs') = Some 0"
    by (simp add: exitStatus_def assms(1,5))
  have "pr_phase run' = Ended 0 \<and> list_all answered (pr_threads run') \<and> length (pr_threads run') = length (pr_threads run)"
    if turns: "\<forall>i < length (pr_threads run). turnsBefore ?d evs' i \<ge> 3"
  proof -
    have "\<forall>t \<in> set (pr_threads run). withinCalls (snd t) 3"
      using threads_within [of "[]" lb "map (\<lambda>ev. case snd ev of Act a \<Rightarrow> a | _ \<Rightarrow> Proceed 0) evs" sv] conf [symmetric] by simp
    then have "\<forall>i < length (pr_threads run). withinCalls (snd (pr_threads run ! i)) (turnsBefore ?d evs' i)"
      using turns withinCalls_mono by (meson nth_mem)
    with drained_cases [of ?d run] drain_ends [of ?d "drained ?d run" evs' lb] assms(3) show ?thesis
      by (auto simp: run' ended_stays)
  qed
  moreover have "pr_phase run' = Ended 0" if "\<exists>ev \<in> set evs'. ?d \<le> fst ev"
    unfolding run' by (rule deadline_ends [OF _ that]) (simp add: drained_def)
  ultimately show ?thesis using exit by blast
qed

section \<open>Witnesses\<close>

theorem graceful_shutdown_witness:
  "\<exists>sv. minidp [] sampleWorld = Some (Serving sv)
     \<and> exitStatus sampleLibs [] sampleWorld ([(0, Act (Arrive (sampleEnv1, Token, codeRequest)))] @ (1, StopSignal) #
         [(2, Act (Proceed 0)), (3 * second, Act (Proceed 0)), (10 * second, Act (Proceed 0))]) = Some 0"
proof -
  let ?evs = "[(0, Act (Arrive (sampleEnv1, Token, codeRequest)))]"
  let ?evs' = "[(2, Act (Proceed 0)), (3 * second, Act (Proceed 0)), (10 * second, Act (Proceed 0))]"
  obtain sv where sv: "minidp [] sampleWorld = Some (Serving sv)" using sampleWorld_serves by blast
  have acts: "\<forall>ev \<in> set ?evs. \<exists>a. snd ev = Act a" and sorted: "sorted (map fst ?evs')" by simp_all
  have "length (pr_threads (runProcess sampleLibs ?evs (serving sv))) = 1"
    by (simp add: processStep_def advance_def serving_def)
  moreover have "turnsBefore (1 + 10 * second) ?evs' 0 \<ge> 3" by (simp add: turnsBefore_def)
  ultimately show ?thesis
    using graceful_shutdown [OF sv acts sorted refl refl, of sampleLibs 1] sv by simp
qed

end
