(* ===== verification/Clientctl.thy ===== *)
theory Clientctl
  imports Http ClientsFormat
begin

text \<open>
  The \<^verbatim>\<open>clientctl\<close> tool (\<^verbatim>\<open>cmd/clientctl\<close>): the command line, the editing of the clients file and the listings.

  A command maps the directory of the clients file to its result and the directory it leaves behind; files are named by their
  path. Printed lines are values that keep the arguments of the message. URL parsing, bcrypt, the terminal, the faults of the file
  system, the random bytes of the temporary name and the lists that are \<^verbatim>\<open>nil\<close> when a file is written are the record \<open>ctl_env\<close>; the
  bytes of the clients file are those of ClientsFormat. The usage text is printed by \<^verbatim>\<open>help\<close>; where it goes with an exit status, the result is the status.
  The locale \<open>ctl_command\<close> is the contract of a command with the file its arguments name.
\<close>

section \<open>Errors and results\<close>

datatype (plugins only: size) ctl_error =
    errUnknownClientCmd | errUnknownUserCmd | errNoSecret | errMustBeNotEmpty | errValuesDoNotMatch
  | errClientsFileMissing | errClientFlagRequired | errTypeMustBe | errRedirectRequired | errClientExistsHint
  | errConfidentialNeeds | errClientDoesNotExist | errClientMissingHint | errPasswordEmpty | errUsernameRequired
  | errUserExistsHint | errCostNeedsPassword | errUserNotInClient | errNothingToUpdateCli | errNothingToUpdateUsr
  | ctlUpstream string
  | ctlWrap idp_error

datatype (plugins only: size) outLine =
    Line string
  | ClientAdded string string
  | ClientUpdated string string
  | ClientRemoved string string
  | FileEmptyWarning
  | UserAdded string string string
  | UserUpdated string string
  | UserRemoved string string
  | NoUsersWarning

datatype (plugins only: size) ctlResult = Printed "outLine list" | Failed ctl_error | ExitWith nat

section \<open>The terminal\<close>

text \<open>What standard input holds, whether it is a terminal, and the values typed at the two prompts.\<close>

record terminal =
  tm_isTerminal :: bool
  tm_stdin :: string
  tm_prompt :: "nat \<Rightarrow> string option"

record ctl_env =
  ce_nil :: "string \<Rightarrow> nat \<Rightarrow> bool"
  ce_url :: url_parser
  ce_bcrypt :: "string \<Rightarrow> int \<Rightarrow> string option"
  ce_terminal :: terminal
  ce_faults :: faults
  ce_rand :: "string option"

abbreviation ce_json :: "ctl_env \<Rightarrow> clients_codec" where
  "ce_json ce \<equiv> goJSON (ce_nil ce)"

definition TrimRightNewlines :: "string \<Rightarrow> string" where
  "TrimRightNewlines s = rev (dropWhile (\<lambda>c. c = CHR 0x0D \<or> c = CHR 0x0A) (rev s))"

definition readLineFromStdin :: "terminal \<Rightarrow> ctl_error + string" where
  "readLineFromStdin tm =
     (if tm_stdin tm = [] then Inl (ctlUpstream ''read'')
      else Inr (TrimRightNewlines (takeWhile (\<lambda>c. c \<noteq> CHR 0x0A) (tm_stdin tm))))"

definition readSecretPrompt :: "terminal \<Rightarrow> nat \<Rightarrow> ctl_error + string" where
  "readSecretPrompt tm i = (case tm_prompt tm i of None \<Rightarrow> Inl (ctlUpstream ''term'') | Some pw \<Rightarrow> Inr pw)"

definition promptSecret :: "terminal \<Rightarrow> bool \<Rightarrow> ctl_error + string" where
  "promptSecret tm confirm =
     (case readSecretPrompt tm 0 of
        Inl e \<Rightarrow> Inl e
      | Inr pw \<Rightarrow>
          if length pw = 0 then Inl errMustBeNotEmpty
          else if confirm then
            (case readSecretPrompt tm 1 of
               Inl e \<Rightarrow> Inl e
             | Inr again \<Rightarrow> if pw \<noteq> again then Inl errValuesDoNotMatch else Inr pw)
          else Inr pw)"

definition resolveSecret :: "terminal \<Rightarrow> string \<Rightarrow> bool \<Rightarrow> ctl_error + string" where
  "resolveSecret tm flagValue confirm =
     (if flagValue = ''-'' then readLineFromStdin tm
      else if flagValue \<noteq> [] then Inr flagValue
      else if \<not> tm_isTerminal tm then Inl errNoSecret
      else promptSecret tm confirm)"

definition resolveNewSecret :: "terminal \<Rightarrow> string \<Rightarrow> ctl_error + string" where
  "resolveNewSecret tm flagValue = resolveSecret tm flagValue True"

section \<open>Flags\<close>

text \<open>\<^verbatim>\<open>strconv.ParseInt(s, 0, 64)\<close>: an optional sign, a base prefix and underscores between digits.\<close>

definition digit36 :: "char \<Rightarrow> nat option" where
  "digit36 c =
     (if CHR ''0'' \<le> c \<and> c \<le> CHR ''9'' then Some (of_char c - 48)
      else if CHR ''a'' \<le> asciiLower c \<and> asciiLower c \<le> CHR ''z'' then Some (of_char (asciiLower c) - 87) else None)"

definition basePrefix :: "string \<Rightarrow> nat \<times> string" where
  "basePrefix s =
     (if s = [] \<or> hd s \<noteq> CHR ''0'' then (10, s)
      else if length s \<ge> 3 \<and> asciiLower (s ! 1) = CHR ''b'' then (2, drop 2 s)
      else if length s \<ge> 3 \<and> asciiLower (s ! 1) = CHR ''o'' then (8, drop 2 s)
      else if length s \<ge> 3 \<and> asciiLower (s ! 1) = CHR ''x'' then (16, drop 2 s)
      else (8, tl s))"

fun baseDigits :: "nat \<Rightarrow> nat \<Rightarrow> string \<Rightarrow> nat option" where
  "baseDigits base acc [] = Some acc"
| "baseDigits base acc (c # cs) =
     (if c = CHR ''_'' then baseDigits base acc cs
      else (case digit36 c of
              None \<Rightarrow> None
            | Some d \<Rightarrow> if base \<le> d then None else baseDigits base (base * acc + d) cs))"

text \<open>The loop of \<^verbatim>\<open>underscoreOK\<close>; the state is the kind of the previous character: a digit, an underscore, or neither.\<close>

fun underscoreLoop :: "bool \<Rightarrow> char \<Rightarrow> string \<Rightarrow> bool" where
  "underscoreLoop hex i [] \<longleftrightarrow> i \<noteq> CHR ''_''"
| "underscoreLoop hex i (c # cs) \<longleftrightarrow>
     (if (CHR ''0'' \<le> c \<and> c \<le> CHR ''9'') \<or> (hex \<and> CHR ''a'' \<le> asciiLower c \<and> asciiLower c \<le> CHR ''f'') then underscoreLoop hex (CHR ''0'') cs
      else if c = CHR ''_'' then i = CHR ''0'' \<and> underscoreLoop hex (CHR ''_'') cs
      else i \<noteq> CHR ''_'' \<and> underscoreLoop hex (CHR ''!'') cs)"

definition underscoreOK :: "string \<Rightarrow> bool" where
  "underscoreOK s =
     (if length s \<ge> 2 \<and> hd s = CHR ''0'' \<and> asciiLower (s ! 1) \<in> {CHR ''b'', CHR ''o'', CHR ''x''}
      then underscoreLoop (asciiLower (s ! 1) = CHR ''x'') (CHR ''0'') (drop 2 s)
      else underscoreLoop False (CHR ''^'') s)"

definition ParseInt0 :: "string \<Rightarrow> int option" where
  "ParseInt0 s =
     (let neg = (s \<noteq> [] \<and> hd s = CHR ''-''); ds = (if s \<noteq> [] \<and> (hd s = CHR ''-'' \<or> hd s = CHR ''+'') then tl s else s)
      in if ds = [] then None
         else (case baseDigits (fst (basePrefix ds)) 0 (snd (basePrefix ds)) of
                 None \<Rightarrow> None
               | Some n \<Rightarrow>
                   if CHR ''_'' \<in> set ds \<and> \<not> underscoreOK ds then None
                   else let v = (if neg then - int n else int n) in if inInt64 v then Some v else None))"

text \<open>
  \<^verbatim>\<open>flag.FlagSet.Parse\<close> with \<^verbatim>\<open>ExitOnError\<close>: the flags that were set with their values, or the exit status. Arguments after the
  flags are ignored, as the commands ignore them.
\<close>

datatype flagKind = StringFlag | IntFlag

definition flagValueOk :: "flagKind \<Rightarrow> string \<Rightarrow> bool" where
  "flagValueOk kind v = (case kind of StringFlag \<Rightarrow> True | IntFlag \<Rightarrow> ParseInt0 v \<noteq> None)"

definition splitFlag :: "string \<Rightarrow> string \<times> string option" where
  \<comment> \<open>the name cannot be empty, so an equals sign in front belongs to it\<close>
  "splitFlag body = (case Cut (tl body) (CHR ''='') of None \<Rightarrow> (body, None) | Some (a, b) \<Rightarrow> (hd body # a, Some b))"

fun parseFlags :: "(string \<times> flagKind) list \<Rightarrow> (string \<times> string) list \<Rightarrow> string list \<Rightarrow>
    nat + (string \<times> string) list" where
  "parseFlags formal actual [] = Inr actual"
| "parseFlags formal actual (s # args) =
     (if length s < 2 \<or> s ! 0 \<noteq> CHR ''-'' then Inr actual
      else if s = ''--'' then Inr actual
      else
        let body = drop (if s ! 1 = CHR ''-'' then 2 else 1) s
        in if body = [] \<or> hd body = CHR ''-'' \<or> hd body = CHR ''='' then Inl 2
           else (case map_of formal (fst (splitFlag body)) of
                   None \<Rightarrow> Inl (if fst (splitFlag body) \<in> {''help'', ''h''} then 0 else 2)
                 | Some kind \<Rightarrow>
                     (case snd (splitFlag body) of
                        Some v \<Rightarrow>
                          if flagValueOk kind v then parseFlags formal (AList.update (fst (splitFlag body)) v actual) args else Inl 2
                      | None \<Rightarrow>
                          (case args of
                             [] \<Rightarrow> Inl 2
                           | v # rest \<Rightarrow>
                               if flagValueOk kind v then parseFlags formal (AList.update (fst (splitFlag body)) v actual) rest
                               else Inl 2))))"

definition flagVal :: "(string \<times> string) list \<Rightarrow> string \<Rightarrow> string \<Rightarrow> string" where
  "flagVal actual name def = (case map_of actual name of Some v \<Rightarrow> v | None \<Rightarrow> def)"

record clientSelector =
  sel_file :: string
  sel_client :: string

abbreviation (input) selectorFlags :: "(string \<times> flagKind) list" where
  "selectorFlags \<equiv> [(''file'', StringFlag), (''client'', StringFlag)]"

definition registerClientSelector :: "(string \<times> string) list \<Rightarrow> clientSelector" where
  "registerClientSelector actual = \<lparr>sel_file = flagVal actual ''file'' ''clients.json'', sel_client = flagVal actual ''client'' []\<rparr>"

definition requireSelector :: "clientSelector \<Rightarrow> ctl_error option" where
  "requireSelector sel = (if sel_client sel = [] then Some errClientFlagRequired else None)"

record clientFlags =
  fl_selector :: clientSelector
  fl_typ :: string
  fl_secret :: string
  fl_audience :: string
  fl_grantTypes :: string
  fl_ccScopes :: string
  fl_ccRoles :: string
  fl_allowedScopes :: string
  fl_redirect :: string
  fl_postLogout :: string
  fl_origin :: string

definition clientFlagSet :: "(string \<times> flagKind) list" where
  "clientFlagSet = selectorFlags @ map (\<lambda>n. (n, StringFlag))
     [''type'', ''secret'', ''audience'', ''grant-types'', ''cc-scopes'', ''cc-roles'', ''allowed-scopes'', ''redirect'', ''post-logout'', ''origin'']"

definition registerClientFlags :: "(string \<times> string) list \<Rightarrow> clientFlags" where
  "registerClientFlags actual =
     \<lparr>fl_selector = registerClientSelector actual, fl_typ = flagVal actual ''type'' [], fl_secret = flagVal actual ''secret'' [],
      fl_audience = flagVal actual ''audience'' [], fl_grantTypes = flagVal actual ''grant-types'' [],
      fl_ccScopes = flagVal actual ''cc-scopes'' [], fl_ccRoles = flagVal actual ''cc-roles'' [],
      fl_allowedScopes = flagVal actual ''allowed-scopes'' [], fl_redirect = flagVal actual ''redirect'' [],
      fl_postLogout = flagVal actual ''post-logout'' [], fl_origin = flagVal actual ''origin'' []\<rparr>"

record clientChangeSpec =
  cs_f :: clientFlags
  cs_provid :: "string \<Rightarrow> bool"

section \<open>Reading and saving\<close>

definition parseList :: "string \<Rightarrow> string list" where
  "parseList value = filter (\<lambda>item. item \<noteq> []) (map TrimSpace (Split value (CHR '','')))"

definition parseRoles :: "string \<Rightarrow> string list" where
  "parseRoles value = parseList value"

definition readFileAt :: "dir \<Rightarrow> string \<Rightarrow> (idp_error + string) option" where
  \<comment> \<open>\<^term>\<open>None\<close> is \<^verbatim>\<open>os.ErrNotExist\<close>\<close>
  "readFileAt d path = (case d path of None \<Rightarrow> None | Some Unreadable \<Rightarrow> Some (Inl (errUpstream ''read'')) | Some (Contents raw) \<Rightarrow> Some (Inr raw))"

definition loadClients :: "ctl_env \<Rightarrow> string \<Rightarrow> dir \<Rightarrow> ctl_error + (Client list \<times> bool)" where
  "loadClients ce path d =
     (case readFileAt d path of
        None \<Rightarrow> Inr ([], False)
      | Some raw \<Rightarrow>
          (case ReadClients (ce_json ce) (ce_url ce) raw of
             Inl e \<Rightarrow> Inl (ctlWrap e)
           | Inr clients \<Rightarrow> Inr (clients, True)))"

definition loadExistingClients :: "ctl_env \<Rightarrow> string \<Rightarrow> dir \<Rightarrow> ctl_error + Client list" where
  "loadExistingClients ce path d =
     (case loadClients ce path d of
        Inl e \<Rightarrow> Inl e
      | Inr (clients, ok) \<Rightarrow> if \<not> ok then Inl errClientsFileMissing else Inr clients)"

text \<open>\<^verbatim>\<open>idp.ReadClients\<close> on a path, where a missing file is an error like any other.\<close>

definition readClientsAt :: "ctl_env \<Rightarrow> string \<Rightarrow> dir \<Rightarrow> ctl_error + Client list" where
  "readClientsAt ce path d =
     (case readFileAt d path of
        None \<Rightarrow> Inl (ctlWrap (errUpstream ''open''))
      | Some raw \<Rightarrow> (case ReadClients (ce_json ce) (ce_url ce) raw of Inl e \<Rightarrow> Inl (ctlWrap e) | Inr clients \<Rightarrow> Inr clients))"

text \<open>\<^verbatim>\<open>idp.SaveClients\<close> with the write of the file.\<close>

definition saveClientsAt :: "ctl_env \<Rightarrow> string \<Rightarrow> Client list \<Rightarrow> dir \<Rightarrow> ctl_error option \<times> dir" where
  "saveClientsAt ce path clients d =
     (case SaveClients (ce_json ce) (ce_url ce) clients of
        Inl e \<Rightarrow> (Some (ctlWrap e), d)
      | Inr data \<Rightarrow>
          (case saveJSONFile (ce_faults ce) (ce_rand ce) path data d of
             (e, steps) \<Rightarrow> (map_option ctlWrap e, last steps)))"

text \<open>The index of an entry; \<^term>\<open>None\<close> is \<open>-1\<close>.\<close>

fun findIndexBy :: "('a \<Rightarrow> string) \<Rightarrow> 'a list \<Rightarrow> string \<Rightarrow> nat option" where
  "findIndexBy f [] x = None"
| "findIndexBy f (a # as) x = (if f a = x then Some 0 else map_option Suc (findIndexBy f as x))"

definition findClient :: "Client list \<Rightarrow> string \<Rightarrow> nat option" where
  "findClient clients cid = findIndexBy c_ClientID clients cid"

definition findUserIndex :: "User list \<Rightarrow> string \<Rightarrow> nat option" where
  "findUserIndex users username = findIndexBy u_Username users username"

section \<open>Client commands\<close>

definition effectiveGrantTypes :: "string \<Rightarrow> string list" where
  "effectiveGrantTypes flagValue =
     (let grants = parseList flagValue in if length grants = 0 then [GrantAuthorizationCode, GrantRefreshToken] else grants)"

definition newClient :: "clientFlags \<Rightarrow> Client" where
  "newClient f =
     \<lparr>c_ClientID = sel_client (fl_selector f), c_Type = fl_typ f, c_ClientSecret = [], c_Audience = fl_audience f,
      c_GrantTypes = parseList (fl_grantTypes f), c_ClientCredentialsScopes = parseList (fl_ccScopes f),
      c_AllowedScopes = parseList (fl_allowedScopes f), c_ClientCredentialsRoles = parseList (fl_ccRoles f),
      c_RedirectURIs = parseList (fl_redirect f), c_PostLogoutRedirectURIs = parseList (fl_postLogout f),
      c_AllowedOrigins = parseList (fl_origin f), c_Users = []\<rparr>"

definition addClient :: "ctl_env \<Rightarrow> clientFlags \<Rightarrow> ctl_error + Client" where
  \<comment> \<open>the new entry with its secret, once it has passed the pre-flight validation\<close>
  "addClient ce f =
     (let client = newClient f
      in case (if Confidential client then resolveNewSecret (ce_terminal ce) (fl_secret f) else Inr []) of
           Inl e \<Rightarrow> Inl e
         | Inr secret \<Rightarrow>
             (let client' = client\<lparr>c_ClientSecret := secret\<rparr>
              in case ValidateClient (ce_url ce) client' of Some e \<Rightarrow> Inl (ctlWrap e) | None \<Rightarrow> Inr client'))"

definition clientAdd :: "ctl_env \<Rightarrow> string list \<Rightarrow> dir \<Rightarrow> ctlResult \<times> dir" where
  "clientAdd ce args d =
     (case parseFlags clientFlagSet [] args of
        Inl st \<Rightarrow> (ExitWith st, d)
      | Inr actual \<Rightarrow>
          (let f = registerClientFlags actual; file = sel_file (fl_selector f)
           in case requireSelector (fl_selector f) of
                Some e \<Rightarrow> (Failed e, d)
              | None \<Rightarrow>
                  if fl_typ f \<noteq> TypePublic \<and> fl_typ f \<noteq> TypeConfidential then (Failed errTypeMustBe, d)
                  else if fl_redirect f = [] \<and> GrantAuthorizationCode \<in> set (effectiveGrantTypes (fl_grantTypes f))
                  then (Failed errRedirectRequired, d)
                  else (case loadClients ce file d of
                          Inl e \<Rightarrow> (Failed e, d)
                        | Inr (clients, _) \<Rightarrow>
                            if findClient clients (sel_client (fl_selector f)) \<noteq> None then (Failed errClientExistsHint, d)
                            else (case addClient ce f of
                                    Inl e \<Rightarrow> (Failed e, d)
                                  | Inr client \<Rightarrow>
                                      (case saveClientsAt ce file (clients @ [client]) d of
                                         (Some e, d') \<Rightarrow> (Failed e, d')
                                       | (None, d') \<Rightarrow> (Printed [ClientAdded (c_ClientID client) file], d'))))))"

definition applyClientProfileChange :: "ctl_env \<Rightarrow> clientChangeSpec \<Rightarrow> Client \<Rightarrow> ctl_error + (Client \<times> bool)" where
  "applyClientProfileChange ce spec client =
     (if cs_provid spec ''type'' \<and> fl_typ (cs_f spec) \<noteq> TypePublic \<and> fl_typ (cs_f spec) \<noteq> TypeConfidential then Inl errTypeMustBe
      else
        let client1 = (if cs_provid spec ''type''
                       then (let c = client\<lparr>c_Type := fl_typ (cs_f spec)\<rparr>
                             in if Confidential client \<and> \<not> Confidential c then c\<lparr>c_ClientSecret := []\<rparr> else c)
                       else client)
        in case (if cs_provid spec ''secret''
                 then (case resolveNewSecret (ce_terminal ce) (fl_secret (cs_f spec)) of
                         Inl e \<Rightarrow> Inl e
                       | Inr secret \<Rightarrow> Inr (client1\<lparr>c_ClientSecret := secret\<rparr>))
                 else Inr client1) of
             Inl e \<Rightarrow> Inl e
           | Inr client2 \<Rightarrow>
               if Confidential client2 \<and> c_ClientSecret client2 = [] then Inl errConfidentialNeeds
               else Inr (client2, cs_provid spec ''type'' \<or> cs_provid spec ''secret''))"

definition applyClientEndpointChanges :: "clientChangeSpec \<Rightarrow> Client \<Rightarrow> Client \<times> bool" where
  "applyClientEndpointChanges spec client =
     (let f = cs_f spec; p = cs_provid spec
      in (client\<lparr>
            c_Audience := (if p ''audience'' then fl_audience f else c_Audience client),
            c_GrantTypes := (if p ''grant-types'' then effectiveGrantTypes (fl_grantTypes f) else c_GrantTypes client),
            c_ClientCredentialsScopes := (if p ''cc-scopes'' then parseList (fl_ccScopes f) else c_ClientCredentialsScopes client),
            c_ClientCredentialsRoles := (if p ''cc-roles'' then parseList (fl_ccRoles f) else c_ClientCredentialsRoles client),
            c_AllowedScopes := (if p ''allowed-scopes'' then parseList (fl_allowedScopes f) else c_AllowedScopes client),
            c_RedirectURIs := (if p ''redirect'' then parseList (fl_redirect f) else c_RedirectURIs client),
            c_PostLogoutRedirectURIs := (if p ''post-logout'' then parseList (fl_postLogout f) else c_PostLogoutRedirectURIs client),
            c_AllowedOrigins := (if p ''origin'' then parseList (fl_origin f) else c_AllowedOrigins client)\<rparr>,
          list_ex p [''audience'', ''grant-types'', ''cc-scopes'', ''cc-roles'', ''allowed-scopes'', ''redirect'', ''post-logout'', ''origin'']))"

definition applyClientChanges :: "ctl_env \<Rightarrow> clientChangeSpec \<Rightarrow> Client \<Rightarrow> ctl_error + (Client \<times> bool)" where
  "applyClientChanges ce spec client =
     (case applyClientProfileChange ce spec client of
        Inl e \<Rightarrow> Inl e
      | Inr (client', profileChanged) \<Rightarrow>
          (case applyClientEndpointChanges spec client' of
             (client'', endpointChanged) \<Rightarrow> Inr (client'', profileChanged \<or> endpointChanged)))"

text \<open>Either the exit or error of the command line, or the parsed change.\<close>

definition parseClientChangeArgs :: "ctl_env \<Rightarrow> string list \<Rightarrow> ctlResult + clientChangeSpec" where
  "parseClientChangeArgs ce args =
     (case parseFlags clientFlagSet [] args of
        Inl st \<Rightarrow> Inl (ExitWith st)
      | Inr actual \<Rightarrow>
          (case requireSelector (registerClientSelector actual) of
             Some e \<Rightarrow> Inl (Failed e)
           | None \<Rightarrow> Inr \<lparr>cs_f = registerClientFlags actual, cs_provid = (\<lambda>n. map_of actual n \<noteq> None)\<rparr>))"

definition clientUpdate :: "ctl_env \<Rightarrow> string list \<Rightarrow> dir \<Rightarrow> ctlResult \<times> dir" where
  "clientUpdate ce args d =
     (case parseClientChangeArgs ce args of
        Inl res \<Rightarrow> (res, d)
      | Inr spec \<Rightarrow>
          (let sel = fl_selector (cs_f spec)
           in case loadExistingClients ce (sel_file sel) d of
                Inl e \<Rightarrow> (Failed e, d)
              | Inr clients \<Rightarrow>
                  (case findClient clients (sel_client sel) of
                     None \<Rightarrow> (Failed errClientDoesNotExist, d)
                   | Some idx \<Rightarrow>
                       (case applyClientChanges ce spec (clients ! idx) of
                          Inl e \<Rightarrow> (Failed e, d)
                        | Inr (client, changed) \<Rightarrow>
                            if \<not> changed then (Failed errNothingToUpdateCli, d)
                            else (case ValidateClient (ce_url ce) client of
                                    Some e \<Rightarrow> (Failed (ctlWrap e), d)
                                  | None \<Rightarrow>
                                      (case saveClientsAt ce (sel_file sel) (clients[idx := client]) d of
                                         (Some e, d') \<Rightarrow> (Failed e, d')
                                       | (None, d') \<Rightarrow> (Printed [ClientUpdated (c_ClientID client) (sel_file sel)], d')))))))"

text \<open>The command lines with the selector and, for users, the user name.\<close>

definition parseSelectorArgs :: "ctl_env \<Rightarrow> string list \<Rightarrow> ctlResult + clientSelector" where
  "parseSelectorArgs ce args =
     (case parseFlags selectorFlags [] args of
        Inl st \<Rightarrow> Inl (ExitWith st)
      | Inr actual \<Rightarrow>
          (case requireSelector (registerClientSelector actual) of
             Some e \<Rightarrow> Inl (Failed e)
           | None \<Rightarrow> Inr (registerClientSelector actual)))"

definition removeAt :: "nat \<Rightarrow> 'a list \<Rightarrow> 'a list" where
  "removeAt idx xs = take idx xs @ drop (idx + 1) xs"

definition clientRemove :: "ctl_env \<Rightarrow> string list \<Rightarrow> dir \<Rightarrow> ctlResult \<times> dir" where
  "clientRemove ce args d =
     (case parseSelectorArgs ce args of
        Inl res \<Rightarrow> (res, d)
      | Inr sel \<Rightarrow>
          (case loadExistingClients ce (sel_file sel) d of
             Inl e \<Rightarrow> (Failed e, d)
           | Inr clients \<Rightarrow>
               (case findClient clients (sel_client sel) of
                  None \<Rightarrow> (Failed errClientDoesNotExist, d)
                | Some idx \<Rightarrow>
                    (case saveClientsAt ce (sel_file sel) (removeAt idx clients) d of
                       (Some e, d') \<Rightarrow> (Failed e, d')
                     | (None, d') \<Rightarrow>
                         (Printed ((if length (removeAt idx clients) = 0 then [FileEmptyWarning] else []) @ [ClientRemoved (sel_client sel) (sel_file sel)]),
                          d')))))"

section \<open>Listings\<close>

definition labelled :: "string \<Rightarrow> string list \<Rightarrow> string" where
  "labelled label vs = CHR 0x09 # label @ '': '' @ Join vs '',''"

definition describeClient :: "Client \<Rightarrow> string" where
  "describeClient c =
     (let aud = (if c_Audience c = [] then c_ClientID c else c_Audience c);
          grants = (if length (c_GrantTypes c) = 0 then [GrantAuthorizationCode, GrantRefreshToken] else c_GrantTypes c)
      in c_ClientID c @ labelled ''type'' [c_Type c] @ labelled ''audience'' [aud] @ labelled ''grants'' grants
         @ (if length (c_ClientCredentialsScopes c) > 0 then labelled ''cc-scopes'' (c_ClientCredentialsScopes c) else [])
         @ (if length (c_ClientCredentialsRoles c) > 0 then labelled ''cc-roles'' (c_ClientCredentialsRoles c) else [])
         @ (if length (c_AllowedScopes c) > 0 then labelled ''allowed-scopes'' (c_AllowedScopes c) else [])
         @ labelled ''redirects'' (c_RedirectURIs c)
         @ (if length (c_PostLogoutRedirectURIs c) > 0 then labelled ''post-logout'' (c_PostLogoutRedirectURIs c) else [])
         @ (if length (c_AllowedOrigins c) > 0 then labelled ''origins'' (c_AllowedOrigins c) else [])
         @ labelled ''users'' [FormatInt (int (length (c_Users c)))])"

definition describeUser :: "User \<Rightarrow> string" where
  "describeUser u =
     u_Username u @ (if u_Email u \<noteq> [] then CHR 0x09 # u_Email u else []) @ (if u_Name u \<noteq> [] then CHR 0x09 # u_Name u else [])
       @ (if length (u_Roles u) > 0 then labelled ''roles'' (u_Roles u) else [])"

text \<open>The counts that go to standard error are left out.\<close>

definition clientList :: "ctl_env \<Rightarrow> string list \<Rightarrow> dir \<Rightarrow> ctlResult \<times> dir" where
  "clientList ce args d =
     (case parseFlags [(''file'', StringFlag)] [] args of
        Inl st \<Rightarrow> (ExitWith st, d)
      | Inr actual \<Rightarrow>
          (case readClientsAt ce (flagVal actual ''file'' ''clients.json'') d of
             Inl e \<Rightarrow> (Failed e, d)
           | Inr clients \<Rightarrow> (Printed (map (\<lambda>c. Line (describeClient c)) clients), d)))"

definition clientShow :: "ctl_env \<Rightarrow> string list \<Rightarrow> dir \<Rightarrow> ctlResult \<times> dir" where
  "clientShow ce args d =
     (case parseSelectorArgs ce args of
        Inl res \<Rightarrow> (res, d)
      | Inr sel \<Rightarrow>
          (case loadExistingClients ce (sel_file sel) d of
             Inl e \<Rightarrow> (Failed e, d)
           | Inr clients \<Rightarrow>
               (case findClient clients (sel_client sel) of
                  None \<Rightarrow> (Failed errClientDoesNotExist, d)
                | Some idx \<Rightarrow>
                    (let c = clients ! idx
                     in (Printed (Line (describeClient c) # map (\<lambda>u. Line (''  user: '' @ describeUser u)) (c_Users c)), d)))))"

section \<open>User commands\<close>

record userFlags =
  uf_selector :: clientSelector
  uf_username :: string
  uf_password :: string
  uf_email :: string
  uf_name :: string
  uf_roles :: string
  uf_cost :: int

definition userFlagSet :: "(string \<times> flagKind) list" where
  "userFlagSet = selectorFlags @ map (\<lambda>n. (n, StringFlag)) [''username'', ''password'', ''email'', ''name'', ''roles''] @ [(''cost'', IntFlag)]"

definition flagCost :: "ctl_env \<Rightarrow> (string \<times> string) list \<Rightarrow> int" where
  "flagCost ce actual =
     (case map_of actual ''cost'' of
        None \<Rightarrow> bcryptDefaultCost
      | Some v \<Rightarrow> (case ParseInt0 v of Some n \<Rightarrow> n | None \<Rightarrow> bcryptDefaultCost))"

definition registerUserFlags :: "ctl_env \<Rightarrow> (string \<times> string) list \<Rightarrow> userFlags" where
  "registerUserFlags ce actual =
     \<lparr>uf_selector = registerClientSelector actual, uf_username = flagVal actual ''username'' [], uf_password = flagVal actual ''password'' [],
      uf_email = flagVal actual ''email'' [], uf_name = flagVal actual ''name'' [], uf_roles = flagVal actual ''roles'' [],
      uf_cost = flagCost ce actual\<rparr>"

definition userStoreOf :: "Client list \<Rightarrow> clientSelector \<Rightarrow> ctl_error + User list" where
  "userStoreOf clients sel =
     (case findClient clients (sel_client sel) of
        None \<Rightarrow> Inl errClientMissingHint
      | Some idx \<Rightarrow> Inr (c_Users (clients ! idx)))"

definition newUserHash :: "ctl_env \<Rightarrow> string \<Rightarrow> int \<Rightarrow> bool \<Rightarrow> ctl_error + string" where
  "newUserHash ce flagValue cost confirm =
     (case resolveSecret (ce_terminal ce) flagValue confirm of
        Inl e \<Rightarrow> Inl e
      | Inr password \<Rightarrow>
          if password = [] then Inl errPasswordEmpty
          else (case HashPassword (ce_bcrypt ce) password cost of Inl e \<Rightarrow> Inl (ctlWrap e) | Inr h \<Rightarrow> Inr h))"

definition saveClientUsers :: "ctl_env \<Rightarrow> Client list \<Rightarrow> clientSelector \<Rightarrow> User list \<Rightarrow> string \<Rightarrow> dir \<Rightarrow> ctl_error option \<times> dir" where
  \<comment> \<open>an index of \<open>-1\<close> panics; the callers have found the client before\<close>
  "saveClientUsers ce clients sel users file d =
     (case findClient clients (sel_client sel) of
        None \<Rightarrow> (Some (ctlUpstream ''panic''), d)
      | Some idx \<Rightarrow> saveClientsAt ce file (clients[idx := (clients ! idx)\<lparr>c_Users := users\<rparr>]) d)"

text \<open>The command line of a user command: the flags that were set, once the selector and the user name are there.\<close>

definition parseUserArgs :: "ctl_env \<Rightarrow> (string \<times> flagKind) list \<Rightarrow> string list \<Rightarrow> ctlResult + (string \<times> string) list" where
  "parseUserArgs ce formal args =
     (case parseFlags formal [] args of
        Inl st \<Rightarrow> Inl (ExitWith st)
      | Inr actual \<Rightarrow>
          (case requireSelector (registerClientSelector actual) of
             Some e \<Rightarrow> Inl (Failed e)
           | None \<Rightarrow> if flagVal actual ''username'' [] = [] then Inl (Failed errUsernameRequired) else Inr actual))"

definition userAdd :: "ctl_env \<Rightarrow> string list \<Rightarrow> dir \<Rightarrow> ctlResult \<times> dir" where
  "userAdd ce args d =
     (case parseUserArgs ce userFlagSet args of
        Inl res \<Rightarrow> (res, d)
      | Inr actual \<Rightarrow>
          (let u = registerUserFlags ce actual; sel = uf_selector u
           in case loadClients ce (sel_file sel) d of
                Inl e \<Rightarrow> (Failed e, d)
              | Inr (clients, _) \<Rightarrow>
                  (case userStoreOf clients sel of
                     Inl e \<Rightarrow> (Failed e, d)
                   | Inr users \<Rightarrow>
                       if findUserIndex users (uf_username u) \<noteq> None then (Failed errUserExistsHint, d)
                       else (case newUserHash ce (uf_password u) (uf_cost u) True of
                               Inl e \<Rightarrow> (Failed e, d)
                             | Inr hash \<Rightarrow>
                                 (case saveClientUsers ce clients sel
                                         (users @ [\<lparr>u_Username = uf_username u, u_PasswordHash = hash, u_Email = uf_email u, u_Name = uf_name u,
                                                    u_Roles = parseRoles (uf_roles u)\<rparr>]) (sel_file sel) d of
                                    (Some e, d') \<Rightarrow> (Failed e, d')
                                  | (None, d') \<Rightarrow> (Printed [UserAdded (uf_username u) (sel_client sel) (sel_file sel)], d'))))))"

record userChangeSpec =
  us_u :: userFlags
  us_passwordProvided :: bool
  us_rolesProvided :: bool

definition parseUserChangeArgs :: "ctl_env \<Rightarrow> string list \<Rightarrow> ctlResult + userChangeSpec" where
  "parseUserChangeArgs ce args =
     (case parseUserArgs ce userFlagSet args of
        Inl res \<Rightarrow> Inl res
      | Inr actual \<Rightarrow>
          Inr \<lparr>us_u = registerUserFlags ce actual, us_passwordProvided = (map_of actual ''password'' \<noteq> None),
               us_rolesProvided = (map_of actual ''roles'' \<noteq> None)\<rparr>)"

definition applyUserUpdates :: "ctl_env \<Rightarrow> userChangeSpec \<Rightarrow> User \<Rightarrow> ctl_error + (User \<times> bool)" where
  "applyUserUpdates ce spec user =
     (let u = us_u spec
      in case (if us_passwordProvided spec
               then (case newUserHash ce (uf_password u) (uf_cost u) False of Inl e \<Rightarrow> Inl e | Inr hash \<Rightarrow> Inr (user\<lparr>u_PasswordHash := hash\<rparr>))
               else if uf_cost u \<noteq> bcryptDefaultCost then Inl errCostNeedsPassword
               else Inr user) of
           Inl e \<Rightarrow> Inl e
         | Inr user1 \<Rightarrow>
             Inr (user1\<lparr>u_Email := (if uf_email u \<noteq> [] then uf_email u else u_Email user1),
                        u_Name := (if uf_name u \<noteq> [] then uf_name u else u_Name user1),
                        u_Roles := (if us_rolesProvided spec then parseRoles (uf_roles u) else u_Roles user1)\<rparr>,
                  us_passwordProvided spec \<or> uf_email u \<noteq> [] \<or> uf_name u \<noteq> [] \<or> us_rolesProvided spec))"

definition userUpdate :: "ctl_env \<Rightarrow> string list \<Rightarrow> dir \<Rightarrow> ctlResult \<times> dir" where
  "userUpdate ce args d =
     (case parseUserChangeArgs ce args of
        Inl res \<Rightarrow> (res, d)
      | Inr spec \<Rightarrow>
          (let sel = uf_selector (us_u spec); username = uf_username (us_u spec)
           in case loadExistingClients ce (sel_file sel) d of
                Inl e \<Rightarrow> (Failed e, d)
              | Inr clients \<Rightarrow>
                  (case userStoreOf clients sel of
                     Inl e \<Rightarrow> (Failed e, d)
                   | Inr users \<Rightarrow>
                       (case findUserIndex users username of
                          None \<Rightarrow> (Failed errUserNotInClient, d)
                        | Some idx \<Rightarrow>
                            (case applyUserUpdates ce spec (users ! idx) of
                               Inl e \<Rightarrow> (Failed e, d)
                             | Inr (user, changed) \<Rightarrow>
                                 if \<not> changed then (Failed errNothingToUpdateUsr, d)
                                 else (case saveClientUsers ce clients sel (users[idx := user]) (sel_file sel) d of
                                         (Some e, d') \<Rightarrow> (Failed e, d')
                                       | (None, d') \<Rightarrow> (Printed [UserUpdated username (sel_client sel)], d')))))))"

definition userRemove :: "ctl_env \<Rightarrow> string list \<Rightarrow> dir \<Rightarrow> ctlResult \<times> dir" where
  "userRemove ce args d =
     (case parseUserArgs ce (selectorFlags @ [(''username'', StringFlag)]) args of
        Inl res \<Rightarrow> (res, d)
      | Inr actual \<Rightarrow>
          (let sel = registerClientSelector actual; username = flagVal actual ''username'' []
           in case loadExistingClients ce (sel_file sel) d of
                Inl e \<Rightarrow> (Failed e, d)
              | Inr clients \<Rightarrow>
                  (case userStoreOf clients sel of
                     Inl e \<Rightarrow> (Failed e, d)
                   | Inr users \<Rightarrow>
                       (case findUserIndex users username of
                          None \<Rightarrow> (Failed errUserNotInClient, d)
                        | Some idx \<Rightarrow>
                            (case saveClientUsers ce clients sel (removeAt idx users) (sel_file sel) d of
                               (Some e, d') \<Rightarrow> (Failed e, d')
                             | (None, d') \<Rightarrow>
                                 (Printed ((if length (removeAt idx users) = 0 then [NoUsersWarning] else []) @ [UserRemoved username (sel_client sel)]),
                                  d'))))))"

definition userList :: "ctl_env \<Rightarrow> string list \<Rightarrow> dir \<Rightarrow> ctlResult \<times> dir" where
  "userList ce args d =
     (case parseSelectorArgs ce args of
        Inl res \<Rightarrow> (res, d)
      | Inr sel \<Rightarrow>
          (case readClientsAt ce (sel_file sel) d of
             Inl e \<Rightarrow> (Failed e, d)
           | Inr clients \<Rightarrow>
               (case userStoreOf clients sel of
                  Inl e \<Rightarrow> (Failed e, d)
                | Inr users \<Rightarrow> (Printed (map (\<lambda>u. Line (describeUser u)) users), d))))"

definition hashCommand :: "ctl_env \<Rightarrow> string list \<Rightarrow> dir \<Rightarrow> ctlResult \<times> dir" where
  "hashCommand ce args d =
     (case parseFlags [(''password'', StringFlag), (''cost'', IntFlag)] [] args of
        Inl st \<Rightarrow> (ExitWith st, d)
      | Inr actual \<Rightarrow>
          (case newUserHash ce (flagVal actual ''password'' []) (flagCost ce actual) False of
             Inl e \<Rightarrow> (Failed e, d)
           | Inr h \<Rightarrow> (Printed [Line h], d)))"

section \<open>The command line\<close>

definition clientCmd :: "ctl_env \<Rightarrow> string list \<Rightarrow> dir \<Rightarrow> ctlResult \<times> dir" where
  "clientCmd ce args d =
     (case args of
        [] \<Rightarrow> (ExitWith 2, d)
      | cmd # rest \<Rightarrow>
          if cmd = ''add'' then clientAdd ce rest d
          else if cmd = ''update'' then clientUpdate ce rest d
          else if cmd = ''remove'' then clientRemove ce rest d
          else if cmd = ''list'' then clientList ce rest d
          else if cmd = ''show'' then clientShow ce rest d
          else (Failed errUnknownClientCmd, d))"

definition userCmd :: "ctl_env \<Rightarrow> string list \<Rightarrow> dir \<Rightarrow> ctlResult \<times> dir" where
  "userCmd ce args d =
     (case args of
        [] \<Rightarrow> (ExitWith 2, d)
      | cmd # rest \<Rightarrow>
          if cmd = ''add'' then userAdd ce rest d
          else if cmd = ''update'' then userUpdate ce rest d
          else if cmd = ''remove'' then userRemove ce rest d
          else if cmd = ''list'' then userList ce rest d
          else (Failed errUnknownUserCmd, d))"

text \<open>The usage text, line by line.\<close>

definition ctlUsage :: "string list" where
  "ctlUsage =
     [''clientctl '' @ [CHR 0xE2, CHR 0x80, CHR 0x94] @ '' manage the minidp clients file (registered clients and their users)'',
      [],
      ''Usage:'',
      ''  clientctl client list                                          [-file clients.json]'',
      ''  clientctl client show    -client app                           [-file clients.json]'',
      ''  clientctl client add     -client app -type public|confidential [-file clients.json]'',
      ''                           [-secret ...|-] [-audience ...] [-grant-types ...]'',
      ''                           [-cc-scopes ...] [-cc-roles ...] [-allowed-scopes ...]'',
      ''                           [-redirect uri[,uri...]]'',
      ''                           [-post-logout uri,...] [-origin uri,...]'',
      ''  clientctl client update  -client app                           [-file clients.json]'',
      ''                           [-type ...] [-secret ...|-] [-audience ...]'',
      ''                           [-grant-types ...] [-cc-scopes ...] [-cc-roles ...]'',
      ''                           [-allowed-scopes ...] [-redirect ...]'',
      ''                           [-post-logout ...] [-origin ...]'',
      ''  clientctl client remove  -client app                           [-file clients.json]'',
      ''  clientctl user list      -client app                           [-file clients.json]'',
      ''  clientctl user add       -client app -username alice           [-file clients.json]'',
      ''                           [-email ...] [-name ...] [-roles a,b] [-password ...|-] [-cost 10]'',
      ''  clientctl user update    -client app -username alice           [-file clients.json]'',
      ''                           [-email ...] [-name ...] [-roles a,b] [-password ...|-] [-cost 10]'',
      ''  clientctl user remove    -client app -username alice           [-file clients.json]'',
      ''  clientctl hash           [-password ...|-] [-cost 10]'',
      [],
      ''Passwords are stored as salted bcrypt hashes; secrets and hashes are never'',
      ''printed. \"-password -\"/\"-secret -\" read one line from stdin; without the flag'',
      ''an interactive prompt (with confirmation) is used where applicable. -roles'',
      ''takes a comma-separated list; updating with \"-roles '' @ [CHR 0x27] @ [CHR 0x27] @ ''\" clears all roles.'',
      ''Redirect URIs, post-logout URIs and origins are comma-separated lists that'',
      ''replace the previous set when provided. -grant-types, -cc-scopes and'',
      ''-allowed-scopes are comma-separated lists too: -grant-types picks the OAuth'',
      ''grants the client may use (default: authorization_code,refresh_token); a'',
      ''client_credentials-only client needs no redirect URIs and no users, but'',
      ''-cc-scopes (its statically configured token scopes) and -secret (confidential'',
      ''profile) are required. -allowed-scopes registers the custom delegated API'',
      ''scopes (api://<audience>/<name>, referencing the client'' @ [CHR 0x27] @ ''s own audience) the'',
      ''client may request at /authorize on top of the built-in openid profile email.'']"

text \<open>The arguments after the program name; an error of a command is exit status 1.\<close>

definition clientctl :: "ctl_env \<Rightarrow> string list \<Rightarrow> dir \<Rightarrow> ctlResult \<times> dir" where
  "clientctl ce args d =
     (case args of
        [] \<Rightarrow> (ExitWith 2, d)
      | cmd # rest \<Rightarrow>
          if cmd = ''client'' then clientCmd ce rest d
          else if cmd = ''user'' then userCmd ce rest d
          else if cmd = ''hash'' then hashCommand ce rest d
          else if cmd \<in> {''help'', ''-h'', ''--help''} then (Printed (map Line ctlUsage), d)
          else (ExitWith 2, d))"

section \<open>The usage text\<close>

text \<open>The commands with a subcommand that the text shows in its second and third word.\<close>

definition usageCommands :: "(string \<times> string) list" where
  "usageCommands =
     List.map_filter (\<lambda>l. case Fields l of
         prog # cmd # sub # _ \<Rightarrow> if prog = ''clientctl'' \<and> cmd \<in> {''client'', ''user''} then Some (cmd, sub) else None
       | _ \<Rightarrow> None) ctlUsage"

lemma usageCommands_list:
  "usageCommands = [(''client'', ''list''), (''client'', ''show''), (''client'', ''add''), (''client'', ''update''), (''client'', ''remove''),
     (''user'', ''list''), (''user'', ''add''), (''user'', ''update''), (''user'', ''remove'')]"
  by code_simp

text \<open>Every known subcommand is shown: what the text does not show is refused as unknown.\<close>

lemma usage_complete:
  "(''client'', sub) \<notin> set usageCommands \<Longrightarrow> clientCmd ce (sub # args) d = (Failed errUnknownClientCmd, d)"
  "(''user'', sub) \<notin> set usageCommands \<Longrightarrow> userCmd ce (sub # args) d = (Failed errUnknownUserCmd, d)"
  by (simp_all add: usageCommands_list clientCmd_def userCmd_def)

lemma findIndexBy_Some: "findIndexBy f xs x = Some i \<Longrightarrow> i < length xs \<and> f (xs ! i) = x"
  by (induction xs arbitrary: i) (auto split: if_splits)

section \<open>What a command does to the files\<close>

definition tempFile :: "string \<Rightarrow> bool" where
  "tempFile name \<longleftrightarrow> (\<exists>path suff. name = path @ ''.tmp-'' @ suff)"

text \<open>The bytes of a clients file that the server's own validation accepts.\<close>

definition clientsOk :: "ctl_env \<Rightarrow> Client list \<Rightarrow> bool" where
  "clientsOk ce cs \<longleftrightarrow> (\<forall>c \<in> set cs. clientOk (ce_url ce) c) \<and> distinct (map c_ClientID cs)"

definition savedAs :: "ctl_env \<Rightarrow> Client list \<Rightarrow> node option \<Rightarrow> bool" where
  "savedAs ce cs n \<longleftrightarrow> (\<exists>data. marshalArray (ce_json ce) cs = Some data \<and> n = Some (Contents (data @ [CHR 0x0A])))"

text \<open>The file a command line is about: the \<^verbatim>\<open>-file\<close> of a command that edits, if its flags can be parsed.\<close>

definition targetIn :: "(string \<times> flagKind) list \<Rightarrow> string list \<Rightarrow> string option" where
  "targetIn formal args =
     (case parseFlags formal [] args of Inl st \<Rightarrow> None | Inr actual \<Rightarrow> Some (flagVal actual ''file'' ''clients.json''))"

text \<open>All text a command gets from outside is valid UTF-8: its arguments, what is typed and the hashes of bcrypt (which are ASCII).\<close>

definition inputsUTF8 :: "ctl_env \<Rightarrow> string list \<Rightarrow> bool" where
  "inputsUTF8 ce args \<longleftrightarrow>
     list_all validUTF8 args \<and> validUTF8 (tm_stdin (ce_terminal ce)) \<and> (\<forall>i pw. tm_prompt (ce_terminal ce) i = Some pw \<longrightarrow> validUTF8 pw)
     \<and> (\<forall>pw cost h. ce_bcrypt ce pw cost = Some h \<longrightarrow> validUTF8 h)"

text \<open>
  The outcome of a command with the given target, on the files that are not temporary: when it reports success, the target holds
  clients that pass the validation, written in full, and the other files are as they were; otherwise all files are as they were.
\<close>

definition editSafe :: "ctl_env \<Rightarrow> string list \<Rightarrow> string option \<Rightarrow> dir \<Rightarrow> ctlResult \<times> dir \<Rightarrow> bool" where
  "editSafe ce args target d outcome \<longleftrightarrow>
     (case (target, fst outcome) of
        (Some file, Printed out) \<Rightarrow>
          (\<exists>cs. clientsOk ce cs \<and> savedAs ce cs (snd outcome file) \<and> (inputsUTF8 ce args \<longrightarrow> (\<forall>c \<in> set cs. utf8Client c)))
          \<and> (\<forall>name. name \<noteq> file \<and> \<not> tempFile name \<longrightarrow> snd outcome name = d name)
      | _ \<Rightarrow> \<forall>name. \<not> tempFile name \<longrightarrow> snd outcome name = d name)"

lemma editSafe_same [simp]: "editSafe ce args target d (Failed e, d)" "editSafe ce args target d (ExitWith n, d)" "editSafe ce args None d (res, d)"
  by (simp_all add: editSafe_def split: option.split ctlResult.split)

lemma editSafe_changed:
  assumes "editSafe ce args target d outcome" "snd outcome name \<noteq> d name" "\<not> tempFile name"
  shows "target = Some name" "\<exists>out. fst outcome = Printed out" "\<exists>cs. clientsOk ce cs \<and> savedAs ce cs (snd outcome name)"
proof -
  obtain path out where po: "target = Some path" "fst outcome = Printed out"
    using assms by (cases target; cases "fst outcome") (auto simp: editSafe_def)
  then have "path = name" using assms by (auto simp: editSafe_def)
  note o = po [unfolded this]
  show "target = Some name" "\<exists>out. fst outcome = Printed out" by (simp_all add: o)
  show "\<exists>cs. clientsOk ce cs \<and> savedAs ce cs (snd outcome name)" using assms(1) by (auto simp: editSafe_def o)
qed

lemma SaveClients_Inr:
  assumes "SaveClients js up cs = Inr data"
  shows "(\<forall>c \<in> set cs. clientOk up c) \<and> distinct (map c_ClientID cs)" "\<exists>raw. marshalArray js cs = Some raw \<and> data = raw @ [CHR 0x0A]"
  using assms by (auto simp: SaveClients_def SaveClientsFile_def validateClientSlice_None split: option.splits)

lemma saveClientsAt_cases:
  assumes "saveClientsAt ce path cs d = (res, d')"
  obtains (kept) e where "res = Some e" "\<And>name. \<not> tempFile name \<Longrightarrow> d' name = d name"
  | (saved) "res = None" "clientsOk ce cs" "savedAs ce cs (d' path)" "\<And>name. name \<noteq> path \<Longrightarrow> \<not> tempFile name \<Longrightarrow> d' name = d name"
proof (cases "SaveClients (ce_json ce) (ce_url ce) cs")
  case (Inl e)
  then have "res = Some (ctlWrap e)" "d' = d" using assms by (simp_all add: saveClientsAt_def)
  then show ?thesis using kept by blast
next
  case data: (Inr data)
  note valid = SaveClients_Inr [OF data]
  obtain err steps where save: "saveJSONFile (ce_faults ce) (ce_rand ce) path data d = (err, steps)" by fastforce
  then have res: "res = map_option ctlWrap err" "d' = last steps"
    using assms data by (simp_all add: saveClientsAt_def)
  show ?thesis
  proof (cases "randomToken (ce_rand ce)")
    case (Inl e)
    then have "res = Some (ctlWrap e)" "d' = d" using save res by (auto simp: saveJSONFile_def)
    then show ?thesis using kept by blast
  next
    case (Inr suff)
    let ?tmp = "path @ ''.tmp-'' @ suff"
    have tmp: "tempFile ?tmp" by (auto simp: tempFile_def)
    have atomic: "atomicWrite ?tmp path data d (err, steps)" using saveJSONFile_atomic [OF Inr] save by metis
    then have last: "\<And>other. other \<noteq> path \<Longrightarrow> other \<noteq> ?tmp \<Longrightarrow> d' other = d other"
      using res(2) by (auto simp: atomicWrite_def)
    show ?thesis
    proof (cases err)
      case None
      then have "d' = d(path \<mapsto> Contents data, ?tmp := None)" using atomic res(2) by (simp add: atomicWrite_def)
      then have "savedAs ce cs (d' path)" using valid(2) by (auto simp: savedAs_def)
      then show ?thesis using saved None res(1) valid(1) last tmp by (auto simp: clientsOk_def)
    next
      case (Some e)
      then have "d' path = d path" using atomic res(2) by (simp add: atomicWrite_def)
      with last tmp have "\<And>name. \<not> tempFile name \<Longrightarrow> d' name = d name" by metis
      then show ?thesis using kept Some res(1) by simp
    qed
  qed
qed

lemma saving_safe:
  assumes "inputsUTF8 ce args \<Longrightarrow> \<forall>c \<in> set cs. utf8Client c"
  shows "editSafe ce args (Some path) d (case saveClientsAt ce path cs d of (None, d') \<Rightarrow> (Printed out, d') | (Some e, d') \<Rightarrow> (Failed e, d'))"
proof (cases "saveClientsAt ce path cs d")
  case (Pair res d')
  then show ?thesis
  proof (cases rule: saveClientsAt_cases)
    case (kept e)
    with Pair show ?thesis by (simp add: editSafe_def)
  next
    case saved
    with Pair assms show ?thesis by (auto simp: editSafe_def)
  qed
qed

subsection \<open>Valid text stays valid\<close>

lemma loadClients_utf8: "loadClients ce path d = Inr (cs, ok) \<Longrightarrow> \<forall>c \<in> set cs. utf8Client c"
proof -
  have "\<forall>c \<in> set (cf_Clients f). utf8Client c" if "ReadClientsFile (ce_json ce) (ce_url ce) x = Inr f" for x f
    using that read_file_utf8(1) [of "ce_nil ce" "ce_url ce" _ f]
    by (cases x) (auto simp: list_all_iff ReadClientsFile_def [of _ _ "Inl e" for e])
  then show "loadClients ce path d = Inr (cs, ok) \<Longrightarrow> \<forall>c \<in> set cs. utf8Client c"
    by (auto simp: loadClients_def ReadClients_def split: option.splits sum.splits)
qed

lemma loadExistingClients_utf8: "loadExistingClients ce path d = Inr cs \<Longrightarrow> \<forall>c \<in> set cs. utf8Client c"
  using loadClients_utf8 by (fastforce simp: loadExistingClients_def split: sum.splits if_splits)

definition utf8Flags :: "(string \<times> string) list \<Rightarrow> bool" where
  "utf8Flags actual \<longleftrightarrow> (\<forall>n v. map_of actual n = Some v \<longrightarrow> validUTF8 v)"

lemma utf8Flags_update: "utf8Flags actual \<Longrightarrow> validUTF8 v \<Longrightarrow> utf8Flags (AList.update n v actual)"
  by (auto simp: utf8Flags_def update_conv')

lemma splitFlag_utf8:
  assumes "validUTF8 (p @ body)" "body \<noteq> []" "snd (splitFlag body) = Some v"
  shows "validUTF8 v"
proof -
  obtain a where "Cut (tl body) (CHR ''='') = Some (a, v)" using assms(3) by (auto simp: splitFlag_def split: option.splits)
  then have "tl body = a @ CHR ''='' # v" by (simp add: Cut_Some)
  then have "p @ body = (p @ hd body # a) @ CHR ''='' # v" using assms(2) by (cases body) simp_all
  with assms(1) validUTF8_cut_ascii(2) [of "p @ hd body # a" "CHR ''=''" v] show ?thesis by simp
qed

lemma parseFlags_utf8: "parseFlags formal actual args = Inr actual' \<Longrightarrow> list_all validUTF8 args \<Longrightarrow> utf8Flags actual \<Longrightarrow> utf8Flags actual'"
proof (induction formal actual args rule: parseFlags.induct)
  case (2 formal actual s args)
  let ?k = "if s ! 1 = CHR ''-'' then 2 else 1"
  let ?body = "drop ?k s"
  have s: "validUTF8 (take ?k s @ ?body)" using "2.prems"(2) by simp
  show ?case
    using "2.prems" "2.IH" splitFlag_utf8 [OF s] utf8Flags_update
    by (auto simp: Let_def split: if_splits option.splits list.splits)
qed simp

lemma flagVal_utf8: "utf8Flags actual \<Longrightarrow> validUTF8 def \<Longrightarrow> validUTF8 (flagVal actual n def)"
  by (auto simp: flagVal_def utf8Flags_def split: option.split)

lemma parseList_utf8: "validUTF8 v \<Longrightarrow> list_all validUTF8 (parseList v)"
  using validUTF8_Split [of v "CHR '',''"] validUTF8_TrimSpace by (auto simp: parseList_def list_all_iff)

lemma resolveSecret_utf8:
  assumes "resolveSecret tm v confirm = Inr pw" "validUTF8 v" "validUTF8 (tm_stdin tm)" "\<And>i pw. tm_prompt tm i = Some pw \<Longrightarrow> validUTF8 pw"
  shows "validUTF8 pw"
proof -
  have "validUTF8 (TrimRightNewlines (takeWhile (\<lambda>c. c \<noteq> CHR 0x0A) (tm_stdin tm)))"
    unfolding TrimRightNewlines_def by (intro validUTF8_dropRight validUTF8_takeWhile assms(3)) auto
  then show ?thesis
    using assms by (auto simp: resolveSecret_def readLineFromStdin_def promptSecret_def readSecretPrompt_def split: if_splits option.splits sum.splits)
qed

lemma flags_utf8: "parseFlags formal [] args = Inr actual \<Longrightarrow> inputsUTF8 ce args \<Longrightarrow> utf8Flags actual"
  using parseFlags_utf8 [of formal "[]" args actual] by (simp add: inputsUTF8_def utf8Flags_def)

lemma resolveNewSecret_utf8: "resolveNewSecret (ce_terminal ce) v = Inr pw \<Longrightarrow> validUTF8 v \<Longrightarrow> inputsUTF8 ce args \<Longrightarrow> validUTF8 pw"
  unfolding resolveNewSecret_def by (rule resolveSecret_utf8) (auto simp: inputsUTF8_def)

lemma newUserHash_utf8: "newUserHash ce v cost confirm = Inr h \<Longrightarrow> inputsUTF8 ce args \<Longrightarrow> validUTF8 h"
  by (auto simp: newUserHash_def HashPassword_def inputsUTF8_def split: sum.splits if_splits option.splits)

lemma addClient_utf8:
  assumes "addClient ce (registerClientFlags actual) = Inr c" "utf8Flags actual" "inputsUTF8 ce args"
  shows "utf8Client c"
proof -
  obtain secret where c: "c = (newClient (registerClientFlags actual))\<lparr>c_ClientSecret := secret\<rparr>" "validUTF8 secret"
    using assms resolveNewSecret_utf8 flagVal_utf8 [OF assms(2)]
    by (fastforce simp: addClient_def registerClientFlags_def Let_def split: sum.splits if_splits option.splits)
  then show ?thesis
    using flagVal_utf8 [OF assms(2)]
    by (simp add: utf8Client_def newClient_def registerClientFlags_def registerClientSelector_def parseList_utf8)
qed

lemma utf8_type: "utf8Client c \<Longrightarrow> validUTF8 t \<Longrightarrow> utf8Client (c\<lparr>c_Type := t\<rparr>)"
  and utf8_secret: "utf8Client c \<Longrightarrow> validUTF8 t \<Longrightarrow> utf8Client (c\<lparr>c_ClientSecret := t\<rparr>)"
  by (simp_all add: utf8Client_def)

lemma effectiveGrantTypes_utf8: "validUTF8 v \<Longrightarrow> list_all validUTF8 (effectiveGrantTypes v)"
  by (simp add: effectiveGrantTypes_def parseList_utf8 validUTF8_ascii Let_def)

lemma applyClientChanges_utf8:
  assumes "applyClientChanges ce spec c = Inr (c', changed)" "cs_f spec = registerClientFlags actual" "utf8Flags actual" "inputsUTF8 ce args"
    and "utf8Client c"
  shows "utf8Client c'"
proof -
  obtain c1 ch where p: "applyClientProfileChange ce spec c = Inr (c1, ch)" "c' = fst (applyClientEndpointChanges spec c1)"
    using assms(1) by (auto simp: applyClientChanges_def split: sum.splits prod.splits)
  have v: "validUTF8 (flagVal actual n [])" for n using flagVal_utf8 [OF assms(3)] by simp
  have secret: "validUTF8 pw" if "resolveNewSecret (ce_terminal ce) (flagVal actual ''secret'' []) = Inr pw" for pw
    using resolveNewSecret_utf8 [OF that v assms(4)] .
  have "fl_typ (cs_f spec) = flagVal actual ''type'' []" "fl_secret (cs_f spec) = flagVal actual ''secret'' []"
    by (simp_all add: assms(2) registerClientFlags_def)
  then have "utf8Client c1"
    using p(1) assms(5) secret
    by (auto simp: applyClientProfileChange_def Let_def utf8_type utf8_secret v ascii_strings split: sum.splits if_splits)
  then show ?thesis
    by (simp add: v p(2) applyClientEndpointChanges_def assms(2) registerClientFlags_def Let_def utf8Client_def parseList_utf8 effectiveGrantTypes_utf8)
qed

lemma applyUserUpdates_utf8:
  assumes "applyUserUpdates ce spec u = Inr (u', changed)" "us_u spec = registerUserFlags ce actual" "utf8Flags actual" "inputsUTF8 ce args"
    and "utf8User u"
  shows "utf8User u'"
proof -
  have v: "validUTF8 (flagVal actual n [])" for n using flagVal_utf8 [OF assms(3)] by simp
  show ?thesis
    using assms(1,5) v newUserHash_utf8 [OF _ assms(4)]
    by (fastforce simp: applyUserUpdates_def assms(2) registerUserFlags_def Let_def utf8User_def parseRoles_def parseList_utf8 split: sum.splits if_splits)
qed

lemma saving_users_safe:
  assumes "userStoreOf clients sel = Inr users" "\<forall>c \<in> set clients. utf8Client c"
    and "inputsUTF8 ce args \<Longrightarrow> list_all utf8User users \<Longrightarrow> list_all utf8User users'"
  shows "editSafe ce args (Some file) d (case saveClientUsers ce clients sel users' file d of (None, d') \<Rightarrow> (Printed out, d') | (Some e, d') \<Rightarrow> (Failed e, d'))"
proof -
  obtain idx where idx: "findClient clients (sel_client sel) = Some idx" "users = c_Users (clients ! idx)"
    using assms(1) by (auto simp: userStoreOf_def split: option.splits)
  then have "idx < length clients" using findIndexBy_Some by (auto simp: findClient_def)
  then have c: "utf8Client (clients ! idx)" using assms(2) by simp
  have "\<forall>c \<in> set (clients[idx := (clients ! idx)\<lparr>c_Users := users'\<rparr>]). utf8Client c" if "inputsUTF8 ce args"
  proof -
    have "utf8Client ((clients ! idx)\<lparr>c_Users := users'\<rparr>)"
      using c assms(3) [OF that] by (simp add: utf8Client_def idx(2))
    then show ?thesis using assms(2) set_update_subset_insert [of clients idx] by fastforce
  qed
  then show ?thesis using idx(1) by (simp add: saveClientUsers_def saving_safe)
qed

subsection \<open>The contract of the commands\<close>

text \<open>What the server reads from the file: the clients it accepts.\<close>

definition accepted :: "url_parser \<Rightarrow> node option \<Rightarrow> bool" where
  "accepted up n \<longleftrightarrow> (\<exists>raw file. n = Some (Contents raw) \<and> ReadClientsFile stdJSON up (Inr raw) = Inr file)"

text \<open>Every list of clients that a command writes is not \<^verbatim>\<open>nil\<close>: it was read from a JSON array, or a client was appended to it.\<close>

definition listsExist :: "ctl_env \<Rightarrow> bool" where
  "listsExist ce \<longleftrightarrow> \<not> ce_nil ce ''clients'' 0"

lemma savedAs_SaveClients:
  assumes "clientsOk ce cs" "savedAs ce cs (Some (Contents raw))"
  shows "SaveClientsFile (ce_json ce) (ce_url ce) \<lparr>cf_Clients = cs, cf_Resources = []\<rparr> = Inr raw"
proof -
  have "validateClientSlice (ce_url ce) cs = None" using assms(1) by (simp add: validateClientSlice_None clientsOk_def)
  then show ?thesis using assms(2) by (auto simp: SaveClientsFile_def savedAs_def no_registry)
qed

lemma saved_reads:
  assumes "clientsOk ce cs" "savedAs ce cs (Some (Contents raw))" "listsExist ce"
  shows "ReadClientsFile (ce_json ce) (ce_url ce) (Inr raw) =
    (case validateClientSlice (ce_url ce) (map cleanClient cs) of
       Some e \<Rightarrow> Inl e | None \<Rightarrow> Inr \<lparr>cf_Clients = map cleanClient cs, cf_Resources = []\<rparr>)"
proof -
  show ?thesis
    using saved_file_contents [OF savedAs_SaveClients [OF assms(1,2)], of "ce_nil ce"] assms(3)
    by (simp add: listsExist_def no_registry orErr_def split: option.split)
qed

lemma saved_accepted:
  assumes "clientsOk ce cs" "savedAs ce cs n" "listsExist ce" "\<forall>c \<in> set cs. utf8Client c"
  shows "accepted (ce_url ce) n"
proof -
  obtain raw where raw: "n = Some (Contents raw)" using assms(2) by (auto simp: savedAs_def)
  have "map cleanClient cs = cs" using assms(4) by (simp add: clean_utf8 map_idI)
  moreover have "validateClientSlice (ce_url ce) cs = None" using assms(1) by (simp add: validateClientSlice_None clientsOk_def)
  ultimately show ?thesis using saved_reads [of ce cs raw] assms raw by (simp add: accepted_def goJSON_reads)
qed

text \<open>The contract that all commands share, with what follows for a series of them.\<close>

locale ctl_command =
  fixes cmd :: "ctl_env \<Rightarrow> string list \<Rightarrow> dir \<Rightarrow> ctlResult \<times> dir"
    and target :: "string list \<Rightarrow> string option"
  assumes safe: "editSafe ce args (target args) d (cmd ce args d)"
begin

lemma failure_keeps: "cmd ce args d = (res, d') \<Longrightarrow> (\<And>out. res \<noteq> Printed out) \<Longrightarrow> \<not> tempFile name \<Longrightarrow> d' name = d name"
  using editSafe_changed(2) [OF safe] by (metis fst_conv snd_conv)

lemma keeps_accepted:
  assumes "\<not> tempFile name" "listsExist ce" "ce_url ce = up" "inputsUTF8 ce args" "accepted up (d name)"
  shows "accepted up (snd (cmd ce args d) name)"
proof (cases "snd (cmd ce args d) name = d name")
  case False
  from editSafe_changed [OF safe this assms(1)] obtain out where "target args = Some name" "fst (cmd ce args d) = Printed out" by blast
  with safe [of ce args d] assms(2,3,4) saved_accepted show ?thesis by (auto simp: editSafe_def)
qed (use assms(5) in simp)

lemma series_accepted:
  assumes "\<not> tempFile name" "\<forall>(ce, args) \<in> set runs. listsExist ce \<and> ce_url ce = up \<and> inputsUTF8 ce args" "accepted up (d name)"
  shows "accepted up (fold (\<lambda>(ce, args) d. snd (cmd ce args d)) runs d name)"
  using assms(2,3)
proof (induction runs arbitrary: d)
  case (Cons run runs)
  obtain ce args where run: "run = (ce, args)" by (cases run)
  with Cons.prems keeps_accepted [OF assms(1), of ce up args d] have "accepted up (snd (cmd ce args d) name)" by simp
  with Cons.IH Cons.prems(1) show ?case by (simp add: run)
qed simp

end

interpretation clientAddCmd: ctl_command clientAdd "targetIn clientFlagSet"
proof
  fix ce args d
  show "editSafe ce args (targetIn clientFlagSet args) d (clientAdd ce args d)"
  proof (cases "parseFlags clientFlagSet [] args")
    case (Inr actual)
    have sel: "sel_file (fl_selector (registerClientFlags actual)) = flagVal actual ''file'' ''clients.json''"
      by (simp add: registerClientFlags_def registerClientSelector_def)
    have "\<forall>x \<in> set (cs @ [c]). utf8Client x"
      if "loadClients ce path d = Inr (cs, ok)" "addClient ce (registerClientFlags actual) = Inr c" "inputsUTF8 ce args" for cs ok c path
      using loadClients_utf8 [OF that(1)] addClient_utf8 [OF that(2) flags_utf8 [OF Inr that(3)] that(3)] by simp
    then show ?thesis
      unfolding clientAdd_def Inr sum.case Let_def targetIn_def sel
      by (auto simp del: set_append intro!: saving_safe split: sum.split option.split if_split)
  qed (simp add: clientAdd_def targetIn_def)
qed

interpretation clientUpdateCmd: ctl_command clientUpdate "targetIn clientFlagSet"
proof
  fix ce args d
  show "editSafe ce args (targetIn clientFlagSet args) d (clientUpdate ce args d)"
  proof (cases "parseClientChangeArgs ce args")
    case (Inl res)
    then show ?thesis
      by (auto simp: clientUpdate_def parseClientChangeArgs_def targetIn_def split: sum.splits option.splits)
  next
    case (Inr spec)
    then obtain actual where actual: "parseFlags clientFlagSet [] args = Inr actual" "cs_f spec = registerClientFlags actual"
      by (auto simp: parseClientChangeArgs_def split: sum.splits option.splits)
    have sel: "sel_file (fl_selector (cs_f spec)) = flagVal actual ''file'' ''clients.json''"
      by (simp add: actual(2) registerClientFlags_def registerClientSelector_def)
    have "\<forall>x \<in> set (cs[idx := c]). utf8Client x"
      if "loadExistingClients ce path d = Inr cs" "findClient cs cid = Some idx" "applyClientChanges ce spec (cs ! idx) = Inr (c, ch)" "inputsUTF8 ce args"
      for cs cid idx c ch path
    proof -
      have "idx < length cs" using findIndexBy_Some that(2) by (auto simp: findClient_def)
      then have "utf8Client (cs ! idx)" using loadExistingClients_utf8 [OF that(1)] by simp
      from applyClientChanges_utf8 [OF that(3) actual(2) flags_utf8 [OF actual(1) that(4)] that(4) this]
      show ?thesis using loadExistingClients_utf8 [OF that(1)] set_update_subset_insert [of cs idx c] by blast
    qed
    then show ?thesis
      unfolding clientUpdate_def Inr sum.case Let_def targetIn_def sel actual(1)
      by (auto intro!: saving_safe split: sum.split option.split if_split)
  qed
qed

lemma parseSelectorArgs_Inr:
  "parseSelectorArgs ce args = Inr sel \<Longrightarrow> targetIn selectorFlags args = Some (sel_file sel)"
  by (auto simp: parseSelectorArgs_def targetIn_def registerClientSelector_def split: sum.splits option.splits)

lemma parseUserArgs_Inr:
  "parseUserArgs ce formal args = Inr actual \<Longrightarrow>
     parseFlags formal [] args = Inr actual \<and> targetIn formal args = Some (sel_file (registerClientSelector actual))"
  by (auto simp: parseUserArgs_def targetIn_def registerClientSelector_def split: sum.splits option.splits if_splits)

lemma parse_Inl_safe:
  "parseSelectorArgs ce args = Inl res \<Longrightarrow> editSafe ce args target d (res, d)"
  "parseUserArgs ce formal args = Inl res \<Longrightarrow> editSafe ce args target d (res, d)"
  by (auto simp: parseSelectorArgs_def parseUserArgs_def split: sum.splits option.splits if_splits)

interpretation clientRemoveCmd: ctl_command clientRemove "targetIn selectorFlags"
proof
  fix ce args d
  show "editSafe ce args (targetIn selectorFlags args) d (clientRemove ce args d)"
  proof (cases "parseSelectorArgs ce args")
    case (Inr sel)
    have "\<forall>x \<in> set (removeAt idx cs). utf8Client x" if "loadExistingClients ce path d = Inr cs" for cs idx path
      using loadExistingClients_utf8 [OF that] by (auto simp: removeAt_def dest: in_set_takeD in_set_dropD)
    then show ?thesis
      unfolding clientRemove_def Inr sum.case parseSelectorArgs_Inr [OF Inr]
      by (auto intro!: saving_safe split: sum.split option.split simp del: length_0_conv)
  qed (simp add: clientRemove_def parse_Inl_safe)
qed

interpretation userAddCmd: ctl_command userAdd "targetIn userFlagSet"
proof
  fix ce args d
  show "editSafe ce args (targetIn userFlagSet args) d (userAdd ce args d)"
  proof (cases "parseUserArgs ce userFlagSet args")
    case (Inr actual)
    note actual = parseUserArgs_Inr [OF Inr]
    have sel: "uf_selector (registerUserFlags ce actual) = registerClientSelector actual" by (simp add: registerUserFlags_def)
    have "list_all utf8User (users @ [\<lparr>u_Username = uf_username (registerUserFlags ce actual), u_PasswordHash = hash,
        u_Email = uf_email (registerUserFlags ce actual), u_Name = uf_name (registerUserFlags ce actual), u_Roles = parseRoles (uf_roles (registerUserFlags ce actual))\<rparr>])"
      if "newUserHash ce v cost b = Inr hash" "inputsUTF8 ce args" "list_all utf8User users" for users hash v cost b
      using that newUserHash_utf8 [OF that(1,2)] flagVal_utf8 [OF flags_utf8 [OF conjunct1 [OF actual] that(2)]]
      by (simp add: utf8User_def registerUserFlags_def parseRoles_def parseList_utf8)
    then show ?thesis
      unfolding userAdd_def Inr sum.case Let_def conjunct2 [OF actual] sel
      by (auto intro!: saving_users_safe dest: loadClients_utf8 simp del: list_all_append split: sum.split option.split)
  qed (simp add: userAdd_def parse_Inl_safe)
qed

interpretation userUpdateCmd: ctl_command userUpdate "targetIn userFlagSet"
proof
  fix ce args d
  show "editSafe ce args (targetIn userFlagSet args) d (userUpdate ce args d)"
  proof (cases "parseUserArgs ce userFlagSet args")
    case (Inr actual)
    note actual = parseUserArgs_Inr [OF Inr]
    obtain spec where spec: "parseUserChangeArgs ce args = Inr spec" "us_u spec = registerUserFlags ce actual"
      by (simp add: parseUserChangeArgs_def Inr)
    have sel: "uf_selector (us_u spec) = registerClientSelector actual" by (simp add: spec(2) registerUserFlags_def)
    have "list_all utf8User (users[idx := u])"
      if "findUserIndex users name = Some idx" "applyUserUpdates ce spec (users ! idx) = Inr (u, ch)" "inputsUTF8 ce args" "list_all utf8User users"
      for users name idx u ch
    proof -
      have "idx < length users" using findIndexBy_Some that(1) by (auto simp: findUserIndex_def)
      then have "utf8User (users ! idx)" using that(4) by (simp add: list_all_length)
      from applyUserUpdates_utf8 [OF that(2) spec(2) flags_utf8 [OF conjunct1 [OF actual] that(3)] that(3) this] that(4)
      show ?thesis using set_update_subset_insert [of users idx u] by (auto simp: list_all_iff)
    qed
    then show ?thesis
      unfolding userUpdate_def spec(1) sum.case Let_def conjunct2 [OF actual] sel
      by (auto intro!: saving_users_safe dest: loadExistingClients_utf8 split: sum.split option.split if_split)
  qed (simp add: userUpdate_def parseUserChangeArgs_def parse_Inl_safe)
qed

interpretation userRemoveCmd: ctl_command userRemove "targetIn (selectorFlags @ [(''username'', StringFlag)])"
proof
  fix ce args d
  show "editSafe ce args (targetIn (selectorFlags @ [(''username'', StringFlag)]) args) d (userRemove ce args d)"
  proof (cases "parseUserArgs ce (selectorFlags @ [(''username'', StringFlag)]) args")
    case (Inr actual)
    note actual = parseUserArgs_Inr [OF Inr]
    have "list_all utf8User (removeAt idx users)" if "list_all utf8User users" for idx users
      using that by (auto simp: removeAt_def list_all_iff dest: in_set_takeD in_set_dropD)
    then show ?thesis
      unfolding userRemove_def Inr sum.case Let_def conjunct2 [OF actual]
      by (auto intro!: saving_users_safe dest: loadExistingClients_utf8 split: sum.split option.split simp del: length_0_conv)
  qed (simp add: userRemove_def parse_Inl_safe)
qed

text \<open>The commands that edit, with the flags of each; the others leave all files alone.\<close>

definition editingFlags :: "string \<Rightarrow> string \<Rightarrow> (string \<times> flagKind) list option" where
  "editingFlags noun sub =
     (if noun = ''client'' \<and> (sub = ''add'' \<or> sub = ''update'') then Some clientFlagSet
      else if noun = ''client'' \<and> sub = ''remove'' then Some selectorFlags
      else if noun = ''user'' \<and> (sub = ''add'' \<or> sub = ''update'') then Some userFlagSet
      else if noun = ''user'' \<and> sub = ''remove'' then Some (selectorFlags @ [(''username'', StringFlag)])
      else None)"

definition editedFile :: "string list \<Rightarrow> string option" where
  "editedFile args =
     (case args of
        noun # sub # rest \<Rightarrow> (case editingFlags noun sub of None \<Rightarrow> None | Some formal \<Rightarrow> targetIn formal rest)
      | _ \<Rightarrow> None)"

lemma shows_only:
  "snd (clientList ce args d) = d" "snd (clientShow ce args d) = d" "snd (userList ce args d) = d" "snd (hashCommand ce args d) = d"
  by (auto simp: clientList_def clientShow_def userList_def hashCommand_def Let_def split: sum.split option.split)

lemma editSafe_shown: "snd outcome = d \<Longrightarrow> editSafe ce args None d outcome"
  by (cases outcome) simp

lemma editSafe_words: "editSafe ce rest t d outcome \<Longrightarrow> editSafe ce (noun # sub # rest) t d outcome"
  by (auto simp: editSafe_def inputsUTF8_def split: option.splits ctlResult.splits)

lemma clientCmd_safe: "editSafe ce (''client'' # args) (editedFile (''client'' # args)) d (clientCmd ce args d)"
proof (cases args)
  case (Cons sub rest)
  consider (add) "sub = ''add''" | (upd) "sub = ''update''" | (rem) "sub = ''remove''"
    | (other) "sub \<noteq> ''add''" "sub \<noteq> ''update''" "sub \<noteq> ''remove''" by blast
  then show ?thesis
  proof cases
    case other
    then show ?thesis by (simp add: Cons clientCmd_def editedFile_def editingFlags_def shows_only editSafe_shown)
  qed (simp_all add: Cons clientCmd_def editedFile_def editingFlags_def editSafe_words clientAddCmd.safe clientUpdateCmd.safe clientRemoveCmd.safe)
qed (simp add: clientCmd_def editedFile_def editSafe_shown)

lemma userCmd_safe: "editSafe ce (''user'' # args) (editedFile (''user'' # args)) d (userCmd ce args d)"
proof (cases args)
  case (Cons sub rest)
  consider (add) "sub = ''add''" | (upd) "sub = ''update''" | (rem) "sub = ''remove''"
    | (other) "sub \<noteq> ''add''" "sub \<noteq> ''update''" "sub \<noteq> ''remove''" by blast
  then show ?thesis
  proof cases
    case other
    then show ?thesis by (simp add: Cons userCmd_def editedFile_def editingFlags_def shows_only editSafe_shown)
  qed (simp_all add: Cons userCmd_def editedFile_def editingFlags_def editSafe_words userAddCmd.safe userUpdateCmd.safe
      userRemoveCmd.safe [simplified])
qed (simp add: userCmd_def editedFile_def editSafe_shown)

interpretation clientctlCmd: ctl_command clientctl editedFile
proof
  fix ce args d
  show "editSafe ce args (editedFile args) d (clientctl ce args d)"
  proof (cases args)
    case (Cons noun rest)
    consider (client) "noun = ''client''" | (user) "noun = ''user''" | (other) "noun \<noteq> ''client''" "noun \<noteq> ''user''" by blast
    then show ?thesis
    proof cases
      case other
      then have "editedFile args = None" by (simp add: Cons editedFile_def editingFlags_def split: list.split)
      moreover have "snd (clientctl ce args d) = d" using other by (simp add: Cons clientctl_def shows_only)
      ultimately show ?thesis by (simp add: editSafe_shown)
    qed (simp_all add: Cons clientctl_def clientCmd_safe userCmd_safe)
  qed (simp add: clientctl_def editedFile_def editSafe_shown)
qed

text \<open>
  C37. The tool never leaves a broken clients file: when a command that edits reports success, the file named by its \<^verbatim>\<open>-file\<close> has been written
  in full and holds clients that pass the server's validation with distinct ids, and no other file has changed (its own temporary
  file apart); a command that fails or exits, or one that only shows something, leaves every file as it was, whatever the command line,
  the terminal input and the faults of the file system. Hence a file that the server accepts, in the array or the object form, is still
  accepted after any series of commands, if what is typed is valid UTF-8 (without that it need not be: \<open>stray_bytes_lock_out\<close>).
\<close>

theorem clientctl_keeps_file_valid:
  "(\<forall>file out. editedFile args = Some file \<and> fst (clientctl ce args d) = Printed out \<longrightarrow>
       (\<exists>cs. clientsOk ce cs \<and> savedAs ce cs (snd (clientctl ce args d) file)))
   \<and> (\<not> tempFile name \<and> snd (clientctl ce args d) name \<noteq> d name \<longrightarrow>
       editedFile args = Some name \<and> (\<exists>out. fst (clientctl ce args d) = Printed out))
   \<and> (\<not> tempFile name \<and> (\<forall>(ce, args) \<in> set runs. listsExist ce \<and> ce_url ce = up \<and> inputsUTF8 ce args) \<and> accepted up (d name) \<longrightarrow>
       accepted up (fold (\<lambda>(ce, args) d. snd (clientctl ce args d)) runs d name))"
proof (intro conjI impI allI)
  fix path out
  assume "editedFile args = Some path \<and> fst (clientctl ce args d) = Printed out"
  then show "\<exists>cs. clientsOk ce cs \<and> savedAs ce cs (snd (clientctl ce args d) path)"
    using clientctlCmd.safe [of ce args d] by (auto simp: editSafe_def)
qed (use editSafe_changed [OF clientctlCmd.safe] clientctlCmd.series_accepted in auto)

section \<open>An update stays local\<close>

lemma findIndexBy_None: "findIndexBy f xs x = None \<longleftrightarrow> x \<notin> f ` set xs"
  by (induction xs) auto

lemma loadExisting_read: "loadExistingClients ce path d = Inr cs \<Longrightarrow> readClientsAt ce path d = Inr cs"
  by (auto simp: loadExistingClients_def loadClients_def readClientsAt_def split: option.splits sum.splits if_splits)




lemma parse_prints_nothing [simp]:
  "parseClientChangeArgs ce args \<noteq> Inl (Printed out)" "parseUserArgs ce formal args \<noteq> Inl (Printed out)" "parseSelectorArgs ce args \<noteq> Inl (Printed out)"
  by (auto simp: parseClientChangeArgs_def parseUserArgs_def parseSelectorArgs_def split: sum.splits option.splits if_splits)


section \<open>A new user can sign in\<close>

text \<open>What is relied on: bcrypt accepts the password a hash was generated from, and its hashes are valid UTF-8 (they are ASCII).\<close>

definition bcryptAccepts :: "(string \<Rightarrow> int \<Rightarrow> string option) \<Rightarrow> (string \<Rightarrow> string \<Rightarrow> bool) \<Rightarrow> bool" where
  "bcryptAccepts gen cmp \<longleftrightarrow> (\<forall>pw cost h. gen pw cost = Some h \<longrightarrow> cmp h pw \<and> validUTF8 h)"

lemma indexClients_keeps: "indexClients up gen r cs = Inr r' \<Longrightarrow> byID r i = Some rc \<Longrightarrow> byID r' i = Some rc"
proof (induction cs arbitrary: r)
  case (Cons c cs)
  from Cons.prems obtain users where u: "byID r (c_ClientID c) = None" "indexClients up gen (registerOne up c users r) cs = Inr r'"
    by (auto split: if_splits option.splits)
  then have "byID (registerOne up c users r) i = Some rc" using Cons.prems(2) by (auto simp: registerOne_maps)
  with Cons.IH u(2) show ?case by blast
qed simp

lemma indexClients_member: "indexClients up gen r cs = Inr r' \<Longrightarrow> c \<in> set cs \<Longrightarrow> \<exists>rc. byID r' (c_ClientID c) = Some rc \<and> rc_client rc = c"
proof (induction cs arbitrary: r)
  case (Cons a cs)
  from Cons.prems(1) obtain users where u: "indexClients up gen (registerOne up a users r) cs = Inr r'"
    by (auto split: if_splits option.splits)
  show ?case
  proof (cases "c = a")
    case True
    have "\<exists>rc. byID (registerOne up a users r) (c_ClientID a) = Some rc \<and> rc_client rc = a" by (simp add: registerOne_maps)
    with True indexClients_keeps [OF u] show ?thesis by blast
  next
    case False
    with Cons.prems(2) Cons.IH [OF u] show ?thesis by simp
  qed
qed simp

lemma cleanClient_add_user:
  assumes "utf8Client c"
  shows "cleanClient (c\<lparr>c_Users := c_Users c @ [v]\<rparr>) = c\<lparr>c_Users := c_Users c @ [cleanUser v]\<rparr>"
proof -
  have "cleanClient (c\<lparr>c_Users := us\<rparr>) = (cleanClient c)\<lparr>c_Users := map cleanUser us\<rparr>" for us by (simp add: cleanClient_def)
  moreover have "map cleanUser (c_Users c) = c_Users c" using clean_utf8(2) [OF assms] by (metis cleanClient_def Client.select_convs(12))
  ultimately show ?thesis by (simp add: clean_utf8(2) [OF assms])
qed

text \<open>
  C39. A user who was added can sign in: after a successful \<^verbatim>\<open>user add\<close>, a server that loads the written file authenticates the new user
  at the named client with the password that was given, and issues the user's name as subject.
\<close>

theorem added_user_signs_in:
  assumes "clientctl ce (''user'' # ''add'' # args) d = (Printed [UserAdded name cid file], d')"
    and "parseFlags userFlagSet [] args = Inr actual"
    and "resolveSecret (ce_terminal ce) (flagVal actual ''password'' []) True = Inr pw"
    and "listsExist ce" "validUTF8 name" "bcryptAccepts (ce_bcrypt ce) (lb_bcrypt lb)"
    and "d' file = Some (Contents raw)" "LoadClients (ce_json ce) (ce_url ce) gen (Inr raw) = Inr reg"
  shows "\<exists>rc who. lookup reg cid = Some rc \<and> authenticate lb rc name pw = Some who \<and> sj_Sub who = name"
proof -
  define u where "u = registerUserFlags ce actual"
  obtain cs ok idx hash where a: "loadClients ce file d = Inr (cs, ok)" "findClient cs cid = Some idx"
    "newUserHash ce (flagVal actual ''password'' []) (uf_cost u) True = Inr hash"
    "saveClientsAt ce file (cs[idx := (cs ! idx)\<lparr>c_Users := c_Users (cs ! idx) @ [\<lparr>u_Username = name, u_PasswordHash = hash, u_Email = uf_email u,
       u_Name = uf_name u, u_Roles = parseRoles (uf_roles u)\<rparr>]\<rparr>]) d = (None, d')"
    using assms(1,2) unfolding u_def
    by (auto simp: clientctl_def userCmd_def userAdd_def parseUserArgs_def userStoreOf_def saveClientUsers_def registerUserFlags_def Let_def
        split: sum.splits option.splits prod.splits if_splits)
  define new where "new = \<lparr>u_Username = name, u_PasswordHash = hash, u_Email = uf_email u, u_Name = uf_name u, u_Roles = parseRoles (uf_roles u)\<rparr>"
  define c where "c = (\<lambda>v. (cs ! idx)\<lparr>c_Users := c_Users (cs ! idx) @ [v]\<rparr>)"
  have saved: "clientsOk ce (cs[idx := c new])" "savedAs ce (cs[idx := c new]) (d' file)"
    using a(4) unfolding new_def c_def by (cases rule: saveClientsAt_cases; simp)+
  have idx: "idx < length cs" "c_ClientID (cs ! idx) = cid" using findIndexBy_Some a(2) by (auto simp: findClient_def)
  have utf8: "\<forall>c \<in> set cs. utf8Client c" using loadClients_utf8 [OF a(1)] .
  have "cleanClient (c new) = c (cleanUser new)"
    using utf8 idx(1) by (simp add: c_def cleanClient_add_user)
  then have clean: "map cleanClient (cs[idx := c new]) = cs[idx := c (cleanUser new)]"
    using utf8 by (simp add: map_update map_idI clean_utf8)
  have hash: "ce_bcrypt ce pw (uf_cost u) = Some hash"
    using a(3) assms(3) by (auto simp: newUserHash_def HashPassword_def split: if_splits option.splits)
  then have h: "validUTF8 hash" "verifyHash (lb_bcrypt lb) hash pw" using assms(6) by (auto simp: bcryptAccepts_def verifyHash_def)
  define new' where "new' = cleanUser new"
  have new': "u_Username new' = name" "u_PasswordHash new' = hash"
    using h(1) assms(5) by (simp_all add: new'_def new_def cleanUser_def coerce_valid)
  have "ReadClientsFile (ce_json ce) (ce_url ce) (Inr raw) = Inr \<lparr>cf_Clients = cs[idx := c new'], cf_Resources = []\<rparr>"
    using saved_reads [OF saved(1) _ assms(4), of raw] saved(2) assms(7,8)
    by (auto simp: LoadClients_def clean new'_def split: option.splits)
  then have ix: "indexClients (ce_url ce) gen emptyRegistry (cs[idx := c new']) = Inr reg"
    using assms(8) idx(1) by (auto simp: LoadClients_def newClientRegistry_def split: if_splits)
  have "c new' \<in> set (cs[idx := c new'])" "c_ClientID (c new') = cid" using idx by (auto simp: c_def set_update_memI)
  then obtain rc where rc: "byID reg cid = Some rc" "rc_client rc = c new'" using indexClients_member [OF ix] by metis
  have "registryOk (ce_url ce) reg" using LoadClients_ok [OF assms(8)] by blast
  then have "entryIndexed (ce_url ce) reg cid rc" using rc(1) by (simp add: registryOk_def)
  then have "usersMatch (rc_users rc) (c_Users (c new'))" using rc(2) by (simp add: entryIndexed_def)
  then have look: "Lookup (rc_users rc) name = Some new'" by (simp add: usersMatch_def c_def new')
  with rc look h(2) show ?thesis by (auto simp: Clients.lookup_def authenticate_def new')
qed


section \<open>What the listings show\<close>

text \<open>The part of the clients that may be shown: client secrets and password hashes are blanked.\<close>

definition redact :: "Client \<Rightarrow> Client" where
  "redact c = c\<lparr>c_ClientSecret := [], c_Users := map (\<lambda>u. u\<lparr>u_PasswordHash := []\<rparr>) (c_Users c)\<rparr>"

lemma findIndexBy_map: "findIndexBy f (map g xs) x = findIndexBy (\<lambda>a. f (g a)) xs x"
  by (induction xs) auto

lemma redact_shown:
  "describeClient (redact c) = describeClient c" "c_ClientID (redact c) = c_ClientID c"
  "map describeUser (c_Users (redact c)) = map describeUser (c_Users c)"
  by (simp_all add: redact_def describeClient_def describeUser_def)

lemma redact_eq_shown:
  assumes "map redact cs = map redact cs'"
  shows "map describeClient cs = map describeClient cs'" "findClient cs i = findClient cs' i"
    and "k < length cs \<Longrightarrow> describeClient (cs ! k) = describeClient (cs' ! k)"
    and "k < length cs \<Longrightarrow> map describeUser (c_Users (cs ! k)) = map describeUser (c_Users (cs' ! k))"
proof -
  note len = map_eq_imp_length_eq [OF assms]
  show "map describeClient cs = map describeClient cs'"
    using arg_cong [OF assms, of "map describeClient"] by (simp add: redact_shown o_def)
  show "findClient cs i = findClient cs' i"
    using arg_cong [OF assms, of "\<lambda>xs. findIndexBy c_ClientID xs i"] by (simp add: findClient_def findIndexBy_map redact_shown)
  assume k: "k < length cs"
  have same: "redact (cs ! k) = redact (cs' ! k)" using arg_cong [OF assms, of "\<lambda>xs. xs ! k"] k len by simp
  show "describeClient (cs ! k) = describeClient (cs' ! k)" using arg_cong [OF same, of describeClient] by (simp add: redact_shown)
  show "map describeUser (c_Users (cs ! k)) = map describeUser (c_Users (cs' ! k))"
    using arg_cong [OF same, of "\<lambda>c. map describeUser (c_Users c)"] by (simp add: redact_shown)
qed

text \<open>Two directories that look alike once secrets and hashes are blanked.\<close>

definition alikeFiles :: "ctl_env \<Rightarrow> dir \<Rightarrow> dir \<Rightarrow> bool" where
  "alikeFiles ce d d' \<longleftrightarrow>
     (\<forall>path. (d path = None \<longleftrightarrow> d' path = None)
        \<and> (case (readClientsAt ce path d, readClientsAt ce path d') of
             (Inr cs, Inr cs') \<Rightarrow> map redact cs = map redact cs'
           | (Inl e, Inl e') \<Rightarrow> e = e'
           | _ \<Rightarrow> False))"

lemma alikeFiles_cases:
  assumes "alikeFiles ce d d'"
  obtains (unread) e where "readClientsAt ce path d = Inl e" "readClientsAt ce path d' = Inl e"
  | (read) cs cs' where "readClientsAt ce path d = Inr cs" "readClientsAt ce path d' = Inr cs'" "map redact cs = map redact cs'"
  using assms unfolding alikeFiles_def by (cases "readClientsAt ce path d"; cases "readClientsAt ce path d'") (fastforce dest: spec [of _ path])+

lemma loadExistingClients_alt:
  "loadExistingClients ce path d = (if d path = None then Inl errClientsFileMissing else readClientsAt ce path d)"
  by (auto simp: loadExistingClients_def loadClients_def readClientsAt_def readFileAt_def split: option.splits sum.splits node.splits)

lemma clientList_alike: "alikeFiles ce d d' \<Longrightarrow> fst (clientList ce args d) = fst (clientList ce args d')"
proof (cases "parseFlags [(''file'', StringFlag)] [] args")
  case (Inr actual)
  assume "alikeFiles ce d d'"
  then show ?thesis
  proof (cases rule: alikeFiles_cases [where path = "flagVal actual ''file'' ''clients.json''"])
    case (read cs cs')
    have "map (\<lambda>c. Line (describeClient c)) cs = map (\<lambda>c. Line (describeClient c)) cs'"
      using arg_cong [OF redact_eq_shown(1) [OF read(3)], of "map Line"] by (simp add: o_def)
    with read Inr show ?thesis by (simp add: clientList_def)
  qed (simp add: clientList_def Inr)
qed (simp add: clientList_def)

lemma clientShow_alike:
  assumes "alikeFiles ce d d'"
  shows "fst (clientShow ce args d) = fst (clientShow ce args d')"
proof (cases "parseSelectorArgs ce args")
  case (Inr sel)
  have gone: "d (sel_file sel) = None \<longleftrightarrow> d' (sel_file sel) = None" using assms by (simp add: alikeFiles_def)
  from assms show ?thesis
  proof (cases rule: alikeFiles_cases [where path = "sel_file sel"])
    case (read cs cs')
    note shown = redact_eq_shown [OF read(3)]
    show ?thesis
    proof (cases "findClient cs (sel_client sel)")
      case (Some k)
      then have k: "k < length cs" using findIndexBy_Some by (auto simp: findClient_def)
      have "map (\<lambda>u. Line (''  user: '' @ describeUser u)) (c_Users (cs ! k)) = map (\<lambda>u. Line (''  user: '' @ describeUser u)) (c_Users (cs' ! k))"
        using arg_cong [OF shown(4) [OF k], of "map (\<lambda>l. Line (''  user: '' @ l))"] by (simp add: o_def)
      then show ?thesis
        using gone read Some shown(2) [of "sel_client sel"] shown(3) [OF k]
        by (simp add: clientShow_def Inr loadExistingClients_alt Let_def)
    qed (use gone read shown(2) [of "sel_client sel"] in \<open>simp add: clientShow_def Inr loadExistingClients_alt\<close>)
  qed (simp add: clientShow_def Inr loadExistingClients_alt gone)
qed (simp add: clientShow_def)

lemma userList_alike:
  assumes "alikeFiles ce d d'"
  shows "fst (userList ce args d) = fst (userList ce args d')"
proof (cases "parseSelectorArgs ce args")
  case (Inr sel)
  from assms show ?thesis
  proof (cases rule: alikeFiles_cases [where path = "sel_file sel"])
    case (read cs cs')
    note shown = redact_eq_shown [OF read(3)]
    show ?thesis
    proof (cases "findClient cs (sel_client sel)")
      case (Some k)
      then have k: "k < length cs" using findIndexBy_Some by (auto simp: findClient_def)
      have "map (\<lambda>u. Line (describeUser u)) (c_Users (cs ! k)) = map (\<lambda>u. Line (describeUser u)) (c_Users (cs' ! k))"
        using arg_cong [OF shown(4) [OF k], of "map Line"] by (simp add: o_def)
      then show ?thesis using read Some shown(2) [of "sel_client sel"] by (simp add: userList_def Inr userStoreOf_def)
    qed (use read shown(2) [of "sel_client sel"] in \<open>simp add: userList_def Inr userStoreOf_def\<close>)
  qed (simp add: userList_def Inr)
qed (simp add: userList_def)

text \<open>
  C40. The listings never show a secret: \<^verbatim>\<open>client list\<close>, \<^verbatim>\<open>client show\<close> and \<^verbatim>\<open>user list\<close> print the same lines, or fail with the same error,
  for two clients files that differ in client secrets and password hashes only; and they leave every file as it is.
\<close>

theorem listings_hide_secrets:
  assumes "alikeFiles ce d d'" "cmd \<in> {[''client'', ''list''], [''client'', ''show''], [''user'', ''list'']}"
  shows "fst (clientctl ce (cmd @ args) d) = fst (clientctl ce (cmd @ args) d') \<and> snd (clientctl ce (cmd @ args) d) = d"
proof -
  have same: "snd (clientList ce args d) = d" "snd (clientShow ce args d) = d" "snd (userList ce args d) = d"
    by (simp_all add: clientList_def clientShow_def userList_def Let_def split: sum.split option.split)
  show ?thesis
    using assms(2) clientList_alike [OF assms(1)] clientShow_alike [OF assms(1)] userList_alike [OF assms(1)] same
    by (auto simp: clientctl_def clientCmd_def userCmd_def)
qed

section \<open>The role registry is dropped\<close>

text \<open>
  The commands read the clients with \<^verbatim>\<open>ReadClients\<close> and write them with \<^verbatim>\<open>SaveClients\<close>: a file that any command changes reads back without
  its role registry (\<open>resources\<close>), so the constraint on the roles of its clients is gone. (It reads back at all if stray bytes that are
  replaced on the way to the file do not make it invalid.)
\<close>

theorem role_registry_dropped:
  assumes "snd (clientctl ce args d) name \<noteq> d name" "\<not> tempFile name" "listsExist ce"
  shows "\<exists>raw cs. snd (clientctl ce args d) name = Some (Contents raw) \<and> clientsOk ce cs
      \<and> ReadClientsFile (ce_json ce) (ce_url ce) (Inr raw)
          = (case validateClientSlice (ce_url ce) (map cleanClient cs) of
               Some e \<Rightarrow> Inl e | None \<Rightarrow> Inr \<lparr>cf_Clients = map cleanClient cs, cf_Resources = []\<rparr>)"
proof -
  obtain cs where cs: "clientsOk ce cs" "savedAs ce cs (snd (clientctl ce args d) name)"
    using editSafe_changed(3) [OF clientctlCmd.safe assms(1,2)] by blast
  then obtain raw where raw: "snd (clientctl ce args d) name = Some (Contents raw)" by (auto simp: savedAs_def)
  with saved_reads [of ce cs raw] cs assms(3) show ?thesis by auto
qed

section \<open>A sample session\<close>

definition sampleBob :: User where
  "sampleBob = \<lparr>u_Username = ''bob'', u_PasswordHash = ''$2a$10$'' @ replicate 53 (CHR ''x''), u_Email = [], u_Name = [], u_Roles = []\<rparr>"

abbreviation (input) withBob :: Client where
  "withBob \<equiv> sampleClient\<lparr>c_Users := [sampleUser, sampleBob]\<rparr>"

abbreviation (input) withLogout :: Client where
  "withLogout \<equiv> sampleClient\<lparr>c_PostLogoutRedirectURIs := [''https://app.example/cb'']\<rparr>"

abbreviation (input) rehashed :: Client where
  "rehashed \<equiv> sampleClient\<lparr>c_Users := [sampleUser\<lparr>u_PasswordHash := ''$2a$10$'' @ replicate 53 (CHR ''y'')\<rparr>]\<rparr>"

definition ctlEnv :: ctl_env where
  "ctlEnv = \<lparr>ce_nil = (\<lambda>_ _. False), ce_url = sampleURL, ce_bcrypt = (\<lambda>pw cost. if pw = ''pw'' then sampleGen pw cost else None),
     ce_terminal = \<lparr>tm_isTerminal = True, tm_stdin = [], tm_prompt = (\<lambda>_. None)\<rparr>, ce_faults = noFaults,
     ce_rand = Some (replicate 32 (CHR ''r''))\<rparr>"

definition ctlDir :: dir where
  "ctlDir = [''clients.json'' \<mapsto> Contents (sampleFile [sampleClient])]"

lemma ctl_json [simp]: "ce_json ctlEnv = stdJSON" "ce_url ctlEnv = sampleURL" "listsExist ctlEnv"
  by (simp_all add: ctlEnv_def stdJSON_def listsExist_def)

lemma ctl_utf8: "utf8Client withBob" "utf8Client withLogout" "utf8Client rehashed"
  using utf8_samples(1,2) by (simp_all add: utf8Client_def utf8User_def sampleBob_def validUTF8_ascii)

lemma withBob_ok: "clientOk sampleURL withBob"
proof -
  have "TrimSpace ''bob'' = ''bob''" by code_simp
  then have "userOk sampleBob" by (simp add: userOk_def sampleBob_def isBcryptHash_def)
  moreover have "u_Username sampleUser = ''ada''" "u_Username sampleBob = ''bob''" by (simp_all add: sampleUser_def sampleBob_def)
  ultimately show ?thesis using sampleClient_ok unfolding clientOk_def
    by (simp add: audience_def grantsOk_def AllowsGrant_def Interactive_def grants_def Confidential_def sampleClient_fields)
qed


lemma ctl_file: "clientOk sampleURL c \<Longrightarrow> utf8Client c \<Longrightarrow>
    ReadClientsFile stdJSON sampleURL (Inr (sampleFile [c])) = Inr \<lparr>cf_Clients = [c], cf_Resources = []\<rparr>"
  by (rule sampleFile_reads) simp_all

lemma ctl_read: "loadClients ctlEnv ''clients.json'' ctlDir = Inr ([sampleClient], True)"
  by (simp add: loadClients_def readFileAt_def ctlDir_def ReadClients_def ctl_file sampleClient_ok utf8_samples)

lemma ctl_save:
  assumes "clientOk sampleURL c"
  shows "\<exists>d'. saveClientsAt ctlEnv ''clients.json'' [c] ctlDir = (None, d') \<and> d' ''clients.json'' = Some (Contents (sampleFile [c]))"
proof -
  have data: "SaveClients stdJSON sampleURL [c] = Inr (sampleFile [c])"
    using sampleFile_saved [of "[c]" sampleURL] assms by (simp add: SaveClients_def)
  have tok: "randomToken (Some (replicate 32 (CHR ''r''))) = Inr (EncodeToString (replicate 32 (CHR ''r'')))"
    by (simp add: randomToken_def)
  show ?thesis
    by (simp add: saveClientsAt_def data ctlEnv_def [THEN arg_cong, of ce_faults] ctlEnv_def [THEN arg_cong, of ce_rand] saveJSONFile_def tok writeAndRename_def noFaults_def ctlDir_def Let_def)
qed

abbreviation (input) bobArgs :: "string list" where
  "bobArgs \<equiv> [''-client'', ''app'', ''--username=bob'', ''-password'', ''pw'']"

abbreviation (input) logoutArgs :: "string list" where
  "logoutArgs \<equiv> [''-client'', ''app'', ''-post-logout'', ''https://app.example/cb'']"

lemma ctl_args:
  "parseFlags userFlagSet [] bobArgs = Inr [(''client'', ''app''), (''username'', ''bob''), (''password'', ''pw'')]"
  "parseFlags clientFlagSet [] logoutArgs = Inr [(''client'', ''app''), (''post-logout'', ''https://app.example/cb'')]"
  by (simp_all add: userFlagSet_def clientFlagSet_def splitFlag_def flagValueOk_def Let_def)

lemma ctl_lists: "parseList ''https://app.example/cb'' = [''https://app.example/cb'']" "parseRoles [] = []"
  by code_simp+

lemma bob_added:
  "\<exists>d'. clientctl ctlEnv (''user'' # ''add'' # bobArgs) ctlDir = (Printed [UserAdded ''bob'' ''app'' ''clients.json''], d')
     \<and> d' ''clients.json'' = Some (Contents (sampleFile [withBob]))"
proof -
  from ctl_save [OF withBob_ok] obtain d' where d':
    "saveClientsAt ctlEnv ''clients.json'' [withBob] ctlDir = (None, d')" "d' ''clients.json'' = Some (Contents (sampleFile [withBob]))" by blast
  have "newUserHash ctlEnv ''pw'' bcryptDefaultCost True = Inr (u_PasswordHash sampleBob)"
    by (simp add: newUserHash_def resolveSecret_def HashPassword_def ctlEnv_def sampleGen_def sampleBob_def)
  then have "userAdd ctlEnv bobArgs ctlDir = (Printed [UserAdded ''bob'' ''app'' ''clients.json''], d')"
    using d'(1)
    by (simp add: userAdd_def parseUserArgs_def ctl_args registerClientSelector_def flagVal_def requireSelector_def registerUserFlags_def flagCost_def
        ctl_read userStoreOf_def findClient_def findUserIndex_def sampleClient_fields sampleUser_def [THEN arg_cong, of u_Username]
        saveClientUsers_def ctl_lists sampleBob_def Let_def del: parseFlags.simps)
  with d'(2) show ?thesis by (simp add: clientctl_def userCmd_def)
qed


lemma clients_json_final: "\<not> tempFile ''clients.json''"
proof
  assume "tempFile ''clients.json''"
  then obtain path suff where "''clients.json'' = path @ ''.tmp-'' @ suff" by (auto simp: tempFile_def)
  then have "CHR ''-'' \<in> set ''clients.json''" by simp
  then show False by simp
qed

theorem clientctl_keeps_file_valid_witness:
  "accepted sampleURL (ctlDir ''clients.json'')
   \<and> accepted sampleURL (fold (\<lambda>(ce, args) d. snd (clientctl ce args d))
        [(ctlEnv, ''user'' # ''add'' # bobArgs), (ctlEnv\<lparr>ce_rand := None\<rparr>, [''client'', ''remove'', ''-client'', ''app''])] ctlDir ''clients.json'')"
proof -
  let ?runs = "[(ctlEnv, ''user'' # ''add'' # bobArgs), (ctlEnv\<lparr>ce_rand := None\<rparr>, [''client'', ''remove'', ''-client'', ''app''])]"
  have "accepted sampleURL (ctlDir ''clients.json'')"
    using ctl_file [OF sampleClient_ok utf8_samples(2)] by (simp add: accepted_def ctlDir_def)
  moreover have "\<forall>(ce, args) \<in> set ?runs. listsExist ce \<and> ce_url ce = sampleURL \<and> inputsUTF8 ce args"
    by (simp add: listsExist_def inputsUTF8_def ctlEnv_def validUTF8_ascii sampleGen_def)
  ultimately show ?thesis
    using clients_json_final
      clientctl_keeps_file_valid [THEN conjunct2, THEN conjunct2, rule_format, where runs = ?runs and up = sampleURL and d = ctlDir and name = "''clients.json''"]
    by blast
qed


theorem added_user_signs_in_witness:
  "\<exists>reg rc who. LoadClients stdJSON sampleURL sampleGen (Inr (sampleFile [withBob])) = Inr reg
     \<and> lookup reg ''app'' = Some rc \<and> authenticate sampleLibs rc ''bob'' ''pw'' = Some who \<and> sj_Sub who = ''bob''"
proof -
  obtain d' where d': "clientctl ctlEnv (''user'' # ''add'' # bobArgs) ctlDir = (Printed [UserAdded ''bob'' ''app'' ''clients.json''], d')"
    "d' ''clients.json'' = Some (Contents (sampleFile [withBob]))" using bob_added by blast
  have "ReadClientsFile stdJSON sampleURL (Inr (sampleFile [withBob])) = Inr \<lparr>cf_Clients = [withBob], cf_Resources = []\<rparr>"
    by (rule ctl_file [OF withBob_ok ctl_utf8(1)])
  moreover obtain us where "newStaticUserStore sampleGen [sampleUser, sampleBob] = Some us"
    by (simp add: newStaticUserStore_def newDummyHash_def sampleGen_def Let_def)
  ultimately obtain reg where reg: "LoadClients stdJSON sampleURL sampleGen (Inr (sampleFile [withBob])) = Inr reg"
    by (simp add: LoadClients_def newClientRegistry_def emptyRegistry_def sampleClient_fields)
  have "\<exists>rc who. lookup reg ''app'' = Some rc \<and> authenticate sampleLibs rc ''bob'' ''pw'' = Some who \<and> sj_Sub who = ''bob''"
  proof (rule added_user_signs_in [OF d'(1) ctl_args(1) _ ctl_json(3) _ _ d'(2)])
    show "resolveSecret (ce_terminal ctlEnv) (flagVal [(''client'', ''app''), (''username'', ''bob''), (''password'', ''pw'')] ''password'' []) True = Inr ''pw''"
      by (simp add: flagVal_def resolveSecret_def)
    show "validUTF8 ''bob''" by (rule ascii_strings)
    show "bcryptAccepts (ce_bcrypt ctlEnv) (lb_bcrypt sampleLibs)" by (simp add: bcryptAccepts_def sampleLibs_def ctlEnv_def sampleGen_def validUTF8_ascii)
    show "LoadClients (ce_json ctlEnv) (ce_url ctlEnv) sampleGen (Inr (sampleFile [withBob])) = Inr reg" using reg by simp
  qed
  with reg show ?thesis by blast
qed

lemma ctl_alike: "alikeFiles ctlEnv ctlDir [''clients.json'' \<mapsto> Contents (sampleFile [rehashed])]"
proof -
  have "userOk (sampleUser\<lparr>u_PasswordHash := ''$2a$10$'' @ replicate 53 (CHR ''y'')\<rparr>)"
    using sampleUser_ok by (simp add: userOk_def isBcryptHash_def)
  then have "clientOk sampleURL rehashed"
    using sampleClient_ok unfolding clientOk_def
    by (simp add: audience_def grantsOk_def AllowsGrant_def Interactive_def grants_def Confidential_def sampleClient_fields)
  from ctl_file [OF this ctl_utf8(3)]
  have "readClientsAt ctlEnv ''clients.json'' [''clients.json'' \<mapsto> Contents (sampleFile [rehashed])] = Inr [rehashed]"
    by (simp add: readClientsAt_def readFileAt_def ReadClients_def)
  moreover have "readClientsAt ctlEnv ''clients.json'' ctlDir = Inr [sampleClient]"
    using ctl_read by (intro loadExisting_read) (simp add: loadExistingClients_def)
  moreover have "map redact [sampleClient] = map redact [rehashed]" by (simp add: redact_def sampleClient_fields)
  ultimately show ?thesis
    unfolding alikeFiles_def by (auto simp: ctlDir_def readClientsAt_def readFileAt_def)
qed

theorem listings_hide_secrets_witness:
  "fst (clientctl ctlEnv ([''client'', ''show''] @ [''-client'', ''app'']) ctlDir)
     = fst (clientctl ctlEnv ([''client'', ''show''] @ [''-client'', ''app'']) [''clients.json'' \<mapsto> Contents (sampleFile [rehashed])])"
  by (rule listings_hide_secrets [OF ctl_alike, THEN conjunct1]) simp

theorem role_registry_dropped_witness:
  "\<exists>raw cs. snd (clientctl ctlEnv (''user'' # ''add'' # bobArgs) ctlDir) ''clients.json'' = Some (Contents raw)
     \<and> ReadClientsFile stdJSON sampleURL (Inr raw) = Inr \<lparr>cf_Clients = cs, cf_Resources = []\<rparr>"
proof -
  have "[withBob] \<noteq> [sampleClient]" by (simp add: sampleClient_def)
  then have "sampleFile [withBob] \<noteq> sampleFile [sampleClient]"
    using ctl_file [OF withBob_ok ctl_utf8(1)] ctl_file [OF sampleClient_ok utf8_samples(2)] by force
  moreover obtain d' where d': "clientctl ctlEnv (''user'' # ''add'' # bobArgs) ctlDir = (Printed [UserAdded ''bob'' ''app'' ''clients.json''], d')"
    "d' ''clients.json'' = Some (Contents (sampleFile [withBob]))" using bob_added by blast
  ultimately have "snd (clientctl ctlEnv (''user'' # ''add'' # bobArgs) ctlDir) ''clients.json'' \<noteq> ctlDir ''clients.json''"
    by (simp add: ctlDir_def)
  from role_registry_dropped [OF this clients_json_final ctl_json(3)] d' ctl_file [OF withBob_ok ctl_utf8(1)]
  show ?thesis by (auto split: option.splits)
qed

end
