(* ===== verification/Spec2Isabelle.thy ===== *)
theory Spec2Isabelle
  imports Store Clients RateLimit CSRF Files Keys Config Web Tokens Http Authorize LoginPage TokenEndpoint Resource Startup KeyRace Runs Concurrent Lifecycle Clientctl
begin

text \<open>
  minidp: a verification library for a small OAuth 2.0 / OpenID Connect identity provider.

  \<^bold>\<open>The program and its parts\<close>

  minidp is one process. \<^verbatim>\<open>main.go\<close> reads the configuration, builds a \<^verbatim>\<open>Server\<close> (\<^verbatim>\<open>internal/idp/server.go\<close>) and serves it over HTTP. The
  server holds the registry of clients with their users (\<^verbatim>\<open>clients.go\<close>, \<^verbatim>\<open>users.go\<close>), the signing keys (\<^verbatim>\<open>key.go\<close>), the CSRF key
  (\<^verbatim>\<open>csrf.go\<close>), the login rate limiter (\<^verbatim>\<open>ratelimit.go\<close>) and the store of codes, refresh tokens and the denylist (\<^verbatim>\<open>store.go\<close>). A login
  goes through GET and POST \<^verbatim>\<open>/authorize\<close> and leaves a code in the store, \<^verbatim>\<open>/token\<close> exchanges it (\<^verbatim>\<open>handlers.go\<close>, \<^verbatim>\<open>tokens.go\<close>), and
  \<^verbatim>\<open>/userinfo\<close>, \<^verbatim>\<open>/introspect\<close>, \<^verbatim>\<open>/revoke\<close> and \<^verbatim>\<open>/end_session\<close> work on the tokens. Two offline tools change files that the next start
  reads: \<^verbatim>\<open>minidp rotate-keys\<close> and \<^verbatim>\<open>clientctl\<close> (\<^verbatim>\<open>cmd/clientctl\<close>).

  \<^bold>\<open>The theories\<close>

  \<^item> \<open>Prelude\<close>: time, results, maps and lists; the locale \<open>oneshot\<close> of resources that are issued and taken at most once, the locale of
    duplicate-refusing loops, and sequences of steps. \<open>GoStrings\<close>: the functions of Go's \<^verbatim>\<open>strings\<close>, \<^verbatim>\<open>strconv\<close> and \<^verbatim>\<open>net/url\<close> that the program
    uses. \<open>Codec\<close>: base64url, hexadecimal, SHA-256 and HMAC on bytes. \<open>Errors\<close>: the sentinel errors.
  \<^item> \<open>Utf8\<close>, \<open>JsonText\<close>, \<open>GoTime\<close>, \<open>GoJson\<close>: \<^verbatim>\<open>encoding/json\<close> on bytes, with quoting, the scanner and its nesting limit, indented and
    compact layout, RFC 3339 instants, and decoding and encoding by Go type. Decoded values have their type, and what is encoded is decoded back.
  \<^item> \<open>ClientsFormat\<close>, \<open>KeyringFormat\<close>, \<open>Jwks\<close>: the three documents of the program (the clients file of \<^verbatim>\<open>clients.go\<close> and \<^verbatim>\<open>users.go\<close>, the keyring and the
    published keys of \<^verbatim>\<open>key.go\<close>) as Go types, with their round trips. \<open>NetIP\<close>: \<^verbatim>\<open>net.ParseIP\<close>, \<^verbatim>\<open>ParseCIDR\<close>, \<^verbatim>\<open>Contains\<close> and \<^verbatim>\<open>SplitHostPort\<close>.
    \<open>Paths\<close> (\<^verbatim>\<open>jsonfile.go\<close>): clean paths and the read of a file through its directory.
  \<^item> \<open>Store\<close> (\<^verbatim>\<open>store.go\<close>): a record of the five maps, one function per method; a call is atomic, as the mutex makes it.
    Codes and refresh tokens are single use in every sequence of calls, reuse revokes the family, denial lasts.
  \<^item> \<open>Users\<close>, \<open>Clients\<close> (\<^verbatim>\<open>users.go\<close>, \<^verbatim>\<open>clients.go\<close>): file entries, validation and the registry. Validation accepts exactly a declarative
    predicate; a file that loads gives a coherent registry.
  \<^item> \<open>Float64\<close>, \<open>RateLimit\<close> (\<^verbatim>\<open>ratelimit.go\<close>): the token buckets with float64 rounding; they refine buckets that are never swept.
  \<^item> \<open>CSRF\<close> (\<^verbatim>\<open>csrf.go\<close>), \<open>Files\<close> (\<^verbatim>\<open>jsonfile.go\<close>, the writers of \<^verbatim>\<open>key.go\<close>), \<open>Keys\<close> (\<^verbatim>\<open>key.go\<close>), \<open>Config\<close> (\<^verbatim>\<open>config.go\<close>), \<open>Web\<close>
    (\<^verbatim>\<open>web.go\<close>), \<open>Tokens\<close> (\<^verbatim>\<open>tokens.go\<close>).
  \<^item> \<open>Http\<close> (\<^verbatim>\<open>server.go\<close>, \<^verbatim>\<open>discovery.go\<close>): requests, responses, the \<open>Server\<close> record, client addresses, user authentication.
  \<^item> \<open>Authorize\<close>, \<open>TokenEndpoint\<close>, \<open>Resource\<close> (\<^verbatim>\<open>handlers.go\<close>, the routes and the CORS wrapper of \<^verbatim>\<open>server.go\<close>): the handlers, each from a
    request and a server to a response and the server afterwards.
  \<^item> \<open>LoginPage\<close> (\<^verbatim>\<open>web/login.html\<close>, \<^verbatim>\<open>render\<close> in \<^verbatim>\<open>web.go\<close>): the bytes of the login page, with the escaping of \<^verbatim>\<open>html/template\<close>, and the
    tokens a browser reads from them.
  \<^item> \<open>KeyRace\<close> (\<^verbatim>\<open>persistentSigningKey\<close> and what it calls in \<^verbatim>\<open>key.go\<close>): any number of instances that start on one key directory, as
    interleaved system calls; \<open>keyStep\<close> is the step relation and \<open>keyRace\<close> the reachable states.
  \<^item> \<open>Startup\<close> (\<^verbatim>\<open>New\<close> in \<^verbatim>\<open>server.go\<close>, \<^verbatim>\<open>main.go\<close>): from the environment and the directories to a running server or an exit.
  \<^item> \<open>Runs\<close>: sequences of requests to a started server. The locale \<open>request_handler\<close> states what a handler may do with the store; it is
    interpreted for every endpoint, and the properties of runs follow from it.
  \<^item> \<open>Concurrent\<close>: requests that run at the same time. Each handler is a program of atomic calls on the store and the limiter, the
    parts of the server that change; run alone, a program is its handler. A schedule is a list of arrivals and turns, so that the
    lists are the interleavings. The locale \<open>interleaving\<close> is the rely-guarantee rule for them. \<open>Lifecycle\<close> (\<^verbatim>\<open>main.go\<close>): the process
    around them on a clock, with the signal, the ten seconds of the graceful shutdown and the exit status; that \<^verbatim>\<open>http.Server.Shutdown\<close>
    closes the listener, waits for the requests under way and stops waiting when its context expires is its documented behaviour.
  \<^item> \<open>Clientctl\<close> (\<^verbatim>\<open>cmd/clientctl\<close>): every command, over the directory of the clients file. The locale \<open>ctl_command\<close> is the
    contract that all commands share: what a command that reports success has written, that nothing else changes, and that a file the
    server accepts stays accepted.

  \<^bold>\<open>How the code is rendered\<close>

  A struct is a record, an \<^verbatim>\<open>error\<close> result a sum type with the error on the left, a Go string a list of bytes (\<open>char\<close>), a
  \<^verbatim>\<open>time.Time\<close> or \<^verbatim>\<open>time.Duration\<close> an integer of nanoseconds; \<^verbatim>\<open>int64\<close> wraps where the code multiplies (\<open>Config\<close>), floats are rounded
  rationals. The clock and the source of randomness are read in the order of the calls: a request comes with an environment \<open>env\<close> whose
  functions \<open>e_now\<close> and \<open>e_rand\<close> give the readings, the numbers at each use are the position of the reading, and \<open>later\<close> shifts them. Nothing is
  assumed of them unless a theorem says so; that two draws of random bytes differ is such an assumption. Files are partial maps from
  names to contents, and each system call can fail. Loops are structural recursion, so every definition is total; there is no fuel. For one
  instance the waits for a key that another process writes are the list of their outcomes (\<open>Keys\<close>), and the result is \<open>None\<close> while an
  outcome is missing; the waiting itself, its end included, is in \<open>KeyRace\<close>. The bound on the groups of an IPv6 address is the loop's own,
  and JSON is nested to \<^verbatim>\<open>maxNestingDepth\<close>, a limit of the package.

  \<^bold>\<open>What is a parameter\<close>

  golang-jwt (the record \<open>jwt_lib\<close>), bcrypt, RSA key generation and PEM (\<open>key_codec\<close>) and \<^verbatim>\<open>url.Parse\<close>. Which empty slices are \<^verbatim>\<open>nil\<close>, and the
  zones in which instants are written, are arguments as well: the records do not tell, and the theorems hold for all of them. The laws used are named
  predicates: \<open>keepsTyp\<close> (a token parses with the header it was signed with), \<open>stableClaims\<close> (parsing a token twice gives the same
  claims), \<open>codecOk\<close> (a PEM file holds the key it was written for, zones have whole minutes), \<open>bcryptAccepts\<close> (a hash is valid UTF-8 and
  accepts its password). Collision freedom of SHA-256 is never assumed; statements say "unless the digests collide". Each law has an
  instance in the witnesses. Conditions on a run, such as that no later request draws the same random number or that a revocation
  request denies no earlier (\<open>deniesNoEarlier\<close>), are conditions on the requests and are stated with the theorems.

  \<^bold>\<open>What the theorems show\<close>

  \<^item> Codes and logins: a code appears only after a login with a valid CSRF token, within the rate limit, for a registered client, redirect
    URI and user, and is exchanged once, by its client, with its redirect URI and PKCE verifier, before its expiry; conversely a correct
    exchange is answered with success and never succeeds again in any later run (\<open>code_honoured_once\<close>), and a login page that a browser
    reads and submits is accepted. No data of a request changes the tags of the page.
  \<^item> Refresh and revocation: rotation keeps the authorization; reuse and foreign clients revoke the family and touch no other; revocation and logout last
    through every later request, and a logout also under interleaving, unless a refresh request is midway at that moment
    (\<open>interleaved_logout_final\<close>).
  \<^item> Clients and resources: confidential clients present their secret; ID tokens and access tokens are not interchangeable; user
    info follows the scopes; no redirect leaves the registered URIs; addresses cannot be forged through headers.
  \<^item> The whole server: every endpoint acts on the store through the atomic operations it is entitled to, and every grant in the store of a
    started server stands for a registered client and user.
  \<^item> Concurrent requests: in every interleaving a code is exchanged once, every grant is authorized, a denial is seen by all later looks
    at the denylist, and each request is answered after three turns, also those under way at the shutdown when they get them within ten
    seconds; the process exits after these in any case. But a refresh request that is under way when its token is reused revives the
    revoked family.
  \<^item> Files and start: atomic replacement under crashes, coherent keys and clients, key rotation that keeps old tokens verifiable, a
    configuration that fails fast; \<^verbatim>\<open>clientctl\<close> keeps the clients file valid, edits only what it names, hides secrets, and lets a new user sign
    in. Instances that start together never see a half-written key and come to an end; they agree on the key when no instance
    creates the temporary file after the key file has appeared and none takes it over from an instance that still works on it, which the
    code does not ensure (\<open>key_race_disagrees\<close>).
  \<^item> Documents: a saved clients file and a written keyring are read back from their bytes, whatever is read is well-typed and valid UTF-8, and
    a relying party recovers the public keys from the JWKS document. Trusted ranges are honoured bit for bit, and clean paths are a normal form.
  \<^item> Deviations from what the code means to do: \<open>userinfo_without_scope_claim\<close>, \<open>lifetime_wraps\<close>, \<open>role_registry_dropped\<close>,
    \<open>stray_bytes_lock_out\<close>, \<open>key_race_disagrees\<close>, the accepted requests and entries that the conditions of
    \<open>authorize_validation_exact\<close> and \<open>client_validation_exact\<close> leave out, and \<open>interleaved_reuse_revives_family\<close> (with the interleaving in \<open>Concurrent\<close>).

  \<^bold>\<open>What is not modelled\<close>

  Logging and the listening socket. Symbolic links, and the errors of system calls other than those listed with each writer. Concurrent requests interleave at the calls of the store and the limiter, each of which is
  one critical section; data races within it do not occur in the model because the mutexes are taken to work. Response headers that
  \<^verbatim>\<open>net/http\<close> adds by itself, the wire format of requests and the bytes of the JSON responses other than the JWKS document are left out; a request is a record of what the handlers read of it.
\<close>

end
